(* ===== verification/Wtg_Prelude.thy ===== *)
theory Wtg_Prelude
  imports Main "HOL-Library.Word" "HOL-Library.AList"
begin

unbundle bit_operations_syntax

text \<open>
  Shared vocabulary of the development: bytes and Go byte slices, the outcome of a Go call
  (a value, an error value, or a run-time panic), writes into a byte buffer at an offset, the
  contract of a fixed-width wire codec, and the generic lemmas the component theories use.
  The collections \<open>wire_simps\<close> (lengths and slices of wire images) and \<open>go_simps\<close>
  (outcomes) carry the component proofs.
\<close>

named_theorems wire_simps "lengths and slices of wire images"
named_theorems go_simps "outcomes of Go calls"

type_synonym byte = "8 word"
type_synonym bytes = "8 word list"
type_synonym u16 = "16 word"
type_synonym u32 = "32 word"
type_synonym u64 = "64 word"

text \<open>A Go call returns a value, returns a non-nil error, or panics at run time.\<close>

datatype ('e, 'a) outcome = Done 'a | Fail 'e | Panic

fun go_bind :: "('e, 'a) outcome \<Rightarrow> ('a \<Rightarrow> ('e, 'b) outcome) \<Rightarrow> ('e, 'b) outcome" where
  "go_bind (Done x) f = f x"
| "go_bind (Fail e) f = Fail e"
| "go_bind Panic f = Panic"

text \<open>The zero value of Go's time.Time, 1 January of year 1, in nanoseconds of Unix time.\<close>

definition go_zero_time :: int where
  "go_zero_time = - 62135596800 * 1000000000"

text \<open>
  The slice expression \<open>b[lo:hi]\<close> of a slice whose capacity is its length, and writing a run of
  bytes at an offset (\<open>copy(dst[off:off+n], src)\<close> with \<open>len(src) = n\<close>, and \<open>dst[off] = x\<close>).
\<close>

definition bslice :: "'a list \<Rightarrow> nat \<Rightarrow> nat \<Rightarrow> 'a list" where
  "bslice b lo hi = take (hi - lo) (drop lo b)"

definition go_slice :: "'a list \<Rightarrow> nat \<Rightarrow> nat \<Rightarrow> ('e, 'a list) outcome" where
  "go_slice b lo hi = (if lo \<le> hi \<and> hi \<le> length b then Done (bslice b lo hi) else Panic)"

definition write_at :: "'a list \<Rightarrow> nat \<Rightarrow> 'a list \<Rightarrow> 'a list" where
  "write_at dst off bs = take off dst @ bs @ drop (off + length bs) dst"

fun writes :: "'a list \<Rightarrow> (nat \<times> 'a list) list \<Rightarrow> 'a list" where
  "writes dst [] = dst"
| "writes dst ((off, bs) # ws) = writes (write_at dst off bs) ws"

text \<open>The offsets of a list of writes follow each other without gaps.\<close>

fun contig :: "nat \<Rightarrow> (nat \<times> 'a list) list \<Rightarrow> bool" where
  "contig off [] = True"
| "contig off ((o', bs) # ws) = (o' = off \<and> contig (off + length bs) ws)"

lemma go_bind_Done_iff [go_simps]:
  "go_bind m f = Done y \<longleftrightarrow> (\<exists>x. m = Done x \<and> f x = Done y)"
  by (cases m) auto

lemma go_bind_not_Panic [go_simps]:
  "go_bind m f \<noteq> Panic \<longleftrightarrow> m \<noteq> Panic \<and> (\<forall>x. m = Done x \<longrightarrow> f x \<noteq> Panic)"
  by (cases m) auto

lemma go_slice_Done [go_simps]:
  "lo \<le> hi \<Longrightarrow> hi \<le> length b \<Longrightarrow> go_slice b lo hi = Done (bslice b lo hi)"
  by (simp add: go_slice_def)

lemma length_bslice [simp]: "hi \<le> length b \<Longrightarrow> length (bslice b lo hi) = hi - lo"
  by (simp add: bslice_def)

lemma bslice_whole [simp]: "bslice b 0 (length b) = b"
  by (simp add: bslice_def)

lemma bslice_to_end: "n = length b \<Longrightarrow> bslice b lo n = drop lo b"
  by (simp add: bslice_def)

lemma bslice_skip [wire_simps]:
  "length a \<le> lo \<Longrightarrow> bslice (a @ b) lo hi = bslice b (lo - length a) (hi - length a)"
  by (simp add: bslice_def)

lemma bslice_hit [wire_simps]: "length a = hi \<Longrightarrow> bslice (a @ b) 0 hi = a"
  by (simp add: bslice_def)

lemma bslice_hit_end [wire_simps]: "length a = hi \<Longrightarrow> bslice a 0 hi = a"
  by (simp add: bslice_def)

lemma bslice_Cons_skip [wire_simps]:
  "0 < lo \<Longrightarrow> bslice (x # b) lo hi = bslice b (lo - 1) (hi - 1)"
  by (cases lo) (auto simp: bslice_def)

lemma nth_skip [wire_simps]: "length a \<le> i \<Longrightarrow> (a @ b) ! i = b ! (i - length a)"
  by (simp add: nth_append)

lemma bslice_within: "hi \<le> length a \<Longrightarrow> bslice (a @ b) lo hi = bslice a lo hi"
  by (simp add: bslice_def)

lemma bslice_mid:
  "lo = length a \<Longrightarrow> hi = length a + length b \<Longrightarrow> bslice (a @ b @ c) lo hi = b"
  by (simp add: bslice_def)

lemma length_write_at [simp]:
  "off + length bs \<le> length dst \<Longrightarrow> length (write_at dst off bs) = length dst"
  by (simp add: write_at_def)

lemma write_at_mid:
  "off = length a \<Longrightarrow> length bs = length m \<Longrightarrow> write_at (a @ m @ c) off bs = a @ bs @ c"
  by (simp add: write_at_def)

lemma writes_contig_aux:
  "contig (length p) ws \<Longrightarrow> length p + length (concat (map snd ws)) \<le> length p + length d \<Longrightarrow>
   writes (p @ d) ws = p @ concat (map snd ws) @ drop (length (concat (map snd ws))) d"
proof (induction ws arbitrary: p d)
  case Nil
  then show ?case by simp
next
  case (Cons w ws)
  obtain off bs where w: "w = (off, bs)" by (cases w)
  have "write_at (p @ d) off bs = (p @ bs) @ drop (length bs) d"
    using Cons.prems by (simp add: w write_at_def)
  then show ?case
    using Cons.prems Cons.IH [of "p @ bs" "drop (length bs) d"] by (simp add: w add.commute)
qed

text \<open>Gap-free writes from the start of a buffer replace its prefix by the concatenation.\<close>

lemma writes_contig:
  assumes "contig 0 ws" "length (concat (map snd ws)) \<le> length d"
  shows "writes d ws = concat (map snd ws) @ drop (length (concat (map snd ws))) d"
  using writes_contig_aux [of "[]" ws d] assms by simp

text \<open>
  The contract of a fixed-width codec: a well-formed value has a wire image of the fixed width,
  and decoding the image gives the value back.  What follows is proved once: the image
  determines the value, a value is read back wherever its image stands in a frame, and so is an
  array of values laid out back to back.
\<close>

locale fixed_wire =
  fixes enc :: "'a \<Rightarrow> bytes"
    and dec :: "bytes \<Rightarrow> 'a"
    and wf :: "'a \<Rightarrow> bool"
    and width :: nat
  assumes enc_width: "wf x \<Longrightarrow> length (enc x) = width"
    and dec_enc: "wf x \<Longrightarrow> dec (enc x) = x"
begin

lemma enc_inject: "wf x \<Longrightarrow> wf y \<Longrightarrow> enc x = enc y \<longleftrightarrow> x = y"
  by (metis dec_enc)

lemma dec_at:
  "wf x \<Longrightarrow> off = length pre \<Longrightarrow> dec (bslice (pre @ enc x @ post) off (off + width)) = x"
  using bslice_mid [of off pre "off + width" "enc x" post] by (simp add: enc_width dec_enc)

lemma length_enc_array:
  "list_all wf xs \<Longrightarrow> length (concat (map enc xs)) = width * length xs"
  by (induction xs) (simp_all add: enc_width)

lemma dec_array:
  "list_all wf xs \<Longrightarrow> off = length pre \<Longrightarrow>
   map (\<lambda>i. dec (bslice (pre @ concat (map enc xs) @ post) (off + width * i)
     (off + width * i + width))) [0..<length xs] = xs"
proof (induction xs arbitrary: pre off)
  case Nil
  then show ?case by simp
next
  case (Cons x xs)
  have shift: "[0..<Suc (length xs)] = 0 # map Suc [0..<length xs]"
    by (simp add: upt_conv_Cons map_Suc_upt del: upt_Suc)
  have hd: "dec (bslice (pre @ enc x @ concat (map enc xs) @ post) off (off + width)) = x"
    using Cons.prems by (simp add: dec_at)
  show ?case
    using Cons.IH [of "off + width" "pre @ enc x"] Cons.prems hd
    by (simp add: shift enc_width ac_simps comp_def del: upt_Suc)
qed

end

text \<open>
  Go maps are association lists with distinct keys, so that iteration (in the order of the list)
  and counting are executable.  What the components use of them:
\<close>

definition gomap :: "('k \<times> 'v) list \<Rightarrow> bool" where
  "gomap m \<longleftrightarrow> distinct (map fst m)"

lemma gomap_Nil [simp]: "gomap []"
  by (simp add: gomap_def)

lemma gomap_update [simp, intro]: "gomap m \<Longrightarrow> gomap (AList.update k v m)"
  by (simp add: gomap_def distinct_update)

lemma gomap_delete [simp, intro]: "gomap m \<Longrightarrow> gomap (AList.delete k m)"
  by (simp add: gomap_def distinct_delete)

lemma gomap_filter [simp, intro]: "gomap m \<Longrightarrow> gomap (filter P m)"
  by (induction m) (auto simp: gomap_def)

lemma map_of_update [simp]: "map_of (AList.update k v m) = (map_of m)(k \<mapsto> v)"
  by (rule update_conv')

lemma map_of_delete [simp]: "map_of (AList.delete k m) = (map_of m)(k := None)"
  by (rule delete_conv')

lemma map_of_filter_some:
  "gomap m \<Longrightarrow> map_of (filter P m) k =
     (case map_of m k of None \<Rightarrow> None | Some v \<Rightarrow> if P (k, v) then Some v else None)"
proof (induction m)
  case Nil
  then show ?case by simp
next
  case (Cons kv m)
  obtain k' v' where kv: "kv = (k', v')" by (cases kv)
  have "k \<notin> fst ` set m \<Longrightarrow> map_of m k = None" by (simp add: map_of_eq_None_iff)
  with Cons show ?case by (auto simp: kv gomap_def split: option.splits)
qed

lemma gomap_set_iff: "gomap m \<Longrightarrow> (k, v) \<in> set m \<longleftrightarrow> map_of m k = Some v"
  by (simp add: gomap_def)

end
