(* ===== verification/Mymq_Codec.thy ===== *)
theory Mymq_Codec
  imports Wtg_Prelude
begin

text \<open>
  Field level of the MyMQ wire protocol: src/pkg/mymq/codec.go (big-endian integers, WHERE and
  SZOFF locators, NUL-padded names, navi and cookie records), the constants, packed client ids
  and record types of src/pkg/mymq/types.go, the trace id helpers of src/pkg/mymq/traceid.go and
  the channel codes of src/pkg/mymq/conventions.go.  A Go string is a byte list.  The put
  functions give the bytes they store; the encoders of records write them into a destination
  buffer and panic when it is too short, as the bounds checks of the source do.
\<close>

section \<open>Sizes and codes\<close>

abbreviation (input) LRkey :: nat where "LRkey \<equiv> 16"
abbreviation (input) LXchg :: nat where "LXchg \<equiv> 8"
abbreviation (input) LSkey :: nat where "LSkey \<equiv> 80"
abbreviation (input) CookieSize :: nat where "CookieSize \<equiv> 256"
abbreviation (input) MaxMsgSize :: nat where "MaxMsgSize \<equiv> 1024 * 2048 + 256"
abbreviation (input) MaxVia :: nat where "MaxVia \<equiv> 16"
abbreviation (input) HdrSize :: nat where "HdrSize \<equiv> 100"
abbreviation (input) NaviSize :: nat where "NaviSize \<equiv> 32"
abbreviation (input) CookieWire :: nat where "CookieWire \<equiv> 352"
abbreviation (input) TraceIDSize :: nat where "TraceIDSize \<equiv> 16"

abbreviation (input) FCCntl :: byte where "FCCntl \<equiv> 1"
abbreviation (input) FCCast :: byte where "FCCast \<equiv> 4"
abbreviation (input) FCNotify :: byte where "FCNotify \<equiv> 5"
abbreviation (input) FCTran :: byte where "FCTran \<equiv> 10"
abbreviation (input) FCUnso :: byte where "FCUnso \<equiv> 12"
abbreviation (input) FCPush :: byte where "FCPush \<equiv> 13"
abbreviation (input) FCSignal :: byte where "FCSignal \<equiv> 14"

abbreviation (input) SubConnect :: byte where "SubConnect \<equiv> 10"
abbreviation (input) SubDeclareSession :: byte where "SubDeclareSession \<equiv> 11"
abbreviation (input) SubBindService :: byte where "SubBindService \<equiv> 15"

abbreviation (input) DirIoctl :: byte where "DirIoctl \<equiv> 0"
abbreviation (input) DirForward :: byte where "DirForward \<equiv> 1"
abbreviation (input) DirOrigin :: byte where "DirOrigin \<equiv> 4"
abbreviation (input) DirPublish :: byte where "DirPublish \<equiv> 5"

abbreviation (input) KeySend :: byte where "KeySend \<equiv> 0x53"
abbreviation (input) MsgfErr :: byte where "MsgfErr \<equiv> 1"

abbreviation (input) ZipfNone :: byte where "ZipfNone \<equiv> 0"
abbreviation (input) ZipfMlzo :: byte where "ZipfMlzo \<equiv> 1"
abbreviation (input) ZipfZlib :: byte where "ZipfZlib \<equiv> 2"
abbreviation (input) ZipfLziv :: byte where "ZipfLziv \<equiv> 3"

abbreviation (input) ErrBroker :: u32 where "ErrBroker \<equiv> 1001"

section \<open>Records\<close>

record Cookie =
  ck_Usid :: bytes
  ck_Name :: bytes
  ck_Maca :: bytes
  ck_Pcip :: bytes
  ck_Svip :: bytes
  ck_Clid :: u32
  ck_Coki :: bytes

record Navi =
  nv_Xchg :: bytes
  nv_Rkey :: bytes
  nv_Scid :: u32
  nv_Iama :: byte
  nv_Eatt :: byte
  nv_Zipf :: byte
  nv_Ncid :: byte

text \<open>The Go fields are arrays; their lengths are the well-formedness of the records.\<close>

definition wf_Cookie :: "Cookie \<Rightarrow> bool" where
  "wf_Cookie c \<longleftrightarrow> length (ck_Usid c) = 16 \<and> length (ck_Name c) = 12 \<and> length (ck_Maca c) = 24 \<and>
     length (ck_Pcip c) = 20 \<and> length (ck_Svip c) = 20 \<and> length (ck_Coki c) = CookieSize"

definition wf_Navi :: "Navi \<Rightarrow> bool" where
  "wf_Navi n \<longleftrightarrow> length (nv_Xchg n) = LXchg \<and> length (nv_Rkey n) = LRkey"

section \<open>Integers and locators\<close>

definition putU32 :: "u32 \<Rightarrow> bytes" where
  "putU32 v = [ucast (drop_bit 24 v), ucast (drop_bit 16 v), ucast (drop_bit 8 v), ucast v]"

definition getU32 :: "bytes \<Rightarrow> u32" where
  "getU32 b = ucast (b ! 3) OR push_bit 8 (ucast (b ! 2)) OR push_bit 16 (ucast (b ! 1)) OR
     push_bit 24 (ucast (b ! 0))"

definition putU16 :: "u16 \<Rightarrow> bytes" where
  "putU16 v = [ucast (drop_bit 8 v), ucast v]"

definition getU16 :: "bytes \<Rightarrow> u16" where
  "getU16 b = ucast (b ! 1) OR push_bit 8 (ucast (b ! 0))"

definition putU24 :: "u32 \<Rightarrow> bytes" where
  "putU24 v = [ucast (drop_bit 16 v), ucast (drop_bit 8 v), ucast v]"

definition getU24 :: "bytes \<Rightarrow> u32" where
  "getU24 b = push_bit 16 (ucast (b ! 0)) OR push_bit 8 (ucast (b ! 1)) OR ucast (b ! 2)"

definition encodeWhere :: "byte \<Rightarrow> u32 \<Rightarrow> bytes" where
  "encodeWhere zipf off = zipf # putU24 off"

definition decodeWhere :: "bytes \<Rightarrow> byte \<times> u32" where
  "decodeWhere b = (b ! 0, getU24 (bslice b 1 4))"

definition encodeSzoff :: "u16 \<Rightarrow> u16 \<Rightarrow> bytes" where
  "encodeSzoff len off = putU16 len @ putU16 off"

definition decodeSzoff :: "bytes \<Rightarrow> u16 \<times> u16" where
  "decodeSzoff b = (getU16 (bslice b 0 2), getU16 (bslice b 2 4))"

section \<open>Fixed-width names\<close>

text \<open>\<open>padCopyString n src\<close> is the content a destination of length \<open>n\<close> has afterwards.\<close>

definition padCopyString :: "nat \<Rightarrow> bytes \<Rightarrow> bytes" where
  "padCopyString n src = take n src @ replicate (n - length src) 0"

fun trimNul :: "bytes \<Rightarrow> bytes" where
  "trimNul [] = []"
| "trimNul (c # b) = (if c = 0 then [] else c # trimNul b)"

definition trimNulString :: "bytes \<Rightarrow> bytes" where
  "trimNulString b = trimNul b"

section \<open>Navigation entries and cookies\<close>

definition EncodeNavi :: "bytes \<Rightarrow> Navi \<Rightarrow> ('e, bytes) outcome" where
  "EncodeNavi dst n =
     (if length dst < NaviSize then Panic
      else Done (writes dst
        [(0, nv_Xchg n),
         (LXchg, nv_Rkey n),
         (LXchg + LRkey, putU32 (nv_Scid n)),
         (LXchg + LRkey + 4, [nv_Iama n]),
         (LXchg + LRkey + 5, [nv_Eatt n]),
         (LXchg + LRkey + 6, [nv_Zipf n]),
         (LXchg + LRkey + 7, [nv_Ncid n])]))"

definition navi_of :: "bytes \<Rightarrow> Navi" where
  "navi_of src =
     \<lparr>nv_Xchg = bslice src 0 LXchg,
      nv_Rkey = bslice src LXchg (LXchg + LRkey),
      nv_Scid = getU32 (bslice src (LXchg + LRkey) (LXchg + LRkey + 4)),
      nv_Iama = src ! (LXchg + LRkey + 4),
      nv_Eatt = src ! (LXchg + LRkey + 5),
      nv_Zipf = src ! (LXchg + LRkey + 6),
      nv_Ncid = src ! (LXchg + LRkey + 7)\<rparr>"

definition DecodeNavi :: "bytes \<Rightarrow> ('e, Navi) outcome" where
  "DecodeNavi src = (if length src < NaviSize then Panic else Done (navi_of src))"

definition EncodeCookie :: "bytes \<Rightarrow> Cookie \<Rightarrow> ('e, bytes) outcome" where
  "EncodeCookie dst c =
     (if length dst < CookieWire then Panic
      else Done (writes dst
        [(0, ck_Usid c),
         (16, ck_Name c),
         (28, ck_Maca c),
         (52, ck_Pcip c),
         (72, ck_Svip c),
         (92, putU32 (ck_Clid c)),
         (96, ck_Coki c)]))"

definition cookie_of :: "bytes \<Rightarrow> Cookie" where
  "cookie_of src =
     \<lparr>ck_Usid = bslice src 0 16,
      ck_Name = bslice src 16 28,
      ck_Maca = bslice src 28 52,
      ck_Pcip = bslice src 52 72,
      ck_Svip = bslice src 72 92,
      ck_Clid = getU32 (bslice src 92 96),
      ck_Coki = bslice src 96 (96 + CookieSize)\<rparr>"

definition DecodeCookie :: "bytes \<Rightarrow> ('e, Cookie) outcome" where
  "DecodeCookie src = (if length src < CookieWire then Panic else Done (cookie_of src))"

section \<open>Packed client ids\<close>

definition MakeClid :: "u32 \<Rightarrow> u32 \<Rightarrow> u32 \<Rightarrow> u32" where
  "MakeClid memberType ncid scid =
     push_bit 29 (memberType AND 0x03) OR push_bit 24 (ncid AND 0x1f) OR (scid AND 0x00FFFFFF)"

definition SplitClid :: "u32 \<Rightarrow> u32 \<times> u32 \<times> u32" where
  "SplitClid clid =
     (drop_bit 29 clid AND 0x03, drop_bit 24 clid AND 0x1f, clid AND 0x00FFFFFF)"

section \<open>Trace ids and channel codes\<close>

text \<open>\<open>encoding/hex\<close>: the digit values, decoding (odd length or a non-digit is an error) and
  lower-case encoding, over the ASCII codes of the string.\<close>

definition hex_val :: "byte \<Rightarrow> byte option" where
  "hex_val c = (if 0x30 \<le> c \<and> c \<le> 0x39 then Some (c - 0x30)
     else if 0x61 \<le> c \<and> c \<le> 0x66 then Some (c - 0x61 + 10)
     else if 0x41 \<le> c \<and> c \<le> 0x46 then Some (c - 0x41 + 10)
     else None)"

definition hex_digit :: "byte \<Rightarrow> byte" where
  "hex_digit v = (if v < 10 then 0x30 + v else 0x61 + (v - 10))"

fun hex_DecodeString :: "bytes \<Rightarrow> bytes option" where
  "hex_DecodeString [] = Some []"
| "hex_DecodeString [a] = None"
| "hex_DecodeString (a # b # r) =
     (case (hex_val a, hex_val b, hex_DecodeString r) of
        (Some x, Some y, Some bs) \<Rightarrow> Some ((push_bit 4 x OR y) # bs)
      | _ \<Rightarrow> None)"

fun hex_EncodeToString :: "bytes \<Rightarrow> bytes" where
  "hex_EncodeToString [] = []"
| "hex_EncodeToString (b # r) = hex_digit (drop_bit 4 b) # hex_digit (b AND 0x0f) # hex_EncodeToString r"

definition TraceIDFromHex :: "bytes \<Rightarrow> bytes" where
  "TraceIDFromHex s =
     (if s = [] then replicate TraceIDSize 0
      else case hex_DecodeString s of
             None \<Rightarrow> replicate TraceIDSize 0
           | Some b \<Rightarrow> take TraceIDSize b @ replicate (TraceIDSize - length b) 0)"

text \<open>The loop of TraceIDToHex: the length without the trailing zero bytes.\<close>

fun trace_len :: "bytes \<Rightarrow> nat \<Rightarrow> nat" where
  "trace_len t 0 = 0"
| "trace_len t (Suc n) = (if t ! n = 0 then trace_len t n else Suc n)"

definition TraceIDToHex :: "bytes \<Rightarrow> bytes" where
  "TraceIDToHex t =
     (let n = trace_len t TraceIDSize in
      if n = 0 then [] else hex_EncodeToString (take n t))"

datatype ChannelCode =
  ChannelWeb | ChannelMobile | ChannelHTS | ChannelAdmin | ChannelEMP | ChannelFix |
  ChannelAPI | ChannelBot | ChannelOther bytes

text \<open>The three ASCII codes of each channel name.\<close>

primrec channel_code :: "ChannelCode \<Rightarrow> bytes" where
  "channel_code ChannelWeb = [0x57, 0x45, 0x42]"
| "channel_code ChannelMobile = [0x4D, 0x4F, 0x42]"
| "channel_code ChannelHTS = [0x48, 0x54, 0x53]"
| "channel_code ChannelAdmin = [0x41, 0x44, 0x4D]"
| "channel_code ChannelEMP = [0x45, 0x4D, 0x50]"
| "channel_code ChannelFix = [0x46, 0x49, 0x58]"
| "channel_code ChannelAPI = [0x41, 0x50, 0x49]"
| "channel_code ChannelBot = [0x42, 0x4F, 0x54]"
| "channel_code (ChannelOther s) = s"

definition IsCSFramework :: "ChannelCode \<Rightarrow> bool" where
  "IsCSFramework c \<longleftrightarrow> channel_code c = channel_code ChannelHTS \<or>
     channel_code c = channel_code ChannelEMP"

definition IsCustomer :: "ChannelCode \<Rightarrow> bool" where
  "IsCustomer c \<longleftrightarrow> channel_code c = channel_code ChannelWeb \<or>
     channel_code c = channel_code ChannelMobile \<or> channel_code c = channel_code ChannelHTS"

definition IsEmployee :: "ChannelCode \<Rightarrow> bool" where
  "IsEmployee c \<longleftrightarrow> channel_code c = channel_code ChannelAdmin \<or>
     channel_code c = channel_code ChannelEMP"

definition ChannelCode_Bytes :: "ChannelCode \<Rightarrow> bytes" where
  "ChannelCode_Bytes c = take 4 (channel_code c) @ replicate (4 - length (channel_code c)) 0x20"

section \<open>Integer round trips\<close>

lemma length_put [simp, wire_simps]:
  "length (putU32 v) = 4" "length (putU24 v) = 3" "length (putU16 w) = 2"
  by (simp_all add: putU32_def putU24_def putU16_def)

lemma getU32_putU32 [simp]: "getU32 (putU32 v) = v"
proof (rule bit_word_eqI)
  fix n :: nat
  assume "n < LENGTH(32)"
  then consider "n < 8" | "8 \<le> n" "n < 16" | "16 \<le> n" "n < 24" | "24 \<le> n" "n < 32"
    by fastforce
  then show "bit (getU32 (putU32 v)) n \<longleftrightarrow> bit v n"
    by cases (auto simp: getU32_def putU32_def bit_simps)
qed

lemma getU16_putU16 [simp]: "getU16 (putU16 v) = v"
  by (rule bit_word_eqI) (auto simp: getU16_def putU16_def bit_simps)

lemma getU24_putU24_take: "getU24 (putU24 v) = take_bit 24 v"
proof (rule bit_word_eqI)
  fix n :: nat
  assume "n < LENGTH(32)"
  then consider "n < 8" | "8 \<le> n" "n < 16" | "16 \<le> n" "n < 24" | "24 \<le> n" "n < 32"
    by fastforce
  then show "bit (getU24 (putU24 v)) n \<longleftrightarrow> bit (take_bit 24 v) n"
    by cases (auto simp: getU24_def putU24_def bit_simps)
qed

lemma getU24_putU24 [simp]: "v < 2 ^ 24 \<Longrightarrow> getU24 (putU24 v) = v"
  by (simp add: getU24_putU24_take take_bit_eq_mod mod_word_less)

lemma length_where [simp, wire_simps]:
  "length (encodeWhere z off) = 4" "length (encodeSzoff l w) = 4"
  by (simp_all add: encodeWhere_def encodeSzoff_def)

lemma decodeWhere_encodeWhere [simp]:
  "off < 2 ^ 24 \<Longrightarrow> decodeWhere (encodeWhere z off) = (z, off)"
  by (simp add: decodeWhere_def encodeWhere_def bslice_def)

lemma decodeSzoff_encodeSzoff [simp]: "decodeSzoff (encodeSzoff l off) = (l, off)"
  by (simp add: decodeSzoff_def encodeSzoff_def wire_simps)

lemma putU32_getU32:
  assumes "length b = 4"
  shows "putU32 (getU32 b) = b"
proof -
  obtain b0 b1 b2 b3 where b: "b = [b0, b1, b2, b3]"
    using assms by (auto simp: length_Suc_conv eval_nat_numeral)
  have "ucast (drop_bit 24 (getU32 b)) = b0" "ucast (drop_bit 16 (getU32 b)) = b1"
    "ucast (drop_bit 8 (getU32 b)) = b2" "ucast (getU32 b) = b3"
    unfolding b getU32_def
    by (rule bit_word_eqI; auto simp: bit_simps dest: bit_imp_le_length)+
  then show ?thesis by (simp add: putU32_def b)
qed

section \<open>Names\<close>

lemma length_padCopyString [simp, wire_simps]: "length (padCopyString n s) = n"
  by (simp add: padCopyString_def)

lemma trimNul_append_zeros: "0 \<notin> set s \<Longrightarrow> trimNul (s @ replicate k 0) = s"
proof (induction s)
  case Nil
  then show ?case by (cases k) simp_all
next
  case (Cons c s)
  then show ?case by auto
qed

lemma trimNul_no_nul: "0 \<notin> set (trimNul b)"
  by (induction b) auto

lemma trimNul_padCopyString:
  "0 \<notin> set s \<Longrightarrow> length s \<le> n \<Longrightarrow> trimNul (padCopyString n s) = s"
  by (simp add: padCopyString_def trimNul_append_zeros)

section \<open>The record layouts\<close>

text \<open>The wire images, as the concatenation of the fields in order.\<close>

definition navi_image :: "Navi \<Rightarrow> bytes" where
  "navi_image n = nv_Xchg n @ nv_Rkey n @ putU32 (nv_Scid n) @
     [nv_Iama n, nv_Eatt n, nv_Zipf n, nv_Ncid n]"

definition cookie_image :: "Cookie \<Rightarrow> bytes" where
  "cookie_image c = ck_Usid c @ ck_Name c @ ck_Maca c @ ck_Pcip c @ ck_Svip c @
     putU32 (ck_Clid c) @ ck_Coki c"

lemma EncodeNavi_image:
  assumes "wf_Navi n" "NaviSize \<le> length dst"
  shows "EncodeNavi dst n = Done (navi_image n @ drop NaviSize dst)"
  using assms by (simp add: EncodeNavi_def wf_Navi_def navi_image_def writes_contig
      del: writes.simps)

lemma EncodeCookie_image:
  assumes "wf_Cookie c" "CookieWire \<le> length dst"
  shows "EncodeCookie dst c = Done (cookie_image c @ drop CookieWire dst)"
  using assms by (simp add: EncodeCookie_def wf_Cookie_def cookie_image_def writes_contig
      del: writes.simps)

lemma length_navi_image [wire_simps]: "wf_Navi n \<Longrightarrow> length (navi_image n) = NaviSize"
  by (simp add: wf_Navi_def navi_image_def)

lemma length_cookie_image [wire_simps]: "wf_Cookie c \<Longrightarrow> length (cookie_image c) = CookieWire"
  by (simp add: wf_Cookie_def cookie_image_def)

lemma navi_of_image: "wf_Navi n \<Longrightarrow> navi_of (navi_image n) = n"
  by (simp add: wf_Navi_def navi_image_def navi_of_def wire_simps)

lemma cookie_of_image: "wf_Cookie c \<Longrightarrow> cookie_of (cookie_image c) = c"
  by (simp add: wf_Cookie_def cookie_image_def cookie_of_def wire_simps)

interpretation navi: fixed_wire navi_image navi_of wf_Navi NaviSize
  by unfold_locales (simp_all add: length_navi_image navi_of_image)

interpretation cookie: fixed_wire cookie_image cookie_of wf_Cookie CookieWire
  by unfold_locales (simp_all add: length_cookie_image cookie_of_image)

lemma wf_navi_of: "NaviSize \<le> length src \<Longrightarrow> wf_Navi (navi_of src)"
  by (simp add: wf_Navi_def navi_of_def)

lemma wf_cookie_of: "CookieWire \<le> length src \<Longrightarrow> wf_Cookie (cookie_of src)"
  by (simp add: wf_Cookie_def cookie_of_def)

section \<open>Client ids\<close>

lemma clid_masks:
  "(0x03 :: u32) = mask 2" "(0x1f :: u32) = mask 5" "(0x00FFFFFF :: u32) = mask 24"
  by (simp_all add: mask_eq_exp_minus_1)

lemma SplitClid_MakeClid_mask:
  "SplitClid (MakeClid t n s) = (t AND 0x03, n AND 0x1f, s AND 0x00FFFFFF)"
  unfolding SplitClid_def MakeClid_def clid_masks
  by (intro arg_cong2 [where f = Pair]; rule bit_word_eqI; auto simp: bit_simps)

lemma and_mask_self: "(x :: u32) < 2 ^ k \<Longrightarrow> k < 32 \<Longrightarrow> x AND mask k = x"
  by (simp add: take_bit_eq_mask [symmetric] take_bit_eq_mod mod_word_less)

section \<open>Trace ids\<close>

lemma hex_val_digit: "v < 16 \<Longrightarrow> hex_val (hex_digit v) = Some v"
  by (auto simp: hex_val_def hex_digit_def word_less_nat_alt word_le_nat_alt unat_word_ariths
      unat_sub word_le_def)

lemma nibble_less: "drop_bit 4 (b :: byte) < 16" "b AND 0x0f < 16"
proof -
  have m: "(0x0f :: byte) = mask 4" by (simp add: mask_eq_exp_minus_1)
  have "b AND mask 4 < 2 ^ 4" by (rule and_mask_less') simp
  then show "b AND 0x0f < 16" by (simp only: m) simp
  have "unat b < 2 ^ LENGTH(8)" by (rule unsigned_less)
  then show "drop_bit 4 b < 16"
    by (simp add: word_less_nat_alt drop_bit_eq_div unat_div)
qed

lemma nibbles_join: "push_bit 4 (drop_bit 4 b) OR (b AND 0x0f) = (b :: byte)"
proof -
  have m: "(0x0f :: byte) = mask 4" by (simp add: mask_eq_exp_minus_1)
  show ?thesis unfolding m by (rule bit_word_eqI) (auto simp: bit_simps)
qed

lemma hex_roundtrip: "hex_DecodeString (hex_EncodeToString b) = Some b"
  by (induction b) (simp_all add: hex_val_digit nibble_less nibbles_join)

lemma trace_len_le: "trace_len t n \<le> n"
  by (induction n) auto

lemma trace_len_zeros: "trace_len t n \<le> i \<Longrightarrow> i < n \<Longrightarrow> t ! i = 0"
  by (induction n) (auto split: if_splits simp: less_Suc_eq)

lemma trace_len_split:
  assumes "length t = n"
  shows "take (trace_len t n) t @ replicate (n - trace_len t n) 0 = t"
proof -
  have "drop (trace_len t n) t = replicate (n - trace_len t n) 0"
    using assms trace_len_le [of t n] trace_len_zeros [of t n]
    by (auto intro!: nth_equalityI)
  then show ?thesis by (metis append_take_drop_id)
qed

lemma hex_EncodeToString_Nil [simp]: "hex_EncodeToString b = [] \<longleftrightarrow> b = []"
  by (cases b) auto

section \<open>Properties of the field codecs\<close>

text \<open>A client id packed from a member type, a cluster id and a session id within their 2, 5
  and 24 bits is split into the same three values, so the 5-bit cluster id never runs into the
  type bits.\<close>

theorem SplitClid_MakeClid:
  assumes "t < 4" "n < 32" "s < 2 ^ 24"
  shows "SplitClid (MakeClid t n s) = (t, n, s)"
  using assms and_mask_self [of t 2] and_mask_self [of n 5] and_mask_self [of s 24]
  unfolding SplitClid_MakeClid_mask clid_masks by simp

theorem SplitClid_MakeClid_witness:
  "(1 :: u32) < 4 \<and> (31 :: u32) < 32 \<and> SplitClid (MakeClid 1 31 0xABCDEF) = (1, 31, 0xABCDEF)"
  using SplitClid_MakeClid [of 1 31 "0xABCDEF"] by simp

text \<open>Printing a 16-byte trace id as hex without its trailing zero bytes and parsing the hex
  string gives the trace id back.\<close>

theorem TraceID_roundtrip:
  assumes "length t = TraceIDSize"
  shows "TraceIDFromHex (TraceIDToHex t) = t"
proof (cases "trace_len t TraceIDSize")
  case 0
  then have "replicate TraceIDSize 0 = t" using trace_len_split [OF assms] by simp
  with 0 show ?thesis by (simp add: TraceIDToHex_def TraceIDFromHex_def)
next
  case (Suc m)
  let ?n = "trace_len t TraceIDSize"
  have n: "?n \<le> TraceIDSize" by (rule trace_len_le)
  have "take TraceIDSize (take ?n t) @ replicate (TraceIDSize - length (take ?n t)) 0 = t"
    using n assms trace_len_split [OF assms] by simp
  moreover have "TraceIDToHex t = hex_EncodeToString (take ?n t)" "take ?n t \<noteq> []"
    using Suc assms by (auto simp: TraceIDToHex_def Let_def)
  ultimately show ?thesis by (simp only: TraceIDFromHex_def hex_roundtrip) simp
qed

theorem TraceID_roundtrip_witness:
  "length ([0xde, 0xad, 0xbe, 0xef] @ replicate 12 (0 :: byte)) = TraceIDSize \<and>
   TraceIDFromHex (TraceIDToHex ([0xde, 0xad, 0xbe, 0xef] @ replicate 12 0)) =
     [0xde, 0xad, 0xbe, 0xef] @ replicate 12 0"
  using TraceID_roundtrip [of "[0xde, 0xad, 0xbe, 0xef] @ replicate 12 0"] by simp

end
