(* ===== verification/Mymq_Frame.thy ===== *)
theory Mymq_Frame
  imports Mymq_Codec
begin

text \<open>
  Frames: src/pkg/mymq/frame.go.  The 100-byte header with its locators, assembly of a frame
  from its logical content (EncodeFrame) and its parsing (DecodeFrame).  Buffers are byte lists;
  every slice expression and every write whose bounds depend on data is checked, so an
  out-of-range access is the outcome \<open>Panic\<close>.  A nil and an empty slice are the same list.
\<close>

section \<open>Header\<close>

record Header =
  h_Length :: u32
  h_Func :: byte
  h_Subc :: byte
  h_Nvia :: byte
  h_Dirf :: byte
  h_Msgf :: byte
  h_Ctlf :: byte
  h_Keyc :: byte
  h_Xchg :: bytes
  h_Rkey :: bytes
  h_Ckey :: u32
  h_Clid :: u32
  h_Wkey :: bytes
  h_Chan :: bytes
  h_Errn :: u32
  h_CoffZipf :: byte
  h_CoffOff :: u32
  h_SoffZipf :: byte
  h_SoffOff :: u32
  h_ErrmLen :: u16
  h_ErrmOff :: u16
  h_PkeyLen :: u16
  h_PkeyOff :: u16
  h_NkeyLen :: u16
  h_NkeyOff :: u16
  h_BodyZipf :: byte
  h_BodyOff :: u32
  h_TraceID :: bytes

datatype FrameErr =
  ErrFrameTooShort | ErrFrameTooLong | ErrInvalidLength | ErrInvalidNavi | ErrInvalidOffset |
  ErrKeyTooLong

definition EncodeHeader :: "bytes \<Rightarrow> Header \<Rightarrow> (FrameErr, bytes) outcome" where
  "EncodeHeader dst h =
     (if length dst < HdrSize then Fail ErrFrameTooShort
      else Done (writes dst
        [(0, putU32 (h_Length h)),
         (4, [h_Func h]),
         (5, [h_Subc h]),
         (6, [h_Nvia h]),
         (7, [h_Dirf h]),
         (8, [h_Msgf h]),
         (9, [h_Ctlf h]),
         (10, [0]),
         (11, [h_Keyc h]),
         (12, h_Xchg h),
         (20, h_Rkey h),
         (36, putU32 (h_Ckey h)),
         (40, putU32 (h_Clid h)),
         (44, h_Wkey h),
         (52, h_Chan h),
         (56, putU32 (h_Errn h)),
         (60, encodeWhere (h_CoffZipf h) (h_CoffOff h)),
         (64, encodeWhere (h_SoffZipf h) (h_SoffOff h)),
         (68, encodeSzoff (h_ErrmLen h) (h_ErrmOff h)),
         (72, encodeSzoff (h_PkeyLen h) (h_PkeyOff h)),
         (76, encodeSzoff (h_NkeyLen h) (h_NkeyOff h)),
         (80, encodeWhere (h_BodyZipf h) (h_BodyOff h)),
         (84, h_TraceID h)]))"

definition header_of :: "bytes \<Rightarrow> Header" where
  "header_of src =
     \<lparr>h_Length = getU32 (bslice src 0 4),
      h_Func = src ! 4,
      h_Subc = src ! 5,
      h_Nvia = src ! 6,
      h_Dirf = src ! 7,
      h_Msgf = src ! 8,
      h_Ctlf = src ! 9,
      h_Keyc = src ! 11,
      h_Xchg = bslice src 12 (12 + LXchg),
      h_Rkey = bslice src 20 (20 + LRkey),
      h_Ckey = getU32 (bslice src 36 40),
      h_Clid = getU32 (bslice src 40 44),
      h_Wkey = bslice src 44 52,
      h_Chan = bslice src 52 56,
      h_Errn = getU32 (bslice src 56 60),
      h_CoffZipf = fst (decodeWhere (bslice src 60 64)),
      h_CoffOff = snd (decodeWhere (bslice src 60 64)),
      h_SoffZipf = fst (decodeWhere (bslice src 64 68)),
      h_SoffOff = snd (decodeWhere (bslice src 64 68)),
      h_ErrmLen = fst (decodeSzoff (bslice src 68 72)),
      h_ErrmOff = snd (decodeSzoff (bslice src 68 72)),
      h_PkeyLen = fst (decodeSzoff (bslice src 72 76)),
      h_PkeyOff = snd (decodeSzoff (bslice src 72 76)),
      h_NkeyLen = fst (decodeSzoff (bslice src 76 80)),
      h_NkeyOff = snd (decodeSzoff (bslice src 76 80)),
      h_BodyZipf = fst (decodeWhere (bslice src 80 84)),
      h_BodyOff = snd (decodeWhere (bslice src 80 84)),
      h_TraceID = bslice src 84 (84 + TraceIDSize)\<rparr>"

definition DecodeHeader :: "bytes \<Rightarrow> (FrameErr, Header) outcome" where
  "DecodeHeader src = (if length src < HdrSize then Fail ErrFrameTooShort else Done (header_of src))"

section \<open>Assembling a frame\<close>

record FrameInput =
  in_Func :: byte
  in_Subc :: byte
  in_Dirf :: byte
  in_Keyc :: byte
  in_Msgf :: byte
  in_Ctlf :: byte
  in_Xchg :: bytes
  in_Rkey :: bytes
  in_Ckey :: u32
  in_Clid :: u32
  in_Wkey :: bytes
  in_Chan :: bytes
  in_TraceID :: bytes
  in_Navis :: "Navi list"
  in_Errn :: u32
  in_ErrMsg :: bytes
  in_Pkey :: bytes
  in_Nkey :: bytes
  in_Cookie :: "Cookie option"
  in_Body :: bytes

definition frame_size :: "FrameInput \<Rightarrow> nat" where
  "frame_size inp = HdrSize + NaviSize * length (in_Navis inp) + length (in_ErrMsg inp) +
     length (in_Pkey inp) + length (in_Nkey inp) +
     (case in_Cookie inp of None \<Rightarrow> 0 | Some _ \<Rightarrow> CookieWire) + length (in_Body inp)"

text \<open>The header as EncodeFrame builds it before it lays out the variable area.\<close>

definition base_header :: "FrameInput \<Rightarrow> Header" where
  "base_header inp =
     \<lparr>h_Length = 0, h_Func = in_Func inp, h_Subc = in_Subc inp,
      h_Nvia = word_of_nat (length (in_Navis inp)), h_Dirf = in_Dirf inp,
      h_Msgf = in_Msgf inp, h_Ctlf = in_Ctlf inp, h_Keyc = in_Keyc inp,
      h_Xchg = padCopyString LXchg (in_Xchg inp), h_Rkey = padCopyString LRkey (in_Rkey inp),
      h_Ckey = in_Ckey inp, h_Clid = in_Clid inp, h_Wkey = in_Wkey inp, h_Chan = in_Chan inp,
      h_Errn = in_Errn inp, h_CoffZipf = 0, h_CoffOff = 0, h_SoffZipf = 0, h_SoffOff = 0,
      h_ErrmLen = 0, h_ErrmOff = 0, h_PkeyLen = 0, h_PkeyOff = 0, h_NkeyLen = 0, h_NkeyOff = 0,
      h_BodyZipf = 0, h_BodyOff = 0, h_TraceID = in_TraceID inp\<rparr>"

text \<open>The variable area: buffer, header under construction and cursor.\<close>

record layout_st =
  ls_buf :: bytes
  ls_hdr :: Header
  ls_cur :: nat

definition put_region :: "layout_st \<Rightarrow> (Header \<Rightarrow> Header) \<Rightarrow> bytes \<Rightarrow> (FrameErr, layout_st) outcome" where
  "put_region st upd bs =
     (if ls_cur st + length bs \<le> length (ls_buf st)
      then Done \<lparr>ls_buf = write_at (ls_buf st) (ls_cur st) bs, ls_hdr = upd (ls_hdr st),
                 ls_cur = ls_cur st + length bs\<rparr>
      else Panic)"

definition put_errm :: "FrameInput \<Rightarrow> layout_st \<Rightarrow> (FrameErr, layout_st) outcome" where
  "put_errm inp st =
     (if 0 < length (in_ErrMsg inp)
      then put_region st (\<lambda>h. h\<lparr>h_Msgf := h_Msgf h OR MsgfErr,
               h_ErrmLen := word_of_nat (length (in_ErrMsg inp)),
               h_ErrmOff := word_of_nat (ls_cur st)\<rparr>) (in_ErrMsg inp)
      else Done st)"

definition put_pkey :: "FrameInput \<Rightarrow> layout_st \<Rightarrow> (FrameErr, layout_st) outcome" where
  "put_pkey inp st =
     (if 0 < length (in_Pkey inp)
      then put_region st (\<lambda>h. h\<lparr>h_PkeyLen := word_of_nat (length (in_Pkey inp)),
               h_PkeyOff := word_of_nat (ls_cur st)\<rparr>) (in_Pkey inp)
      else Done st)"

definition put_nkey :: "FrameInput \<Rightarrow> layout_st \<Rightarrow> (FrameErr, layout_st) outcome" where
  "put_nkey inp st =
     (if 0 < length (in_Nkey inp)
      then put_region st (\<lambda>h. h\<lparr>h_NkeyLen := word_of_nat (length (in_Nkey inp)),
               h_NkeyOff := word_of_nat (ls_cur st)\<rparr>) (in_Nkey inp)
      else Done st)"

definition put_cookie :: "FrameInput \<Rightarrow> layout_st \<Rightarrow> (FrameErr, layout_st) outcome" where
  "put_cookie inp st =
     (case in_Cookie inp of
        None \<Rightarrow> Done st
      | Some c \<Rightarrow> go_bind (go_slice (ls_buf st) (ls_cur st) (ls_cur st + CookieWire))
          (\<lambda>dst. go_bind (EncodeCookie dst c)
          (\<lambda>bs. put_region st (\<lambda>h. h\<lparr>h_CoffZipf := 0, h_CoffOff := word_of_nat (ls_cur st)\<rparr>) bs)))"

definition put_body :: "FrameInput \<Rightarrow> layout_st \<Rightarrow> (FrameErr, layout_st) outcome" where
  "put_body inp st =
     (if 0 < length (in_Body inp)
      then put_region st (\<lambda>h. h\<lparr>h_BodyZipf := 0, h_BodyOff := word_of_nat (ls_cur st)\<rparr>) (in_Body inp)
      else Done st)"

text \<open>The loop that encodes the navigation entries after the header.\<close>

fun encode_navis :: "bytes \<Rightarrow> nat \<Rightarrow> Navi list \<Rightarrow> (FrameErr, bytes) outcome" where
  "encode_navis buf naviOff [] = Done buf"
| "encode_navis buf naviOff (n # ns) =
     go_bind (go_slice buf naviOff (naviOff + NaviSize))
       (\<lambda>dst. go_bind (EncodeNavi dst n)
       (\<lambda>bs. encode_navis (write_at buf naviOff bs) (naviOff + NaviSize) ns))"

definition EncodeFrame :: "FrameInput \<Rightarrow> (FrameErr, bytes) outcome" where
  "EncodeFrame inp =
     (if MaxVia < length (in_Navis inp) then Fail ErrInvalidNavi
      else if LSkey < length (in_Pkey inp) \<or> LSkey < length (in_Nkey inp) then Fail ErrKeyTooLong
      else if MaxMsgSize < frame_size inp then Fail ErrFrameTooLong
      else
        go_bind (put_errm inp \<lparr>ls_buf = replicate (frame_size inp) 0, ls_hdr = base_header inp,
                   ls_cur = HdrSize + NaviSize * length (in_Navis inp)\<rparr>)
          (\<lambda>s1. go_bind (put_pkey inp s1)
          (\<lambda>s2. go_bind (put_nkey inp s2)
          (\<lambda>s3. go_bind (put_cookie inp s3)
          (\<lambda>s4. go_bind (put_body inp s4)
          (\<lambda>s5. let hdr = (ls_hdr s5)\<lparr>h_Length := word_of_nat (ls_cur s5)\<rparr> in
             go_bind (go_slice (ls_buf s5) 0 HdrSize)
          (\<lambda>dst. go_bind (EncodeHeader dst hdr)
          (\<lambda>hb. go_bind (encode_navis (write_at (ls_buf s5) 0 hb) HdrSize (in_Navis inp))
          (\<lambda>buf. go_slice buf 0 (ls_cur s5))))))))))"

section \<open>Parsing a frame\<close>

record DecodedFrame =
  df_Header :: Header
  df_Navis :: "Navi list"
  df_ErrMsg :: bytes
  df_Pkey :: bytes
  df_Nkey :: bytes
  df_Cookie :: "Cookie option"
  df_Body :: bytes
  df_BodyZipf :: byte

fun decode_navi_loop :: "bytes \<Rightarrow> nat \<Rightarrow> nat \<Rightarrow> (FrameErr, Navi list) outcome" where
  "decode_navi_loop frame off 0 = Done []"
| "decode_navi_loop frame off (Suc n) =
     go_bind (go_slice frame off (off + NaviSize))
       (\<lambda>s. go_bind (DecodeNavi s)
       (\<lambda>x. go_bind (decode_navi_loop frame (off + NaviSize) n) (\<lambda>xs. Done (x # xs))))"

definition decode_navis :: "bytes \<Rightarrow> Header \<Rightarrow> (FrameErr, Navi list) outcome" where
  "decode_navis frame hdr =
     (if 0 < h_Nvia hdr then
        if MaxVia < unat (h_Nvia hdr) then Fail ErrInvalidNavi
        else if length frame < HdrSize + NaviSize * unat (h_Nvia hdr) then Fail ErrInvalidOffset
        else decode_navi_loop frame HdrSize (unat (h_Nvia hdr))
      else Done [])"

text \<open>The ERRM, PKEY and NKEY blocks: a span given by a length and an offset.\<close>

definition decode_span :: "bytes \<Rightarrow> u16 \<Rightarrow> u16 \<Rightarrow> (FrameErr, bytes) outcome" where
  "decode_span frame len off =
     (if 0 < len \<and> 0 < off then
        if length frame < unat off + unat len then Fail ErrInvalidOffset
        else go_slice frame (unat off) (unat off + unat len)
      else Done [])"

definition decode_cookie :: "bytes \<Rightarrow> Header \<Rightarrow> (FrameErr, Cookie option) outcome" where
  "decode_cookie frame hdr =
     (if 0 < h_CoffOff hdr then
        if h_CoffZipf hdr \<noteq> 0 then Done None
        else if length frame < unat (h_CoffOff hdr) + CookieWire then Fail ErrInvalidOffset
        else go_bind (go_slice frame (unat (h_CoffOff hdr)) (unat (h_CoffOff hdr) + CookieWire))
               (\<lambda>s. go_bind (DecodeCookie s) (\<lambda>c. Done (Some c)))
      else Done None)"

definition decode_body :: "bytes \<Rightarrow> Header \<Rightarrow> (FrameErr, bytes) outcome" where
  "decode_body frame hdr =
     (if 0 < h_BodyOff hdr then
        if length frame < unat (h_BodyOff hdr) then Fail ErrInvalidOffset
        else go_slice frame (unat (h_BodyOff hdr)) (length frame)
      else Done [])"

definition DecodeFrame :: "bytes \<Rightarrow> (FrameErr, DecodedFrame) outcome" where
  "DecodeFrame frame =
     (if length frame < HdrSize then Fail ErrFrameTooShort
      else go_bind (go_slice frame 0 HdrSize)
        (\<lambda>hs. go_bind (DecodeHeader hs)
        (\<lambda>hdr. if unat (h_Length hdr) \<noteq> length frame then Fail ErrInvalidLength
         else go_bind (decode_navis frame hdr)
        (\<lambda>navis. go_bind (decode_span frame (h_ErrmLen hdr) (h_ErrmOff hdr))
        (\<lambda>errm. go_bind (decode_span frame (h_PkeyLen hdr) (h_PkeyOff hdr))
        (\<lambda>pkey. go_bind (decode_span frame (h_NkeyLen hdr) (h_NkeyOff hdr))
        (\<lambda>nkey. go_bind (decode_cookie frame hdr)
        (\<lambda>cookie. go_bind (decode_body frame hdr)
        (\<lambda>body. Done \<lparr>df_Header = hdr, df_Navis = navis, df_ErrMsg = errm, df_Pkey = pkey,
                    df_Nkey = nkey, df_Cookie = cookie, df_Body = body,
                    df_BodyZipf = h_BodyZipf hdr\<rparr>)))))))))"

section \<open>Header layout\<close>

text \<open>Array lengths, and the three offsets that have 24 bits on the wire.\<close>

definition wf_Header :: "Header \<Rightarrow> bool" where
  "wf_Header h \<longleftrightarrow> length (h_Xchg h) = LXchg \<and> length (h_Rkey h) = LRkey \<and>
     length (h_Wkey h) = 8 \<and> length (h_Chan h) = 4 \<and> length (h_TraceID h) = TraceIDSize \<and>
     h_CoffOff h < 2 ^ 24 \<and> h_SoffOff h < 2 ^ 24 \<and> h_BodyOff h < 2 ^ 24"

definition header_image :: "Header \<Rightarrow> bytes" where
  "header_image h = putU32 (h_Length h) @
     [h_Func h, h_Subc h, h_Nvia h, h_Dirf h, h_Msgf h, h_Ctlf h, 0, h_Keyc h] @
     h_Xchg h @ h_Rkey h @ putU32 (h_Ckey h) @ putU32 (h_Clid h) @ h_Wkey h @ h_Chan h @
     putU32 (h_Errn h) @ encodeWhere (h_CoffZipf h) (h_CoffOff h) @
     encodeWhere (h_SoffZipf h) (h_SoffOff h) @ encodeSzoff (h_ErrmLen h) (h_ErrmOff h) @
     encodeSzoff (h_PkeyLen h) (h_PkeyOff h) @ encodeSzoff (h_NkeyLen h) (h_NkeyOff h) @
     encodeWhere (h_BodyZipf h) (h_BodyOff h) @ h_TraceID h"

lemma length_header_image [wire_simps]: "wf_Header h \<Longrightarrow> length (header_image h) = HdrSize"
  by (simp add: wf_Header_def header_image_def)

lemma header_of_image: "wf_Header h \<Longrightarrow> header_of (header_image h) = h"
  by (simp add: wf_Header_def header_image_def header_of_def wire_simps)

interpretation hdr: fixed_wire header_image header_of wf_Header HdrSize
  by unfold_locales (simp_all add: length_header_image header_of_image)

lemma EncodeHeader_image:
  assumes "wf_Header h" "HdrSize \<le> length dst"
  shows "EncodeHeader dst h = Done (header_image h @ drop HdrSize dst)"
  using assms by (simp add: EncodeHeader_def wf_Header_def header_image_def writes_contig
      del: writes.simps)


section \<open>What EncodeFrame writes\<close>

definition wf_FrameInput :: "FrameInput \<Rightarrow> bool" where
  "wf_FrameInput inp \<longleftrightarrow> length (in_Wkey inp) = 8 \<and> length (in_Chan inp) = 4 \<and>
     length (in_TraceID inp) = TraceIDSize \<and> list_all wf_Navi (in_Navis inp) \<and>
     (case in_Cookie inp of None \<Rightarrow> True | Some c \<Rightarrow> wf_Cookie c)"

definition frame_fits :: "FrameInput \<Rightarrow> bool" where
  "frame_fits inp \<longleftrightarrow> length (in_Navis inp) \<le> MaxVia \<and> length (in_Pkey inp) \<le> LSkey \<and>
     length (in_Nkey inp) \<le> LSkey \<and> frame_size inp \<le> MaxMsgSize"

text \<open>The header updates of the regions, as a function of the offset of the region.\<close>

definition with_errm :: "FrameInput \<Rightarrow> nat \<Rightarrow> Header \<Rightarrow> Header" where
  "with_errm inp off h = (if in_ErrMsg inp = [] then h
     else h\<lparr>h_Msgf := h_Msgf h OR MsgfErr, h_ErrmLen := word_of_nat (length (in_ErrMsg inp)),
            h_ErrmOff := word_of_nat off\<rparr>)"

definition with_pkey :: "FrameInput \<Rightarrow> nat \<Rightarrow> Header \<Rightarrow> Header" where
  "with_pkey inp off h = (if in_Pkey inp = [] then h
     else h\<lparr>h_PkeyLen := word_of_nat (length (in_Pkey inp)), h_PkeyOff := word_of_nat off\<rparr>)"

definition with_nkey :: "FrameInput \<Rightarrow> nat \<Rightarrow> Header \<Rightarrow> Header" where
  "with_nkey inp off h = (if in_Nkey inp = [] then h
     else h\<lparr>h_NkeyLen := word_of_nat (length (in_Nkey inp)), h_NkeyOff := word_of_nat off\<rparr>)"

definition with_cookie :: "FrameInput \<Rightarrow> nat \<Rightarrow> Header \<Rightarrow> Header" where
  "with_cookie inp off h = (if in_Cookie inp = None then h
     else h\<lparr>h_CoffZipf := 0, h_CoffOff := word_of_nat off\<rparr>)"

definition with_body :: "FrameInput \<Rightarrow> nat \<Rightarrow> Header \<Rightarrow> Header" where
  "with_body inp off h = (if in_Body inp = [] then h
     else h\<lparr>h_BodyZipf := 0, h_BodyOff := word_of_nat off\<rparr>)"

definition cookie_bytes :: "FrameInput \<Rightarrow> bytes" where
  "cookie_bytes inp = (case in_Cookie inp of None \<Rightarrow> [] | Some c \<Rightarrow> cookie_image c)"

definition errm_off :: "FrameInput \<Rightarrow> nat" where
  "errm_off inp = HdrSize + NaviSize * length (in_Navis inp)"

definition pkey_off :: "FrameInput \<Rightarrow> nat" where
  "pkey_off inp = errm_off inp + length (in_ErrMsg inp)"

definition nkey_off :: "FrameInput \<Rightarrow> nat" where
  "nkey_off inp = pkey_off inp + length (in_Pkey inp)"

definition cookie_off :: "FrameInput \<Rightarrow> nat" where
  "cookie_off inp = nkey_off inp + length (in_Nkey inp)"

definition body_off :: "FrameInput \<Rightarrow> nat" where
  "body_off inp = cookie_off inp + length (cookie_bytes inp)"

lemmas frame_offs = errm_off_def pkey_off_def nkey_off_def cookie_off_def body_off_def
lemmas with_defs = with_errm_def with_pkey_def with_nkey_def with_cookie_def with_body_def

definition final_header :: "FrameInput \<Rightarrow> Header" where
  "final_header inp =
     (with_body inp (body_off inp) (with_cookie inp (cookie_off inp) (with_nkey inp (nkey_off inp)
       (with_pkey inp (pkey_off inp) (with_errm inp (errm_off inp) (base_header inp))))))
     \<lparr>h_Length := word_of_nat (frame_size inp)\<rparr>"

definition frame_image :: "FrameInput \<Rightarrow> bytes" where
  "frame_image inp = header_image (final_header inp) @ concat (map navi_image (in_Navis inp)) @
     in_ErrMsg inp @ in_Pkey inp @ in_Nkey inp @ cookie_bytes inp @ in_Body inp"

text \<open>A layout in progress: the bytes laid out so far, and the zeros that remain.\<close>

definition laid :: "bytes \<Rightarrow> nat \<Rightarrow> Header \<Rightarrow> layout_st" where
  "laid d k h = \<lparr>ls_buf = d @ replicate k 0, ls_hdr = h, ls_cur = length d\<rparr>"

lemma laid_sel [simp]:
  "ls_buf (laid d k h) = d @ replicate k 0" "ls_hdr (laid d k h) = h"
  "ls_cur (laid d k h) = length d"
  by (simp_all add: laid_def)

lemma put_region_laid:
  assumes "length bs \<le> k"
  shows "put_region (laid d k h) upd bs = Done (laid (d @ bs) (k - length bs) (upd h))"
  using assms by (simp add: put_region_def write_at_def laid_def)

lemma put_errm_laid:
  "length (in_ErrMsg inp) \<le> k \<Longrightarrow> put_errm inp (laid d k h) =
     Done (laid (d @ in_ErrMsg inp) (k - length (in_ErrMsg inp)) (with_errm inp (length d) h))"
  by (simp add: put_errm_def with_errm_def put_region_laid)

lemma put_pkey_laid:
  "length (in_Pkey inp) \<le> k \<Longrightarrow> put_pkey inp (laid d k h) =
     Done (laid (d @ in_Pkey inp) (k - length (in_Pkey inp)) (with_pkey inp (length d) h))"
  by (simp add: put_pkey_def with_pkey_def put_region_laid)

lemma put_nkey_laid:
  "length (in_Nkey inp) \<le> k \<Longrightarrow> put_nkey inp (laid d k h) =
     Done (laid (d @ in_Nkey inp) (k - length (in_Nkey inp)) (with_nkey inp (length d) h))"
  by (simp add: put_nkey_def with_nkey_def put_region_laid)

lemma put_body_laid:
  "length (in_Body inp) \<le> k \<Longrightarrow> put_body inp (laid d k h) =
     Done (laid (d @ in_Body inp) (k - length (in_Body inp)) (with_body inp (length d) h))"
  by (simp add: put_body_def with_body_def put_region_laid)

lemma put_cookie_laid:
  assumes "wf_FrameInput inp" "length (cookie_bytes inp) \<le> k"
  shows "put_cookie inp (laid d k h) =
     Done (laid (d @ cookie_bytes inp) (k - length (cookie_bytes inp)) (with_cookie inp (length d) h))"
proof (cases "in_Cookie inp")
  case None
  then show ?thesis by (simp add: put_cookie_def with_cookie_def cookie_bytes_def)
next
  case (Some c)
  then have c: "wf_Cookie c" "CookieWire \<le> k"
    using assms by (simp_all add: wf_FrameInput_def cookie_bytes_def length_cookie_image)
  then show ?thesis
    using Some put_region_laid [of "cookie_image c" k d h]
    by (simp add: put_cookie_def with_cookie_def cookie_bytes_def go_simps EncodeCookie_image
        length_cookie_image)
qed

lemma encode_navis_image:
  "list_all wf_Navi ns \<Longrightarrow> off = length p \<Longrightarrow>
   encode_navis (p @ replicate (NaviSize * length ns) 0 @ d) off ns =
     Done (p @ concat (map navi_image ns) @ d)"
proof (induction ns arbitrary: p off)
  case Nil
  then show ?case by simp
next
  case (Cons n ns)
  let ?z = "replicate (NaviSize * length ns) (0 :: byte)"
  have z: "replicate (NaviSize + NaviSize * length ns) (0 :: byte) = replicate NaviSize 0 @ ?z"
    by (rule replicate_add)
  have "write_at (p @ replicate NaviSize 0 @ ?z @ d) off (navi_image n) = p @ navi_image n @ ?z @ d"
    using Cons.prems by (intro write_at_mid) (simp_all add: length_navi_image)
  then show ?case
    using Cons.prems Cons.IH [of "off + NaviSize" "p @ navi_image n"]
    by (simp add: z go_slice_Done EncodeNavi_image length_navi_image)
qed

lemma frame_size_offs: "wf_FrameInput inp \<Longrightarrow> frame_size inp = body_off inp + length (in_Body inp)"
  by (auto simp: frame_size_def frame_offs cookie_bytes_def wf_FrameInput_def length_cookie_image
      split: option.splits)

lemma u32_of_nat_less: "n < 2 ^ 24 \<Longrightarrow> (word_of_nat n :: u32) < 2 ^ 24"
  by (simp add: word_less_nat_alt unat_of_nat)

lemma frame_fits_offs:
  assumes "wf_FrameInput inp" "frame_fits inp"
  shows "body_off inp < 2 ^ 24" "cookie_off inp < 2 ^ 24"
  using assms frame_size_offs [of inp] by (simp_all add: frame_fits_def frame_offs)

lemma wf_final_header:
  assumes "wf_FrameInput inp" "frame_fits inp"
  shows "wf_Header (final_header inp)"
  using assms frame_fits_offs [OF assms] u32_of_nat_less
  by (simp add: wf_Header_def final_header_def with_defs base_header_def wf_FrameInput_def)

text \<open>EncodeFrame succeeds exactly within the size limits, and writes the image.\<close>

lemma EncodeFrame_image:
  assumes "wf_FrameInput inp" "frame_fits inp"
  shows "EncodeFrame inp = Done (frame_image inp)"
proof -
  let ?k = "length (in_Navis inp)"
  let ?d = "in_ErrMsg inp @ in_Pkey inp @ in_Nkey inp @ cookie_bytes inp @ in_Body inp"
  let ?z = "replicate HdrSize (0 :: byte) @ replicate (NaviSize * ?k) 0"
  have buf: "replicate (frame_size inp) 0 = ?z @ replicate (length ?d) 0"
    by (simp add: frame_size_offs [OF assms(1)] frame_offs replicate_add [symmetric] ac_simps)
  have start: "\<lparr>ls_buf = replicate (frame_size inp) 0, ls_hdr = base_header inp,
      ls_cur = HdrSize + NaviSize * ?k\<rparr> = laid ?z (length ?d) (base_header inp)"
    using buf by (simp add: laid_def)
  have size: "frame_size inp = HdrSize + NaviSize * ?k + length ?d"
    by (simp add: frame_size_offs [OF assms(1)] frame_offs)
  have hdr: "EncodeHeader (replicate HdrSize 0) (final_header inp) = Done (header_image (final_header inp))"
    using EncodeHeader_image [OF wf_final_header [OF assms], of "replicate HdrSize 0"] by simp
  have len: "length (header_image (final_header inp)) = HdrSize"
    using wf_final_header [OF assms] by (rule length_header_image)
  have navis: "encode_navis (header_image (final_header inp) @ replicate (NaviSize * ?k) 0 @ ?d)
      HdrSize (in_Navis inp) = Done (frame_image inp)"
    using assms(1) len encode_navis_image [of "in_Navis inp" HdrSize "header_image (final_header inp)" ?d]
    by (simp add: frame_image_def wf_FrameInput_def)
  have "length (frame_image inp) = frame_size inp"
    using assms(1) len size by (simp add: frame_image_def wf_FrameInput_def navi.length_enc_array)
  moreover have "write_at (?z @ ?d) 0 (header_image (final_header inp)) =
      header_image (final_header inp) @ replicate (NaviSize * ?k) 0 @ ?d"
    using len by (simp add: write_at_def)
  moreover have "(ls_hdr (laid (?z @ ?d) 0 (with_body inp (body_off inp) (with_cookie inp (cookie_off inp)
      (with_nkey inp (nkey_off inp) (with_pkey inp (pkey_off inp) (with_errm inp (errm_off inp)
      (base_header inp))))))))\<lparr>h_Length := word_of_nat (frame_size inp)\<rparr> = final_header inp"
    by (simp add: final_header_def)
  ultimately show ?thesis
    using assms(2) hdr navis size unfolding EncodeFrame_def frame_fits_def start
    by (simp add: put_errm_laid put_pkey_laid put_nkey_laid put_cookie_laid [OF assms(1)]
        put_body_laid Let_def go_slice_Done wire_simps frame_offs ac_simps)
qed

lemma EncodeFrame_not_Panic: "wf_FrameInput inp \<Longrightarrow> EncodeFrame inp \<noteq> Panic"
  using EncodeFrame_image [of inp] by (auto simp: EncodeFrame_def frame_fits_def not_less)

section \<open>What DecodeFrame reads\<close>

lemma decode_navi_loop_map:
  "off + NaviSize * n \<le> length frame \<Longrightarrow> decode_navi_loop frame off n =
     Done (map (\<lambda>i. navi_of (bslice frame (off + NaviSize * i) (off + NaviSize * i + NaviSize))) [0..<n])"
proof (induction n arbitrary: off)
  case 0
  then show ?case by simp
next
  case (Suc n)
  have "[0..<Suc n] = 0 # map Suc [0..<n]"
    by (simp add: upt_conv_Cons map_Suc_upt del: upt_Suc)
  then show ?case
    using Suc.prems Suc.IH [of "off + NaviSize"]
    by (simp add: go_slice_Done DecodeNavi_def comp_def ac_simps del: upt_Suc)
qed

lemma decode_navis_no_panic: "decode_navis frame hdr \<noteq> Panic"
  by (auto simp: decode_navis_def decode_navi_loop_map)

lemma decode_span_no_panic: "decode_span frame len off \<noteq> Panic"
  by (auto simp: decode_span_def go_slice_def)

lemma decode_cookie_no_panic: "decode_cookie frame hdr \<noteq> Panic"
  by (auto simp: decode_cookie_def go_slice_def DecodeCookie_def)

lemma decode_body_no_panic: "decode_body frame hdr \<noteq> Panic"
  by (auto simp: decode_body_def go_slice_def)

lemmas decode_no_panic = decode_navis_no_panic decode_span_no_panic decode_cookie_no_panic
  decode_body_no_panic

lemma DecodeFrame_not_Panic: "DecodeFrame frame \<noteq> Panic"
  by (auto simp: DecodeFrame_def go_simps decode_no_panic go_slice_def DecodeHeader_def)

lemma decode_navis_wf:
  "decode_navis frame hdr = Done ns \<Longrightarrow>
   length ns = unat (h_Nvia hdr) \<and> length ns \<le> MaxVia \<and> list_all wf_Navi ns"
  by (auto simp: decode_navis_def decode_navi_loop_map list_all_iff word_less_nat_alt
      intro!: wf_navi_of split: if_splits)

lemma decode_cookie_wf:
  "decode_cookie frame hdr = Done ck \<Longrightarrow> case ck of None \<Rightarrow> True | Some c \<Rightarrow> wf_Cookie c"
  by (auto simp: decode_cookie_def go_simps go_slice_def DecodeCookie_def
      intro!: wf_cookie_of split: if_splits)

lemma decode_body_suffix: "decode_body frame hdr = Done body \<Longrightarrow> \<exists>pre. frame = pre @ body"
  by (auto simp: decode_body_def go_slice_def bslice_to_end split: if_splits
      intro: append_take_drop_id [symmetric])

lemma final_header_fields:
  "h_Nvia (final_header inp) = word_of_nat (length (in_Navis inp))"
  "h_Length (final_header inp) = word_of_nat (frame_size inp)"
  "h_ErrmLen (final_header inp) = (if in_ErrMsg inp = [] then 0 else word_of_nat (length (in_ErrMsg inp)))"
  "h_ErrmOff (final_header inp) = (if in_ErrMsg inp = [] then 0 else word_of_nat (errm_off inp))"
  "h_PkeyLen (final_header inp) = (if in_Pkey inp = [] then 0 else word_of_nat (length (in_Pkey inp)))"
  "h_PkeyOff (final_header inp) = (if in_Pkey inp = [] then 0 else word_of_nat (pkey_off inp))"
  "h_NkeyLen (final_header inp) = (if in_Nkey inp = [] then 0 else word_of_nat (length (in_Nkey inp)))"
  "h_NkeyOff (final_header inp) = (if in_Nkey inp = [] then 0 else word_of_nat (nkey_off inp))"
  "h_CoffZipf (final_header inp) = 0"
  "h_CoffOff (final_header inp) = (if in_Cookie inp = None then 0 else word_of_nat (cookie_off inp))"
  "h_BodyZipf (final_header inp) = 0"
  "h_BodyOff (final_header inp) = (if in_Body inp = [] then 0 else word_of_nat (body_off inp))"
  by (simp_all add: final_header_def with_defs base_header_def)

lemma decode_span_hit:
  assumes "off = length p" "0 < off" "x \<noteq> [] \<Longrightarrow> off < 65536" "length x < 65536"
  shows "decode_span (p @ x @ q) (if x = [] then 0 else word_of_nat (length x))
    (if x = [] then 0 else word_of_nat off) = Done x"
  using assms bslice_mid [of off p "off + length x" x q]
  by (auto simp: decode_span_def unat_of_nat go_slice_Done word_less_nat_alt)

lemma decode_body_hit:
  assumes "off = length p" "0 < off" "off < 2 ^ 24"
    and "h_BodyOff h = (if x = [] then 0 else word_of_nat off)"
  shows "decode_body (p @ x) h = Done x"
  using assms by (auto simp: decode_body_def unat_of_nat go_slice_Done word_less_nat_alt bslice_to_end)

lemma decode_cookie_hit:
  assumes "wf_FrameInput inp" "off = length p" "0 < off" "off < 2 ^ 24" "h_CoffZipf h = 0"
    and "h_CoffOff h = (if in_Cookie inp = None then 0 else word_of_nat off)"
  shows "decode_cookie (p @ cookie_bytes inp @ q) h = Done (in_Cookie inp)"
proof (cases "in_Cookie inp")
  case None
  then show ?thesis using assms by (simp add: decode_cookie_def)
next
  case (Some c)
  then have c: "wf_Cookie c" using assms(1) by (simp add: wf_FrameInput_def)
  have "off + CookieWire \<le> length (p @ cookie_image c @ q)"
    using assms(2) c by (simp add: length_cookie_image)
  then show ?thesis
    using Some c assms(2-6) cookie.dec_at [OF c, of off p q]
    by (simp add: decode_cookie_def cookie_bytes_def DecodeCookie_def unat_of_nat go_slice_Done
        word_less_nat_alt)
qed

lemma decode_navis_hit:
  assumes "list_all wf_Navi ns" "length ns \<le> MaxVia" "length p = HdrSize"
    and "h_Nvia h = word_of_nat (length ns)"
  shows "decode_navis (p @ concat (map navi_image ns) @ d) h = Done ns"
proof -
  have nv: "unat (h_Nvia h) = length ns"
    using assms(2,4) by (simp add: unat_of_nat)
  have len: "length (concat (map navi_image ns)) = NaviSize * length ns"
    using assms(1) by (rule navi.length_enc_array)
  show ?thesis
    using assms(1-3) len navi.dec_array [of ns HdrSize p d] nv
    by (cases "ns = []") (simp_all add: decode_navis_def word_less_nat_alt decode_navi_loop_map)
qed

lemma length_frame_image:
  "wf_FrameInput inp \<Longrightarrow> frame_fits inp \<Longrightarrow> length (frame_image inp) = frame_size inp"
  using frame_size_offs [of inp] length_header_image [OF wf_final_header [of inp]]
  by (simp add: frame_image_def frame_offs wf_FrameInput_def navi.length_enc_array)

text \<open>A frame whose key locators fit into 16 bits is read back in full.\<close>

lemma DecodeFrame_image:
  assumes wf: "wf_FrameInput inp" and fits: "frame_fits inp" and off: "nkey_off inp < 65536"
  shows "DecodeFrame (frame_image inp) =
    Done \<lparr>df_Header = final_header inp, df_Navis = in_Navis inp, df_ErrMsg = in_ErrMsg inp,
          df_Pkey = in_Pkey inp, df_Nkey = in_Nkey inp, df_Cookie = in_Cookie inp,
          df_Body = in_Body inp, df_BodyZipf = 0\<rparr>"
proof -
  let ?h = "header_image (final_header inp)" and ?n = "concat (map navi_image (in_Navis inp))"
  let ?H = "final_header inp" and ?f = "frame_image inp"
  have hl: "length ?h = HdrSize" using wf_final_header [OF wf fits] by (rule length_header_image)
  have nl: "length ?n = NaviSize * length (in_Navis inp)"
    using wf by (simp add: wf_FrameInput_def navi.length_enc_array)
  have fl: "length ?f = frame_size inp" using wf fits by (rule length_frame_image)
  have hs: "bslice ?f 0 HdrSize = ?h" using hl by (simp add: frame_image_def bslice_hit)
  have lens: "unat (h_Length ?H) = frame_size inp"
    using fits by (simp add: final_header_fields unat_of_nat frame_fits_def)
  have "decode_navis ?f ?H = Done (in_Navis inp)"
    using wf fits hl unfolding frame_image_def
    by (intro decode_navis_hit) (simp_all add: wf_FrameInput_def frame_fits_def final_header_fields)
  moreover have "decode_span ?f (h_ErrmLen ?H) (h_ErrmOff ?H) = Done (in_ErrMsg inp)"
    using decode_span_hit [of "errm_off inp" "?h @ ?n" "in_ErrMsg inp"] off hl nl
    by (simp add: final_header_fields frame_image_def frame_offs)
  moreover have "decode_span ?f (h_PkeyLen ?H) (h_PkeyOff ?H) = Done (in_Pkey inp)"
    using decode_span_hit [of "pkey_off inp" "?h @ ?n @ in_ErrMsg inp" "in_Pkey inp"] off hl nl
    by (simp add: final_header_fields frame_image_def frame_offs)
  moreover have "decode_span ?f (h_NkeyLen ?H) (h_NkeyOff ?H) = Done (in_Nkey inp)"
    using decode_span_hit [of "nkey_off inp" "?h @ ?n @ in_ErrMsg inp @ in_Pkey inp" "in_Nkey inp"]
      off hl nl fits by (simp add: final_header_fields frame_image_def frame_offs frame_fits_def)
  moreover have "decode_cookie ?f ?H = Done (in_Cookie inp)"
    using decode_cookie_hit [OF wf, of "cookie_off inp"
        "?h @ ?n @ in_ErrMsg inp @ in_Pkey inp @ in_Nkey inp" ?H] frame_fits_offs [OF wf fits] hl nl
    by (simp add: final_header_fields frame_image_def frame_offs)
  moreover have "decode_body ?f ?H = Done (in_Body inp)"
    using decode_body_hit [of "body_off inp"
        "?h @ ?n @ in_ErrMsg inp @ in_Pkey inp @ in_Nkey inp @ cookie_bytes inp" ?H "in_Body inp"]
      frame_fits_offs [OF wf fits] hl nl
    by (simp add: final_header_fields frame_image_def frame_offs)
  ultimately show ?thesis
    using fl hs lens header_of_image [OF wf_final_header [OF wf fits]] hl
    by (simp add: DecodeFrame_def go_slice_Done DecodeHeader_def final_header_fields frame_size_def)
qed

section \<open>Properties of frames\<close>


definition sample_navi :: Navi where
  "sample_navi = \<lparr>nv_Xchg = replicate 8 0x41, nv_Rkey = replicate 16 0x42, nv_Scid = 7, nv_Iama = 1,
     nv_Eatt = 0, nv_Zipf = 2, nv_Ncid = 3\<rparr>"

definition sample_input :: "bytes \<Rightarrow> FrameInput" where
  "sample_input errm =
     \<lparr>in_Func = FCTran, in_Subc = 0, in_Dirf = DirForward, in_Keyc = KeySend, in_Msgf = 0,
      in_Ctlf = 0, in_Xchg = [0x46, 0x58], in_Rkey = [0x4F, 0x52, 0x44], in_Ckey = 9, in_Clid = 5,
      in_Wkey = replicate 8 0, in_Chan = replicate 4 0x20, in_TraceID = replicate 16 0,
      in_Navis = [sample_navi], in_Errn = 0, in_ErrMsg = errm, in_Pkey = [], in_Nkey = [],
      in_Cookie = Some \<lparr>ck_Usid = replicate 16 1, ck_Name = replicate 12 2, ck_Maca = replicate 24 3,
        ck_Pcip = replicate 20 4, ck_Svip = replicate 20 5, ck_Clid = 6, ck_Coki = replicate 256 7\<rparr>,
      in_Body = [1, 2, 3]\<rparr>"

lemma sample_input_ok:
  "length errm \<le> 65536 \<Longrightarrow> wf_FrameInput (sample_input errm) \<and> frame_fits (sample_input errm)"
  by (simp add: sample_input_def sample_navi_def wf_FrameInput_def wf_Navi_def wf_Cookie_def
      frame_fits_def frame_size_def)


text \<open>C17: DecodeFrame never panics on any byte string, and an accepted frame has the length its
  header says, well-formed header, navigation entries (as many as the header says, at most 16)
  and cookie, and a body that is a suffix of the frame.\<close>

theorem DecodeFrame_safe:
  "case DecodeFrame frame of
     Panic \<Rightarrow> False
   | Fail e \<Rightarrow> True
   | Done df \<Rightarrow> unat (h_Length (df_Header df)) = length frame \<and> HdrSize \<le> length frame \<and>
       length (df_Navis df) = unat (h_Nvia (df_Header df)) \<and> length (df_Navis df) \<le> MaxVia \<and>
       list_all wf_Navi (df_Navis df) \<and>
       (case df_Cookie df of None \<Rightarrow> True | Some c \<Rightarrow> wf_Cookie c) \<and>
       (\<exists>pre. frame = pre @ df_Body df)"
proof (cases "DecodeFrame frame")
  case (Done df)
  then obtain hdr where fr: "HdrSize \<le> length frame" "unat (h_Length hdr) = length frame"
    and nv: "decode_navis frame hdr = Done (df_Navis df)"
    and ck: "decode_cookie frame hdr = Done (df_Cookie df)"
    and bd: "decode_body frame hdr = Done (df_Body df)" and h: "df_Header df = hdr"
    by (auto simp: DecodeFrame_def go_simps split: if_splits)
  show ?thesis
    using Done fr h decode_navis_wf [OF nv] decode_cookie_wf [OF ck] decode_body_suffix [OF bd] by simp
qed (use DecodeFrame_not_Panic [of frame] in simp_all)

text \<open>The size checks of EncodeFrame do not cover the 16-bit error locator: a frame whose error
  message has exactly 65536 bytes is encoded without an error and decoded without an error, but
  its error message is lost.\<close>

theorem frame_long_error_lost:
  assumes "wf_FrameInput inp" "frame_fits inp" "length (in_ErrMsg inp) = 65536"
    and "in_Pkey inp = []" "in_Nkey inp = []"
  shows "\<exists>df. go_bind (EncodeFrame inp) DecodeFrame = Done df \<and> df_ErrMsg df = [] \<and>
    df_Body df = in_Body inp"
proof -
  let ?h = "header_image (final_header inp)" and ?n = "concat (map navi_image (in_Navis inp))"
  let ?H = "final_header inp" and ?f = "frame_image inp"
  have hl: "length ?h = HdrSize" using wf_final_header [OF assms(1,2)] by (rule length_header_image)
  have nl: "length ?n = NaviSize * length (in_Navis inp)"
    using assms(1) by (simp add: wf_FrameInput_def navi.length_enc_array)
  have "decode_navis ?f ?H = Done (in_Navis inp)"
    using assms(1,2) hl unfolding frame_image_def
    by (intro decode_navis_hit) (simp_all add: wf_FrameInput_def frame_fits_def final_header_fields)
  moreover have "decode_cookie ?f ?H = Done (in_Cookie inp)"
    using decode_cookie_hit [OF assms(1), of "cookie_off inp"
        "?h @ ?n @ in_ErrMsg inp @ in_Pkey inp @ in_Nkey inp" ?H] frame_fits_offs [OF assms(1,2)] hl nl
    by (simp add: final_header_fields frame_image_def frame_offs)
  moreover have "decode_body ?f ?H = Done (in_Body inp)"
    using decode_body_hit [of "body_off inp"
        "?h @ ?n @ in_ErrMsg inp @ in_Pkey inp @ in_Nkey inp @ cookie_bytes inp" ?H "in_Body inp"]
      frame_fits_offs [OF assms(1,2)] hl nl
    by (simp add: final_header_fields frame_image_def frame_offs)
  moreover have "bslice ?f 0 HdrSize = ?h" using hl by (simp add: frame_image_def bslice_hit)
  moreover have "unat (h_Length ?H) = frame_size inp"
    using assms(2) by (simp add: final_header_fields unat_of_nat frame_fits_def)
  moreover have "(word_of_nat 65536 :: u16) = 0" by (simp only: word_of_nat_eq_0_iff) simp
  ultimately show ?thesis
    using assms hl length_frame_image [OF assms(1,2)] header_of_image [OF wf_final_header [OF assms(1,2)]]
    by (simp add: EncodeFrame_image DecodeFrame_def go_slice_Done DecodeHeader_def
        final_header_fields frame_size_def decode_span_def)
qed

theorem frame_long_error_lost_witness:
  "length (in_ErrMsg (sample_input (replicate 65536 0x41))) = 65536 \<and>
   (\<exists>df. go_bind (EncodeFrame (sample_input (replicate 65536 0x41))) DecodeFrame = Done df \<and>
      df_ErrMsg df = [])"
proof -
  let ?s = "sample_input (replicate 65536 0x41)"
  have "in_ErrMsg ?s = replicate 65536 0x41" "in_Pkey ?s = []" "in_Nkey ?s = []"
    by (simp_all add: sample_input_def)
  then show ?thesis
    using frame_long_error_lost [of ?s] sample_input_ok [of "replicate 65536 0x41"] by auto
qed

end
