(* ===== verification/Mymq_Control.thy ===== *)
theory Mymq_Control
  imports Mymq_Frame
begin

text \<open>
  Bodies of the control messages: the DECLARE_SESSION exchange of src/pkg/mymq/handshake.go, the
  CONNECT exchange and the BIND_SERVICE body of src/pkg/mymq/connect.go, and the broadcast prefix
  of src/pkg/mymq/pubsub.go.  A request is written into a zeroed buffer whose response area stays
  zero; the broker returns the same structure with the response area filled in.
\<close>

section \<open>DECLARE_SESSION\<close>

abbreviation (input) declareSessionSize :: nat where "declareSessionSize \<equiv> 88"

record DeclareSessionRequest =
  dr_ApplName :: bytes
  dr_User :: bytes
  dr_Pid :: u32
  dr_ExternalIP :: bytes
  dr_ExternalPort :: u32

record DeclareSessionResponse =
  ds_SocketID :: u32
  ds_SessionID :: u32
  ds_ConnectionID :: u32
  ds_HowToRouting :: "byte \<times> byte"
  ds_HowToBroadcast :: byte
  ds_LogSuffix :: byte
  ds_Heartbeat :: u32
  ds_CompressMethod :: u32
  ds_CompressSize :: u32

definition EncodeDeclareSessionRequest :: "DeclareSessionRequest \<Rightarrow> bytes" where
  "EncodeDeclareSessionRequest req =
     writes (replicate declareSessionSize 0)
       [(0, padCopyString 16 (dr_ApplName req)),
        (16, padCopyString 16 (dr_User req)),
        (32, putU32 (dr_Pid req)),
        (36, padCopyString 20 (dr_ExternalIP req)),
        (56, putU32 (dr_ExternalPort req))]"

definition DecodeDeclareSessionResponse :: "bytes \<Rightarrow> (FrameErr, DeclareSessionResponse) outcome" where
  "DecodeDeclareSessionResponse buf =
     (if length buf < declareSessionSize then Fail ErrFrameTooShort
      else let off = 16 + 16 + 4 + 20 + 4 in
        Done \<lparr>ds_SocketID = getU32 (bslice buf off (off + 4)),
              ds_SessionID = getU32 (bslice buf (off + 4) (off + 8)),
              ds_ConnectionID = getU32 (bslice buf (off + 8) (off + 12)),
              ds_HowToRouting = (buf ! (off + 12), buf ! (off + 13)),
              ds_HowToBroadcast = buf ! (off + 14),
              ds_LogSuffix = buf ! (off + 15),
              ds_Heartbeat = getU32 (bslice buf (off + 16) (off + 20)),
              ds_CompressMethod = getU32 (bslice buf (off + 20) (off + 24)),
              ds_CompressSize = getU32 (bslice buf (off + 24) (off + 28))\<rparr>)"

section \<open>CONNECT and BIND_SERVICE\<close>

abbreviation (input) instanceSize :: nat where "instanceSize \<equiv> 192"
abbreviation (input) connectionSize :: nat where "connectionSize \<equiv> 248"

record connectRequest =
  cr_MqHost :: bytes
  cr_MqPort :: u32
  cr_MqUser :: bytes
  cr_Pid :: u32
  cr_MyName :: bytes
  cr_ChName :: bytes
  cr_ChIpad :: bytes
  cr_ChPort :: u32
  cr_ExName :: bytes
  cr_ExType :: u32
  cr_QuName :: bytes
  cr_QuFlag :: u32
  cr_QuAttr :: u32
  cr_QuSize :: u32
  cr_QuExpt :: bytes

record ConnectResponse =
  cn_SocketID :: u32
  cn_ConnectionID :: u32
  cn_QueueName :: bytes
  cn_QueueKey :: u32
  cn_QueueID :: u32
  cn_QueueMsgID :: u32
  cn_QueueSize :: u32
  cn_HowToRouting :: "byte \<times> byte"
  cn_HowToBroadcast :: byte
  cn_LogSuffix :: byte
  cn_Heartbeat :: u32
  cn_CompressMethod :: u32
  cn_CompressSize :: u32

definition encodeConnectRequest :: "connectRequest \<Rightarrow> bytes" where
  "encodeConnectRequest req =
     writes (replicate connectionSize 0)
       [(0, padCopyString 24 (cr_MqHost req)),
        (24, putU32 (cr_MqPort req)),
        (28, padCopyString 16 (cr_MqUser req)),
        (44, putU32 (cr_Pid req)),
        (48, padCopyString 16 (cr_MyName req)),
        (64, padCopyString 16 (cr_ChName req)),
        (80, padCopyString 20 (cr_ChIpad req)),
        (100, putU32 (cr_ChPort req)),
        (104, padCopyString 16 (cr_ExName req)),
        (120, putU32 (cr_ExType req)),
        (124, padCopyString 16 (cr_QuName req)),
        (140, putU32 (cr_QuFlag req)),
        (144, putU32 (cr_QuAttr req)),
        (148, putU32 (cr_QuSize req)),
        (152, padCopyString 40 (cr_QuExpt req))]"

definition decodeConnectResponse :: "bytes \<Rightarrow> (FrameErr, ConnectResponse) outcome" where
  "decodeConnectResponse buf =
     (if length buf < connectionSize then Fail ErrFrameTooShort
      else let off = instanceSize in
        Done \<lparr>cn_SocketID = getU32 (bslice buf off (off + 4)),
              cn_ConnectionID = getU32 (bslice buf (off + 4) (off + 8)),
              cn_QueueName = trimNulString (bslice buf (off + 8) (off + 24)),
              cn_QueueKey = getU32 (bslice buf (off + 24) (off + 28)),
              cn_QueueID = getU32 (bslice buf (off + 28) (off + 32)),
              cn_QueueMsgID = getU32 (bslice buf (off + 32) (off + 36)),
              cn_QueueSize = getU32 (bslice buf (off + 36) (off + 40)),
              cn_HowToRouting = (buf ! (off + 40), buf ! (off + 41)),
              cn_HowToBroadcast = buf ! (off + 42),
              cn_LogSuffix = buf ! (off + 43),
              cn_Heartbeat = getU32 (bslice buf (off + 44) (off + 48)),
              cn_CompressMethod = getU32 (bslice buf (off + 48) (off + 52)),
              cn_CompressSize = getU32 (bslice buf (off + 52) (off + 56))\<rparr>)"

text \<open>\<open>copy\<close> into the zeroed 16-byte halves truncates and leaves zeros.\<close>

definition bindServiceBody :: "bytes \<Rightarrow> bytes \<Rightarrow> bytes" where
  "bindServiceBody exchange rkey =
     writes (replicate 32 0) [(0, take 16 exchange), (16, take 16 rkey)]"

section \<open>Broadcast prefix\<close>

abbreviation (input) broadcastPrefixSize :: nat where "broadcastPrefixSize \<equiv> 92"

record BroadcastHeader =
  bh_IPAddr :: bytes
  bh_Exchange :: bytes
  bh_Chan :: bytes
  bh_User :: bytes
  bh_LogonID :: bytes
  bh_Function :: byte
  bh_SubFunction :: byte
  bh_ViaNet :: byte
  bh_Debug :: byte

definition IPAddrString :: "BroadcastHeader \<Rightarrow> bytes" where
  "IPAddrString h = trimNulString (bh_IPAddr h)"

definition ExchangeString :: "BroadcastHeader \<Rightarrow> bytes" where
  "ExchangeString h = trimNulString (bh_Exchange h)"

definition ChanString :: "BroadcastHeader \<Rightarrow> bytes" where
  "ChanString h = trimNulString (bh_Chan h)"

definition UserString :: "BroadcastHeader \<Rightarrow> bytes" where
  "UserString h = trimNulString (bh_User h)"

definition LogonIDString :: "BroadcastHeader \<Rightarrow> bytes" where
  "LogonIDString h = trimNulString (bh_LogonID h)"

definition EncodeBroadcastHeader :: "bytes \<Rightarrow> BroadcastHeader \<Rightarrow> ('e, bytes) outcome" where
  "EncodeBroadcastHeader dst h =
     (if length dst < broadcastPrefixSize then Panic
      else Done (writes dst
        [(0, bh_IPAddr h),
         (24, bh_Exchange h),
         (40, bh_Chan h),
         (56, bh_User h),
         (72, bh_LogonID h),
         (88, [bh_Function h]),
         (89, [bh_SubFunction h]),
         (90, [bh_ViaNet h]),
         (91, [bh_Debug h])]))"

definition broadcast_of :: "bytes \<Rightarrow> BroadcastHeader" where
  "broadcast_of src =
     \<lparr>bh_IPAddr = bslice src 0 24,
      bh_Exchange = bslice src 24 40,
      bh_Chan = bslice src 40 56,
      bh_User = bslice src 56 72,
      bh_LogonID = bslice src 72 88,
      bh_Function = src ! 88,
      bh_SubFunction = src ! 89,
      bh_ViaNet = src ! 90,
      bh_Debug = src ! 91\<rparr>"

definition DecodeBroadcastHeader :: "bytes \<Rightarrow> (FrameErr, BroadcastHeader) outcome" where
  "DecodeBroadcastHeader src =
     (if length src < broadcastPrefixSize then Fail ErrFrameTooShort else Done (broadcast_of src))"

definition SplitBroadcast :: "bytes \<Rightarrow> BroadcastHeader option \<times> bytes \<times> FrameErr option" where
  "SplitBroadcast body =
     (if length body < broadcastPrefixSize then (None, body, None)
      else case DecodeBroadcastHeader (bslice body 0 broadcastPrefixSize) of
             Done h \<Rightarrow> (Some h, drop broadcastPrefixSize body, None)
           | Fail e \<Rightarrow> (None, body, Some e)
           | Panic \<Rightarrow> (None, body, None))"

section \<open>Layouts\<close>

definition wf_Broadcast :: "BroadcastHeader \<Rightarrow> bool" where
  "wf_Broadcast h \<longleftrightarrow> length (bh_IPAddr h) = 24 \<and> length (bh_Exchange h) = 16 \<and>
     length (bh_Chan h) = 16 \<and> length (bh_User h) = 16 \<and> length (bh_LogonID h) = 16"

definition broadcast_image :: "BroadcastHeader \<Rightarrow> bytes" where
  "broadcast_image h = bh_IPAddr h @ bh_Exchange h @ bh_Chan h @ bh_User h @ bh_LogonID h @
     [bh_Function h, bh_SubFunction h, bh_ViaNet h, bh_Debug h]"

lemma length_broadcast_image [wire_simps]:
  "wf_Broadcast h \<Longrightarrow> length (broadcast_image h) = broadcastPrefixSize"
  by (simp add: wf_Broadcast_def broadcast_image_def)

lemma broadcast_of_image: "wf_Broadcast h \<Longrightarrow> broadcast_of (broadcast_image h) = h"
  by (simp add: wf_Broadcast_def broadcast_image_def broadcast_of_def wire_simps)

interpretation bcast: fixed_wire broadcast_image broadcast_of wf_Broadcast broadcastPrefixSize
  by unfold_locales (simp_all add: length_broadcast_image broadcast_of_image)

lemma EncodeBroadcastHeader_image:
  assumes "wf_Broadcast h" "broadcastPrefixSize \<le> length dst"
  shows "EncodeBroadcastHeader dst h = Done (broadcast_image h @ drop broadcastPrefixSize dst)"
  using assms by (simp add: EncodeBroadcastHeader_def wf_Broadcast_def broadcast_image_def writes_contig
      del: writes.simps)

text \<open>The response areas as the broker fills them in.\<close>

definition session_area :: "DeclareSessionResponse \<Rightarrow> bytes" where
  "session_area r = putU32 (ds_SocketID r) @ putU32 (ds_SessionID r) @ putU32 (ds_ConnectionID r) @
     [fst (ds_HowToRouting r), snd (ds_HowToRouting r), ds_HowToBroadcast r, ds_LogSuffix r] @
     putU32 (ds_Heartbeat r) @ putU32 (ds_CompressMethod r) @ putU32 (ds_CompressSize r)"

definition connect_area :: "ConnectResponse \<Rightarrow> bytes" where
  "connect_area r = putU32 (cn_SocketID r) @ putU32 (cn_ConnectionID r) @
     padCopyString 16 (cn_QueueName r) @ putU32 (cn_QueueKey r) @ putU32 (cn_QueueID r) @
     putU32 (cn_QueueMsgID r) @ putU32 (cn_QueueSize r) @
     [fst (cn_HowToRouting r), snd (cn_HowToRouting r), cn_HowToBroadcast r, cn_LogSuffix r] @
     putU32 (cn_Heartbeat r) @ putU32 (cn_CompressMethod r) @ putU32 (cn_CompressSize r)"

lemma EncodeDeclareSessionRequest_image:
  "EncodeDeclareSessionRequest req =
     (padCopyString 16 (dr_ApplName req) @ padCopyString 16 (dr_User req) @ putU32 (dr_Pid req) @
      padCopyString 20 (dr_ExternalIP req) @ putU32 (dr_ExternalPort req)) @ replicate 28 0"
  by (simp add: EncodeDeclareSessionRequest_def writes_contig del: writes.simps)

lemma encodeConnectRequest_image:
  "encodeConnectRequest req =
     (padCopyString 24 (cr_MqHost req) @ putU32 (cr_MqPort req) @ padCopyString 16 (cr_MqUser req) @
      putU32 (cr_Pid req) @ padCopyString 16 (cr_MyName req) @ padCopyString 16 (cr_ChName req) @
      padCopyString 20 (cr_ChIpad req) @ putU32 (cr_ChPort req) @ padCopyString 16 (cr_ExName req) @
      putU32 (cr_ExType req) @ padCopyString 16 (cr_QuName req) @ putU32 (cr_QuFlag req) @
      putU32 (cr_QuAttr req) @ putU32 (cr_QuSize req) @ padCopyString 40 (cr_QuExpt req)) @
     replicate 56 0"
  by (simp add: encodeConnectRequest_def writes_contig del: writes.simps)

lemma session_response:
  assumes "length p = 60"
  shows "DecodeDeclareSessionResponse (p @ session_area r @ q) = Done r"
  using assms by (simp add: DecodeDeclareSessionResponse_def session_area_def Let_def wire_simps)

lemma connect_response:
  assumes "length p = instanceSize" "0 \<notin> set (cn_QueueName r)" "length (cn_QueueName r) \<le> 16"
  shows "decodeConnectResponse (p @ connect_area r @ q) = Done r"
  using assms by (simp add: decodeConnectResponse_def connect_area_def Let_def wire_simps
      trimNulString_def trimNul_padCopyString)

section \<open>Properties of the control messages\<close>

text \<open>The CONNECT request has the 248 bytes of the wire structure with a zero response area,
  and when the broker fills that area in (echoing the request area), decodeConnectResponse reads
  exactly the values the broker wrote, for every queue name of at most 16 bytes without NUL.\<close>

theorem connect_exchange:
  assumes "0 \<notin> set (cn_QueueName r)" "length (cn_QueueName r) \<le> 16"
  shows "length (encodeConnectRequest req) = connectionSize \<and>
    drop instanceSize (encodeConnectRequest req) = replicate 56 0 \<and>
    decodeConnectResponse (write_at (encodeConnectRequest req) instanceSize (connect_area r)) = Done r"
proof -
  obtain p where p: "encodeConnectRequest req = p @ replicate 56 0" "length p = instanceSize"
    by (simp add: encodeConnectRequest_image)
  have "write_at (p @ replicate 56 0 @ []) instanceSize (connect_area r) = p @ connect_area r @ []"
    using p(2) by (intro write_at_mid) (simp_all add: connect_area_def)
  then show ?thesis
    using p connect_response [OF p(2) assms, of "[]"] by simp
qed

theorem connect_exchange_witness:
  "\<exists>r. cn_QueueName r = [0x71, 0x31] \<and>
     decodeConnectResponse (write_at (encodeConnectRequest
       \<lparr>cr_MqHost = [0x68], cr_MqPort = 5000, cr_MqUser = [], cr_Pid = 42, cr_MyName = [0x61],
        cr_ChName = [], cr_ChIpad = [], cr_ChPort = 0, cr_ExName = [], cr_ExType = 0,
        cr_QuName = [0x71], cr_QuFlag = 3, cr_QuAttr = 4, cr_QuSize = 0, cr_QuExpt = []\<rparr>)
       instanceSize (connect_area r)) = Done r"
  by (intro exI [of _ "\<lparr>cn_SocketID = 1, cn_ConnectionID = 2, cn_QueueName = [0x71, 0x31],
      cn_QueueKey = 3, cn_QueueID = 4, cn_QueueMsgID = 5, cn_QueueSize = 6, cn_HowToRouting = (0, 1),
      cn_HowToBroadcast = 0, cn_LogSuffix = 0, cn_Heartbeat = 30, cn_CompressMethod = 1,
      cn_CompressSize = 2048\<rparr>"] conjI connect_exchange [THEN conjunct2, THEN conjunct2]) simp_all

text \<open>The DECLARE_SESSION request has 88 bytes with a zero response area, and the response
  filled in by the broker is read back field by field.\<close>

theorem session_exchange:
  "length (EncodeDeclareSessionRequest req) = declareSessionSize \<and>
   drop 60 (EncodeDeclareSessionRequest req) = replicate 28 0 \<and>
   DecodeDeclareSessionResponse (write_at (EncodeDeclareSessionRequest req) 60 (session_area r)) = Done r"
proof -
  obtain p where p: "EncodeDeclareSessionRequest req = p @ replicate 28 0" "length p = 60"
    by (simp add: EncodeDeclareSessionRequest_image)
  have "write_at (p @ replicate 28 0 @ []) 60 (session_area r) = p @ session_area r @ []"
    using p(2) by (intro write_at_mid) (simp_all add: session_area_def)
  then show ?thesis
    using p session_response [OF p(2), of r "[]"] by simp
qed

text \<open>The broadcast prefix takes 92 bytes; a payload behind an encoded prefix is split into
  exactly that prefix and that payload, and a body shorter than the prefix is passed through
  unchanged without a header.\<close>

theorem broadcast_split:
  "(wf_Broadcast h \<longrightarrow>
     (\<exists>b. EncodeBroadcastHeader (replicate broadcastPrefixSize 0) h = (Done b :: (FrameErr, bytes) outcome) \<and>
        length b = 92 \<and> SplitBroadcast (b @ payload) = (Some h, payload, None))) \<and>
   (length short < 92 \<longrightarrow> SplitBroadcast short = (None, short, None))"
  by (auto simp: SplitBroadcast_def DecodeBroadcastHeader_def EncodeBroadcastHeader_image
      length_broadcast_image bslice_hit broadcast_of_image intro!: exI [of _ "broadcast_image h"])

theorem broadcast_split_witness:
  "\<exists>h b. EncodeBroadcastHeader (replicate broadcastPrefixSize 0) h = (Done b :: (FrameErr, bytes) outcome) \<and>
     SplitBroadcast (b @ [1, 2]) = (Some h, [1, 2], None)"
  using broadcast_split [of "\<lparr>bh_IPAddr = replicate 24 0, bh_Exchange = replicate 16 0,
      bh_Chan = replicate 16 0, bh_User = replicate 16 0, bh_LogonID = replicate 16 0x41,
      bh_Function = FCPush, bh_SubFunction = 54, bh_ViaNet = 0, bh_Debug = 0\<rparr>" "[1, 2]" "[]"]
  by (auto simp: wf_Broadcast_def)

end
