(* ===== verification/Mymq_Lzo.thy ===== *)
theory Mymq_Lzo
  imports Mymq_Codec
begin

text \<open>
  Body decompression: the LZO1X decoder of src/pkg/mymq/lzo.go and the dispatch on the
  compression method of src/pkg/mymq/compress.go.  The decoder state is the input that is left
  (\<open>in[ip:]\<close>), the output written so far (\<open>out[:op]\<close>) and the state variable of the opcode
  interpretation.  The Go ints are non-negative and bounded by the sizes, so they are naturals.
  The zlib reader of the Go distribution is the parameter \<open>inflate\<close> of the dispatch.
\<close>

section \<open>The decoder\<close>

datatype lzo_err = ErrLZOCorrupt | ErrLZOOutputMismatch

record lzo_st =
  lz_in :: bytes
  lz_out :: bytes
  lz_state :: nat

fun readU8 :: "bytes \<Rightarrow> (nat \<times> bytes) option" where
  "readU8 [] = None"
| "readU8 (b # r) = Some (unat b, r)"

fun extendLen :: "nat \<Rightarrow> nat \<Rightarrow> nat \<Rightarrow> bytes \<Rightarrow> (nat \<times> bytes) option" where
  "extendLen origSize base t [] = None"
| "extendLen origSize base t (b # r) =
     (if b = 0 then
        if origSize < t + 255 then None else extendLen origSize base (t + 255) r
      else Some (t + base + unat b, r))"

definition copyLit :: "nat \<Rightarrow> nat \<Rightarrow> bytes \<Rightarrow> bytes \<Rightarrow> (bytes \<times> bytes) option" where
  "copyLit origSize cnt inp out =
     (if length inp < cnt \<or> origSize < length out + cnt then None
      else Some (drop cnt inp, out @ take cnt inp))"

fun match_loop :: "nat \<Rightarrow> nat \<Rightarrow> bytes \<Rightarrow> bytes" where
  "match_loop mp 0 out = out"
| "match_loop mp (Suc k) out = match_loop (Suc mp) k (out @ [out ! mp])"

definition copyMatch :: "nat \<Rightarrow> nat \<Rightarrow> nat \<Rightarrow> bytes \<Rightarrow> bytes option" where
  "copyMatch origSize dist cnt out =
     (if length out < dist \<or> origSize < length out + cnt then None
      else Some (match_loop (length out - dist) cnt out))"

text \<open>One opcode: the decoder stops with a result, or goes on with a new state.\<close>

datatype lzo_res = LStop "lzo_err + bytes" | LNext lzo_st

definition corrupt :: lzo_res where
  "corrupt = LStop (Inl ErrLZOCorrupt)"

text \<open>The common tail of a match: copy it, then 0 to 3 trailing literals.\<close>

definition lzo_match :: "nat \<Rightarrow> nat \<Rightarrow> nat \<Rightarrow> nat \<Rightarrow> bytes \<Rightarrow> bytes \<Rightarrow> lzo_res" where
  "lzo_match origSize dist cnt trailSrc inp out =
     (case copyMatch origSize dist cnt out of
        None \<Rightarrow> corrupt
      | Some out1 \<Rightarrow>
          let state = trailSrc AND 3 in
          if 0 < state then
            (case copyLit origSize state inp out1 of
               None \<Rightarrow> corrupt
             | Some (inp2, out2) \<Rightarrow> LNext \<lparr>lz_in = inp2, lz_out = out2, lz_state = state\<rparr>)
          else LNext \<lparr>lz_in = inp, lz_out = out1, lz_state = state\<rparr>)"

text \<open>A length field: its low bits, or an extended length when they are zero.\<close>

definition lzo_len :: "nat \<Rightarrow> nat \<Rightarrow> nat \<Rightarrow> bytes \<Rightarrow> (nat \<times> bytes) option" where
  "lzo_len origSize base cnt inp = (if cnt = 0 then extendLen origSize base 0 inp else Some (cnt, inp))"

definition lzo_low :: "nat \<Rightarrow> nat \<Rightarrow> bytes \<Rightarrow> bytes \<Rightarrow> nat \<Rightarrow> lzo_res" where
  "lzo_low origSize t inp out state =
     (if state = 0 then
        (case lzo_len origSize 15 t inp of
           None \<Rightarrow> corrupt
         | Some (cnt, inp1) \<Rightarrow>
             (case copyLit origSize (cnt + 3) inp1 out of
                None \<Rightarrow> corrupt
              | Some (inp2, out2) \<Rightarrow> LNext \<lparr>lz_in = inp2, lz_out = out2, lz_state = 4\<rparr>))
      else
        (case readU8 inp of
           None \<Rightarrow> corrupt
         | Some (b2, inp1) \<Rightarrow>
             if state = 4
             then lzo_match origSize (drop_bit 2 t + push_bit 2 b2 + 2049) 3 t inp1 out
             else lzo_match origSize (drop_bit 2 t + push_bit 2 b2 + 1) 2 t inp1 out))"

definition lzo_m2 :: "nat \<Rightarrow> nat \<Rightarrow> bytes \<Rightarrow> bytes \<Rightarrow> lzo_res" where
  "lzo_m2 origSize t inp out =
     (case readU8 inp of
        None \<Rightarrow> corrupt
      | Some (b2, inp1) \<Rightarrow>
          lzo_match origSize ((drop_bit 2 t AND 7) + push_bit 3 b2 + 1) (drop_bit 5 t + 1) t inp1 out)"

definition read2 :: "bytes \<Rightarrow> (nat \<times> nat \<times> bytes) option" where
  "read2 inp =
     (case readU8 inp of
        None \<Rightarrow> None
      | Some (ds1, inp1) \<Rightarrow>
          (case readU8 inp1 of None \<Rightarrow> None | Some (ds2, inp2) \<Rightarrow> Some (ds1, ds2, inp2)))"

definition lzo_m3 :: "nat \<Rightarrow> nat \<Rightarrow> bytes \<Rightarrow> bytes \<Rightarrow> lzo_res" where
  "lzo_m3 origSize t inp out =
     (case lzo_len origSize 31 (t AND 31) inp of
        None \<Rightarrow> corrupt
      | Some (cnt, inp1) \<Rightarrow>
          (case read2 inp1 of
             None \<Rightarrow> corrupt
           | Some (ds1, ds2, inp2) \<Rightarrow>
               lzo_match origSize (drop_bit 2 ds1 + push_bit 6 ds2 + 1) (cnt + 2) ds1 inp2 out))"

definition lzo_m4 :: "nat \<Rightarrow> nat \<Rightarrow> bytes \<Rightarrow> bytes \<Rightarrow> lzo_res" where
  "lzo_m4 origSize t inp out =
     (let distHigh = push_bit 11 (t AND 8) in
      case lzo_len origSize 7 (t AND 7) inp of
        None \<Rightarrow> corrupt
      | Some (cnt, inp1) \<Rightarrow>
          (case read2 inp1 of
             None \<Rightarrow> corrupt
           | Some (ds1, ds2, inp2) \<Rightarrow>
               let d = drop_bit 2 ds1 + push_bit 6 ds2 in
               if distHigh = 0 \<and> d = 0 then
                 if inp2 \<noteq> [] then corrupt
                 else if length out \<noteq> origSize then LStop (Inl ErrLZOOutputMismatch)
                 else LStop (Inr out)
               else lzo_match origSize (distHigh + d + 0x4000) (cnt + 2) ds1 inp2 out))"

definition lzo_opcode :: "nat \<Rightarrow> lzo_st \<Rightarrow> lzo_res" where
  "lzo_opcode origSize st =
     (case readU8 (lz_in st) of
        None \<Rightarrow> corrupt
      | Some (t, inp) \<Rightarrow>
          if t < 16 then lzo_low origSize t inp (lz_out st) (lz_state st)
          else if 64 \<le> t then lzo_m2 origSize t inp (lz_out st)
          else if 32 \<le> t then lzo_m3 origSize t inp (lz_out st)
          else lzo_m4 origSize t inp (lz_out st))"

section \<open>Every opcode consumes input\<close>

lemma readU8_length: "readU8 inp = Some (t, r) \<Longrightarrow> length r < length inp"
  by (cases inp) auto

lemma extendLen_length: "extendLen os base t inp = Some (n, r) \<Longrightarrow> length r < length inp"
  by (induction os base t inp rule: extendLen.induct) (fastforce split: if_splits)+

lemma lzo_len_length: "lzo_len os base c inp = Some (n, r) \<Longrightarrow> length r \<le> length inp"
  by (auto simp: lzo_len_def split: if_splits dest: extendLen_length)

lemma copyLit_length: "copyLit os cnt inp out = Some (r, out') \<Longrightarrow> length r \<le> length inp"
  by (auto simp: copyLit_def split: if_splits)

lemma read2_length: "read2 inp = Some (a, b, r) \<Longrightarrow> length r \<le> length inp"
  by (auto simp: read2_def split: option.splits dest!: readU8_length)

lemma lzo_match_length: "lzo_match os d c tr inp out = LNext st \<Longrightarrow> length (lz_in st) \<le> length inp"
  by (auto simp: lzo_match_def corrupt_def Let_def split: option.splits if_splits
      dest: copyLit_length)

lemmas lzo_lengths = readU8_length lzo_len_length copyLit_length read2_length lzo_match_length

lemma lzo_opcode_length:
  assumes "lzo_opcode os st = LNext st'"
  shows "length (lz_in st') < length (lz_in st)"
proof -
  obtain t inp where t: "readU8 (lz_in st) = Some (t, inp)"
    using assms by (auto simp: lzo_opcode_def corrupt_def split: option.splits)
  have "lzo_low os t inp out s = LNext st' \<Longrightarrow> length (lz_in st') \<le> length inp" for out s
    by (auto simp: lzo_low_def corrupt_def split: option.splits if_splits dest!: lzo_lengths)
  moreover have "lzo_m2 os t inp out = LNext st' \<Longrightarrow> length (lz_in st') \<le> length inp" for out
    by (auto simp: lzo_m2_def corrupt_def split: option.splits dest!: lzo_lengths)
  moreover have "lzo_m3 os t inp out = LNext st' \<Longrightarrow> length (lz_in st') \<le> length inp" for out
    by (auto simp: lzo_m3_def corrupt_def split: option.splits dest!: lzo_lengths)
  moreover have "lzo_m4 os t inp out = LNext st' \<Longrightarrow> length (lz_in st') \<le> length inp" for out
    by (auto simp: lzo_m4_def corrupt_def Let_def split: option.splits if_splits dest!: lzo_lengths)
  ultimately show ?thesis
    using assms t readU8_length [OF t] by (auto simp: lzo_opcode_def split: if_splits) force+
qed

section \<open>The decoding loop\<close>

function lzo_loop :: "nat \<Rightarrow> lzo_st \<Rightarrow> lzo_err + bytes" where
  "lzo_loop origSize st =
     (case lzo_opcode origSize st of
        LStop r \<Rightarrow> r
      | LNext st' \<Rightarrow> lzo_loop origSize st')"
  by pat_completeness auto

termination lzo_loop
  by (relation "measure (\<lambda>(os, st). length (lz_in st))") (auto dest: lzo_opcode_length)

declare lzo_loop.simps [simp del]

definition decompressLZO1X :: "bytes \<Rightarrow> u32 \<Rightarrow> lzo_err + bytes" where
  "decompressLZO1X inp origSize =
     (let os = unat origSize in
      if os = 0 \<or> MaxMsgSize < os then Inl ErrLZOCorrupt
      else
        case inp of
          [] \<Rightarrow> Inl ErrLZOCorrupt
        | b # r \<Rightarrow>
            if 17 < b then
              let t = unat b - 17 in
              (case copyLit os t r [] of
                 None \<Rightarrow> Inl ErrLZOCorrupt
               | Some (inp1, out1) \<Rightarrow>
                   lzo_loop os \<lparr>lz_in = inp1, lz_out = out1, lz_state = (if t < 4 then t else 4)\<rparr>)
            else lzo_loop os \<lparr>lz_in = inp, lz_out = [], lz_state = 0\<rparr>)"

section \<open>Dispatch on the method\<close>

datatype zip_err = ErrTruncatedCompressed | ErrUnsupportedZipf | ErrZlib | ErrLZO lzo_err

definition decompressZlib :: "(bytes \<Rightarrow> bytes option) \<Rightarrow> bytes \<Rightarrow> u32 \<Rightarrow> zip_err + bytes" where
  "decompressZlib inflate payload origSize =
     (case inflate payload of None \<Rightarrow> Inl ErrZlib | Some out \<Rightarrow> Inr out)"

definition Decompress :: "(bytes \<Rightarrow> bytes option) \<Rightarrow> bytes \<Rightarrow> byte \<Rightarrow> zip_err + bytes" where
  "Decompress inflate src zipf =
     (if zipf = ZipfNone then Inr src
      else if length src < 4 then Inl ErrTruncatedCompressed
      else
        let origSize = getU32 (bslice src 0 4);
            payload = drop 4 src in
        if zipf = ZipfZlib then decompressZlib inflate payload origSize
        else if zipf = ZipfMlzo then
          (case decompressLZO1X payload origSize of Inl e \<Rightarrow> Inl (ErrLZO e) | Inr out \<Rightarrow> Inr out)
        else Inl ErrUnsupportedZipf)"

definition IsZipfSupported :: "byte \<Rightarrow> bool" where
  "IsZipfSupported zipf \<longleftrightarrow> zipf = ZipfNone \<or> zipf = ZipfZlib \<or> zipf = ZipfMlzo"

section \<open>The output has the announced size\<close>

lemma lzo_opcode_stop: "lzo_opcode os st = LStop (Inr out) \<Longrightarrow> length out = os"
  by (auto simp: lzo_opcode_def lzo_low_def lzo_m2_def lzo_m3_def lzo_m4_def lzo_match_def
      corrupt_def Let_def split: option.splits if_splits prod.splits)

lemma lzo_loop_size: "lzo_loop os st = Inr out \<Longrightarrow> length out = os"
proof (induction os st rule: lzo_loop.induct)
  case (1 os st)
  then show ?case
    by (subst (asm) (2) lzo_loop.simps) (auto split: lzo_res.splits dest: lzo_opcode_stop)
qed

lemma decompressLZO1X_size:
  "decompressLZO1X inp origSize = Inr out \<Longrightarrow>
   length out = unat origSize \<and> 0 < length out \<and> length out \<le> MaxMsgSize"
  by (auto simp: decompressLZO1X_def Let_def split: if_splits option.splits list.splits
      dest!: lzo_loop_size)

section \<open>Matches\<close>

lemma match_loop_length [simp]: "length (match_loop mp k out) = length out + k"
  by (induction mp k out rule: match_loop.induct) simp_all

lemma match_loop_prefix: "take (length out) (match_loop mp k out) = out"
proof (induction mp k out rule: match_loop.induct)
  case (1 mp out)
  then show ?case by simp
next
  case (2 mp k out)
  have "take (length out) (match_loop mp (Suc k) out) =
      take (length out) (take (length (out @ [out ! mp])) (match_loop (Suc mp) k (out @ [out ! mp])))"
    by simp
  then show ?case by (simp only: "2.IH") simp
qed

lemma match_loop_old: "i < length out \<Longrightarrow> match_loop mp k out ! i = out ! i"
  using match_loop_prefix [of out mp k] by (metis nth_take)

lemma match_loop_new:
  "mp < length out \<Longrightarrow> i < k \<Longrightarrow>
   match_loop mp k out ! (length out + i) = match_loop mp k out ! (mp + i)"
proof (induction mp k out arbitrary: i rule: match_loop.induct)
  case (1 mp out)
  then show ?case by simp
next
  case (2 mp k out)
  let ?o = "out @ [out ! mp]"
  show ?case
  proof (cases i)
    case 0
    have "match_loop (Suc mp) k ?o ! length out = ?o ! length out"
      by (rule match_loop_old) simp
    moreover have "match_loop (Suc mp) k ?o ! mp = ?o ! mp"
      using "2.prems" by (intro match_loop_old) simp
    ultimately show ?thesis using 0 "2.prems" by (simp add: nth_append)
  next
    case (Suc j)
    then show ?thesis using "2.IH" [of j] "2.prems" by simp
  qed
qed

lemma match_loop_run: "match_loop mp k (replicate (Suc mp) x) = replicate (Suc mp + k) x"
proof (induction k arbitrary: mp)
  case 0
  then show ?case by simp
next
  case (Suc k)
  have "replicate (Suc mp) x @ [replicate (Suc mp) x ! mp] = replicate (Suc (Suc mp)) x"
    by (simp add: replicate_append_same [symmetric] del: replicate_Suc)
       (simp add: replicate_append_same)
  then show ?case using Suc.IH [of "Suc mp"] by (simp only: match_loop.simps) simp
qed

section \<open>Streams with a known content\<close>

text \<open>The extended length field, a stream of one literal run and a stream of one long
  overlapping match: what the decoder must read back.\<close>

fun len_ext :: "nat \<Rightarrow> bytes" where
  "len_ext n = (if n \<le> 255 then [word_of_nat n] else 0 # len_ext (n - 255))"

declare len_ext.simps [simp del]

definition lzo_eof :: bytes where
  "lzo_eof = [0x11, 0, 0]"

definition lzo_store :: "bytes \<Rightarrow> bytes" where
  "lzo_store bs =
     (let n = length bs in
      (if n < 4 then [word_of_nat (17 + n)]
       else if n \<le> 18 then [word_of_nat (n - 3)]
       else 0 # len_ext (n - 18)) @ bs @ lzo_eof)"

definition lzo_run :: "byte \<Rightarrow> nat \<Rightarrow> bytes" where
  "lzo_run x n = [18, x, 0x20] @ len_ext (n - 34) @ [0, 0] @ lzo_eof"

lemma extendLen_len_ext:
  "0 < n \<Longrightarrow> t + n \<le> os \<Longrightarrow> extendLen os base t (len_ext n @ r) = Some (t + base + n, r)"
proof (induction n arbitrary: t rule: len_ext.induct)
  case (1 n)
  show ?case
  proof (cases "n \<le> 255")
    case True
    then have "unat (word_of_nat n :: byte) = n" by (simp add: unat_of_nat)
    moreover from this have "(word_of_nat n :: byte) \<noteq> 0" using "1.prems" by auto
    ultimately show ?thesis using True by (simp add: len_ext.simps)
  next
    case False
    then show ?thesis
      using "1.IH" [of "t + 255"] "1.prems" by (simp add: len_ext.simps [of n])
  qed
qed

lemma lzo_eof_stop:
  "lz_in st = lzo_eof \<Longrightarrow> length (lz_out st) = os \<Longrightarrow> lzo_loop os st = Inr (lz_out st)"
  by (subst lzo_loop.simps)
     (simp add: lzo_opcode_def lzo_eof_def lzo_m4_def lzo_len_def read2_def Let_def)

lemma copyLit_exact:
  "length bs = cnt \<Longrightarrow> length out + cnt \<le> os \<Longrightarrow> copyLit os cnt (bs @ r) out = Some (r, out @ bs)"
  by (simp add: copyLit_def)

lemma lzo_literal_run:
  assumes "lzo_len os 15 (unat t) rest = Some (cnt, bs @ lzo_eof)" "unat t < 16"
    and "length bs = cnt + 3" "os = length bs"
  shows "lzo_loop os \<lparr>lz_in = t # rest, lz_out = [], lz_state = 0\<rparr> = Inr bs"
  using assms copyLit_exact [of bs "cnt + 3" "[]" os lzo_eof]
  by (subst lzo_loop.simps) (simp add: lzo_opcode_def lzo_low_def lzo_eof_stop)

lemma u8_of_nat: "n < 256 \<Longrightarrow> unat (word_of_nat n :: byte) = n"
  by (simp add: unat_of_nat)

lemma decompressLZO1X_store:
  assumes "0 < length bs" "length bs \<le> MaxMsgSize"
  shows "decompressLZO1X (lzo_store bs) (word_of_nat (length bs)) = Inr bs"
proof -
  let ?n = "length bs"
  have os: "unat (word_of_nat ?n :: u32) = ?n" using assms by (simp add: unat_of_nat)
  consider "?n < 4" | "4 \<le> ?n" "?n \<le> 18" | "18 < ?n" by linarith
  then show ?thesis
  proof cases
    case 1
    have b: "unat (word_of_nat (17 + ?n) :: byte) = 17 + ?n" using 1 by (intro u8_of_nat) simp
    have gt: "(17 :: byte) < word_of_nat (17 + ?n)"
      using b assms(1) by (simp only: word_less_nat_alt) simp
    show ?thesis
      using 1 assms b gt copyLit_exact [of bs ?n "[]" ?n lzo_eof]
      by (simp add: decompressLZO1X_def os lzo_store_def Let_def lzo_eof_stop del: of_nat_add)
  next
    case 2
    have b: "unat (word_of_nat (?n - 3) :: byte) = ?n - 3" using 2 by (intro u8_of_nat) simp
    then have "\<not> (17 :: byte) < word_of_nat (?n - 3)" using 2 by (simp only: word_less_nat_alt) simp
    then show ?thesis
      using 2 assms b lzo_literal_run [of ?n "word_of_nat (?n - 3)" "bs @ lzo_eof" "?n - 3" bs]
      by (simp add: decompressLZO1X_def os lzo_store_def Let_def lzo_len_def del: of_nat_diff)
  next
    case 3
    have "lzo_len ?n 15 (unat (0 :: byte)) (len_ext (?n - 18) @ bs @ lzo_eof) =
        Some (?n - 3, bs @ lzo_eof)"
      using 3 extendLen_len_ext [of "?n - 18" 0 ?n 15 "bs @ lzo_eof"] by (simp add: lzo_len_def)
    then show ?thesis
      using 3 assms lzo_literal_run [of ?n 0 "len_ext (?n - 18) @ bs @ lzo_eof" "?n - 3" bs]
      by (simp add: decompressLZO1X_def os lzo_store_def Let_def)
  qed
qed

lemma decompressLZO1X_run:
  assumes "34 < n" "n \<le> MaxMsgSize"
  shows "decompressLZO1X (lzo_run x n) (word_of_nat n) = Inr (replicate n x)"
proof -
  have os: "unat (word_of_nat n :: u32) = n" using assms by (simp add: unat_of_nat)
  have len: "lzo_len n 31 0 (len_ext (n - 34) @ [0, 0] @ lzo_eof) = Some (n - 3, [0, 0] @ lzo_eof)"
    using assms extendLen_len_ext [of "n - 34" 0 n 31 "[0, 0] @ lzo_eof"] by (simp add: lzo_len_def)
  have run: "match_loop 0 (n - 1) [x] = replicate n x"
    using match_loop_run [of 0 "n - 1" x] assms by simp
  have m: "copyMatch n 1 (n - 3 + 2) [x] = Some (replicate n x)"
    using assms run by (simp add: copyMatch_def Suc_diff_Suc numeral_3_eq_3)
  have "lzo_loop n \<lparr>lz_in = 0x20 # len_ext (n - 34) @ [0, 0] @ lzo_eof, lz_out = [x], lz_state = 1\<rparr> =
      Inr (replicate n x)"
    using assms len m
    by (subst lzo_loop.simps)
       (simp add: lzo_opcode_def lzo_m3_def read2_def lzo_match_def Let_def lzo_eof_stop)
  then show ?thesis
    using assms by (simp add: decompressLZO1X_def os lzo_run_def Let_def copyLit_def)
qed

section \<open>Properties of decompression\<close>

text \<open>C21: The LZO1X decoder terminates on every input, and whenever it succeeds the output has
  exactly the announced size, which is between 1 and the maximum message size.\<close>

theorem lzo_output_size:
  "case decompressLZO1X inp origSize of
     Inl e \<Rightarrow> True
   | Inr out \<Rightarrow> length out = unat origSize \<and> 0 < length out \<and> length out \<le> MaxMsgSize"
  using decompressLZO1X_size [of inp origSize] 
  by (cases "decompressLZO1X inp origSize") (auto simp flip: length_greater_0_conv)

text \<open>A back-reference keeps the output written so far and appends exactly \<open>cnt\<close> bytes, each
  equal to the byte \<open>dist\<close> positions before it, also when the match overlaps its own output.\<close>

theorem lzo_match_law:
  assumes "copyMatch origSize dist cnt out = Some out'" "0 < dist"
  shows "dist \<le> length out \<and> length out' = length out + cnt \<and> length out' \<le> origSize \<and>
    take (length out) out' = out \<and>
    (\<forall>i < cnt. out' ! (length out + i) = out' ! (length out + i - dist))"
proof -
  have ok: "dist \<le> length out" "length out + cnt \<le> origSize"
    and out': "out' = match_loop (length out - dist) cnt out"
    using assms by (auto simp: copyMatch_def split: if_splits)
  show ?thesis
    using ok assms(2) match_loop_new [of "length out - dist" out _ cnt]
    by (auto simp: out' match_loop_prefix)
qed

theorem lzo_match_law_witness:
  "copyMatch 8 2 5 [1, 2, 3] = Some [1, 2, 3, 2, 3, 2, 3, 2 :: byte] \<and>
   take 3 [1, 2, 3, 2, 3, 2, 3, 2 :: byte] = [1, 2, 3] \<and>
   [1, 2, 3, 2, 3, 2, 3, 2 :: byte] ! (3 + 4) = [1, 2, 3, 2, 3, 2, 3, 2] ! (3 + 4 - 2)"
proof -
  have c: "copyMatch 8 2 5 [1, 2, 3] = Some [1, 2, 3, 2, 3, 2, 3, 2 :: byte]"
    by (simp add: copyMatch_def eval_nat_numeral)
  show ?thesis using lzo_match_law [OF c] c by simp
qed

text \<open>Every body of 1 to the maximum number of bytes has an LZO1X stream (one literal run with
  its possibly extended length) that Decompress turns back into the body.\<close>

theorem decompress_stored:
  assumes "0 < length bs" "length bs \<le> MaxMsgSize"
  shows "Decompress inflate (putU32 (word_of_nat (length bs)) @ lzo_store bs) ZipfMlzo = Inr bs"
  using decompressLZO1X_store [OF assms] by (simp add: Decompress_def Let_def wire_simps)

theorem decompress_stored_witness:
  "0 < length (replicate 300 (7 :: byte)) \<and>
   Decompress (\<lambda>_. None) (putU32 300 @ lzo_store (replicate 300 7)) ZipfMlzo = Inr (replicate 300 7)"
  using decompress_stored [of "replicate 300 7" "\<lambda>_. None"] by simp

text \<open>A stream of one literal and one overlapping match of distance 1 with an extended length
  expands to the run of that byte.\<close>

theorem decompress_run:
  assumes "34 < n" "n \<le> MaxMsgSize"
  shows "Decompress inflate (putU32 (word_of_nat n) @ lzo_run x n) ZipfMlzo = Inr (replicate n x)"
  using decompressLZO1X_run [OF assms] by (simp add: Decompress_def Let_def wire_simps)

theorem decompress_run_witness:
  "Decompress (\<lambda>_. None) (putU32 1000 @ lzo_run 0x41 1000) ZipfMlzo = Inr (replicate 1000 0x41)"
  using decompress_run [of 1000 "\<lambda>_. None" "0x41"] by simp

end
