(* ===== verification/Mymq_Client.thy ===== *)
theory Mymq_Client
  imports Mymq_Control Mymq_Lzo
begin

text \<open>
  The multiplexing client of src/pkg/mymq/client.go: correlation ids, the reader loop over the
  byte stream, dispatch of a decoded frame to the waiting call or to the subscription channel,
  the calls themselves, the handshakes, heartbeats, failing of pending calls and Close (with
  failPending of src/pkg/mymq/reconnect.go and the error helpers of src/pkg/mymq/errors.go).
  A reply channel has capacity one and is named by a number; \<open>CTaken\<close> records that its receiver
  has read it.  The pending table is an association list, whose order is the iteration order of
  the concurrent map.  A send that would block is the outcome \<open>Fail Blocked\<close>, a send on or a second
  close of a closed channel is \<open>Panic\<close>.  Time is in nanoseconds.
\<close>

section \<open>State\<close>

datatype cl_err =
  ErrClientClosed | ErrReconnecting | ErrReconnectExhausted | ErrSessionTimeout | ErrBrokerClosed | ErrEncode FrameErr |
  ErrWrite | ErrRead | ErrFrameLength u32 | ErrFrameLarge u32 | ErrContext | ErrHeartbeat |
  ErrRejected u32 | ErrDecode FrameErr | ErrBadRkey | ErrBadExchange

text \<open>The text of an error: bytes from the wire, or the message of a local error value.\<close>

datatype msg_text = WireText bytes | ErrText cl_err

record Reply =
  rp_Header :: Header
  rp_Body :: bytes
  rp_ErrMsg :: msg_text
  rp_Errn :: u32
  rp_Cookie :: "Cookie option"
  rp_Decoded :: "DecodedFrame option"

record Unsolicited =
  us_Header :: Header
  us_Prefix :: "BroadcastHeader option"
  us_Body :: bytes
  us_ErrMsg :: bytes
  us_Decoded :: DecodedFrame

datatype chan_st = CEmpty | CFull Reply | CTaken

datatype halt = Blocked

record QueueOptions =
  qo_Name :: bytes
  qo_Attr :: byte
  qo_Size :: u32
  qo_Flags :: u32
  qo_ExchangeName :: bytes
  qo_ExchangeType :: byte
  qo_ExportDomain :: bytes

record Options =
  op_ApplName :: bytes
  op_Instance :: int
  op_Channel :: ChannelCode
  op_User :: bytes
  op_ExternalIP :: bytes
  op_ExternalPort :: u32
  op_Queue :: "QueueOptions option"
  op_HeartbeatInterval :: int
  op_Reconnect :: bool
  op_SubBufferSize :: nat

record Client =
  cl_opts :: Options
  cl_session :: DeclareSessionResponse
  cl_connectInfo :: "ConnectResponse option"
  cl_whoamiSc :: u32
  cl_chanCode :: bytes
  cl_conn :: bool
  cl_closed :: bool
  cl_closing :: bool
  cl_reconnecting :: bool
  cl_pending :: "(u32 \<times> nat) list"
  cl_chan :: "nat \<Rightarrow> chan_st"
  cl_nextChan :: nat
  cl_nextCkey :: u32
  cl_subCh :: "Unsolicited list"
  cl_subClosed :: bool
  cl_subDrops :: u64
  cl_readErr :: "cl_err option"
  cl_lastRecv :: int
  cl_lastSent :: int
  cl_wire :: "bytes list"

definition zero_Header :: Header where
  "zero_Header = \<lparr>h_Length = 0, h_Func = 0, h_Subc = 0, h_Nvia = 0, h_Dirf = 0, h_Msgf = 0,
     h_Ctlf = 0, h_Keyc = 0, h_Xchg = replicate 8 0, h_Rkey = replicate 16 0, h_Ckey = 0,
     h_Clid = 0, h_Wkey = replicate 8 0, h_Chan = replicate 4 0, h_Errn = 0, h_CoffZipf = 0,
     h_CoffOff = 0, h_SoffZipf = 0, h_SoffOff = 0, h_ErrmLen = 0, h_ErrmOff = 0, h_PkeyLen = 0,
     h_PkeyOff = 0, h_NkeyLen = 0, h_NkeyOff = 0, h_BodyZipf = 0, h_BodyOff = 0,
     h_TraceID = replicate 16 0\<rparr>"

definition zero_Session :: DeclareSessionResponse where
  "zero_Session = \<lparr>ds_SocketID = 0, ds_SessionID = 0, ds_ConnectionID = 0, ds_HowToRouting = (0, 0),
     ds_HowToBroadcast = 0, ds_LogSuffix = 0, ds_Heartbeat = 0, ds_CompressMethod = 0,
     ds_CompressSize = 0\<rparr>"

section \<open>Options and small helpers\<close>

definition applySubBufferDefault :: "Options \<Rightarrow> Options" where
  "applySubBufferDefault o' = (if op_SubBufferSize o' = 0 then o'\<lparr>op_SubBufferSize := 256\<rparr> else o')"

text \<open>The decimal digits of a number, and \<open>%02d\<close>.\<close>

fun dec_digits :: "nat \<Rightarrow> bytes" where
  "dec_digits n = (if n < 10 then [word_of_nat (48 + n)]
     else dec_digits (n div 10) @ [word_of_nat (48 + n mod 10)])"

declare dec_digits.simps [simp del]

definition pad2 :: "nat \<Rightarrow> bytes" where
  "pad2 n = (if n < 10 then 0x30 # dec_digits n else dec_digits n)"

definition effectiveApplName :: "Options \<Rightarrow> bytes" where
  "effectiveApplName o' =
     (if op_Instance o' \<le> 0 then op_ApplName o'
      else op_ApplName o' @ [0x2D] @ pad2 (nat (op_Instance o')))"

text \<open>The state Open has built when it starts the reader.\<close>

definition new_Client :: "Options \<Rightarrow> Client" where
  "new_Client opts =
     (let o' = applySubBufferDefault opts in
      \<lparr>cl_opts = o', cl_session = zero_Session, cl_connectInfo = None, cl_whoamiSc = 0,
       cl_chanCode = ChannelCode_Bytes (op_Channel o'), cl_conn = True, cl_closed = False,
       cl_closing = False, cl_reconnecting = False, cl_pending = [], cl_chan = (\<lambda>_. CEmpty),
       cl_nextChan = 0, cl_nextCkey = 0, cl_subCh = [], cl_subClosed = False, cl_subDrops = 0,
       cl_readErr = None, cl_lastRecv = 0, cl_lastSent = 0, cl_wire = []\<rparr>)"

definition heartbeatInterval :: "Client \<Rightarrow> int" where
  "heartbeatInterval c =
     (if 0 < op_HeartbeatInterval (cl_opts c) then op_HeartbeatInterval (cl_opts c)
      else if 0 < ds_Heartbeat (cl_session c) then uint (ds_Heartbeat (cl_session c)) * 1000000000
      else 0)"

definition SubDrops :: "Client \<Rightarrow> u64" where
  "SubDrops c = cl_subDrops c"

definition Reconnecting :: "Client option \<Rightarrow> bool" where
  "Reconnecting c = (case c of None \<Rightarrow> False | Some c' \<Rightarrow> cl_reconnecting c')"

definition Closed :: "Client option \<Rightarrow> bool" where
  "Closed c = (case c of None \<Rightarrow> True | Some c' \<Rightarrow> cl_closed c' \<or> cl_closing c')"

definition storeReadErr :: "Client \<Rightarrow> cl_err option \<Rightarrow> Client" where
  "storeReadErr c err = (case err of None \<Rightarrow> c | Some e \<Rightarrow> c\<lparr>cl_readErr := Some e\<rparr>)"

text \<open>The loop of nextCorrelation: increment until the value is not zero.\<close>

function ckey_loop :: "u32 \<Rightarrow> u32" where
  "ckey_loop n = (let v = n + 1 in if v \<noteq> 0 then v else ckey_loop v)"
  by pat_completeness auto

termination ckey_loop
  by (relation "measure (\<lambda>n. if n + 1 = 0 then 1 else 0)") auto

declare ckey_loop.simps [simp del]

definition nextCorrelation :: "Client \<Rightarrow> u32 \<times> Client" where
  "nextCorrelation c = (let v = ckey_loop (cl_nextCkey c) in (v, c\<lparr>cl_nextCkey := v\<rparr>))"

section \<open>Writing\<close>

text \<open>\<open>wr\<close> is the result of the write on the socket, \<open>now\<close> the time after it.\<close>

definition writeFrame :: "bool \<Rightarrow> int \<Rightarrow> Client \<Rightarrow> bytes \<Rightarrow> cl_err + Client" where
  "writeFrame wr now c frame =
     (if cl_closed c then Inl ErrClientClosed
      else if \<not> cl_conn c then Inl ErrClientClosed
      else if wr then Inr (c\<lparr>cl_wire := cl_wire c @ [frame], cl_lastSent := now\<rparr>)
      else Inl ErrWrite)"

definition writeHeartbeat :: "bool \<Rightarrow> int \<Rightarrow> Client \<Rightarrow> cl_err + Client" where
  "writeHeartbeat wr now c = writeFrame wr now c (putU32 4)"

definition zero_Navi :: Navi where
  "zero_Navi = \<lparr>nv_Xchg = replicate 8 0, nv_Rkey = replicate 16 0, nv_Scid = 0, nv_Iama = 0,
     nv_Eatt = 0, nv_Zipf = 0, nv_Ncid = 0\<rparr>"

definition applyDefaults :: "Client \<Rightarrow> FrameInput \<Rightarrow> FrameInput" where
  "applyDefaults c inp =
     (let inp1 = (if in_Chan inp = replicate 4 0 then inp\<lparr>in_Chan := cl_chanCode c\<rparr> else inp);
          isBroadcast = (in_Func inp1 = FCCast \<or> in_Func inp1 = FCPush \<or> in_Func inp1 = FCSignal) in
      if isBroadcast then
        (if in_Dirf inp1 = 0 then inp1\<lparr>in_Dirf := DirPublish\<rparr> else inp1)
      else if in_Navis inp1 = [] \<and> (in_Xchg inp1 \<noteq> [] \<or> in_Rkey inp1 \<noteq> []) then
        inp1\<lparr>in_Navis := [zero_Navi\<lparr>nv_Scid := cl_whoamiSc c\<rparr>,
                          zero_Navi\<lparr>nv_Xchg := padCopyString LXchg (in_Xchg inp1),
                                    nv_Rkey := padCopyString LRkey (in_Rkey inp1)\<rparr>]\<rparr>
      else inp1)"

definition Send :: "bool \<Rightarrow> int \<Rightarrow> Client \<Rightarrow> FrameInput \<Rightarrow> cl_err + Client" where
  "Send wr now c inp =
     (case EncodeFrame (applyDefaults c inp) of
        Done frame \<Rightarrow> writeFrame wr now c frame
      | Fail e \<Rightarrow> Inl (ErrEncode e)
      | Panic \<Rightarrow> Inl (ErrEncode ErrInvalidOffset))"

section \<open>Receiving\<close>

definition chan_send :: "Client \<Rightarrow> nat \<Rightarrow> Reply \<Rightarrow> (halt, Client) outcome" where
  "chan_send c ch r =
     (case cl_chan c ch of
        CFull _ \<Rightarrow> Fail Blocked
      | _ \<Rightarrow> Done (c\<lparr>cl_chan := (cl_chan c)(ch := CFull r)\<rparr>))"

definition decompressBody :: "(bytes \<Rightarrow> bytes option) \<Rightarrow> DecodedFrame \<Rightarrow> bytes" where
  "decompressBody inflate df =
     (if df_BodyZipf df = ZipfNone \<or> df_Body df = [] then df_Body df
      else case Decompress inflate (df_Body df) (df_BodyZipf df) of
             Inl e \<Rightarrow> df_Body df
           | Inr plain \<Rightarrow> plain)"

definition reply_of :: "DecodedFrame \<Rightarrow> bytes \<Rightarrow> Reply" where
  "reply_of df body = \<lparr>rp_Header = df_Header df, rp_Body = body, rp_ErrMsg = WireText (df_ErrMsg df),
     rp_Errn = h_Errn (df_Header df), rp_Cookie = df_Cookie df, rp_Decoded = Some df\<rparr>"

definition unsolicited_of :: "DecodedFrame \<Rightarrow> Unsolicited" where
  "unsolicited_of df =
     (let out = df_Body df;
          (prefix, out') =
            (if h_Func (df_Header df) \<in> {FCCast, FCPush, FCSignal} then
               (case SplitBroadcast out of
                  (Some h, payload, None) \<Rightarrow> (Some h, payload)
                | _ \<Rightarrow> (None, out))
             else (None, out)) in
      \<lparr>us_Header = df_Header df, us_Prefix = prefix, us_Body = out', us_ErrMsg = df_ErrMsg df,
       us_Decoded = df\<rparr>)"

definition deliverUnsolicited :: "Client \<Rightarrow> DecodedFrame \<Rightarrow> (halt, Client) outcome" where
  "deliverUnsolicited c df =
     (if cl_subClosed c then Panic
      else if length (cl_subCh c) < op_SubBufferSize (cl_opts c)
      then Done (c\<lparr>cl_subCh := cl_subCh c @ [unsolicited_of df]\<rparr>)
      else Done (c\<lparr>cl_subDrops := cl_subDrops c + 1\<rparr>))"

definition dispatch :: "(bytes \<Rightarrow> bytes option) \<Rightarrow> Client \<Rightarrow> DecodedFrame \<Rightarrow> (halt, Client) outcome" where
  "dispatch inflate c df =
     (let body = decompressBody inflate df;
          ckey = h_Ckey (df_Header df) in
      if ckey \<noteq> 0 then
        (case map_of (cl_pending c) ckey of
           Some ch \<Rightarrow> chan_send (c\<lparr>cl_pending := AList.delete ckey (cl_pending c)\<rparr>) ch (reply_of df body)
         | None \<Rightarrow> deliverUnsolicited c df)
      else deliverUnsolicited c df)"

text \<open>
  The reader on the bytes \<open>bs\<close> that the connection delivers before it fails; \<open>clk k\<close> is the time at
  which the length prefix number \<open>k\<close> has been read.
\<close>

function readLoop :: "(bytes \<Rightarrow> bytes option) \<Rightarrow> (nat \<Rightarrow> int) \<Rightarrow> nat \<Rightarrow> Client \<Rightarrow> bytes \<Rightarrow>
    (halt, Client) outcome" where
  "readLoop inflate clk k c bs =
     (if length bs < 4 then Done (storeReadErr c (Some ErrRead))
      else
        let c1 = c\<lparr>cl_lastRecv := clk k\<rparr>;
            len = getU32 (take 4 bs) in
        if len < 4 then Done (storeReadErr c1 (Some (ErrFrameLength len)))
        else if len = 4 then readLoop inflate clk (Suc k) c1 (drop 4 bs)
        else if MaxMsgSize < unat len then Done (storeReadErr c1 (Some (ErrFrameLarge len)))
        else if length bs < unat len then Done (storeReadErr c1 (Some ErrRead))
        else
          case DecodeFrame (take (unat len) bs) of
            Done df \<Rightarrow>
              (case dispatch inflate c1 df of
                 Done c2 \<Rightarrow> readLoop inflate clk (Suc k) c2 (drop (unat len) bs)
               | Fail h \<Rightarrow> Fail h
               | Panic \<Rightarrow> Panic)
          | _ \<Rightarrow> readLoop inflate clk (Suc k) c1 (drop (unat len) bs))"
  by pat_completeness auto

termination readLoop
  by (relation "measure (\<lambda>(_, _, _, _, bs). length bs)") (auto simp: word_less_nat_alt word_le_nat_alt)

declare readLoop.simps [simp del]

section \<open>Calls\<close>

text \<open>
  Register a fresh reply channel under \<open>ckey\<close>, encode and send; on an error the registration is
  taken back.  EncodeFrame never panics on the arrays of the Go types (EncodeFrame_not_Panic).
\<close>

definition start_call :: "bool \<Rightarrow> int \<Rightarrow> Client \<Rightarrow> u32 \<Rightarrow> FrameInput \<Rightarrow> (cl_err + u32 \<times> nat) \<times> Client" where
  "start_call wr now c ckey inp =
     (let ch = cl_nextChan c;
          c2 = c\<lparr>cl_nextChan := Suc ch, cl_pending := AList.update ckey ch (cl_pending c)\<rparr>;
          c3 = c2\<lparr>cl_pending := AList.delete ckey (cl_pending c2)\<rparr> in
      case EncodeFrame inp of
        Done frame \<Rightarrow>
          (case writeFrame wr now c2 frame of
             Inr c4 \<Rightarrow> (Inr (ckey, ch), c4)
           | Inl e \<Rightarrow> (Inl e, c3))
      | Fail e \<Rightarrow> (Inl (ErrEncode e), c3)
      | Panic \<Rightarrow> (Inl (ErrEncode ErrInvalidOffset), c3))"

text \<open>Call up to its select.\<close>

definition Call_begin :: "bool \<Rightarrow> int \<Rightarrow> Client \<Rightarrow> FrameInput \<Rightarrow> (cl_err + u32 \<times> nat) \<times> Client" where
  "Call_begin wr now c inp =
     (if cl_closed c then (Inl ErrClientClosed, c)
      else if cl_reconnecting c then (Inl ErrReconnecting, c)
      else
        let (ckey, c1) = (if in_Ckey inp = 0 then nextCorrelation c else (in_Ckey inp, c)) in
        start_call wr now c1 ckey (applyDefaults c1 (inp\<lparr>in_Ckey := ckey\<rparr>)))"

text \<open>The three arms of the select.\<close>

definition Call_reply :: "Client \<Rightarrow> nat \<Rightarrow> (Reply \<times> Client) option" where
  "Call_reply c ch =
     (case cl_chan c ch of CFull r \<Rightarrow> Some (r, c\<lparr>cl_chan := (cl_chan c)(ch := CTaken)\<rparr>) | _ \<Rightarrow> None)"

definition Call_ctx_done :: "Client \<Rightarrow> u32 \<Rightarrow> cl_err \<times> Client" where
  "Call_ctx_done c ckey = (ErrContext, c\<lparr>cl_pending := AList.delete ckey (cl_pending c)\<rparr>)"

definition Call_conn_done :: "Client \<Rightarrow> u32 \<Rightarrow> cl_err \<times> Client" where
  "Call_conn_done c ckey =
     (let c1 = c\<lparr>cl_pending := AList.delete ckey (cl_pending c)\<rparr> in
      if op_Reconnect (cl_opts c1) \<and> \<not> cl_closing c1 then (ErrReconnecting, c1)
      else case cl_readErr c1 of Some e \<Rightarrow> (e, c1) | None \<Rightarrow> (ErrClientClosed, c1))"

text \<open>failPending notifies every pending call without blocking and empties the table; the number
  is what OnInflightAborted gets.\<close>

definition fail_reply :: "cl_err option \<Rightarrow> Reply" where
  "fail_reply cause = \<lparr>rp_Header = zero_Header, rp_Body = [],
     rp_ErrMsg = ErrText (case cause of None \<Rightarrow> ErrBrokerClosed | Some e \<Rightarrow> e),
     rp_Errn = ErrBroker, rp_Cookie = None, rp_Decoded = None\<rparr>"

fun fail_chans :: "Reply \<Rightarrow> (u32 \<times> nat) list \<Rightarrow> (nat \<Rightarrow> chan_st) \<Rightarrow> nat \<Rightarrow> chan_st" where
  "fail_chans r [] f = f"
| "fail_chans r ((k, ch) # ps) f =
     fail_chans r ps (case f ch of CFull _ \<Rightarrow> f | _ \<Rightarrow> f(ch := CFull r))"

definition failPending :: "Client \<Rightarrow> cl_err option \<Rightarrow> Client \<times> nat" where
  "failPending c cause =
     (c\<lparr>cl_chan := fail_chans (fail_reply cause) (cl_pending c) (cl_chan c), cl_pending := []\<rparr>,
      length (cl_pending c))"

definition Close :: "Client \<Rightarrow> (halt, Client) outcome" where
  "Close c =
     (if cl_closed c then Done c
      else
        let c1 = c\<lparr>cl_closed := True, cl_closing := True, cl_conn := False\<rparr>;
            c2 = fst (failPending c1 (Some ErrClientClosed)) in
        if cl_subClosed c2 then Panic else Done (c2\<lparr>cl_subClosed := True\<rparr>))"

section \<open>Handshakes\<close>

definition control_input :: "byte \<Rightarrow> u32 \<Rightarrow> bytes \<Rightarrow> FrameInput" where
  "control_input subc ckey body =
     \<lparr>in_Func = FCCntl, in_Subc = subc, in_Dirf = DirIoctl, in_Keyc = KeySend, in_Msgf = 0,
      in_Ctlf = 0, in_Xchg = [], in_Rkey = [], in_Ckey = ckey, in_Clid = 0,
      in_Wkey = replicate 8 0, in_Chan = replicate 4 0, in_TraceID = replicate TraceIDSize 0,
      in_Navis = [], in_Errn = 0, in_ErrMsg = [], in_Pkey = [], in_Nkey = [], in_Cookie = None,
      in_Body = body\<rparr>"

definition session_request :: "Options \<Rightarrow> u32 \<Rightarrow> DeclareSessionRequest" where
  "session_request opts pid =
     \<lparr>dr_ApplName = effectiveApplName opts, dr_User = op_User opts, dr_Pid = pid,
      dr_ExternalIP = op_ExternalIP opts, dr_ExternalPort = op_ExternalPort opts\<rparr>"

definition connect_request :: "Options \<Rightarrow> QueueOptions \<Rightarrow> u32 \<Rightarrow> connectRequest" where
  "connect_request opts q pid =
     \<lparr>cr_MqHost = [], cr_MqPort = 0, cr_MqUser = op_User opts, cr_Pid = pid,
      cr_MyName = effectiveApplName opts, cr_ChName = [], cr_ChIpad = op_ExternalIP opts,
      cr_ChPort = op_ExternalPort opts, cr_ExName = qo_ExchangeName q,
      cr_ExType = ucast (qo_ExchangeType q), cr_QuName = qo_Name q, cr_QuFlag = qo_Flags q,
      cr_QuAttr = ucast (qo_Attr q), cr_QuSize = qo_Size q, cr_QuExpt = qo_ExportDomain q\<rparr>"

text \<open>Up to the select: register a channel under a fresh ckey, encode and send the request.\<close>

definition handshake_begin :: "bool \<Rightarrow> int \<Rightarrow> Client \<Rightarrow> byte \<Rightarrow> bytes \<Rightarrow> (cl_err + u32 \<times> nat) \<times> Client" where
  "handshake_begin wr now c subc body =
     (let (ckey, c1) = nextCorrelation c in
      start_call wr now c1 ckey (control_input subc ckey body))"

text \<open>What the handshakes do with the reply; the deferred Delete of the ckey comes last.\<close>

definition handshake_reply :: "Client \<Rightarrow> u32 \<Rightarrow> Reply \<Rightarrow> cl_err option \<times> Client" where
  "handshake_reply c ckey r =
     (let done = (\<lambda>c'. c'\<lparr>cl_pending := AList.delete ckey (cl_pending c')\<rparr>) in
      if rp_Errn r \<noteq> 0 then (Some (ErrRejected (rp_Errn r)), done c)
      else case DecodeDeclareSessionResponse (rp_Body r) of
             Done resp \<Rightarrow> (None, done (c\<lparr>cl_session := resp, cl_whoamiSc := ds_ConnectionID resp\<rparr>))
           | Fail e \<Rightarrow> (Some (ErrDecode e), done c)
           | Panic \<Rightarrow> (Some (ErrDecode ErrInvalidOffset), done c))"

definition session_of_connect :: "ConnectResponse \<Rightarrow> DeclareSessionResponse" where
  "session_of_connect resp =
     \<lparr>ds_SocketID = cn_SocketID resp, ds_SessionID = 0, ds_ConnectionID = cn_ConnectionID resp,
      ds_HowToRouting = cn_HowToRouting resp, ds_HowToBroadcast = cn_HowToBroadcast resp,
      ds_LogSuffix = cn_LogSuffix resp, ds_Heartbeat = cn_Heartbeat resp,
      ds_CompressMethod = cn_CompressMethod resp, ds_CompressSize = cn_CompressSize resp\<rparr>"

definition connectHandshake_reply :: "Client \<Rightarrow> u32 \<Rightarrow> Reply \<Rightarrow> cl_err option \<times> Client" where
  "connectHandshake_reply c ckey r =
     (let done = (\<lambda>c'. c'\<lparr>cl_pending := AList.delete ckey (cl_pending c')\<rparr>) in
      if rp_Errn r \<noteq> 0 then (Some (ErrRejected (rp_Errn r)), done c)
      else case decodeConnectResponse (rp_Body r) of
             Done resp \<Rightarrow> (None, done (c\<lparr>cl_session := session_of_connect resp,
                 cl_whoamiSc := cn_ConnectionID resp, cl_connectInfo := Some resp\<rparr>))
           | Fail e \<Rightarrow> (Some (ErrDecode e), done c)
           | Panic \<Rightarrow> (Some (ErrDecode ErrInvalidOffset), done c))"

definition BindService_input :: "bytes \<Rightarrow> bytes \<Rightarrow> cl_err + FrameInput" where
  "BindService_input exchange rkey =
     (if rkey = [] \<or> LRkey < length rkey then Inl ErrBadRkey
      else if 16 < length exchange then Inl ErrBadExchange
      else Inr (control_input SubBindService 0 (bindServiceBody exchange rkey)))"

section \<open>Heartbeats\<close>

text \<open>
  One tick of the heartbeat loop.  \<open>time.Unix(0, n)\<close> is the zero time of Go only for the
  nanosecond count of 1 January of year 1, which does not fit into 64 bits, so the IsZero guards of
  the source never hold for an int64.
\<close>

datatype hb_act = HbStop | HbDead | HbSkip | HbSend

definition heartbeat_tick :: "Client \<Rightarrow> int \<Rightarrow> int \<Rightarrow> hb_act" where
  "heartbeat_tick c interval now =
     (if cl_closed c then HbStop
      else if cl_lastRecv c \<noteq> go_zero_time \<and> 2 * interval < now - cl_lastRecv c then HbDead
      else if cl_lastSent c \<noteq> go_zero_time \<and> now - cl_lastSent c < interval then HbSkip
      else HbSend)"

section \<open>Errors of a reply\<close>

definition errn_names :: "(u32 \<times> string) list" where
  "errn_names = zip (map word_of_nat [1000..<1031])
     [''MESYSTEM'', ''MEBROKER'', ''MENORCVER'', ''MENOORGN'', ''MENODSTN'', ''MEQUENAME'',
      ''MEQUEATTR'', ''MENOQUEUE'', ''MEQUEBUSY'', ''MENOBOUND'', ''MEBADARG'', ''MEBADFUNC'',
      ''MEBADPATH'', ''METOOBIG'', ''METOOSHORT'', ''MENOMSG'', ''MEMSGFORM'', ''MEBADADDR'',
      ''MEBUSY'', ''MEEXIST'', ''MEAUTH'', ''METIMEOUT'', ''MEMSGIO'', ''MERESOURCE'',
      ''MEFUNC'', ''MECONNREFUSED'', ''MESVCBUSY'', ''MENOSVC'', ''MEFORKPRO'',
      ''MESVCTIMEOUT'', ''MESVCABORTED'']"

definition errnName :: "u32 \<Rightarrow> string" where
  "errnName errn = (case map_of errn_names errn of Some s \<Rightarrow> s | None \<Rightarrow> ''MEUNKNOWN'')"

definition AsError :: "Reply option \<Rightarrow> (u32 \<times> msg_text) option" where
  "AsError r =
     (case r of
        None \<Rightarrow> None
      | Some r' \<Rightarrow> if rp_Errn r' = 0 \<and> rp_ErrMsg r' = WireText [] then None
                  else Some (rp_Errn r', rp_ErrMsg r'))"

section \<open>Reachable client states\<close>

text \<open>
  All operations interleave on one client.  The ghost \<open>g\<close> records under which ckey the call that
  owns a reply channel was sent.
\<close>

inductive cl_step :: "(bytes \<Rightarrow> bytes option) \<Rightarrow> Client \<times> (nat \<rightharpoonup> u32) \<Rightarrow>
    Client \<times> (nat \<rightharpoonup> u32) \<Rightarrow> bool" for inflate where
  Call: "Call_begin wr now c inp = (res, c') \<Longrightarrow>
    cl_step inflate (c, g) (c', case res of Inr (k, ch) \<Rightarrow> g(ch \<mapsto> k) | Inl e \<Rightarrow> g)"
| Handshake: "handshake_begin wr now c subc body = (res, c') \<Longrightarrow>
    cl_step inflate (c, g) (c', case res of Inr (k, ch) \<Rightarrow> g(ch \<mapsto> k) | Inl e \<Rightarrow> g)"
| Session: "cl_step inflate (c, g) (snd (handshake_reply c k r), g)"
| Connect: "cl_step inflate (c, g) (snd (connectHandshake_reply c k r), g)"
| Frame: "dispatch inflate c df = Done c' \<Longrightarrow> cl_step inflate (c, g) (c', g)"
| Reply: "Call_reply c ch = Some (r, c') \<Longrightarrow> cl_step inflate (c, g) (c', g)"
| Ctx: "cl_step inflate (c, g) (snd (Call_ctx_done c k), g)"
| Conn: "cl_step inflate (c, g) (snd (Call_conn_done c k), g)"
| Notify: "Send wr now c inp = Inr c' \<Longrightarrow> cl_step inflate (c, g) (c', g)"
| Heartbeat: "writeHeartbeat wr now c = Inr c' \<Longrightarrow> cl_step inflate (c, g) (c', g)"
| Abort: "cl_step inflate (c, g) (fst (failPending c cause), g)"
| Shut: "Close c = Done c' \<Longrightarrow> cl_step inflate (c, g) (c', g)"
| Consume: "cl_subCh c = u # us \<Longrightarrow> cl_step inflate (c, g) (c\<lparr>cl_subCh := us\<rparr>, g)"
| ReadEnd: "cl_step inflate (c, g) (storeReadErr c e, g)"
| Redial: "cl_step inflate (c, g) (c\<lparr>cl_conn := True, cl_readErr := None, cl_lastRecv := 0,
    cl_lastSent := 0, cl_reconnecting := b\<rparr>, g)"

definition cl_reach :: "(bytes \<Rightarrow> bytes option) \<Rightarrow> Client \<Rightarrow> (nat \<rightharpoonup> u32) \<Rightarrow> bool" where
  "cl_reach inflate c g \<longleftrightarrow> (\<exists>opts. (cl_step inflate)\<^sup>*\<^sup>* (new_Client opts, Map.empty) (c, g))"

text \<open>A channel holds the reply of its own ckey, or the notice that the call was aborted.\<close>

definition reply_for :: "u32 \<Rightarrow> Reply \<Rightarrow> bool" where
  "reply_for k r \<longleftrightarrow> h_Ckey (rp_Header r) = k \<and> rp_Decoded r \<noteq> None \<or>
     rp_Errn r = ErrBroker \<and> rp_Decoded r = None"

definition cl_inv :: "Client \<Rightarrow> (nat \<rightharpoonup> u32) \<Rightarrow> bool" where
  "cl_inv c g \<longleftrightarrow> distinct (map fst (cl_pending c)) \<and>
     (\<forall>k ch. map_of (cl_pending c) k = Some ch \<longrightarrow>
        k \<noteq> 0 \<and> ch < cl_nextChan c \<and> cl_chan c ch = CEmpty \<and> g ch = Some k) \<and>
     (\<forall>ch \<ge> cl_nextChan c. cl_chan c ch = CEmpty \<and> g ch = None) \<and>
     (\<forall>ch r. cl_chan c ch = CFull r \<longrightarrow> (\<exists>k. g ch = Some k \<and> k \<noteq> 0 \<and> reply_for k r)) \<and>
     length (cl_subCh c) \<le> op_SubBufferSize (cl_opts c)"

lemma ckey_loop_neq_0: "ckey_loop n \<noteq> 0"
  by (induction n rule: ckey_loop.induct) (subst ckey_loop.simps, simp add: Let_def)

text \<open>The invariant only reads the table, the channels and the subscription queue.\<close>

lemma cl_inv_cong:
  assumes "cl_inv c g" "cl_pending c' = cl_pending c" "cl_chan c' = cl_chan c"
    and "cl_nextChan c' = cl_nextChan c" "cl_subCh c' = cl_subCh c" "cl_opts c' = cl_opts c"
  shows "cl_inv c' g"
  using assms by (simp add: cl_inv_def)

lemma cl_inv_delete:
  assumes "cl_inv c g"
  shows "cl_inv (c\<lparr>cl_pending := AList.delete k (cl_pending c)\<rparr>) g"
  using assms by (auto simp: cl_inv_def delete_conv' distinct_delete)

lemma cl_inv_register:
  assumes "cl_inv c g" "k \<noteq> 0"
  shows "cl_inv (c\<lparr>cl_nextChan := Suc (cl_nextChan c),
    cl_pending := AList.update k (cl_nextChan c) (cl_pending c)\<rparr>) (g(cl_nextChan c \<mapsto> k))"
  using assms by (fastforce simp: cl_inv_def update_conv' distinct_update split: if_splits)

lemma cl_inv_unregister:
  assumes "cl_inv c g"
  shows "cl_inv (c\<lparr>cl_nextChan := Suc (cl_nextChan c),
    cl_pending := AList.delete k (AList.update k (cl_nextChan c) (cl_pending c))\<rparr>) g"
  using assms
  by (fastforce simp: cl_inv_def update_conv' delete_conv' distinct_update distinct_delete split: if_splits)

lemma cl_inv_writeFrame: "cl_inv c g \<Longrightarrow> writeFrame wr now c f = Inr c' \<Longrightarrow> cl_inv c' g"
  by (erule cl_inv_cong) (auto simp: writeFrame_def split: if_splits)

lemma cl_inv_ckey: "cl_inv c g \<Longrightarrow> cl_inv (c\<lparr>cl_nextCkey := v\<rparr>) g"
  by (erule cl_inv_cong) simp_all

lemma cl_inv_start:
  assumes inv: "cl_inv c g" and k: "k \<noteq> 0" and res: "start_call wr now c k inp = (res, c')"
  shows "cl_inv c' (case res of Inr (k, ch) \<Rightarrow> g(ch \<mapsto> k) | Inl e \<Rightarrow> g)"
  using res cl_inv_unregister [OF inv, of k] cl_inv_writeFrame [OF cl_inv_register [OF inv k]]
  by (auto simp: start_call_def Let_def split: outcome.splits sum.splits)

lemma nextCorrelation_simps:
  "nextCorrelation c = (ckey_loop (cl_nextCkey c), c\<lparr>cl_nextCkey := ckey_loop (cl_nextCkey c)\<rparr>)"
  by (simp add: nextCorrelation_def Let_def)

lemma cl_inv_Call:
  assumes "cl_inv c g" "Call_begin wr now c inp = (res, c')"
  shows "cl_inv c' (case res of Inr (k, ch) \<Rightarrow> g(ch \<mapsto> k) | Inl e \<Rightarrow> g)"
  using assms cl_inv_start [OF cl_inv_ckey [OF assms(1)] ckey_loop_neq_0] cl_inv_start [OF assms(1)]
  by (auto simp: Call_begin_def nextCorrelation_simps split: if_splits)

lemma cl_inv_handshake:
  assumes "cl_inv c g" "handshake_begin wr now c subc body = (res, c')"
  shows "cl_inv c' (case res of Inr (k, ch) \<Rightarrow> g(ch \<mapsto> k) | Inl e \<Rightarrow> g)"
  using assms cl_inv_start [OF cl_inv_ckey [OF assms(1)] ckey_loop_neq_0]
  by (simp add: handshake_begin_def nextCorrelation_simps)

lemma cl_inv_handshake_reply:
  "cl_inv c g \<Longrightarrow> cl_inv (snd (handshake_reply c k r)) g"
  "cl_inv c g \<Longrightarrow> cl_inv (snd (connectHandshake_reply c k r)) g"
  by (drule cl_inv_delete [of _ _ k], erule cl_inv_cong;
      simp add: handshake_reply_def connectHandshake_reply_def Let_def split: outcome.split)+

lemma cl_inv_sub:
  "cl_inv c g \<Longrightarrow> length us \<le> op_SubBufferSize (cl_opts c) \<Longrightarrow> cl_inv (c\<lparr>cl_subCh := us\<rparr>) g"
  by (simp add: cl_inv_def)

lemma cl_inv_deliver: "cl_inv c g \<Longrightarrow> deliverUnsolicited c df = Done c' \<Longrightarrow> cl_inv c' g"
  by (auto simp: deliverUnsolicited_def intro!: cl_inv_sub elim: cl_inv_cong split: if_splits)

lemma cl_inv_send:
  assumes inv: "cl_inv c g" and k: "map_of (cl_pending c) k = Some ch" and r: "reply_for k r"
  shows "\<exists>c'. chan_send (c\<lparr>cl_pending := AList.delete k (cl_pending c)\<rparr>) ch r = Done c' \<and> cl_inv c' g"
proof -
  let ?c = "c\<lparr>cl_pending := AList.delete k (cl_pending c)\<rparr>"
  have ch: "k \<noteq> 0" "ch < cl_nextChan c" "cl_chan c ch = CEmpty" "g ch = Some k"
    using inv k by (auto simp: cl_inv_def simp del: map_of_eq_Some_iff)
  have other: "map_of (cl_pending ?c) k' = Some ch' \<Longrightarrow> ch' \<noteq> ch" for k' ch'
    using inv ch by (auto simp: cl_inv_def delete_conv' simp del: map_of_eq_Some_iff split: if_splits)
  have "cl_inv (?c\<lparr>cl_chan := (cl_chan ?c)(ch := CFull r)\<rparr>) g"
    using cl_inv_delete [OF inv, of k] ch other r unfolding cl_inv_def by auto
  then show ?thesis using ch by (simp add: chan_send_def)
qed

lemma dispatch_cases:
  "dispatch inflate c df =
     (case (if h_Ckey (df_Header df) = 0 then None else map_of (cl_pending c) (h_Ckey (df_Header df))) of
        Some ch \<Rightarrow> chan_send (c\<lparr>cl_pending := AList.delete (h_Ckey (df_Header df)) (cl_pending c)\<rparr>) ch
                    (reply_of df (decompressBody inflate df))
      | None \<Rightarrow> deliverUnsolicited c df)"
  by (simp add: dispatch_def Let_def)

lemma reply_for_reply_of: "reply_for (h_Ckey (df_Header df)) (reply_of df body)"
  by (simp add: reply_for_def reply_of_def)

lemma dispatch_inv:
  assumes inv: "cl_inv c g"
  shows "dispatch inflate c df = Panic \<or> (\<exists>c'. dispatch inflate c df = Done c' \<and> cl_inv c' g)"
proof (cases "if h_Ckey (df_Header df) = 0 then None else map_of (cl_pending c) (h_Ckey (df_Header df))")
  case None
  then show ?thesis
    using cl_inv_deliver [OF inv, of df] by (auto simp: dispatch_cases deliverUnsolicited_def)
next
  case (Some ch)
  then show ?thesis
    using cl_inv_send [OF inv, of "h_Ckey (df_Header df)" ch] reply_for_reply_of [of df]
    by (auto simp: dispatch_cases split: if_splits)
qed

lemma cl_inv_dispatch: "cl_inv c g \<Longrightarrow> dispatch inflate c df = Done c' \<Longrightarrow> cl_inv c' g"
  using dispatch_inv [of c g inflate df] by simp

lemma fail_chans_eq:
  "fail_chans r ps f ch =
     (if ch \<in> snd ` set ps then (case f ch of CFull x \<Rightarrow> CFull x | _ \<Rightarrow> CFull r) else f ch)"
  by (induction r ps f rule: fail_chans.induct) (auto split: chan_st.splits)

lemma cl_inv_failPending:
  assumes "cl_inv c g"
  shows "cl_inv (fst (failPending c cause)) g"
proof -
  have pend: "ch < cl_nextChan c \<and> (\<exists>k. g ch = Some k \<and> k \<noteq> 0)" if "(k, ch) \<in> set (cl_pending c)" for k ch
  proof -
    have "map_of (cl_pending c) k = Some ch"
      using assms that unfolding cl_inv_def by (blast intro: map_of_is_SomeI)
    then show ?thesis using assms unfolding cl_inv_def by blast
  qed
  have fail: "reply_for k (fail_reply cause)" for k
    by (simp add: reply_for_def fail_reply_def)
  have "\<exists>k. g ch = Some k \<and> k \<noteq> 0 \<and> reply_for k r"
    if "fail_chans (fail_reply cause) (cl_pending c) (cl_chan c) ch = CFull r" for ch r
    using that pend fail assms unfolding cl_inv_def
    by (auto simp: fail_chans_eq split: if_splits chan_st.splits)
  moreover have "fail_chans (fail_reply cause) (cl_pending c) (cl_chan c) ch = CEmpty"
    if "cl_nextChan c \<le> ch" for ch
    using that pend assms unfolding cl_inv_def by (force simp: fail_chans_eq)
  ultimately show ?thesis
    using assms unfolding cl_inv_def failPending_def by simp
qed

lemma cl_inv_Close: "cl_inv c g \<Longrightarrow> Close c = Done c' \<Longrightarrow> cl_inv c' g"
proof -
  assume inv: "cl_inv c g" and cl: "Close c = Done c'"
  let ?c1 = "c\<lparr>cl_closed := True, cl_closing := True, cl_conn := False\<rparr>"
  have "cl_inv ?c1 g" using inv by (rule cl_inv_cong) simp_all
  then have "cl_inv (fst (failPending ?c1 (Some ErrClientClosed))) g" by (rule cl_inv_failPending)
  then have "cl_inv (fst (failPending ?c1 (Some ErrClientClosed)) \<lparr>cl_subClosed := True\<rparr>) g"
    by (rule cl_inv_cong) simp_all
  then show ?thesis using inv cl by (auto simp: Close_def Let_def split: if_splits)
qed

lemma cl_inv_take:
  assumes inv: "cl_inv c g" and t: "Call_reply c ch = Some (r, c')"
  shows "cl_inv c' g"
proof -
  have full: "cl_chan c ch = CFull r" and c': "c' = c\<lparr>cl_chan := (cl_chan c)(ch := CTaken)\<rparr>"
    using t by (auto simp: Call_reply_def split: chan_st.splits)
  have "map_of (cl_pending c) k \<noteq> Some ch" for k
    using inv full unfolding cl_inv_def by (metis chan_st.distinct(1))
  moreover have "ch < cl_nextChan c"
    using inv full unfolding cl_inv_def by (metis chan_st.distinct(1) not_less)
  ultimately show ?thesis using inv unfolding cl_inv_def c' by simp
qed

lemma cl_inv_new: "cl_inv (new_Client opts) Map.empty"
  by (simp add: cl_inv_def new_Client_def Let_def)

lemma cl_step_inv: "cl_step inflate (c, g) (c', g') \<Longrightarrow> cl_inv c g \<Longrightarrow> cl_inv c' g'"
proof (induction "(c, g)" "(c', g')" rule: cl_step.induct)
  case (Notify wr now inp)
  then show ?case by (auto simp: Send_def intro: cl_inv_writeFrame split: outcome.splits)
next
  case (Conn k)
  then show ?case
    using cl_inv_delete [of c g k]
    by (auto simp: Call_conn_done_def Let_def split: option.splits)
next
  case (Consume u us)
  then show ?case by (auto intro!: cl_inv_sub) (simp add: cl_inv_def)
next
  case (ReadEnd e)
  then show ?case by (auto intro: cl_inv_cong simp: storeReadErr_def split: option.splits)
next
  case (Redial b)
  then show ?case by (auto intro: cl_inv_cong)
qed (auto intro: cl_inv_Call cl_inv_handshake cl_inv_handshake_reply cl_inv_dispatch
      cl_inv_take cl_inv_delete cl_inv_failPending cl_inv_Close cl_inv_writeFrame
      simp: Call_ctx_done_def writeHeartbeat_def)

lemma cl_steps_inv: "(cl_step inflate)\<^sup>*\<^sup>* (c, g) (c', g') \<Longrightarrow> cl_inv c g \<Longrightarrow> cl_inv c' g'"
  by (induction rule: rtranclp_induct2) (auto intro: cl_step_inv)

lemma cl_reach_inv: "cl_reach inflate c g \<Longrightarrow> cl_inv c g"
  using cl_inv_new cl_steps_inv unfolding cl_reach_def by blast

section \<open>A call gets at most one reply\<close>

text \<open>How the content of the reply channels evolves: what is in a channel stays until it is
  taken, and what has been taken does not come back.\<close>

definition chan_le :: "(nat \<Rightarrow> chan_st) \<Rightarrow> (nat \<Rightarrow> chan_st) \<Rightarrow> bool" where
  "chan_le f f' \<longleftrightarrow> (\<forall>ch. (f ch = CTaken \<longrightarrow> f' ch = CTaken) \<and>
     (\<forall>r. f ch = CFull r \<longrightarrow> f' ch = CFull r \<or> f' ch = CTaken))"

lemma chan_le_refl [simp]: "chan_le f f"
  by (simp add: chan_le_def)

lemma chan_le_trans: "chan_le f f' \<Longrightarrow> chan_le f' f'' \<Longrightarrow> chan_le f f''"
  unfolding chan_le_def by metis

lemma start_call_chan: "start_call wr now c k inp = (res, c') \<Longrightarrow> cl_chan c' = cl_chan c"
  by (auto simp: start_call_def Let_def writeFrame_def split: outcome.splits sum.splits if_splits)

lemma chan_le_dispatch:
  assumes "cl_inv c g" "dispatch inflate c df = Done c'"
  shows "chan_le (cl_chan c) (cl_chan c')"
proof (cases "if h_Ckey (df_Header df) = 0 then None else map_of (cl_pending c) (h_Ckey (df_Header df))")
  case None
  then show ?thesis
    using assms(2) by (auto simp: dispatch_cases deliverUnsolicited_def split: if_splits)
next
  case (Some ch)
  then have "map_of (cl_pending c) (h_Ckey (df_Header df)) = Some ch"
    by (auto split: if_splits)
  then have "cl_chan c ch = CEmpty" using assms(1) unfolding cl_inv_def by blast
  then show ?thesis
    using assms(2) Some by (auto simp: dispatch_cases chan_send_def chan_le_def split: if_splits)
qed

lemma chan_le_failPending:
  assumes "cl_inv c g"
  shows "chan_le (cl_chan c) (cl_chan (fst (failPending c cause)))"
proof -
  have "cl_chan c ch = CEmpty" if "(k, ch) \<in> set (cl_pending c)" for k ch
  proof -
    have "map_of (cl_pending c) k = Some ch"
      using assms that unfolding cl_inv_def by (blast intro: map_of_is_SomeI)
    then show ?thesis using assms unfolding cl_inv_def by blast
  qed
  then show ?thesis by (force simp: chan_le_def failPending_def fail_chans_eq)
qed

lemma chan_le_Close: "cl_inv c g \<Longrightarrow> Close c = Done c' \<Longrightarrow> chan_le (cl_chan c) (cl_chan c')"
proof -
  assume inv: "cl_inv c g" and cl: "Close c = Done c'"
  let ?c1 = "c\<lparr>cl_closed := True, cl_closing := True, cl_conn := False\<rparr>"
  have "cl_inv ?c1 g" using inv by (rule cl_inv_cong) simp_all
  then have "chan_le (cl_chan ?c1) (cl_chan (fst (failPending ?c1 (Some ErrClientClosed))))"
    by (rule chan_le_failPending)
  then show ?thesis using cl by (auto simp: Close_def Let_def split: if_splits)
qed

lemma chan_le_Call: "Call_begin wr now c inp = (res, c') \<Longrightarrow> cl_chan c' = cl_chan c"
  by (auto simp: Call_begin_def nextCorrelation_simps dest!: start_call_chan split: if_splits)

lemma chan_le_take: "Call_reply c ch = Some (r, c') \<Longrightarrow> chan_le (cl_chan c) (cl_chan c')"
  by (auto simp: Call_reply_def chan_le_def split: chan_st.splits)

lemma chan_same:
  "handshake_begin wr now c subc body = (res, c') \<Longrightarrow> cl_chan c' = cl_chan c"
  "cl_chan (snd (handshake_reply c k r)) = cl_chan c"
  "cl_chan (snd (connectHandshake_reply c k r)) = cl_chan c"
  "cl_chan (snd (Call_ctx_done c k)) = cl_chan c"
  "cl_chan (snd (Call_conn_done c k)) = cl_chan c"
  "cl_chan (storeReadErr c e) = cl_chan c"
  by (auto simp: handshake_begin_def nextCorrelation_simps handshake_reply_def
      connectHandshake_reply_def Call_ctx_done_def Call_conn_done_def storeReadErr_def Let_def
      dest!: start_call_chan split: outcome.splits option.splits)

lemma writeFrame_chan: "writeFrame wr now c f = Inr c' \<Longrightarrow> cl_chan c' = cl_chan c"
  by (auto simp: writeFrame_def split: if_splits)

lemma cl_step_chan: "cl_step inflate (c, g) (c', g') \<Longrightarrow> cl_inv c g \<Longrightarrow> chan_le (cl_chan c) (cl_chan c')"
proof (induction "(c, g)" "(c', g')" rule: cl_step.induct)
  case (Notify wr now inp)
  then show ?case by (auto simp: Send_def dest!: writeFrame_chan split: outcome.splits)
next
  case (Heartbeat wr now)
  then show ?case by (auto simp: writeHeartbeat_def dest!: writeFrame_chan)
qed (auto simp: chan_same dest: chan_le_Call chan_same(1) intro: chan_le_dispatch chan_le_take
      chan_le_failPending chan_le_Close)

lemma cl_steps_chan:
  "(cl_step inflate)\<^sup>*\<^sup>* (c, g) (c', g') \<Longrightarrow> cl_inv c g \<Longrightarrow> chan_le (cl_chan c) (cl_chan c')"
  by (induction rule: rtranclp_induct2) (auto intro: chan_le_trans cl_step_chan cl_steps_inv)

section \<open>The reader on a stream of frames\<close>

text \<open>What a peer may send: heartbeats and frames whose locators fit.\<close>

datatype wire_item = WBeat | WFrame FrameInput

definition item_bytes :: "wire_item \<Rightarrow> bytes" where
  "item_bytes i = (case i of WBeat \<Rightarrow> putU32 4 | WFrame inp \<Rightarrow> frame_image inp)"

definition item_ok :: "wire_item \<Rightarrow> bool" where
  "item_ok i = (case i of WBeat \<Rightarrow> True
     | WFrame inp \<Rightarrow> wf_FrameInput inp \<and> frame_fits inp \<and> nkey_off inp < 65536)"

definition decoded :: "FrameInput \<Rightarrow> DecodedFrame" where
  "decoded inp = \<lparr>df_Header = final_header inp, df_Navis = in_Navis inp, df_ErrMsg = in_ErrMsg inp,
     df_Pkey = in_Pkey inp, df_Nkey = in_Nkey inp, df_Cookie = in_Cookie inp, df_Body = in_Body inp,
     df_BodyZipf = 0\<rparr>"

lemma item_simps [simp]:
  "item_bytes WBeat = putU32 4" "item_bytes (WFrame inp) = frame_image inp" "item_ok WBeat"
  "item_ok (WFrame inp) \<longleftrightarrow> wf_FrameInput inp \<and> frame_fits inp \<and> nkey_off inp < 65536"
  by (simp_all add: item_bytes_def item_ok_def)

fun item_frames :: "wire_item list \<Rightarrow> DecodedFrame list" where
  "item_frames [] = []"
| "item_frames (WBeat # is) = item_frames is"
| "item_frames (WFrame inp # is) = decoded inp # item_frames is"

fun dispatch_all :: "(bytes \<Rightarrow> bytes option) \<Rightarrow> Client \<Rightarrow> DecodedFrame list \<Rightarrow> (halt, Client) outcome" where
  "dispatch_all inflate c [] = Done c"
| "dispatch_all inflate c (df # dfs) = go_bind (dispatch inflate c df) (\<lambda>c'. dispatch_all inflate c' dfs)"

lemma go_bind_assoc: "go_bind (go_bind m f) h = go_bind m (\<lambda>x. go_bind (f x) h)"
  by (cases m) simp_all

lemma dispatch_lastRecv:
  "dispatch inflate (c\<lparr>cl_lastRecv := t\<rparr>) df =
     go_bind (dispatch inflate c df) (\<lambda>c'. Done (c'\<lparr>cl_lastRecv := t\<rparr>))"
  by (simp add: dispatch_cases chan_send_def deliverUnsolicited_def split: option.split chan_st.split)

lemma frame_image_prefix:
  assumes "wf_FrameInput inp" "frame_fits inp"
  shows "take 4 (frame_image inp @ rest) = putU32 (word_of_nat (frame_size inp))"
  by (simp add: frame_image_def header_image_def final_header_fields)

lemma readLoop_frame:
  assumes ok: "wf_FrameInput inp" "frame_fits inp" "nkey_off inp < 65536"
  shows "readLoop inflate clk k c (frame_image inp @ rest) =
    go_bind (dispatch inflate (c\<lparr>cl_lastRecv := clk k\<rparr>) (decoded inp))
      (\<lambda>c2. readLoop inflate clk (Suc k) c2 rest)"
proof -
  let ?n = "frame_size inp" and ?w = "word_of_nat (frame_size inp) :: u32"
  have n: "100 \<le> ?n" "?n \<le> MaxMsgSize" using ok by (simp_all add: frame_fits_def frame_size_def)
  then have u: "unat ?w = ?n" by (simp add: unat_of_nat)
  have len: "length (frame_image inp) = ?n" using ok by (simp add: length_frame_image)
  have "\<not> ?w < 4" "?w \<noteq> 4" using n u by (auto simp: word_less_nat_alt)
  then show ?thesis
    using n u len DecodeFrame_image [OF ok] frame_image_prefix [OF ok(1,2), of rest]
    by (subst readLoop.simps)
       (simp add: Let_def decoded_def split: outcome.split)
qed

lemma readLoop_beat:
  "readLoop inflate clk k c (putU32 4 @ rest) = readLoop inflate clk (Suc k) (c\<lparr>cl_lastRecv := clk k\<rparr>) rest"
  by (subst readLoop.simps) (simp add: Let_def)

lemma readLoop_items:
  assumes "list_all item_ok items"
  shows "readLoop inflate clk k (c\<lparr>cl_lastRecv := t\<rparr>) (concat (map item_bytes items)) =
    go_bind (dispatch_all inflate c (item_frames items))
      (\<lambda>c'. Done (c'\<lparr>cl_lastRecv := (if items = [] then t else clk (k + length items - 1)),
         cl_readErr := Some ErrRead\<rparr>))"
  using assms
proof (induction items arbitrary: k c t)
  case Nil
  then show ?case by (subst readLoop.simps) (simp add: storeReadErr_def)
next
  case (Cons i items)
  show ?case
  proof (cases i)
    case WBeat
    then show ?thesis
      using Cons.prems Cons.IH [of "Suc k" "clk k" c]
      by (simp add: readLoop_beat)
  next
    case (WFrame inp)
    have "readLoop inflate clk (Suc k) (c2\<lparr>cl_lastRecv := clk k\<rparr>) (concat (map item_bytes items)) =
        go_bind (dispatch_all inflate c2 (item_frames items))
          (\<lambda>c'. Done (c'\<lparr>cl_lastRecv := clk (k + length (i # items) - 1), cl_readErr := Some ErrRead\<rparr>))" for c2
      using Cons.prems Cons.IH [of "Suc k" "clk k" c2] by (cases items) simp_all
    then show ?thesis
      using Cons.prems WFrame
      by (simp add: readLoop_frame dispatch_lastRecv go_bind_assoc)
  qed
qed

section \<open>Properties of the client\<close>


definition sample_opts :: Options where
  "sample_opts = \<lparr>op_ApplName = [0x6D], op_Instance = 1, op_Channel = ChannelWeb, op_User = [],
     op_ExternalIP = [], op_ExternalPort = 0, op_Queue = None, op_HeartbeatInterval = 0,
     op_Reconnect = False, op_SubBufferSize = 1\<rparr>"

definition sample_frame :: "u32 \<Rightarrow> byte \<Rightarrow> bytes \<Rightarrow> DecodedFrame" where
  "sample_frame ckey zipf body = \<lparr>df_Header = zero_Header\<lparr>h_Ckey := ckey, h_Func := FCTran\<rparr>,
     df_Navis = [], df_ErrMsg = [], df_Pkey = [], df_Nkey = [], df_Cookie = None, df_Body = body,
     df_BodyZipf = zipf\<rparr>"

lemma ckey_loop_0: "ckey_loop 0 = 1"
  by (subst ckey_loop.simps) simp

lemma sample_call:
  "\<exists>c. (cl_step inflate)\<^sup>*\<^sup>* (new_Client sample_opts, Map.empty) (c, [0 \<mapsto> 1]) \<and>
     cl_pending c = [(1, 0)] \<and> cl_chan c = (\<lambda>_. CEmpty) \<and> cl_closed c = False"
proof -
  let ?c = "new_Client sample_opts" and ?inp = "control_input 0 0 [7]"
  have "wf_FrameInput (applyDefaults (?c\<lparr>cl_nextCkey := 1\<rparr>) (?inp\<lparr>in_Ckey := 1\<rparr>))"
    "frame_fits (applyDefaults (?c\<lparr>cl_nextCkey := 1\<rparr>) (?inp\<lparr>in_Ckey := 1\<rparr>))"
    by (simp_all add: applyDefaults_def control_input_def wf_FrameInput_def frame_fits_def
        frame_size_def new_Client_def sample_opts_def ChannelCode_Bytes_def applySubBufferDefault_def)
  then obtain f where "EncodeFrame (applyDefaults (?c\<lparr>cl_nextCkey := 1\<rparr>) (?inp\<lparr>in_Ckey := 1\<rparr>)) = Done f"
    using EncodeFrame_image by blast
  then obtain c where c: "Call_begin True 0 ?c ?inp = (Inr (1, 0), c)" "cl_pending c = [(1, 0)]"
    "cl_chan c = (\<lambda>_. CEmpty)" "cl_closed c = False"
    by (simp add: Call_begin_def nextCorrelation_simps start_call_def writeFrame_def new_Client_def
        Let_def control_input_def ckey_loop_0)
  have "cl_step inflate (?c, Map.empty) (c, [0 \<mapsto> 1])"
    using cl_step.Call [OF c(1), of inflate Map.empty] by simp
  then show ?thesis using c by blast
qed

lemma sample_reply:
  "\<exists>c. cl_reach inflate c [0 \<mapsto> 1] \<and> cl_chan c 0 = CFull (reply_of (sample_frame 1 0 [9]) [9])"
proof -
  obtain c where c: "(cl_step inflate)\<^sup>*\<^sup>* (new_Client sample_opts, Map.empty) (c, [0 \<mapsto> 1])"
    "cl_pending c = [(1, 0)]" "cl_chan c = (\<lambda>_. CEmpty)" "cl_closed c = False"
    using sample_call by blast
  obtain c' where c': "dispatch inflate c (sample_frame 1 0 [9]) = Done c'"
    "cl_chan c' 0 = CFull (reply_of (sample_frame 1 0 [9]) [9])"
    using c by (simp add: dispatch_def sample_frame_def zero_Header_def decompressBody_def chan_send_def)
  have "(cl_step inflate)\<^sup>*\<^sup>* (new_Client sample_opts, Map.empty) (c', [0 \<mapsto> 1])"
    using c(1) cl_step.Frame [OF c'(1)] by (rule rtranclp.rtrancl_into_rtrancl)
  then show ?thesis using c'(2) unfolding cl_reach_def by blast
qed




text \<open>C7: The reader splits the byte stream into exactly the frames the peer sent: on the
  concatenation of any heartbeats and encoded frames it dispatches the decoded frames in order,
  skips the heartbeats and ends with the read error of the exhausted stream.\<close>

theorem stream_dispatched_in_order:
  assumes "list_all item_ok items"
  shows "readLoop inflate clk 0 c (concat (map item_bytes items)) =
    go_bind (dispatch_all inflate c (item_frames items))
      (\<lambda>c'. Done (c'\<lparr>cl_lastRecv := (if items = [] then cl_lastRecv c else clk (length items - 1)),
         cl_readErr := Some ErrRead\<rparr>))"
  using readLoop_items [OF assms, of inflate clk 0 "cl_lastRecv c" c] by simp

theorem stream_dispatched_in_order_witness:
  "list_all item_ok [WFrame (sample_input []), WBeat, WFrame (sample_input [1])] \<and>
   (\<exists>c'. readLoop (\<lambda>_. None) int 0 (new_Client sample_opts)
      (concat (map item_bytes [WFrame (sample_input []), WBeat, WFrame (sample_input [1])])) = Done c' \<and>
     map us_Body (cl_subCh c') = [[1, 2, 3]] \<and> cl_subDrops c' = 1 \<and> cl_lastRecv c' = 2)"
proof -
  let ?items = "[WFrame (sample_input []), WBeat, WFrame (sample_input [1])]"
  have ok: "list_all item_ok ?items"
    using sample_input_ok [of "[]"] sample_input_ok [of "[1]"]
    by (simp add: nkey_off_def pkey_off_def errm_off_def) (simp add: sample_input_def)
  have f: "h_Func (final_header (sample_input e)) = FCTran" "h_Ckey (final_header (sample_input e)) = 9" for e
    by (simp_all add: final_header_def with_defs base_header_def sample_input_def)
  show ?thesis
    using ok stream_dispatched_in_order [OF ok, of "\<lambda>_. None" int "new_Client sample_opts"]
    by (simp add: dispatch_cases deliverUnsolicited_def decoded_def unsolicited_of_def f
        new_Client_def sample_opts_def applySubBufferDefault_def)
       (simp add: sample_input_def)
qed

text \<open>A reply body is decompressed on arrival, but an unsolicited message of the same
  compressed body is delivered raw: dispatch computes the plain body and drops it.\<close>

theorem unsolicited_stays_compressed:
  assumes "h_Ckey (df_Header df) = 0" "h_Func (df_Header df) \<notin> {FCCast, FCPush, FCSignal}"
    and "df_BodyZipf df = ZipfMlzo" "df_Body df = putU32 (word_of_nat (length bs)) @ lzo_store bs"
    and "0 < length bs" "length bs \<le> MaxMsgSize"
    and "\<not> cl_subClosed c" "length (cl_subCh c) < op_SubBufferSize (cl_opts c)"
  shows "decompressBody inflate df = bs \<and>
    (\<exists>c'. dispatch inflate c df = Done c' \<and> us_Body (last (cl_subCh c')) = df_Body df \<and>
       us_Body (last (cl_subCh c')) \<noteq> bs)"
proof -
  have "Decompress inflate (df_Body df) ZipfMlzo = Inr bs"
    using decompressLZO1X_store [OF assms(5,6)] assms(4)
    by (simp add: Decompress_def Let_def wire_simps)
  then have plain: "decompressBody inflate df = bs"
    using assms(3,4) by (simp add: decompressBody_def putU32_def)
  have "length (df_Body df) > length bs"
    using assms(4) by (simp add: lzo_store_def Let_def)
  then have "df_Body df \<noteq> bs" by auto
  then show ?thesis
    using plain assms by (simp add: dispatch_def deliverUnsolicited_def unsolicited_of_def)
qed

theorem unsolicited_stays_compressed_witness:
  "\<exists>c'. dispatch (\<lambda>_. None) (new_Client sample_opts)
      (sample_frame 0 ZipfMlzo (putU32 3 @ lzo_store [1, 2, 3])) = Done c' \<and>
     us_Body (last (cl_subCh c')) = putU32 3 @ lzo_store [1, 2, 3] \<and>
     us_Body (last (cl_subCh c')) \<noteq> [1, 2, 3]"
  using unsolicited_stays_compressed [of "sample_frame 0 ZipfMlzo (putU32 3 @ lzo_store [1, 2, 3])"
      "[1, 2, 3]" "new_Client sample_opts" "\<lambda>_. None"]
  by (simp add: sample_frame_def zero_Header_def new_Client_def sample_opts_def applySubBufferDefault_def)

text \<open>Close closes the subscription channel while the reader may still hold a frame: the
  dispatch of any unsolicited frame after a first Close panics on the closed channel.\<close>

theorem dispatch_after_close_panics:
  assumes "\<not> cl_closed c" "\<not> cl_subClosed c" "h_Ckey (df_Header df) = 0"
  shows "\<exists>c'. Close c = Done c' \<and> dispatch inflate c' df = Panic"
  using assms by (simp add: Close_def failPending_def dispatch_def deliverUnsolicited_def)

theorem dispatch_after_close_panics_witness:
  "\<exists>c'. Close (new_Client sample_opts) = Done c' \<and> dispatch (\<lambda>_. None) c' (sample_frame 0 0 []) = Panic"
  using dispatch_after_close_panics [of "new_Client sample_opts" "sample_frame 0 0 []" "\<lambda>_. None"]
  by (simp add: new_Client_def Let_def sample_frame_def zero_Header_def)

text \<open>A request that names only its destination is sent with two navigation entries, the
  connection id of the client as origin and the exchange and routing key as destination, and a
  receiver reads exactly these from the frame; a broadcast frame gets none.\<close>

theorem request_addressing:
  assumes "wf_FrameInput inp" "frame_fits (applyDefaults c inp)" "in_Navis inp = []"
    and "length (cl_chanCode c) = 4" "in_ErrMsg inp = []"
    and "in_Rkey inp \<noteq> []" "length (in_Rkey inp) \<le> LRkey" "0 \<notin> set (in_Rkey inp)"
    and "length (in_Xchg inp) \<le> LXchg" "0 \<notin> set (in_Xchg inp)"
  shows "\<exists>df. go_bind (EncodeFrame (applyDefaults c inp)) DecodeFrame = Done df \<and>
    (if in_Func inp \<in> {FCCast, FCPush, FCSignal} then df_Navis df = []
     else map nv_Scid (df_Navis df) = [cl_whoamiSc c, 0] \<and>
       map (trimNul \<circ> nv_Xchg) (df_Navis df) = [[], in_Xchg inp] \<and>
       map (trimNul \<circ> nv_Rkey) (df_Navis df) = [[], in_Rkey inp])"
proof -
  let ?i = "applyDefaults c inp"
  have wf: "wf_FrameInput ?i"
    using assms(1,4) by (simp add: applyDefaults_def wf_FrameInput_def wf_Navi_def zero_Navi_def Let_def)
  have key: "in_ErrMsg ?i = []" "length (in_Navis ?i) \<le> 2"
    using assms(3,5) by (simp_all add: applyDefaults_def Let_def)
  have "nkey_off ?i < 65536"
    using assms(2) key by (simp add: nkey_off_def pkey_off_def errm_off_def frame_fits_def)
  moreover have "trimNul (replicate n (0 :: byte)) = []" for n by (cases n) simp_all
  ultimately show ?thesis
    using EncodeFrame_image [OF wf assms(2)] DecodeFrame_image [OF wf assms(2)] assms(3,6-10)
    by (simp add: applyDefaults_def zero_Navi_def Let_def trimNul_padCopyString)
qed

theorem request_addressing_witness:
  "\<exists>df. go_bind (EncodeFrame (applyDefaults (new_Client sample_opts)
       ((control_input 0 5 [1])\<lparr>in_Func := FCTran, in_Rkey := [0x57, 0x31]\<rparr>))) DecodeFrame = Done df \<and>
     map (trimNul \<circ> nv_Rkey) (df_Navis df) = [[], [0x57, 0x31]]"
  using request_addressing [of "(control_input 0 5 [1])\<lparr>in_Func := FCTran, in_Rkey := [0x57, 0x31]\<rparr>"
      "new_Client sample_opts"]
  by (auto simp: control_input_def wf_FrameInput_def frame_fits_def frame_size_def applyDefaults_def
      new_Client_def sample_opts_def ChannelCode_Bytes_def applySubBufferDefault_def)

end
