(* ===== verification/Mymq_Reconnect.thy ===== *)
theory Mymq_Reconnect
  imports Mymq_Client Complex_Main
begin

text \<open>
  The reconnect supervisor of src/pkg/mymq/reconnect.go as a step relation that interleaves with
  Close and with the loss of the connection.  A program point of the supervisor is a place between
  two of its reads of shared flags, so Close can fall between any two of them.  The supervisor runs
  with the background context, which is never done.  Whether a dial or a handshake succeeds is the
  choice of the environment.  The backoff times only delay the steps and do not appear.
\<close>

section \<open>Options\<close>

record ReconnectOptions =
  ro_InitialBackoff :: int
  ro_MaxBackoff :: int
  ro_BackoffFactor :: rat
  ro_MaxAttempts :: int

definition effective :: "ReconnectOptions \<Rightarrow> ReconnectOptions" where
  "effective r =
     r\<lparr>ro_InitialBackoff := (if ro_InitialBackoff r \<le> 0 then 1000000000 else ro_InitialBackoff r),
       ro_MaxBackoff := (if ro_MaxBackoff r \<le> 0 then 30 * 1000000000 else ro_MaxBackoff r),
       ro_BackoffFactor := (if ro_BackoffFactor r \<le> 1 then 2 else ro_BackoffFactor r)\<rparr>"

section \<open>Supervisor\<close>

text \<open>\<open>PWait\<close>: waiting for the connection to end; \<open>PLoop\<close>: before the attempt counter is raised;
  \<open>PSleep\<close>: in the backoff, before the closing flag is read; in tryReconnect, \<open>PDial\<close>: dialling,
  \<open>PHand\<close>: the new connection is in place and the handshake request is to be written, \<open>PReply\<close>:
  waiting for the handshake reply; \<open>PExit\<close>: returned.\<close>

datatype sup_pc = PWait | PLoop | PSleep | PDial | PHand | PReply | PExit

record Sup =
  sv_client :: Client
  sv_pc :: sup_pc
  sv_attempt :: int
  sv_up :: bool
  sv_panic :: bool

definition sup_init :: "Options \<Rightarrow> Sup" where
  "sup_init opts = \<lparr>sv_client = new_Client opts, sv_pc = PWait, sv_attempt = 0, sv_up = True,
     sv_panic = False\<rparr>"

text \<open>The supervisor wakes up after the reader has ended.\<close>

definition sup_wake :: "Sup \<Rightarrow> Sup" where
  "sup_wake s =
     (let c = sv_client s in
      if cl_closing c then s\<lparr>sv_pc := PExit\<rparr>
      else s\<lparr>sv_client := (fst (failPending c (cl_readErr c)))\<lparr>cl_reconnecting := True\<rparr>,
             sv_pc := PLoop\<rparr>)"

text \<open>Raise the attempt counter; give up for good when it exceeds the maximum.\<close>

definition sup_attempt :: "ReconnectOptions \<Rightarrow> Sup \<Rightarrow> Sup" where
  "sup_attempt rc s =
     (let n = sv_attempt s + 1; c = sv_client s in
      if 0 < ro_MaxAttempts rc \<and> ro_MaxAttempts rc < n then
        s\<lparr>sv_attempt := n, sv_pc := PExit,
          sv_client := c\<lparr>cl_readErr := Some ErrReconnectExhausted, cl_closed := True,
            cl_reconnecting := False, cl_subClosed := True\<rparr>,
          sv_panic := (sv_panic s \<or> cl_subClosed c)\<rparr>
      else s\<lparr>sv_attempt := n, sv_pc := PSleep\<rparr>)"

definition sup_backoff_over :: "Sup \<Rightarrow> Sup" where
  "sup_backoff_over s = (if cl_closing (sv_client s) then s\<lparr>sv_pc := PExit\<rparr> else s\<lparr>sv_pc := PDial\<rparr>)"

text \<open>tryReconnect swaps in the new connection, clears the diagnosis and the activity times and
  starts a reader; writeFrame refuses the handshake request of a closed client.\<close>

definition sup_dial_failed :: "Sup \<Rightarrow> Sup" where
  "sup_dial_failed s = s\<lparr>sv_pc := PLoop\<rparr>"

definition sup_dialled :: "Sup \<Rightarrow> Sup" where
  "sup_dialled s =
     s\<lparr>sv_client := (sv_client s)\<lparr>cl_conn := True, cl_readErr := None, cl_lastRecv := 0,
         cl_lastSent := 0\<rparr>, sv_up := True, sv_pc := PHand\<rparr>"

definition sup_handshake_failed :: "Sup \<Rightarrow> Sup" where
  "sup_handshake_failed s = s\<lparr>sv_up := False, sv_pc := PLoop\<rparr>"

definition sup_handshake_sent :: "Sup \<Rightarrow> Sup" where
  "sup_handshake_sent s =
     (if cl_closed (sv_client s) \<or> \<not> cl_conn (sv_client s) then sup_handshake_failed s
      else s\<lparr>sv_pc := PReply\<rparr>)"

definition sup_reconnected :: "Sup \<Rightarrow> Sup" where
  "sup_reconnected s =
     s\<lparr>sv_client := (sv_client s)\<lparr>cl_reconnecting := False\<rparr>, sv_attempt := 0, sv_pc := PWait\<rparr>"

text \<open>The user calls Close, which also ends the reader of the connection it closed.\<close>

definition sup_close :: "Sup \<Rightarrow> Sup" where
  "sup_close s =
     (case Close (sv_client s) of
        Done c \<Rightarrow> s\<lparr>sv_client := c, sv_up := (sv_up s \<and> cl_closed (sv_client s))\<rparr>
      | _ \<Rightarrow> s\<lparr>sv_panic := True\<rparr>)"

inductive sup_step :: "ReconnectOptions \<Rightarrow> Sup \<Rightarrow> Sup \<Rightarrow> bool" for rc where
  Lost: "sv_up s \<Longrightarrow> sup_step rc s (s\<lparr>sv_up := False, sv_client := storeReadErr (sv_client s) (Some e)\<rparr>)"
| Wake: "sv_pc s = PWait \<Longrightarrow> \<not> sv_up s \<Longrightarrow> sup_step rc s (sup_wake s)"
| Attempt: "sv_pc s = PLoop \<Longrightarrow> sup_step rc s (sup_attempt rc s)"
| Backoff: "sv_pc s = PSleep \<Longrightarrow> sup_step rc s (sup_backoff_over s)"
| DialFailed: "sv_pc s = PDial \<Longrightarrow> sup_step rc s (sup_dial_failed s)"
| Dialled: "sv_pc s = PDial \<Longrightarrow> sup_step rc s (sup_dialled s)"
| HandshakeSent: "sv_pc s = PHand \<Longrightarrow> sup_step rc s (sup_handshake_sent s)"
| HandshakeFailed: "sv_pc s = PHand \<or> sv_pc s = PReply \<Longrightarrow> sup_step rc s (sup_handshake_failed s)"
| Reconnected: "sv_pc s = PReply \<Longrightarrow> sup_step rc s (sup_reconnected s)"
| Shut: "sup_step rc s (sup_close s)"

definition sup_reach :: "ReconnectOptions \<Rightarrow> Options \<Rightarrow> Sup \<Rightarrow> bool" where
  "sup_reach rc opts s \<longleftrightarrow> (sup_step rc)\<^sup>*\<^sup>* (sup_init opts) s"

section \<open>Invariants\<close>

lemmas sup_defs = sup_wake_def sup_attempt_def sup_backoff_over_def sup_dial_failed_def
  sup_dialled_def sup_handshake_failed_def sup_handshake_sent_def sup_reconnected_def

lemma Close_flags:
  "Close c = Done c' \<Longrightarrow> \<not> cl_closed c \<Longrightarrow> cl_closed c' \<and> cl_closing c' \<and> cl_subClosed c' \<and> \<not> cl_conn c' \<and>
     cl_pending c' = [] \<and> cl_reconnecting c' = cl_reconnecting c"
  by (auto simp: Close_def failPending_def Let_def split: if_splits)

lemma Close_closed: "cl_closed c \<Longrightarrow> Close c = Done c"
  by (simp add: Close_def)

lemma Close_open: "\<not> cl_closed c \<Longrightarrow> \<not> cl_subClosed c \<Longrightarrow> \<exists>c'. Close c = Done c'"
  by (simp add: Close_def failPending_def Let_def)

text \<open>Without a limit on the attempts only Close closes the subscription channel.\<close>

definition unlimited_inv :: "Sup \<Rightarrow> bool" where
  "unlimited_inv s \<longleftrightarrow> \<not> sv_panic s \<and> (cl_subClosed (sv_client s) \<longleftrightarrow> cl_closed (sv_client s)) \<and>
     (cl_closing (sv_client s) \<longleftrightarrow> cl_closed (sv_client s))"

lemma sup_close_unlimited: "unlimited_inv s \<Longrightarrow> unlimited_inv (sup_close s)"
proof (cases "cl_closed (sv_client s)")
  case True
  then show "unlimited_inv s \<Longrightarrow> ?thesis" by (simp add: sup_close_def Close_closed unlimited_inv_def)
next
  case False
  assume inv: "unlimited_inv s"
  then obtain c' where c': "Close (sv_client s) = Done c'"
    using False Close_open unfolding unlimited_inv_def by blast
  then show ?thesis
    using inv Close_flags [OF c' False] by (simp add: sup_close_def unlimited_inv_def)
qed

lemma sup_step_unlimited:
  assumes "sup_step rc s s'" "ro_MaxAttempts rc \<le> 0" "unlimited_inv s"
  shows "unlimited_inv s'"
  using assms
proof (induction rule: sup_step.induct)
  case (Shut s)
  then show ?case by (simp add: sup_close_unlimited)
qed (auto simp: sup_defs unlimited_inv_def storeReadErr_def failPending_def Let_def)

lemma sup_reach_unlimited:
  assumes "sup_reach rc opts s" "ro_MaxAttempts rc \<le> 0"
  shows "unlimited_inv s"
proof -
  have "(sup_step rc)\<^sup>*\<^sup>* (sup_init opts) s" using assms(1) by (simp add: sup_reach_def)
  then show ?thesis
  proof (induction rule: rtranclp_induct)
    case base
    then show ?case by (simp add: unlimited_inv_def sup_init_def new_Client_def Let_def)
  next
    case (step s s')
    then show ?case using sup_step_unlimited assms(2) by blast
  qed
qed

text \<open>With a limit, the counter never exceeds the limit by more than the last, refused attempt, and
  a supervisor that has returned leaves a closed client.\<close>

definition limited_inv :: "int \<Rightarrow> Sup \<Rightarrow> bool" where
  "limited_inv m s \<longleftrightarrow> 0 \<le> sv_attempt s \<and> sv_attempt s \<le> m + 1 \<and>
     (sv_pc s \<noteq> PExit \<longrightarrow> sv_attempt s \<le> m) \<and>
     (cl_closing (sv_client s) \<longrightarrow> cl_closed (sv_client s)) \<and>
     (sv_pc s = PExit \<longrightarrow> cl_closed (sv_client s))"

lemma sup_close_limited: "limited_inv m s \<Longrightarrow> limited_inv m (sup_close s)"
  by (auto simp: sup_close_def limited_inv_def Close_def failPending_def Let_def split: outcome.splits)

lemma sup_step_limited:
  assumes "sup_step rc s s'" "ro_MaxAttempts rc = m" "0 < m" "limited_inv m s"
  shows "limited_inv m s'"
  using assms
proof (induction rule: sup_step.induct)
  case (Shut s)
  then show ?case by (simp add: sup_close_limited)
qed (auto simp: sup_defs limited_inv_def storeReadErr_def failPending_def Let_def)

lemma sup_reach_limited:
  assumes "sup_reach rc opts s" "0 < ro_MaxAttempts rc"
  shows "limited_inv (ro_MaxAttempts rc) s"
proof -
  have "(sup_step rc)\<^sup>*\<^sup>* (sup_init opts) s" using assms(1) by (simp add: sup_reach_def)
  then show ?thesis
  proof (induction rule: rtranclp_induct)
    case base
    then show ?case using assms(2) by (simp add: limited_inv_def sup_init_def new_Client_def Let_def)
  next
    case (step s s')
    then show ?case using sup_step_limited assms(2) by blast
  qed
qed

section \<open>The double close\<close>

lemma sup_steps_to_dial:
  "0 < n \<Longrightarrow> int n \<le> ro_MaxAttempts rc \<Longrightarrow>
   \<exists>s. sup_reach rc opts s \<and> sv_pc s = PDial \<and> sv_attempt s = int n \<and> \<not> cl_closed (sv_client s) \<and>
     \<not> cl_closing (sv_client s) \<and> \<not> cl_subClosed (sv_client s) \<and> \<not> sv_panic s"
proof (induction n)
  case 0
  then show ?case by simp
next
  case (Suc n)
  let ?ok = "\<lambda>s. \<not> cl_closed (sv_client s) \<and> \<not> cl_closing (sv_client s) \<and>
    \<not> cl_subClosed (sv_client s) \<and> \<not> sv_panic s"
  have "\<exists>s. sup_reach rc opts s \<and> sv_pc s = PLoop \<and> sv_attempt s = int n \<and> ?ok s"
  proof (cases "n = 0")
    case True
    let ?s0 = "sup_init opts"
    let ?s1 = "?s0\<lparr>sv_up := False, sv_client := storeReadErr (sv_client ?s0) (Some ErrRead)\<rparr>"
    have "sup_step rc ?s0 ?s1" by (rule sup_step.Lost) (simp add: sup_init_def)
    moreover have "sup_step rc ?s1 (sup_wake ?s1)" by (rule sup_step.Wake) (simp_all add: sup_init_def)
    ultimately have "sup_reach rc opts (sup_wake ?s1)" by (auto simp: sup_reach_def)
    then show ?thesis
      using True by (intro exI [of _ "sup_wake ?s1"])
        (simp add: sup_wake_def sup_init_def new_Client_def storeReadErr_def failPending_def Let_def)
  next
    case False
    then obtain s where s: "sup_reach rc opts s" "sv_pc s = PDial" "sv_attempt s = int n" "?ok s"
      using Suc by auto
    then have "sup_reach rc opts (sup_dial_failed s)"
      unfolding sup_reach_def by (meson rtranclp.rtrancl_into_rtrancl sup_step.DialFailed)
    then show ?thesis using s by (intro exI [of _ "sup_dial_failed s"]) (simp add: sup_dial_failed_def)
  qed
  then obtain s where s: "sup_reach rc opts s" "sv_pc s = PLoop" "sv_attempt s = int n" "?ok s" by blast
  let ?s1 = "sup_attempt rc s"
  have s1: "sv_pc ?s1 = PSleep" "sv_attempt ?s1 = int (Suc n)" "?ok ?s1"
    using s Suc.prems by (simp_all add: sup_attempt_def Let_def)
  have "sup_step rc s ?s1" using s by (intro sup_step.Attempt)
  moreover have "sup_step rc ?s1 (sup_backoff_over ?s1)" using s1 by (intro sup_step.Backoff)
  ultimately have "sup_reach rc opts (sup_backoff_over ?s1)"
    using s(1) unfolding sup_reach_def by (meson rtranclp.rtrancl_into_rtrancl)
  then show ?case using s1 by (intro exI [of _ "sup_backoff_over ?s1"]) (simp add: sup_backoff_over_def)
qed

lemma sup_reach_step: "sup_reach rc opts s \<Longrightarrow> sup_step rc s s' \<Longrightarrow> sup_reach rc opts s'"
  unfolding sup_reach_def by (rule rtranclp.rtrancl_into_rtrancl)

lemma sup_closed_in_dial:
  assumes "0 < ro_MaxAttempts rc"
  shows "\<exists>s. sup_reach rc opts s \<and> sv_pc s = PDial \<and> sv_attempt s = ro_MaxAttempts rc \<and>
    cl_closed (sv_client s) \<and> cl_closing (sv_client s) \<and> cl_subClosed (sv_client s) \<and> \<not> sv_panic s"
proof -
  obtain s where s: "sup_reach rc opts s" "sv_pc s = PDial" "sv_attempt s = ro_MaxAttempts rc"
    "\<not> cl_closed (sv_client s)" "\<not> cl_subClosed (sv_client s)" "\<not> sv_panic s"
    using sup_steps_to_dial [of "nat (ro_MaxAttempts rc)" rc opts] assms by auto
  obtain c' where c': "Close (sv_client s) = Done c'" using Close_open s(4,5) by blast
  then have "sv_pc (sup_close s) = PDial" "sv_attempt (sup_close s) = ro_MaxAttempts rc"
    "cl_closed (sv_client (sup_close s))" "cl_closing (sv_client (sup_close s))"
    "cl_subClosed (sv_client (sup_close s))" "\<not> sv_panic (sup_close s)"
    using s Close_flags [OF c' s(4)] by (simp_all add: sup_close_def)
  then show ?thesis using sup_reach_step [OF s(1) sup_step.Shut] by blast
qed

section \<open>Properties of the supervisor\<close>


definition sample_rc :: "int \<Rightarrow> ReconnectOptions" where
  "sample_rc m = \<lparr>ro_InitialBackoff = 0, ro_MaxBackoff = 0, ro_BackoffFactor = 0, ro_MaxAttempts = m\<rparr>"


text \<open>With a limit of m attempts the supervisor makes at most m attempts per connection loss, and
  once it has returned the client is closed.\<close>

theorem limited_reconnect_bound:
  assumes "sup_reach rc opts s" "0 < ro_MaxAttempts rc"
  shows "sv_attempt s \<le> ro_MaxAttempts rc + 1 \<and>
    (sv_pc s \<in> {PDial, PHand, PReply} \<longrightarrow> sv_attempt s \<le> ro_MaxAttempts rc) \<and>
    (sv_pc s = PExit \<longrightarrow> cl_closed (sv_client s))"
  using sup_reach_limited [OF assms] by (simp add: limited_inv_def)

theorem limited_reconnect_bound_witness:
  "\<exists>s. sup_reach (sample_rc 3) sample_opts s \<and> sv_pc s = PDial \<and> sv_attempt s = 3 \<and>
     sv_attempt s \<le> ro_MaxAttempts (sample_rc 3)"
  using sup_closed_in_dial [of "sample_rc 3" sample_opts] limited_reconnect_bound
  by (fastforce simp: sample_rc_def)

text \<open>With any positive limit the supervisor can close the subscription channel a second time:
  if Close runs during the last allowed attempt and that attempt fails, the next round gives up
  without reading the closing flag and panics on the closed channel.\<close>

theorem limited_reconnect_double_close:
  assumes "0 < ro_MaxAttempts rc"
  shows "\<exists>s. sup_reach rc opts s \<and> sv_panic s"
proof -
  obtain s where s: "sup_reach rc opts s" "sv_pc s = PDial" "sv_attempt s = ro_MaxAttempts rc"
    "cl_subClosed (sv_client s)"
    using sup_closed_in_dial [OF assms, of opts] by blast
  let ?s1 = "sup_dial_failed s"
  have "sup_reach rc opts ?s1" using s by (meson sup_reach_step sup_step.DialFailed)
  moreover have "sup_step rc ?s1 (sup_attempt rc ?s1)"
    by (rule sup_step.Attempt) (simp add: sup_dial_failed_def)
  moreover have "sv_panic (sup_attempt rc ?s1)"
    using s assms by (simp add: sup_attempt_def sup_dial_failed_def Let_def)
  ultimately show ?thesis using sup_reach_step by blast
qed

theorem limited_reconnect_double_close_witness:
  "\<exists>s. sup_reach (sample_rc 1) sample_opts s \<and> sv_panic s"
  by (rule limited_reconnect_double_close) (simp add: sample_rc_def)

end
