(* ===== verification/Wtg_Interfaces.thy ===== *)
theory Wtg_Interfaces
  imports Wtg_Prelude
begin

text \<open>
  Contracts that several components implement.  The lemmas of the clients are proved here once; each
  providing theory interprets the locale on its own definitions.
\<close>

section \<open>Use once\<close>

text \<open>
  \<open>exec op s\<close> is the list of keys granted by the operation and the new state, \<open>issues op k\<close> says
  that the operation (re)issues \<open>k\<close>, and \<open>spent s k\<close> that \<open>k\<close> cannot be granted any more.
\<close>

primrec run_ops :: "('op \<Rightarrow> 's \<Rightarrow> 'k list \<times> 's) \<Rightarrow> 'op list \<Rightarrow> 's \<Rightarrow> 'k list \<times> 's" where
  "run_ops exec [] s = ([], s)"
| "run_ops exec (op # ops) s =
     (fst (exec op s) @ fst (run_ops exec ops (snd (exec op s))), snd (run_ops exec ops (snd (exec op s))))"

locale use_once =
  fixes exec :: "'op \<Rightarrow> 's \<Rightarrow> 'k list \<times> 's"
    and issues :: "'op \<Rightarrow> 'k \<Rightarrow> bool"
    and spent :: "'s \<Rightarrow> 'k \<Rightarrow> bool"
    and ok :: "'s \<Rightarrow> bool"
  assumes exec_ok: "ok s \<Longrightarrow> ok (snd (exec op s))"
    and spent_no_grant: "ok s \<Longrightarrow> spent s k \<Longrightarrow> \<not> issues op k \<Longrightarrow> k \<notin> set (fst (exec op s))"
    and spent_stays: "ok s \<Longrightarrow> spent s k \<Longrightarrow> \<not> issues op k \<Longrightarrow> spent (snd (exec op s)) k"
    and grant_once: "ok s \<Longrightarrow> \<not> issues op k \<Longrightarrow> count_list (fst (exec op s)) k \<le> 1"
    and grant_spends:
      "ok s \<Longrightarrow> \<not> issues op k \<Longrightarrow> k \<in> set (fst (exec op s)) \<Longrightarrow> spent (snd (exec op s)) k"
begin

lemma run_spent:
  "ok s \<Longrightarrow> spent s k \<Longrightarrow> list_all (\<lambda>op. \<not> issues op k) ops \<Longrightarrow> k \<notin> set (fst (run_ops exec ops s))"
  by (induction ops arbitrary: s) (auto dest: spent_no_grant spent_stays exec_ok)

lemma run_ok: "ok s \<Longrightarrow> ok (snd (run_ops exec ops s))"
  by (induction ops arbitrary: s) (auto dest: exec_ok)

lemma run_at_most_once:
  "ok s \<Longrightarrow> list_all (\<lambda>op. \<not> issues op k) ops \<Longrightarrow> count_list (fst (run_ops exec ops s)) k \<le> 1"
proof (induction ops arbitrary: s)
  case Nil
  then show ?case by simp
next
  case (Cons op ops)
  let ?s' = "snd (exec op s)"
  have ok': "ok ?s'" using Cons.prems by (simp add: exec_ok)
  show ?case
  proof (cases "k \<in> set (fst (exec op s))")
    case True
    then have "k \<notin> set (fst (run_ops exec ops ?s'))"
      using Cons.prems ok' by (intro run_spent) (auto intro: grant_spends)
    then have "count_list (fst (run_ops exec ops ?s')) k = 0" by (rule count_notin)
    then show ?thesis using Cons.prems grant_once [of s op k] by simp
  next
    case False
    then have "count_list (fst (exec op s)) k = 0" by (rule count_notin)
    then show ?thesis using Cons.prems Cons.IH [OF ok'] by simp
  qed
qed

end

end
