(* ===== verification/Session_Types.thy ===== *)
theory Session_Types
  imports Wtg_Prelude
begin

text \<open>
  Profiles of src/pkg/session/types.go: the channel, site and tier of a session, the routing-key
  prefix built from them and its parsing.  Go strings are strings of characters here.
\<close>

record Profile =
  pf_Channel :: string
  pf_Site :: string
  pf_Tier :: string

definition Profile_Key :: "Profile \<Rightarrow> string" where
  "Profile_Key p = pf_Channel p @ ''.'' @ pf_Site p @ ''.'' @ pf_Tier p"

text \<open>The split loop: the current token, then the tokens found so far.\<close>

fun split_loop :: "string \<Rightarrow> string \<Rightarrow> string list" where
  "split_loop [] cur = [cur]"
| "split_loop (c # s) cur = (if c = CHR ''.'' then cur # split_loop s [] else split_loop s (cur @ [c]))"

definition profileKeySplit :: "string \<Rightarrow> string list" where
  "profileKeySplit s = split_loop s []"

definition ParseProfileKey :: "string \<Rightarrow> Profile option" where
  "ParseProfileKey key =
     (case profileKeySplit key of
        [a, b, c] \<Rightarrow> Some \<lparr>pf_Channel = a, pf_Site = b, pf_Tier = c\<rparr>
      | _ \<Rightarrow> None)"

definition channels :: "string list" where
  "channels = [''WEB'', ''MOB'', ''CS'', ''FIX'', ''ADM'', ''EMP'', ''HTS'']"

definition sites :: "string list" where
  "sites = [''BRANCH'', ''HQ'']"

definition tiers :: "string list" where
  "tiers = [''VIP'', ''GOLD'', ''STD'']"

definition known_profile :: "Profile \<Rightarrow> bool" where
  "known_profile p \<longleftrightarrow> pf_Channel p \<in> set channels \<and> pf_Site p \<in> set sites \<and>
     (pf_Tier p = [] \<or> pf_Tier p \<in> set tiers)"

lemma split_loop_dot:
  "CHR ''.'' \<notin> set a \<Longrightarrow> split_loop (a @ CHR ''.'' # s) cur = (cur @ a) # split_loop s []"
  by (induction a arbitrary: cur) auto

lemma split_loop_end: "CHR ''.'' \<notin> set a \<Longrightarrow> split_loop a cur = [cur @ a]"
  by (induction a arbitrary: cur) auto

text \<open>A profile whose parts contain no dot is recovered from its key, and the key of every
  profile built from the declared channels, sites and tiers has at most 15 bytes, so it fits into
  the 16-byte routing key of the broker.\<close>

theorem profile_key:
  "(CHR ''.'' \<notin> set (pf_Channel p) \<and> CHR ''.'' \<notin> set (pf_Site p) \<and> CHR ''.'' \<notin> set (pf_Tier p) \<longrightarrow>
      ParseProfileKey (Profile_Key p) = Some p) \<and>
   (known_profile p \<longrightarrow> length (Profile_Key p) \<le> 15)"
  by (auto simp: Profile_Key_def ParseProfileKey_def profileKeySplit_def split_loop_dot split_loop_end
      known_profile_def channels_def sites_def tiers_def)

theorem profile_key_witness:
  "ParseProfileKey (Profile_Key \<lparr>pf_Channel = ''WEB'', pf_Site = ''BRANCH'', pf_Tier = ''GOLD''\<rparr>) =
     Some \<lparr>pf_Channel = ''WEB'', pf_Site = ''BRANCH'', pf_Tier = ''GOLD''\<rparr> \<and>
   length (Profile_Key \<lparr>pf_Channel = ''WEB'', pf_Site = ''BRANCH'', pf_Tier = ''GOLD''\<rparr>) \<le> 15"
  using profile_key [of "\<lparr>pf_Channel = ''WEB'', pf_Site = ''BRANCH'', pf_Tier = ''GOLD''\<rparr>"]
  by (simp add: known_profile_def channels_def sites_def tiers_def)

end
