(* ===== verification/Quote_Id.thy ===== *)
theory Quote_Id
  imports Wtg_Interfaces Session_Types
begin

text \<open>
  Quote identifiers of src/pkg/quoteid: the records, the generator, the in-process registry
  MemoryRegistry with the single-use marker, and its swap index.  Times are nanoseconds; every
  reading of the clock is an argument.  Prices (float64) are kept as their 64-bit pattern: the
  registry only stores them.
\<close>

section \<open>Records and identifiers\<close>

type_synonym QuoteID = string

record QuoteRecord =
  q_QuoteID :: QuoteID
  q_Pair :: string
  q_Profile :: Profile
  q_Tenor :: string
  q_Bid :: u64
  q_Ask :: u64
  q_IssuedAt :: int
  q_ValidUntil :: int
  q_Sequence :: u64
  q_Issuer :: string
  q_ValueDate :: int
  q_OffsetDays :: int
  q_InterpolatedFrom :: string
  q_InterpolatedTo :: string
  q_InterpolationWeight :: u64
  q_SwapBid :: u64
  q_SwapAsk :: u64

definition ValidAt :: "QuoteRecord \<Rightarrow> int \<Rightarrow> bool" where
  "ValidAt r n \<longleftrightarrow> n \<ge> q_IssuedAt r \<and> n < q_ValidUntil r"

record SwapRecord =
  w_SwapID :: string
  w_NearID :: QuoteID
  w_FarID :: QuoteID
  w_IssuedAt :: int
  w_ValidUntil :: int
  w_Issuer :: string

text \<open>strconv.FormatUint and FormatInt in base 36.\<close>

definition digit36 :: "nat \<Rightarrow> char" where
  "digit36 d = ''0123456789abcdefghijklmnopqrstuvwxyz'' ! d"

fun FormatUint36 :: "nat \<Rightarrow> string" where
  "FormatUint36 n = (if n < 36 then [digit36 n] else FormatUint36 (n div 36) @ [digit36 (n mod 36)])"

declare FormatUint36.simps [simp del]

definition FormatInt36 :: "int \<Rightarrow> string" where
  "FormatInt36 i = (if i < 0 then CHR ''-'' # FormatUint36 (nat (- i)) else FormatUint36 (nat i))"

record Generator =
  g_instance :: string
  g_seq :: u64

definition NewGenerator :: "string \<Rightarrow> Generator" where
  "NewGenerator inst = \<lparr>g_instance = (if inst = [] then ''A'' else inst), g_seq = 0\<rparr>"

definition Generator_Next :: "int \<Rightarrow> Generator \<Rightarrow> QuoteID \<times> Generator" where
  "Generator_Next ms g =
     (let s = g_seq g + 1
      in (g_instance g @ ''-'' @ FormatInt36 ms @ ''-'' @ FormatUint36 (unat s), g\<lparr>g_seq := s\<rparr>))"

definition NextSequence :: "Generator \<Rightarrow> u64" where
  "NextSequence g = g_seq g"

text \<open>A series of Next calls at the given clock readings.\<close>

primrec Next_series :: "int list \<Rightarrow> Generator \<Rightarrow> QuoteID list" where
  "Next_series [] g = []"
| "Next_series (ms # mss) g = fst (Generator_Next ms g) # Next_series mss (snd (Generator_Next ms g))"

section \<open>The in-process registry\<close>

datatype quote_error = ErrNotFound | ErrInvalidRecord | ErrSwapNotFound

datatype ConsumeStatus = ConsumeStatusUnknown | ConsumeOK | ConsumeAlreadyDone | ConsumeNotFound | ConsumeExpired

record ConsumeResult =
  c_Status :: ConsumeStatus
  c_Record :: "QuoteRecord option"
  c_ConsumedBy :: string

record LookupResult =
  l_Found :: bool
  l_Record :: "QuoteRecord option"
  l_Consumed :: bool
  l_ConsumedBy :: string

record MemoryRegistry =
  m_records :: "(QuoteID \<times> QuoteRecord) list"
  m_consumed :: "(QuoteID \<times> string) list"
  m_swaps :: "(string \<times> SwapRecord) list"
  m_grace :: int

definition NewMemoryRegistry :: "int \<Rightarrow> MemoryRegistry" where
  "NewMemoryRegistry grace = \<lparr>m_records = [], m_consumed = [], m_swaps = [], m_grace = grace\<rparr>"

text \<open>The expiry test that every operation writes out: now is after ValidUntil plus the grace.\<close>

definition lapsed :: "int \<Rightarrow> int \<Rightarrow> MemoryRegistry \<Rightarrow> bool" where
  "lapsed now until m \<longleftrightarrow> now > until + m_grace m"

definition put_rec :: "QuoteRecord \<Rightarrow> MemoryRegistry \<Rightarrow> MemoryRegistry" where
  "put_rec r m = m\<lparr>m_records := AList.update (q_QuoteID r) r (m_records m)\<rparr>"

definition invalid_rec :: "QuoteRecord \<Rightarrow> bool" where
  "invalid_rec r \<longleftrightarrow> q_ValidUntil r \<le> q_IssuedAt r \<or> q_QuoteID r = []"

definition Registry_Put :: "QuoteRecord \<Rightarrow> MemoryRegistry \<Rightarrow> quote_error option \<times> MemoryRegistry" where
  "Registry_Put r m = (if invalid_rec r then (Some ErrInvalidRecord, m) else (None, put_rec r m))"

primrec Registry_PutMany :: "QuoteRecord list \<Rightarrow> MemoryRegistry \<Rightarrow> MemoryRegistry" where
  "Registry_PutMany [] m = m"
| "Registry_PutMany (r # rs) m = Registry_PutMany rs (if invalid_rec r then m else put_rec r m)"

text \<open>
  Get takes the read lock for the lookup and, when the record has lapsed, the write lock for the
  eviction; the two critical sections are two definitions, so that other operations may run
  between them.
\<close>

definition Get_read :: "int \<Rightarrow> QuoteID \<Rightarrow> MemoryRegistry \<Rightarrow> quote_error + QuoteRecord" where
  "Get_read now i m =
     (case map_of (m_records m) i of
        None \<Rightarrow> Inl ErrNotFound
      | Some r \<Rightarrow> if lapsed now (q_ValidUntil r) m then Inl ErrNotFound else Inr r)"

definition Get_evict :: "QuoteID \<Rightarrow> MemoryRegistry \<Rightarrow> MemoryRegistry" where
  "Get_evict i m = m\<lparr>m_records := AList.delete i (m_records m)\<rparr>"

definition Registry_Get :: "int \<Rightarrow> QuoteID \<Rightarrow> MemoryRegistry \<Rightarrow> (quote_error + QuoteRecord) \<times> MemoryRegistry" where
  "Registry_Get now i m =
     (Get_read now i m,
      case map_of (m_records m) i of
        None \<Rightarrow> m
      | Some r \<Rightarrow> if lapsed now (q_ValidUntil r) m then Get_evict i m else m)"

definition drop_id :: "QuoteID \<Rightarrow> MemoryRegistry \<Rightarrow> MemoryRegistry" where
  "drop_id i m = m\<lparr>m_records := AList.delete i (m_records m), m_consumed := AList.delete i (m_consumed m)\<rparr>"

definition MarkConsumed :: "int \<Rightarrow> int \<Rightarrow> QuoteID \<Rightarrow> string \<Rightarrow> MemoryRegistry \<Rightarrow> ConsumeResult \<times> MemoryRegistry" where
  "MarkConsumed now1 now2 i consumer m =
     (case map_of (m_records m) i of
        None \<Rightarrow> (\<lparr>c_Status = ConsumeNotFound, c_Record = None, c_ConsumedBy = []\<rparr>, m)
      | Some r \<Rightarrow>
          if lapsed now1 (q_ValidUntil r) m then
            (\<lparr>c_Status = ConsumeNotFound, c_Record = None, c_ConsumedBy = []\<rparr>, drop_id i m)
          else if \<not> ValidAt r now2 then
            (\<lparr>c_Status = ConsumeExpired, c_Record = Some r, c_ConsumedBy = []\<rparr>, m)
          else (case map_of (m_consumed m) i of
              Some prev \<Rightarrow> (\<lparr>c_Status = ConsumeAlreadyDone, c_Record = Some r, c_ConsumedBy = prev\<rparr>, m)
            | None \<Rightarrow> (\<lparr>c_Status = ConsumeOK, c_Record = Some r, c_ConsumedBy = []\<rparr>,
                m\<lparr>m_consumed := AList.update i consumer (m_consumed m)\<rparr>)))"

text \<open>MarkConsumedMany reads the clock once and works through the requests under one lock; its loop
  body repeats the branches of MarkConsumed with that reading.\<close>

primrec MarkConsumedMany ::
  "int \<Rightarrow> (QuoteID \<times> string) list \<Rightarrow> MemoryRegistry \<Rightarrow> ConsumeResult list \<times> MemoryRegistry" where
  "MarkConsumedMany now [] m = ([], m)"
| "MarkConsumedMany now (q # qs) m =
     (let (i, consumer) = q;
          (res, m') = (case map_of (m_records m) i of
              None \<Rightarrow> (\<lparr>c_Status = ConsumeNotFound, c_Record = None, c_ConsumedBy = []\<rparr>, m)
            | Some r \<Rightarrow>
                if now > q_ValidUntil r + m_grace m then
                  (\<lparr>c_Status = ConsumeNotFound, c_Record = None, c_ConsumedBy = []\<rparr>, drop_id i m)
                else if \<not> ValidAt r now then
                  (\<lparr>c_Status = ConsumeExpired, c_Record = Some r, c_ConsumedBy = []\<rparr>, m)
                else if map_of (m_consumed m) i \<noteq> None then
                  (\<lparr>c_Status = ConsumeAlreadyDone, c_Record = Some r,
                    c_ConsumedBy = the (map_of (m_consumed m) i)\<rparr>, m)
                else (\<lparr>c_Status = ConsumeOK, c_Record = Some r, c_ConsumedBy = []\<rparr>,
                      m\<lparr>m_consumed := AList.update i consumer (m_consumed m)\<rparr>));
          (out, m'') = MarkConsumedMany now qs m'
      in (res # out, m''))"

definition lookupLocked :: "int \<Rightarrow> QuoteID \<Rightarrow> MemoryRegistry \<Rightarrow> LookupResult" where
  "lookupLocked now i m =
     (let c = (case map_of (m_consumed m) i of None \<Rightarrow> [] | Some c \<Rightarrow> c);
          taken = (map_of (m_consumed m) i \<noteq> None)
      in case map_of (m_records m) i of
           None \<Rightarrow> \<lparr>l_Found = False, l_Record = None, l_Consumed = taken, l_ConsumedBy = c\<rparr>
         | Some r \<Rightarrow>
             if lapsed now (q_ValidUntil r) m
             then \<lparr>l_Found = False, l_Record = None, l_Consumed = taken, l_ConsumedBy = c\<rparr>
             else \<lparr>l_Found = True, l_Record = Some r, l_Consumed = taken, l_ConsumedBy = c\<rparr>)"

definition Registry_LookupMany :: "(QuoteID \<times> int) list \<Rightarrow> MemoryRegistry \<Rightarrow> LookupResult list" where
  "Registry_LookupMany ids m = map (\<lambda>(i, now). lookupLocked now i m) ids"

definition Registry_Consumed :: "QuoteID \<Rightarrow> MemoryRegistry \<Rightarrow> string option" where
  "Registry_Consumed i m = map_of (m_consumed m) i"

definition Registry_Sweep :: "int \<Rightarrow> MemoryRegistry \<Rightarrow> nat \<times> MemoryRegistry" where
  "Registry_Sweep now m =
     (let gone = filter (\<lambda>(i, r). lapsed now (q_ValidUntil r) m) (m_records m)
      in (length gone,
          m\<lparr>m_records := filter (\<lambda>(i, r). \<not> lapsed now (q_ValidUntil r) m) (m_records m),
            m_consumed := filter (\<lambda>(i, c). i \<notin> fst ` set gone) (m_consumed m),
            m_swaps := filter (\<lambda>(i, w). \<not> lapsed now (w_ValidUntil w) m) (m_swaps m)\<rparr>))"

definition PutSwap :: "SwapRecord \<Rightarrow> MemoryRegistry \<Rightarrow> quote_error option \<times> MemoryRegistry" where
  "PutSwap w m =
     (if w_ValidUntil w \<le> w_IssuedAt w then (Some ErrInvalidRecord, m)
      else if w_SwapID w = [] \<or> w_NearID w = [] \<or> w_FarID w = [] then (Some ErrInvalidRecord, m)
      else (None, m\<lparr>m_swaps := AList.update (w_SwapID w) w (m_swaps m)\<rparr>))"

definition GetSwap :: "int \<Rightarrow> string \<Rightarrow> MemoryRegistry \<Rightarrow> (quote_error + SwapRecord) \<times> MemoryRegistry" where
  "GetSwap now i m =
     (case map_of (m_swaps m) i of
        None \<Rightarrow> (Inl ErrSwapNotFound, m)
      | Some w \<Rightarrow>
          if lapsed now (w_ValidUntil w) m
          then (Inl ErrSwapNotFound, m\<lparr>m_swaps := AList.delete i (m_swaps m)\<rparr>)
          else (Inr w, m))"

definition Registry_Delete :: "QuoteID \<Rightarrow> MemoryRegistry \<Rightarrow> MemoryRegistry" where
  "Registry_Delete i m = (if i = [] then m else drop_id i m)"

definition DeleteSwap :: "string \<Rightarrow> MemoryRegistry \<Rightarrow> MemoryRegistry" where
  "DeleteSwap i m = (if i = [] then m else m\<lparr>m_swaps := AList.delete i (m_swaps m)\<rparr>)"

definition Registry_Len :: "MemoryRegistry \<Rightarrow> nat" where
  "Registry_Len m = length (m_records m)"

section \<open>Sequences of operations\<close>

text \<open>One critical section of the registry per operation.\<close>

datatype mem_op =
    OPut QuoteRecord
  | OPutMany "QuoteRecord list"
  | OGetEvict QuoteID
  | OConsume int int QuoteID string
  | OConsumeMany int "(QuoteID \<times> string) list"
  | OSweep int
  | OPutSwap SwapRecord
  | OGetSwap int string
  | ODelete QuoteID
  | ODeleteSwap string

definition is_ok :: "ConsumeResult \<Rightarrow> bool" where
  "is_ok r \<longleftrightarrow> c_Status r = ConsumeOK"

definition granted :: "QuoteID list \<Rightarrow> ConsumeResult list \<Rightarrow> QuoteID list" where
  "granted ids rs = map fst (filter (\<lambda>(i, r). is_ok r) (zip ids rs))"

fun mem_exec :: "mem_op \<Rightarrow> MemoryRegistry \<Rightarrow> QuoteID list \<times> MemoryRegistry" where
  "mem_exec (OPut r) m = ([], snd (Registry_Put r m))"
| "mem_exec (OPutMany rs) m = ([], Registry_PutMany rs m)"
| "mem_exec (OGetEvict i) m = ([], Get_evict i m)"
| "mem_exec (OConsume n1 n2 i c) m =
     (let (r, m') = MarkConsumed n1 n2 i c m in (granted [i] [r], m'))"
| "mem_exec (OConsumeMany n qs) m =
     (let (rs, m') = MarkConsumedMany n qs m in (granted (map fst qs) rs, m'))"
| "mem_exec (OSweep n) m = ([], snd (Registry_Sweep n m))"
| "mem_exec (OPutSwap w) m = ([], snd (PutSwap w m))"
| "mem_exec (OGetSwap n i) m = ([], snd (GetSwap n i m))"
| "mem_exec (ODelete i) m = ([], Registry_Delete i m)"
| "mem_exec (ODeleteSwap i) m = ([], DeleteSwap i m)"

fun mem_issues :: "mem_op \<Rightarrow> QuoteID \<Rightarrow> bool" where
  "mem_issues (OPut r) i \<longleftrightarrow> q_QuoteID r = i"
| "mem_issues (OPutMany rs) i \<longleftrightarrow> i \<in> q_QuoteID ` set rs"
| "mem_issues _ i \<longleftrightarrow> False"

definition mem_spent :: "MemoryRegistry \<Rightarrow> QuoteID \<Rightarrow> bool" where
  "mem_spent m i \<longleftrightarrow> map_of (m_records m) i = None \<or> map_of (m_consumed m) i \<noteq> None"

definition mem_wf :: "MemoryRegistry \<Rightarrow> bool" where
  "mem_wf m \<longleftrightarrow> gomap (m_records m) \<and> gomap (m_consumed m) \<and> gomap (m_swaps m) \<and>
     (\<forall>i r. map_of (m_records m) i = Some r \<longrightarrow> q_QuoteID r = i \<and> \<not> invalid_rec r)"

section \<open>Consuming a quote\<close>

lemmas registry_defs = put_rec_def Registry_Put_def Get_evict_def drop_id_def Registry_Delete_def
  PutSwap_def GetSwap_def DeleteSwap_def

lemma MarkConsumedMany_Cons:
  "MarkConsumedMany now ((i, c) # qs) m =
     (let (res, m') = MarkConsumed now now i c m; (out, m'') = MarkConsumedMany now qs m'
      in (res # out, m''))"
  by (auto simp: MarkConsumed_def lapsed_def Let_def split: option.splits prod.splits)

declare MarkConsumedMany.simps(2) [simp del]

text \<open>What one call decides: it grants exactly an unspent quote inside its validity window.\<close>

lemma MarkConsumed_ok_iff:
  "is_ok (fst (MarkConsumed n1 n2 i c m)) \<longleftrightarrow>
     (\<exists>r. map_of (m_records m) i = Some r \<and> \<not> lapsed n1 (q_ValidUntil r) m \<and> ValidAt r n2 \<and>
          map_of (m_consumed m) i = None)"
  by (auto simp: MarkConsumed_def is_ok_def split: option.splits)

lemma MarkConsumed_spends:
  "mem_spent m j \<Longrightarrow> mem_spent (snd (MarkConsumed n1 n2 i c m)) j"
  by (auto simp: MarkConsumed_def mem_spent_def drop_id_def split: option.splits)

lemma MarkConsumed_spends_own:
  "is_ok (fst (MarkConsumed n1 n2 i c m)) \<Longrightarrow> mem_spent (snd (MarkConsumed n1 n2 i c m)) i"
  by (auto simp: MarkConsumed_def mem_spent_def is_ok_def split: option.splits if_splits)

lemma MarkConsumed_spent_refused:
  "mem_spent m i \<Longrightarrow> \<not> is_ok (fst (MarkConsumed n1 n2 i c m))"
  by (auto simp: MarkConsumed_ok_iff mem_spent_def)

lemma MarkConsumed_won:
  assumes "is_ok (fst (MarkConsumed n1 n2 i c m))"
  shows "\<exists>r. map_of (m_records m) i = Some r \<and> ValidAt r n2 \<and>
    (\<forall>n1' n2' c'. \<not> lapsed n1' (q_ValidUntil r) m \<and> ValidAt r n2' \<longrightarrow>
       fst (MarkConsumed n1' n2' i c' (snd (MarkConsumed n1 n2 i c m))) =
         \<lparr>c_Status = ConsumeAlreadyDone, c_Record = Some r, c_ConsumedBy = c\<rparr>)"
proof -
  from assms obtain r where r: "map_of (m_records m) i = Some r" "\<not> lapsed n1 (q_ValidUntil r) m"
      "ValidAt r n2" "map_of (m_consumed m) i = None"
    unfolding MarkConsumed_ok_iff by blast
  then have "snd (MarkConsumed n1 n2 i c m) = m\<lparr>m_consumed := AList.update i c (m_consumed m)\<rparr>"
    by (simp add: MarkConsumed_def)
  then show ?thesis using r by (simp add: MarkConsumed_def lapsed_def)
qed

lemma mem_wf_drop: "mem_wf m \<Longrightarrow> mem_wf (drop_id i m)"
  by (simp add: mem_wf_def drop_id_def)

lemma MarkConsumed_wf: "mem_wf m \<Longrightarrow> mem_wf (snd (MarkConsumed n1 n2 i c m))"
  by (auto simp: MarkConsumed_def mem_wf_drop split: option.splits) (auto simp: mem_wf_def)

lemma granted_Cons: "granted (i # ids) (r # rs) = (if is_ok r then i # granted ids rs else granted ids rs)"
  by (simp add: granted_def)

lemma granted_Nil [simp]: "granted [] rs = []"
  by (simp add: granted_def)

lemma many_grants:
  defines "G qs n m \<equiv> granted (map fst qs) (fst (MarkConsumedMany n qs m))"
  shows "(mem_spent m i \<longrightarrow> i \<notin> set (G qs n m) \<and> mem_spent (snd (MarkConsumedMany n qs m)) i) \<and>
    (i \<in> set (G qs n m) \<longrightarrow> mem_spent (snd (MarkConsumedMany n qs m)) i) \<and>
    count_list (G qs n m) i \<le> 1"
proof (induction qs arbitrary: m)
  case Nil
  then show ?case by (simp add: G_def)
next
  case (Cons q qs)
  obtain j c where q: "q = (j, c)" by (cases q)
  let ?m' = "snd (MarkConsumed n n j c m)" and ?r = "fst (MarkConsumed n n j c m)"
  have G: "G (q # qs) n m = (if is_ok ?r then j # G qs n ?m' else G qs n ?m')"
    and S: "snd (MarkConsumedMany n (q # qs) m) = snd (MarkConsumedMany n qs ?m')"
    by (simp_all add: G_def q MarkConsumedMany_Cons granted_Cons Let_def split: prod.splits)
  show ?case
    using Cons.IH [of ?m'] MarkConsumed_spends [of m i n n j c] MarkConsumed_spends_own [of n n j c m]
      MarkConsumed_spent_refused [of m j n n c]
    unfolding G S by (auto simp: count_list_0_iff)
qed

lemma many_wf: "mem_wf m \<Longrightarrow> mem_wf (snd (MarkConsumedMany n qs m))"
proof (induction qs arbitrary: m)
  case (Cons q qs)
  then show ?case
    using MarkConsumed_wf [of m n n "fst q" "snd q"]
    by (cases q) (simp add: MarkConsumedMany_Cons Let_def case_prod_beta)
qed simp

lemma put_rec_wf: "mem_wf m \<Longrightarrow> \<not> invalid_rec r \<Longrightarrow> mem_wf (put_rec r m)"
  by (simp add: mem_wf_def put_rec_def)

lemma PutMany_wf: "mem_wf m \<Longrightarrow> mem_wf (Registry_PutMany rs m)"
  by (induction rs arbitrary: m) (auto simp: put_rec_wf)

lemma PutMany_other:
  "i \<notin> q_QuoteID ` set rs \<Longrightarrow>
     map_of (m_records (Registry_PutMany rs m)) i = map_of (m_records m) i \<and>
     m_consumed (Registry_PutMany rs m) = m_consumed m"
  by (induction rs arbitrary: m) (auto simp: put_rec_def)

lemma Sweep_records:
  "mem_wf m \<Longrightarrow> map_of (m_records (snd (Registry_Sweep n m))) i =
     (case map_of (m_records m) i of None \<Rightarrow> None
      | Some r \<Rightarrow> if lapsed n (q_ValidUntil r) m then None else Some r)"
  by (auto simp: Registry_Sweep_def mem_wf_def Let_def map_of_filter_some split: option.splits)

lemma Sweep_consumed:
  "mem_wf m \<Longrightarrow> map_of (m_consumed (snd (Registry_Sweep n m))) i =
     (case map_of (m_records m) i of None \<Rightarrow> map_of (m_consumed m) i
      | Some r \<Rightarrow> if lapsed n (q_ValidUntil r) m then None else map_of (m_consumed m) i)"
proof -
  assume wf: "mem_wf m"
  let ?gone = "filter (\<lambda>(i, r). lapsed n (q_ValidUntil r) m) (m_records m)"
  have "i \<in> fst ` set ?gone \<longleftrightarrow> (\<exists>r. map_of (m_records m) i = Some r \<and> lapsed n (q_ValidUntil r) m)"
    using wf by (force simp: mem_wf_def gomap_set_iff)
  then show ?thesis
    using wf by (auto simp: Registry_Sweep_def mem_wf_def Let_def map_of_filter_some split: option.splits)
qed

lemma Sweep_wf: "mem_wf m \<Longrightarrow> mem_wf (snd (Registry_Sweep n m))"
proof -
  assume wf: "mem_wf m"
  have "gomap (m_records (snd (Registry_Sweep n m))) \<and> gomap (m_consumed (snd (Registry_Sweep n m))) \<and>
      gomap (m_swaps (snd (Registry_Sweep n m)))"
    using wf by (simp add: mem_wf_def Registry_Sweep_def Let_def)
  moreover have "map_of (m_records (snd (Registry_Sweep n m))) i = Some r \<Longrightarrow> map_of (m_records m) i = Some r"
    for i r using Sweep_records [OF wf, of n i] by (simp split: option.splits if_splits)
  ultimately show ?thesis using wf unfolding mem_wf_def by blast
qed

lemma swap_ops_wf:
  assumes "mem_wf m"
  shows "mem_wf (snd (PutSwap w m))" "mem_wf (snd (GetSwap n i m))" "mem_wf (DeleteSwap i m)"
    "mem_wf (Get_evict j m)"
  using assms by (simp_all add: mem_wf_def registry_defs split: option.splits)

lemma mem_exec_wf: "mem_wf m \<Longrightarrow> mem_wf (snd (mem_exec op m))"
  by (cases op) (simp_all add: Registry_Put_def put_rec_wf PutMany_wf MarkConsumed_wf many_wf Let_def
      Registry_Delete_def mem_wf_drop Sweep_wf swap_ops_wf case_prod_beta)

lemma mem_exec_spent:
  assumes "mem_wf m" "mem_spent m i" "\<not> mem_issues op i"
  shows "i \<notin> set (fst (mem_exec op m)) \<and> mem_spent (snd (mem_exec op m)) i"
proof (cases op)
  case (OConsume n1 n2 j c)
  then show ?thesis
    using assms MarkConsumed_spends [of m i n1 n2 j c] MarkConsumed_spent_refused [of m j n1 n2 c]
    by (auto simp: case_prod_beta granted_Cons)
next
  case (OConsumeMany n qs)
  then show ?thesis using assms many_grants [of m i qs n] by (simp add: case_prod_beta)
next
  case (OSweep n)
  then show ?thesis
    using assms Sweep_records [of m n i] Sweep_consumed [of m n i]
    by (auto simp: mem_spent_def split: option.splits)
next
  case (OPutMany rs)
  then show ?thesis using assms PutMany_other [of i rs m] by (simp add: mem_spent_def)
qed (use assms in \<open>auto simp: mem_spent_def registry_defs split: option.splits\<close>)

lemma mem_exec_grants:
  assumes "i \<in> set (fst (mem_exec op m))"
  shows "mem_spent (snd (mem_exec op m)) i"
proof (cases op)
  case (OConsume n1 n2 j c)
  then show ?thesis
    using assms MarkConsumed_spends_own [of n1 n2 j c m] by (auto simp: case_prod_beta granted_Cons split: if_splits)
next
  case (OConsumeMany n qs)
  then show ?thesis using assms many_grants [of m i qs n] by (simp add: case_prod_beta)
qed (use assms in simp_all)

lemma mem_exec_once: "count_list (fst (mem_exec op m)) i \<le> 1"
proof (cases op)
  case (OConsumeMany n qs)
  then show ?thesis using many_grants [of m i qs n] by (simp add: case_prod_beta)
qed (simp_all add: case_prod_beta granted_Cons)

interpretation mem: use_once mem_exec mem_issues mem_spent mem_wf
  by unfold_locales (simp_all add: mem_exec_wf mem_exec_spent mem_exec_grants mem_exec_once [unfolded One_nat_def])

text \<open>C3: However many trading processes race to consume a quote, and whatever evictions, sweeps and
  deletions run in between, the registry answers OK for a quote identifier at most once until the
  identifier is registered again; every OK was given inside the validity window of the record, and
  while the record stays valid the loser of the race is told who won.\<close>

theorem quote_consumed_once:
  "(mem_wf m \<and> list_all (\<lambda>op. \<not> mem_issues op i) ops \<longrightarrow>
      count_list (fst (run_ops mem_exec ops m)) i \<le> 1) \<and>
   (c_Status (fst (MarkConsumed n1 n2 i c m)) = ConsumeOK \<longrightarrow>
      (\<exists>r. map_of (m_records m) i = Some r \<and> ValidAt r n2 \<and>
         (\<forall>n1' n2' c'. \<not> lapsed n1' (q_ValidUntil r) m \<and> ValidAt r n2' \<longrightarrow>
            fst (MarkConsumed n1' n2' i c' (snd (MarkConsumed n1 n2 i c m))) =
              \<lparr>c_Status = ConsumeAlreadyDone, c_Record = Some r, c_ConsumedBy = c\<rparr>)))"
  using mem.run_at_most_once [of m i ops] MarkConsumed_won [of n1 n2 i c m] unfolding is_ok_def by blast

definition sample_rec :: QuoteRecord where
  "sample_rec = \<lparr>q_QuoteID = ''A-1-1'', q_Pair = ''USD/KRW'',
     q_Profile = \<lparr>pf_Channel = ''WEB'', pf_Site = ''HQ'', pf_Tier = ''VIP''\<rparr>, q_Tenor = ''SPOT'',
     q_Bid = 0, q_Ask = 0, q_IssuedAt = 100, q_ValidUntil = 200, q_Sequence = 1, q_Issuer = ''A'',
     q_ValueDate = 0, q_OffsetDays = 0, q_InterpolatedFrom = [], q_InterpolatedTo = [],
     q_InterpolationWeight = 0, q_SwapBid = 0, q_SwapAsk = 0\<rparr>"

definition sample_reg :: MemoryRegistry where
  "sample_reg = put_rec sample_rec (NewMemoryRegistry 50)"

lemma sample_reg_wf: "mem_wf sample_reg"
  by (simp add: sample_reg_def mem_wf_def put_rec_def NewMemoryRegistry_def sample_rec_def invalid_rec_def gomap_def)

theorem quote_consumed_once_witness:
  "count_list (fst (run_ops mem_exec
      [OConsume 150 150 ''A-1-1'' ''x'', OConsumeMany 160 [(''A-1-1'', ''y''), (''A-1-1'', ''z'')],
       OSweep 170] sample_reg)) ''A-1-1'' \<le> 1 \<and>
   fst (MarkConsumed 160 160 ''A-1-1'' ''y'' (snd (MarkConsumed 150 150 ''A-1-1'' ''x'' sample_reg))) =
     \<lparr>c_Status = ConsumeAlreadyDone, c_Record = Some sample_rec, c_ConsumedBy = ''x''\<rparr>"
proof -
  let ?ops = "[OConsume 150 150 ''A-1-1'' ''x'', OConsumeMany 160 [(''A-1-1'', ''y''), (''A-1-1'', ''z'')],
       OSweep 170]"
  have rec: "map_of (m_records sample_reg) ''A-1-1'' = Some sample_rec" "m_consumed sample_reg = []"
    "m_grace sample_reg = 50"
    by (simp_all add: sample_reg_def put_rec_def NewMemoryRegistry_def sample_rec_def)
  have st: "c_Status (fst (MarkConsumed 150 150 ''A-1-1'' ''x'' sample_reg)) = ConsumeOK"
    by (simp add: MarkConsumed_def rec lapsed_def ValidAt_def) (simp add: sample_rec_def)
  have valid: "\<not> lapsed 160 (q_ValidUntil sample_rec) sample_reg" "ValidAt sample_rec 160"
    by (simp_all add: rec lapsed_def ValidAt_def sample_rec_def)
  have once: "list_all (\<lambda>op. \<not> mem_issues op ''A-1-1'') ?ops" by simp
  show ?thesis
    using quote_consumed_once [of sample_reg "''A-1-1''" ?ops 150 150 "''x''"] sample_reg_wf st rec(1) valid once
    by (metis option.inject)
qed

lemma many_marker:
  "map_of (m_records m) i = None \<Longrightarrow> map_of (m_consumed m) i = Some c \<Longrightarrow>
     map_of (m_records (snd (MarkConsumedMany n qs m))) i = None \<and>
     map_of (m_consumed (snd (MarkConsumedMany n qs m))) i = Some c"
proof (induction qs arbitrary: m)
  case (Cons q qs)
  have "map_of (m_records (snd (MarkConsumed n n (fst q) (snd q) m))) i = None \<and>
      map_of (m_consumed (snd (MarkConsumed n n (fst q) (snd q) m))) i = Some c"
    using Cons.prems by (auto simp: MarkConsumed_def drop_id_def split: option.splits)
  then show ?case
    using Cons.IH by (cases q) (simp add: MarkConsumedMany_Cons case_prod_beta Let_def)
qed simp

lemma marker_kept:
  assumes "mem_wf m" "map_of (m_records m) i = None" "map_of (m_consumed m) i = Some c"
    "\<not> mem_issues op i" "op \<noteq> ODelete i"
  shows "map_of (m_records (snd (mem_exec op m))) i = None \<and>
         map_of (m_consumed (snd (mem_exec op m))) i = Some c"
proof (cases op)
  case (OConsume n1 n2 j d)
  then show ?thesis using assms
    by (auto simp: MarkConsumed_def drop_id_def case_prod_beta split: option.splits)
next
  case (OConsumeMany n qs)
  then show ?thesis using assms many_marker [of m i c n qs] by (simp add: case_prod_beta)
next
  case (OSweep n)
  then show ?thesis using assms Sweep_records [of m n i] Sweep_consumed [of m n i] by simp
next
  case (OPutMany rs)
  then show ?thesis using assms PutMany_other [of i rs m] by simp
qed (use assms in \<open>auto simp: registry_defs split: option.splits\<close>)

text \<open>A consumed marker whose record was evicted by Get survives every later operation on the
  registry other than a new registration or a deletion of that identifier: no sweep removes it.\<close>

theorem consumed_marker_leak:
  "mem_wf m \<and> map_of (m_records m) i = None \<and> map_of (m_consumed m) i = Some c \<and>
   list_all (\<lambda>op. \<not> mem_issues op i \<and> op \<noteq> ODelete i) ops \<longrightarrow>
     Registry_Consumed i (snd (run_ops mem_exec ops m)) = Some c"
proof (induction ops arbitrary: m)
  case Nil
  then show ?case by (simp add: Registry_Consumed_def)
next
  case (Cons op ops)
  show ?case
  proof
    assume pre: "mem_wf m \<and> map_of (m_records m) i = None \<and> map_of (m_consumed m) i = Some c \<and>
      list_all (\<lambda>op. \<not> mem_issues op i \<and> op \<noteq> ODelete i) (op # ops)"
    then have "map_of (m_records (snd (mem_exec op m))) i = None \<and>
        map_of (m_consumed (snd (mem_exec op m))) i = Some c"
      by (intro marker_kept) auto
    with pre Cons.IH [of "snd (mem_exec op m)"] mem_exec_wf [of m op]
    show "Registry_Consumed i (snd (run_ops mem_exec (op # ops) m)) = Some c" by simp
  qed
qed

theorem consumed_marker_leak_witness:
  "let m = snd (Registry_Get 300 ''A-1-1'' (snd (MarkConsumed 150 150 ''A-1-1'' ''x'' sample_reg)))
   in Registry_Len m = 0 \<and>
      Registry_Consumed ''A-1-1'' (snd (run_ops mem_exec [OSweep 400, OGetEvict ''A-1-1'', OSweep 1000000] m)) =
        Some ''x''"
proof -
  let ?m = "snd (Registry_Get 300 ''A-1-1'' (snd (MarkConsumed 150 150 ''A-1-1'' ''x'' sample_reg)))"
  have m: "m_records ?m = []" "m_consumed ?m = [(''A-1-1'', ''x'')]" "m_swaps ?m = []"
    by (simp_all add: Registry_Get_def MarkConsumed_def sample_reg_def put_rec_def NewMemoryRegistry_def
        sample_rec_def lapsed_def ValidAt_def Get_evict_def)
  have "mem_wf ?m" unfolding mem_wf_def m by (simp add: gomap_def)
  with m show ?thesis
    using consumed_marker_leak [of ?m "''A-1-1''" "''x''" "[OSweep 400, OGetEvict ''A-1-1'', OSweep 1000000]"]
    by (simp add: Registry_Len_def Let_def)
qed

section \<open>The shape of the registry\<close>

lemma mem_wf_New: "mem_wf (NewMemoryRegistry grace)"
  by (simp add: mem_wf_def NewMemoryRegistry_def)

text \<open>C36: After every sequence of operations on a new registry no identifier is stored twice, every record is
  stored under its own identifier, which is not empty, and its validity window is not empty.\<close>

theorem registry_well_formed:
  defines "after ops grace \<equiv> snd (run_ops mem_exec ops (NewMemoryRegistry grace))"
  shows "distinct (map fst (m_records (after ops grace))) \<and> distinct (map fst (m_consumed (after ops grace))) \<and>
    distinct (map fst (m_swaps (after ops grace))) \<and>
    (\<forall>i r. map_of (m_records (after ops grace)) i = Some r \<longrightarrow> q_QuoteID r = i \<and> i \<noteq> [] \<and> q_IssuedAt r < q_ValidUntil r)"
  using mem.run_ok [OF mem_wf_New, of ops grace] unfolding after_def mem_wf_def gomap_def invalid_rec_def by fastforce

theorem registry_well_formed_witness:
  "map_of (m_records (snd (run_ops mem_exec [OPut sample_rec, OPut (sample_rec\<lparr>q_ValidUntil := 0\<rparr>)] (NewMemoryRegistry 50)))) ''A-1-1'' =
     Some sample_rec \<and> q_IssuedAt sample_rec < q_ValidUntil sample_rec"
proof -
  have stored: "map_of (m_records (snd (run_ops mem_exec [OPut sample_rec, OPut (sample_rec\<lparr>q_ValidUntil := 0\<rparr>)] (NewMemoryRegistry 50)))) ''A-1-1'' =
     Some sample_rec"
    by (simp add: Registry_Put_def invalid_rec_def put_rec_def NewMemoryRegistry_def sample_rec_def)
  then show ?thesis
    using registry_well_formed [of "[OPut sample_rec, OPut (sample_rec\<lparr>q_ValidUntil := 0\<rparr>)]" 50] by blast
qed

section \<open>Generated identifiers\<close>

lemma digit36_inj: "a < 36 \<Longrightarrow> b < 36 \<Longrightarrow> digit36 a = digit36 b \<longleftrightarrow> a = b"
  unfolding digit36_def by (intro nth_eq_iff_index_eq) simp_all

lemma FormatUint36_neq_Nil [simp]: "FormatUint36 n \<noteq> []"
  by (subst FormatUint36.simps) simp

lemma FormatUint36_length: "length (FormatUint36 n) = 1 \<longleftrightarrow> n < 36"
  by (subst FormatUint36.simps) simp

lemma FormatUint36_inj: "FormatUint36 a = FormatUint36 b \<Longrightarrow> a = b"
proof (induction a arbitrary: b rule: FormatUint36.induct)
  case (1 n)
  have lt: "n < 36 \<longleftrightarrow> b < 36"
    using "1.prems" FormatUint36_length [of n] FormatUint36_length [of b] by simp
  show ?case
  proof (cases "n < 36")
    case True
    with lt "1.prems" show ?thesis by (simp add: FormatUint36.simps digit36_inj)
  next
    case False
    with lt "1.prems" have "FormatUint36 (n div 36) = FormatUint36 (b div 36)" "n mod 36 = b mod 36"
      by (simp_all add: FormatUint36.simps [of n] FormatUint36.simps [of b] digit36_inj)
    with "1.IH" [OF False, of "b div 36"] show ?thesis by (metis div_mult_mod_eq)
  qed
qed

lemma digit36_dash: "d < 36 \<Longrightarrow> digit36 d \<noteq> CHR ''-''"
proof -
  assume "d < 36"
  then have "digit36 d \<in> set ''0123456789abcdefghijklmnopqrstuvwxyz''"
    unfolding digit36_def by (intro nth_mem) simp
  then show ?thesis by auto
qed

lemma FormatUint36_dash: "CHR ''-'' \<notin> set (FormatUint36 n)"
proof (induction n rule: FormatUint36.induct)
  case (1 n)
  then show ?case using digit36_dash [of n] digit36_dash [of "n mod 36"]
    by (subst FormatUint36.simps) auto
qed

lemma last_part_eq:
  assumes "a @ x # u = b @ x # v" "x \<notin> set u" "x \<notin> set v"
  shows "u = v"
proof -
  have end_part: "takeWhile (\<lambda>c. c \<noteq> x) (rev (a @ x # u)) = rev u" if "x \<notin> set u" for a u
    using that by (subst rev_append, simp, subst takeWhile_append2) auto
  show ?thesis using arg_cong [OF assms(1), of "\<lambda>s. takeWhile (\<lambda>c. c \<noteq> x) (rev s)"]
    unfolding end_part [OF assms(2)] end_part [OF assms(3)] by simp
qed

lemma Next_series_shape:
  "j < length mss \<Longrightarrow> \<exists>pre. Next_series mss g ! j = pre @ CHR ''-'' # FormatUint36 (unat (g_seq g + of_nat (Suc j)))"
proof (induction mss arbitrary: g j)
  case (Cons ms mss)
  then show ?case
  proof (cases j)
    case 0
    then show ?thesis
      by (intro exI [of _ "g_instance g @ ''-'' @ FormatInt36 ms"]) (simp add: Generator_Next_def Let_def)
  next
    case (Suc k)
    with Cons.prems Cons.IH [of k "snd (Generator_Next ms g)"] show ?thesis
      by (simp add: Generator_Next_def Let_def ac_simps)
  qed
qed simp

lemma Next_series_length [simp]: "length (Next_series mss g) = length mss"
  by (induction mss arbitrary: g) simp_all

lemma Next_series_distinct:
  assumes "length mss \<le> 2 ^ 64"
  shows "distinct (Next_series mss g)"
proof -
  have "j = k" if jk: "j < length mss" "k < length mss" and eq: "Next_series mss g ! j = Next_series mss g ! k"
    for j k
  proof -
    obtain p q where "p @ CHR ''-'' # FormatUint36 (unat (g_seq g + of_nat (Suc j))) =
        q @ CHR ''-'' # FormatUint36 (unat (g_seq g + of_nat (Suc k)))"
      using Next_series_shape [OF jk(1)] Next_series_shape [OF jk(2)] eq by metis
    then have "g_seq g + of_nat (Suc j) = g_seq g + of_nat (Suc k)"
      using last_part_eq FormatUint36_dash FormatUint36_inj word_unat_eq_iff by metis
    then have "(of_nat j :: u64) = of_nat k" by simp
    then have "unat (of_nat j :: u64) = unat (of_nat k :: u64)" by simp
    then show ?thesis using jk assms by (simp add: unat_of_nat)
  qed
  then show ?thesis by (auto simp: distinct_conv_nth)
qed

text \<open>A generator never repeats an identifier: up to 2^64 successive Next calls give pairwise
  distinct identifiers, whatever the clock reads (equal or going backwards included).\<close>

theorem quote_ids_distinct:
  assumes "length mss \<le> 2 ^ 64"
  shows "distinct (Next_series mss g)"
  by (rule Next_series_distinct [OF assms])

theorem quote_ids_distinct_witness:
  "distinct (Next_series [1700000000000, 1700000000000, 5] (NewGenerator []))"
  by (rule quote_ids_distinct) simp

lemma Generator_Next_simps [simp]:
  "fst (Generator_Next ms g) \<noteq> []" "g_instance (snd (Generator_Next ms g)) = g_instance g"
  "g_seq (snd (Generator_Next ms g)) = g_seq g + 1"
  by (simp_all add: Generator_Next_def Let_def)

end
