(* ===== verification/Quote_Async.thy ===== *)
theory Quote_Async
  imports Quote_Id
begin

text \<open>
  The write-behind wrapper AsyncRegistry of src/pkg/quoteid/async.go: producers enqueue without
  blocking, one worker collects batches and hands them to the inner registry.  The inner registry
  is an interface in the code; here its PutMany is an argument \<open>put\<close> that says whether the call
  succeeded and gives the new inner state.
\<close>

type_synonym 's putmany = "QuoteRecord list \<Rightarrow> 's \<Rightarrow> bool \<times> 's"

text \<open>\<open>a_batch\<close> and \<open>a_done\<close> are the worker's local batch and its closed doneC.\<close>

record 's AsyncRegistry =
  a_inner :: 's
  a_queue :: "QuoteRecord list"
  a_cap :: nat
  a_batchMax :: nat
  a_batch :: "QuoteRecord list"
  a_enqueued :: u64
  a_dropped :: u64
  a_written :: u64
  a_failed :: u64
  a_closed :: bool
  a_done :: bool

definition NewAsyncRegistry :: "'s option \<Rightarrow> int \<Rightarrow> int \<Rightarrow> (quote_error, 's AsyncRegistry) outcome" where
  "NewAsyncRegistry inner queueSize batchMax =
     (case inner of
        None \<Rightarrow> Panic
      | Some s \<Rightarrow> Done
          \<lparr>a_inner = s, a_queue = [], a_cap = (if queueSize \<le> 0 then 10000 else nat queueSize),
           a_batchMax = (if batchMax \<le> 0 then 200 else nat batchMax), a_batch = [],
           a_enqueued = 0, a_dropped = 0, a_written = 0, a_failed = 0, a_closed = False, a_done = False\<rparr>)"

text \<open>The select of Put: the send, or the drop.  The result says whether the record was queued; the
  producer then increments the counter in a separate step.\<close>

definition Async_Put_send :: "QuoteRecord \<Rightarrow> 's AsyncRegistry \<Rightarrow> (quote_error, bool \<times> 's AsyncRegistry) outcome" where
  "Async_Put_send r a =
     (if q_QuoteID r = [] \<or> q_ValidUntil r \<le> q_IssuedAt r then Fail ErrInvalidRecord
      else if a_closed a then Panic
      else if length (a_queue a) < a_cap a then Done (True, a\<lparr>a_queue := a_queue a @ [r]\<rparr>)
      else Done (False, a\<lparr>a_dropped := a_dropped a + 1\<rparr>))"

definition Async_Put_count :: "'s AsyncRegistry \<Rightarrow> 's AsyncRegistry" where
  "Async_Put_count a = a\<lparr>a_enqueued := a_enqueued a + 1\<rparr>"

definition Async_flush :: "'s putmany \<Rightarrow> 's AsyncRegistry \<Rightarrow> 's AsyncRegistry" where
  "Async_flush put a =
     (if a_batch a = [] then a
      else (let (good, s) = put (a_batch a) (a_inner a); n = of_nat (length (a_batch a))
            in (if good then a\<lparr>a_written := a_written a + n\<rparr> else a\<lparr>a_failed := a_failed a + n\<rparr>)
                 \<lparr>a_inner := s, a_batch := []\<rparr>))"

text \<open>One round of the worker's loop: the branch of a received record, the branch of the closed
  queue, and the branch of the ticker.\<close>

definition run_receive :: "'s putmany \<Rightarrow> 's AsyncRegistry \<Rightarrow> 's AsyncRegistry" where
  "run_receive put a =
     (case a_queue a of
        r # q \<Rightarrow>
          (let a' = a\<lparr>a_queue := q, a_batch := a_batch a @ [r]\<rparr>
           in if length (a_batch a') \<ge> a_batchMax a' then Async_flush put a' else a')
      | [] \<Rightarrow> if a_closed a then (Async_flush put a)\<lparr>a_done := True\<rparr> else a)"

definition run_tick :: "'s putmany \<Rightarrow> 's AsyncRegistry \<Rightarrow> 's AsyncRegistry" where
  "run_tick put a = Async_flush put a"

definition Async_Close :: "'s AsyncRegistry \<Rightarrow> 's AsyncRegistry" where
  "Async_Close a = a\<lparr>a_closed := True\<rparr>"

definition Async_PutMany :: "'s putmany \<Rightarrow> QuoteRecord list \<Rightarrow> 's AsyncRegistry \<Rightarrow> bool \<times> 's AsyncRegistry" where
  "Async_PutMany put rs a = (let (good, s) = put rs (a_inner a) in (good, a\<lparr>a_inner := s\<rparr>))"

text \<open>
  The interleavings.  The ghost history records the accepted records in their order, the records the
  worker has handed to the inner registry, and the number of producers between the send and the
  increment.  \<open>flushed a a'\<close> is what a worker step handed over.
\<close>

record history =
  h_accepted :: "QuoteRecord list"
  h_handed :: "QuoteRecord list"
  h_counting :: nat

definition handed_by :: "'s AsyncRegistry \<Rightarrow> 's AsyncRegistry \<Rightarrow> QuoteRecord list" where
  "handed_by a a' = (if a_batch a' = [] then a_batch a @ take (length (a_queue a) - length (a_queue a')) (a_queue a) else [])"

inductive async_step :: "'s putmany \<Rightarrow> 's AsyncRegistry \<times> history \<Rightarrow> 's AsyncRegistry \<times> history \<Rightarrow> bool"
  for put :: "'s putmany" where
  sent: "Async_Put_send r a = Done (True, a') \<Longrightarrow>
     async_step put (a, h) (a', h\<lparr>h_accepted := h_accepted h @ [r], h_counting := Suc (h_counting h)\<rparr>)"
| dropped: "Async_Put_send r a = Done (False, a') \<Longrightarrow> async_step put (a, h) (a', h)"
| counted: "h_counting h = Suc k \<Longrightarrow> async_step put (a, h) (Async_Put_count a, h\<lparr>h_counting := k\<rparr>)"
| received: "\<not> a_done a \<Longrightarrow> a' = run_receive put a \<Longrightarrow>
     async_step put (a, h) (a', h\<lparr>h_handed := h_handed h @ handed_by a a'\<rparr>)"
| ticked: "\<not> a_done a \<Longrightarrow> a' = run_tick put a \<Longrightarrow>
     async_step put (a, h) (a', h\<lparr>h_handed := h_handed h @ handed_by a a'\<rparr>)"
| closed: "async_step put (a, h) (Async_Close a, h)"
| direct: "async_step put (a, h) (snd (Async_PutMany put rs a), h)"

inductive_cases async_stepE: "async_step put s s'"

definition no_history :: history where
  "no_history = \<lparr>h_accepted = [], h_handed = [], h_counting = 0\<rparr>"

definition async_inv :: "'s AsyncRegistry \<times> history \<Rightarrow> bool" where
  "async_inv s \<longleftrightarrow> (case s of (a, h) \<Rightarrow>
     h_accepted h = h_handed h @ a_batch a @ a_queue a \<and>
     a_enqueued a + of_nat (h_counting h) = of_nat (length (h_accepted h)) \<and>
     a_written a + a_failed a = of_nat (length (h_handed h)) \<and>
     length (a_queue a) \<le> a_cap a \<and> length (a_batch a) < a_batchMax a \<and>
     (a_done a \<longrightarrow> a_closed a \<and> a_batch a = [] \<and> a_queue a = []))"

lemma flush_fields [simp]:
  "a_queue (Async_flush put a) = a_queue a" "a_cap (Async_flush put a) = a_cap a"
  "a_batchMax (Async_flush put a) = a_batchMax a" "a_batch (Async_flush put a) = []"
  "a_enqueued (Async_flush put a) = a_enqueued a" "a_closed (Async_flush put a) = a_closed a"
  "a_done (Async_flush put a) = a_done a"
  by (auto simp: Async_flush_def Let_def split: prod.splits)

lemma flush_counters:
  "a_written (Async_flush put a) + a_failed (Async_flush put a) =
     a_written a + a_failed a + of_nat (length (a_batch a))"
  by (auto simp: Async_flush_def Let_def split: prod.splits)

lemma async_inv_receive:
  assumes inv: "async_inv (a, h)" and running: "\<not> a_done a"
  shows "async_inv (run_receive put a, h\<lparr>h_handed := h_handed h @ handed_by a (run_receive put a)\<rparr>)"
proof (cases "a_queue a")
  case Nil
  then show ?thesis using inv running
    by (auto simp: async_inv_def run_receive_def handed_by_def flush_counters)
next
  case (Cons r q)
  then show ?thesis using inv running
    by (auto simp: async_inv_def run_receive_def handed_by_def flush_counters Let_def not_le)
qed

lemma async_inv_tick:
  "async_inv (a, h) \<Longrightarrow> \<not> a_done a \<Longrightarrow>
     async_inv (run_tick put a, h\<lparr>h_handed := h_handed h @ handed_by a (run_tick put a)\<rparr>)"
  by (auto simp: async_inv_def run_tick_def handed_by_def flush_counters)

lemma async_inv_step: "async_step put s s' \<Longrightarrow> async_inv s \<Longrightarrow> async_inv s'"
proof (induction rule: async_step.induct)
  case (received a a' h)
  then show ?case by (simp add: async_inv_receive)
next
  case (ticked a a' h)
  then show ?case by (simp add: async_inv_tick)
qed (auto simp: async_inv_def Async_Put_send_def Async_Put_count_def Async_Close_def Async_PutMany_def
      Let_def algebra_simps split: if_splits prod.splits)

lemma async_inv_reach: "(async_step put)\<^sup>*\<^sup>* s s' \<Longrightarrow> async_inv s \<Longrightarrow> async_inv s'"
  by (induction rule: rtranclp_induct) (auto intro: async_inv_step)

lemma async_inv_init:
  "NewAsyncRegistry (Some s) qs bm = Done a \<Longrightarrow> async_inv (a, no_history)"
  by (auto simp: NewAsyncRegistry_def async_inv_def no_history_def)

text \<open>After Close the worker alone reaches the end of its loop.\<close>

lemma async_drain:
  assumes "async_inv (a, h)" "a_closed a"
  shows "\<exists>a' h'. (async_step put)\<^sup>*\<^sup>* (a, h) (a', h') \<and> a_done a' \<and> h_accepted h' = h_accepted h \<and>
     h_counting h' = h_counting h"
  using assms
proof (induction "length (a_queue a)" arbitrary: a h)
  case 0
  show ?case
  proof (cases "a_done a")
    case False
    let ?a' = "run_receive put a"
    have "async_step put (a, h) (?a', h\<lparr>h_handed := h_handed h @ handed_by a ?a'\<rparr>)"
      using False by (rule async_step.received) simp
    moreover have "a_done ?a'" using 0 by (simp add: run_receive_def)
    ultimately show ?thesis
      by (intro exI [of _ ?a'] exI [of _ "h\<lparr>h_handed := h_handed h @ handed_by a ?a'\<rparr>"]) auto
  qed blast
next
  case (Suc n)
  then obtain r q where q: "a_queue a = r # q" by (cases "a_queue a") auto
  have run: "\<not> a_done a" using Suc.prems q by (auto simp: async_inv_def)
  let ?a' = "run_receive put a" let ?h' = "h\<lparr>h_handed := h_handed h @ handed_by a ?a'\<rparr>"
  have step: "async_step put (a, h) (?a', ?h')" using run by (rule async_step.received) simp
  have "n = length (a_queue ?a')" "a_closed ?a'" using Suc q by (simp_all add: run_receive_def Let_def)
  with Suc.hyps(1) [of ?a' ?h'] async_inv_step [OF step] Suc.prems(1) show ?case
    using step by (auto intro: converse_rtranclp_into_rtranclp)
qed

lemma async_drain_all:
  assumes inv: "async_inv (a, h)" and "a_closed a"
  shows "\<exists>a' h'. (async_step put)\<^sup>*\<^sup>* (a, h) (a', h') \<and> a_done a' \<and>
     h_accepted h' = h_accepted h \<and> h_handed h' = h_accepted h"
proof -
  from assms obtain a' h' where r: "(async_step put)\<^sup>*\<^sup>* (a, h) (a', h')" "a_done a'" "h_accepted h' = h_accepted h"
    using async_drain by blast
  from async_inv_reach [OF r(1) inv] r(2,3) have "h_handed h' = h_accepted h" by (simp add: async_inv_def)
  with r show ?thesis by blast
qed


definition mem_putmany :: "MemoryRegistry putmany" where
  "mem_putmany rs m = (True, Registry_PutMany rs m)"


end
