(* ===== verification/Auth_Store.thy ===== *)
theory Auth_Store
  imports Wtg_Interfaces Session_Types
begin

text \<open>
  The in-memory stores of src/pkg/auth: refresh tokens (refresh.go), sessions (memstore.go) and the
  subscription set of a session (session.go).  Times are nanoseconds and clock readings are
  arguments.  Sessions are shared objects: the store maps an identifier to an address, because Get
  compares pointers before it evicts.
\<close>

section \<open>Refresh tokens\<close>

record RefreshToken =
  r_Token :: string
  r_SID :: string
  r_Usid :: string
  r_Channel :: string
  r_IssuedAt :: int
  r_ExpiresAt :: int

datatype auth_error = ErrTokenRequired | ErrRefreshNotFound | ErrRefreshExpired
  | ErrSessionNotFound | ErrSessionExpired

definition RefreshToken_Expired :: "RefreshToken \<Rightarrow> int \<Rightarrow> bool" where
  "RefreshToken_Expired r now \<longleftrightarrow> r_ExpiresAt r \<noteq> go_zero_time \<and> now > r_ExpiresAt r"

type_synonym MemoryRefreshStore = "(string \<times> RefreshToken) list"

definition Refresh_Put :: "int \<Rightarrow> RefreshToken option \<Rightarrow> MemoryRefreshStore \<Rightarrow> auth_error option \<times> MemoryRefreshStore" where
  "Refresh_Put now t s =
     (case t of
        None \<Rightarrow> (Some ErrTokenRequired, s)
      | Some t \<Rightarrow>
          if r_Token t = [] then (Some ErrTokenRequired, s)
          else (let t' = (if r_IssuedAt t = go_zero_time then t\<lparr>r_IssuedAt := now\<rparr> else t)
                in (None, AList.update (r_Token t) t' s)))"

definition Refresh_Consume :: "int \<Rightarrow> string \<Rightarrow> MemoryRefreshStore \<Rightarrow> (auth_error + RefreshToken) \<times> MemoryRefreshStore" where
  "Refresh_Consume now token s =
     (case map_of s token of
        None \<Rightarrow> (Inl ErrRefreshNotFound, s)
      | Some t \<Rightarrow> ((if RefreshToken_Expired t now then Inl ErrRefreshExpired else Inr t), AList.delete token s))"

definition Refresh_DeleteBySID :: "string \<Rightarrow> MemoryRefreshStore \<Rightarrow> nat \<times> MemoryRefreshStore" where
  "Refresh_DeleteBySID sid s =
     (if sid = [] then (0, s)
      else (length (filter (\<lambda>(k, t). r_SID t = sid) s), filter (\<lambda>(k, t). r_SID t \<noteq> sid) s))"

definition Refresh_Len :: "MemoryRefreshStore \<Rightarrow> nat" where
  "Refresh_Len s = length s"

definition Refresh_sweepOnce :: "int \<Rightarrow> MemoryRefreshStore \<Rightarrow> MemoryRefreshStore" where
  "Refresh_sweepOnce now s = filter (\<lambda>(k, t). \<not> RefreshToken_Expired t now) s"

datatype refresh_op =
    RPut int "RefreshToken option"
  | RConsume int string
  | RDeleteBySID string
  | RSweep int

fun refresh_exec :: "refresh_op \<Rightarrow> MemoryRefreshStore \<Rightarrow> string list \<times> MemoryRefreshStore" where
  "refresh_exec (RPut now t) s = ([], snd (Refresh_Put now t s))"
| "refresh_exec (RConsume now k) s =
     (case Refresh_Consume now k s of (Inl e, s') \<Rightarrow> ([], s') | (Inr t, s') \<Rightarrow> ([k], s'))"
| "refresh_exec (RDeleteBySID sid) s = ([], snd (Refresh_DeleteBySID sid s))"
| "refresh_exec (RSweep now) s = ([], Refresh_sweepOnce now s)"

fun refresh_issues :: "refresh_op \<Rightarrow> string \<Rightarrow> bool" where
  "refresh_issues (RPut now t) k \<longleftrightarrow> (case t of None \<Rightarrow> False | Some t \<Rightarrow> r_Token t = k)"
| "refresh_issues _ k \<longleftrightarrow> False"

definition refresh_spent :: "MemoryRefreshStore \<Rightarrow> string \<Rightarrow> bool" where
  "refresh_spent s k \<longleftrightarrow> map_of s k = None"

lemma refresh_exec_ok: "gomap s \<Longrightarrow> gomap (snd (refresh_exec op s))"
  by (cases op) (auto simp: Refresh_Put_def Refresh_Consume_def Refresh_DeleteBySID_def
      Refresh_sweepOnce_def Let_def split: option.splits)

lemma refresh_exec_spent:
  assumes "gomap s" "refresh_spent s k" "\<not> refresh_issues op k"
  shows "k \<notin> set (fst (refresh_exec op s)) \<and> refresh_spent (snd (refresh_exec op s)) k"
  using assms by (cases op) (auto simp: refresh_spent_def Refresh_Put_def Refresh_Consume_def Refresh_DeleteBySID_def
      Refresh_sweepOnce_def Let_def map_of_filter_some split: option.splits sum.splits)

lemma refresh_exec_grant:
  "k \<in> set (fst (refresh_exec op s)) \<Longrightarrow>
     refresh_spent (snd (refresh_exec op s)) k \<and> fst (refresh_exec op s) = [k]"
  by (cases op) (auto simp: refresh_spent_def Refresh_Consume_def split: option.splits if_splits)

lemma refresh_exec_once: "count_list (fst (refresh_exec op s)) k \<le> Suc 0"
  using refresh_exec_grant [of k op s] by (cases "k \<in> set (fst (refresh_exec op s))") auto

interpretation refresh: use_once refresh_exec refresh_issues refresh_spent gomap
  by unfold_locales (simp_all add: refresh_exec_ok refresh_exec_spent refresh_exec_grant refresh_exec_once)

text \<open>C22: A refresh token buys at most one new access token: over every sequence of store operations in
  which the token is not stored again, Consume succeeds for it at most once; a success means the
  token was stored and had not expired; and after a logout of its session it is refused.\<close>

theorem refresh_token_once:
  "(gomap s \<and> list_all (\<lambda>op. \<not> refresh_issues op k) ops \<longrightarrow>
      count_list (fst (run_ops refresh_exec ops s)) k \<le> 1) \<and>
   (fst (Refresh_Consume now k s) = Inr t \<longrightarrow> map_of s k = Some t \<and> \<not> RefreshToken_Expired t now) \<and>
   (gomap s \<and> map_of s k = Some t \<and> r_SID t \<noteq> [] \<longrightarrow>
      fst (Refresh_Consume now' k (snd (Refresh_DeleteBySID (r_SID t) s))) = Inl ErrRefreshNotFound)"
  using refresh.run_at_most_once [of s k ops]
  by (auto simp: Refresh_Consume_def Refresh_DeleteBySID_def map_of_filter_some split: option.splits if_splits)

theorem refresh_token_once_witness:
  "let t = \<lparr>r_Token = ''T'', r_SID = ''S'', r_Usid = ''U'', r_Channel = ''WEB'', r_IssuedAt = 1, r_ExpiresAt = 100\<rparr>
   in count_list (fst (run_ops refresh_exec [RConsume 5 ''T'', RSweep 6, RConsume 7 ''T''] [(''T'', t)])) ''T'' \<le> 1 \<and>
      map_of [(''T'', t)] ''T'' = Some t \<and> \<not> RefreshToken_Expired t 5 \<and>
      fst (Refresh_Consume 9 ''T'' (snd (Refresh_DeleteBySID ''S'' [(''T'', t)]))) = Inl ErrRefreshNotFound"
proof -
  let ?t = "\<lparr>r_Token = ''T'', r_SID = ''S'', r_Usid = ''U'', r_Channel = ''WEB'', r_IssuedAt = 1, r_ExpiresAt = 100\<rparr>"
  have "gomap [(''T'', ?t)]" by (simp add: gomap_def)
  moreover have "fst (Refresh_Consume 5 ''T'' [(''T'', ?t)]) = Inr ?t"
    by (simp add: Refresh_Consume_def RefreshToken_Expired_def)
  ultimately show ?thesis
    using refresh_token_once [of "[(''T'', ?t)]" "''T''" "[RConsume 5 ''T'', RSweep 6, RConsume 7 ''T'']" 5 ?t 9]
    unfolding Let_def by simp
qed

section \<open>Sessions\<close>

record Session =
  s_ID :: string
  s_Usid :: string
  s_Channel :: string
  s_IssuedAt :: int
  s_ExpiresAt :: int
  s_LastSeenAt :: int
  s_LgnIdntCon :: string
  s_CifNo :: string
  s_Profile :: Profile
  s_LogonID :: string
  s_subscribed :: "string list"

definition Session_Subscribe :: "string \<Rightarrow> Session \<Rightarrow> bool \<times> Session" where
  "Session_Subscribe p s =
     (if p \<in> set (s_subscribed s) then (False, s) else (True, s\<lparr>s_subscribed := s_subscribed s @ [p]\<rparr>))"

definition Session_Unsubscribe :: "string \<Rightarrow> Session \<Rightarrow> bool \<times> Session" where
  "Session_Unsubscribe p s =
     (if p \<notin> set (s_subscribed s) then (False, s)
      else (True, s\<lparr>s_subscribed := filter (\<lambda>q. q \<noteq> p) (s_subscribed s)\<rparr>))"

definition IsSubscribed :: "string \<Rightarrow> Session \<Rightarrow> bool" where
  "IsSubscribed p s \<longleftrightarrow> p \<in> set (s_subscribed s)"

definition Session_Subscriptions :: "Session \<Rightarrow> string list" where
  "Session_Subscriptions s = s_subscribed s"

definition ClearSubscriptions :: "Session \<Rightarrow> Session" where
  "ClearSubscriptions s = s\<lparr>s_subscribed := []\<rparr>"

definition Session_Expired :: "Session \<Rightarrow> int \<Rightarrow> bool" where
  "Session_Expired s now \<longleftrightarrow> s_ExpiresAt s \<noteq> go_zero_time \<and> now > s_ExpiresAt s"

text \<open>The store and the heap of session objects it points into.\<close>

type_synonym addr = nat

record MemoryStore =
  st_sessions :: "(string \<times> addr) list"
  st_heap :: "addr \<Rightarrow> Session"

definition Store_Put :: "int \<Rightarrow> int \<Rightarrow> addr \<Rightarrow> MemoryStore \<Rightarrow> MemoryStore" where
  "Store_Put now1 now2 a st =
     (let s = st_heap st a;
          s1 = (if s_IssuedAt s = go_zero_time then s\<lparr>s_IssuedAt := now1\<rparr> else s);
          s2 = s1\<lparr>s_LastSeenAt := now2\<rparr>
      in st\<lparr>st_heap := (st_heap st)(a := s2), st_sessions := AList.update (s_ID s2) a (st_sessions st)\<rparr>)"

text \<open>Get works in two critical sections: the lookup, then the eviction of exactly the object it saw,
  or the update of the last use.\<close>

definition Store_Get_read :: "int \<Rightarrow> string \<Rightarrow> MemoryStore \<Rightarrow> (auth_error \<times> addr option) + addr" where
  "Store_Get_read now i st =
     (case map_of (st_sessions st) i of
        None \<Rightarrow> Inl (ErrSessionNotFound, None)
      | Some a \<Rightarrow> if Session_Expired (st_heap st a) now then Inl (ErrSessionExpired, Some a) else Inr a)"

definition Store_Get_evict :: "string \<Rightarrow> addr \<Rightarrow> MemoryStore \<Rightarrow> MemoryStore" where
  "Store_Get_evict i a st =
     (if map_of (st_sessions st) i = Some a then st\<lparr>st_sessions := AList.delete i (st_sessions st)\<rparr> else st)"

definition Store_Get_touch :: "int \<Rightarrow> string \<Rightarrow> MemoryStore \<Rightarrow> MemoryStore" where
  "Store_Get_touch now i st =
     (case map_of (st_sessions st) i of
        None \<Rightarrow> st
      | Some a \<Rightarrow> st\<lparr>st_heap := (st_heap st)(a := (st_heap st a)\<lparr>s_LastSeenAt := now\<rparr>)\<rparr>)"

definition Store_Get :: "int \<Rightarrow> string \<Rightarrow> MemoryStore \<Rightarrow> (auth_error + addr) \<times> MemoryStore" where
  "Store_Get now i st =
     (case Store_Get_read now i st of
        Inl (e, None) \<Rightarrow> (Inl e, st)
      | Inl (e, Some a) \<Rightarrow> (Inl e, Store_Get_evict i a st)
      | Inr a \<Rightarrow> (Inr a, Store_Get_touch now i st))"

definition Store_Delete :: "string \<Rightarrow> MemoryStore \<Rightarrow> MemoryStore" where
  "Store_Delete i st = st\<lparr>st_sessions := AList.delete i (st_sessions st)\<rparr>"

definition Store_Len :: "MemoryStore \<Rightarrow> nat" where
  "Store_Len st = length (st_sessions st)"

definition Store_sweepOnce :: "int \<Rightarrow> MemoryStore \<Rightarrow> MemoryStore" where
  "Store_sweepOnce now st =
     st\<lparr>st_sessions := filter (\<lambda>(i, a). \<not> Session_Expired (st_heap st a) now) (st_sessions st)\<rparr>"

datatype store_op =
    SPut int int addr
  | SEvict string addr
  | STouch int string
  | SDelete string
  | SSweep int

fun store_exec :: "store_op \<Rightarrow> MemoryStore \<Rightarrow> MemoryStore" where
  "store_exec (SPut n1 n2 a) st = Store_Put n1 n2 a st"
| "store_exec (SEvict i a) st = Store_Get_evict i a st"
| "store_exec (STouch n i) st = Store_Get_touch n i st"
| "store_exec (SDelete i) st = Store_Delete i st"
| "store_exec (SSweep n) st = Store_sweepOnce n st"

text \<open>An operation that is entitled to remove the live session stored under \<open>i\<close> at \<open>a\<close>:
  a deletion, a replacement, an eviction of that very object, or a sweep after its expiry.\<close>

fun store_displaces :: "string \<Rightarrow> addr \<Rightarrow> Session \<Rightarrow> MemoryStore \<Rightarrow> store_op \<Rightarrow> bool" where
  "store_displaces i a s st (SPut n1 n2 b) \<longleftrightarrow> s_ID (st_heap st b) = i \<and> b \<noteq> a"
| "store_displaces i a s st (SEvict j b) \<longleftrightarrow> j = i \<and> b = a"
| "store_displaces i a s st (STouch n j) \<longleftrightarrow> False"
| "store_displaces i a s st (SDelete j) \<longleftrightarrow> j = i"
| "store_displaces i a s st (SSweep n) \<longleftrightarrow> Session_Expired s n"

primrec store_run :: "store_op list \<Rightarrow> MemoryStore \<Rightarrow> MemoryStore" where
  "store_run [] st = st"
| "store_run (op # ops) st = store_run ops (store_exec op st)"

primrec undisturbed :: "string \<Rightarrow> addr \<Rightarrow> store_op list \<Rightarrow> MemoryStore \<Rightarrow> bool" where
  "undisturbed i a [] st \<longleftrightarrow> True"
| "undisturbed i a (op # ops) st \<longleftrightarrow>
     \<not> store_displaces i a (st_heap st a) st op \<and> undisturbed i a ops (store_exec op st)"

lemma store_exec_kept:
  assumes "gomap (st_sessions st)" "map_of (st_sessions st) i = Some a"
    "\<not> store_displaces i a (st_heap st a) st op"
  shows "gomap (st_sessions (store_exec op st)) \<and> map_of (st_sessions (store_exec op st)) i = Some a \<and>
    s_ExpiresAt (st_heap (store_exec op st) a) = s_ExpiresAt (st_heap st a)"
  using assms
  by (cases op) (auto simp: Store_Put_def Let_def Store_Get_evict_def Store_Get_touch_def Store_Delete_def
      Store_sweepOnce_def map_of_filter_some split: option.splits)

lemma store_run_kept:
  assumes "gomap (st_sessions st)" "map_of (st_sessions st) i = Some a" "undisturbed i a ops st"
  shows "map_of (st_sessions (store_run ops st)) i = Some a \<and>
    s_ExpiresAt (st_heap (store_run ops st) a) = s_ExpiresAt (st_heap st a)"
  using assms
proof (induction ops arbitrary: st)
  case (Cons op ops)
  then show ?case using store_exec_kept [of st i a op] by auto
qed simp

text \<open>A stored session is found until it expires: no sequence of critical sections of the store
  removes it except a deletion, a replacement, an eviction of that very object, or a sweep after
  its expiry; in particular a Get that saw an older expired object of the same identifier does not
  evict the new one.  Get returns a session exactly when one is stored and not expired, and an
  expired one is gone afterwards.\<close>

theorem session_found_until_expiry:
  assumes "gomap (st_sessions st)" "map_of (st_sessions st) i = Some a" "undisturbed i a ops st"
  shows "fst (Store_Get now i (store_run ops st)) =
      (if Session_Expired (st_heap st a) now then Inl ErrSessionExpired else Inr a) \<and>
    (Session_Expired (st_heap st a) now \<longrightarrow>
      map_of (st_sessions (snd (Store_Get now i (store_run ops st)))) i = None)"
  using store_run_kept [OF assms]
  by (auto simp: Store_Get_def Store_Get_read_def Session_Expired_def Store_Get_evict_def split: option.splits)

definition sample_session :: "string \<Rightarrow> int \<Rightarrow> Session" where
  "sample_session i e = \<lparr>s_ID = i, s_Usid = ''U'', s_Channel = ''WEB'', s_IssuedAt = 1, s_ExpiresAt = e,
     s_LastSeenAt = 1, s_LgnIdntCon = [], s_CifNo = [],
     s_Profile = \<lparr>pf_Channel = ''WEB'', pf_Site = ''HQ'', pf_Tier = ''VIP''\<rparr>, s_LogonID = ''L'', s_subscribed = []\<rparr>"

theorem session_found_until_expiry_witness:
  "fst (Store_Get 150 ''S'' (store_run [SEvict ''S'' 0, STouch 130 ''S'', SSweep 140]
      \<lparr>st_sessions = [(''S'', 1)], st_heap = (\<lambda>a. sample_session ''S'' (if a = 0 then 100 else 200))\<rparr>)) = Inr 1"
  using session_found_until_expiry [of "\<lparr>st_sessions = [(''S'', 1)],
      st_heap = (\<lambda>a. sample_session ''S'' (if a = 0 then 100 else 200))\<rparr>" "''S''" 1
      "[SEvict ''S'' 0, STouch 130 ''S'', SSweep 140]" 150]
  by (simp add: gomap_def sample_session_def Session_Expired_def Store_Get_evict_def Store_Get_touch_def)

end
