(* ===== verification/Idempotency.thy ===== *)
theory Idempotency
  imports Wtg_Prelude
begin

text \<open>
  Idempotent order entry: the in-memory reservation store of src/pkg/idempotency and its use by the
  transaction handler of src/internal/api/handlers (reserveIdempotency, captureWriter and the
  deferred commit).  The hash of the request body (crypto/sha256) is the argument \<open>sha\<close>; clock
  readings are arguments.
\<close>

section \<open>The store\<close>

datatype Status = StatusMiss | StatusCached | StatusInFlight | StatusConflict

definition Status_String :: "Status \<Rightarrow> string" where
  "Status_String s = (case s of StatusMiss \<Rightarrow> ''miss'' | StatusCached \<Rightarrow> ''cached''
     | StatusInFlight \<Rightarrow> ''in_flight'' | StatusConflict \<Rightarrow> ''conflict'')"

record CachedReply =
  cr_StatusCode :: int
  cr_Body :: bytes

record memEntry =
  e_bodyHash :: bytes
  e_reply :: "CachedReply option"
  e_expires :: int

record IdemStore =
  i_ttl :: int
  i_entries :: "(string \<times> memEntry) list"

definition effectiveTTL :: "int \<Rightarrow> int" where
  "effectiveTTL ttl = (if ttl \<le> 0 then 5 * 60 * 1000000000 else ttl)"

definition NewIdemStore :: "int \<Rightarrow> IdemStore" where
  "NewIdemStore ttl = \<lparr>i_ttl = effectiveTTL ttl, i_entries = []\<rparr>"

definition MakeKey :: "string \<Rightarrow> string \<Rightarrow> string" where
  "MakeKey usid header = usid @ ''|'' @ header"

definition reserve_new :: "int \<Rightarrow> string \<Rightarrow> bytes \<Rightarrow> IdemStore \<Rightarrow> Status \<times> CachedReply option \<times> IdemStore" where
  "reserve_new now key hash s =
     (StatusMiss, None,
      s\<lparr>i_entries := AList.update key \<lparr>e_bodyHash = hash, e_reply = None, e_expires = now + i_ttl s\<rparr> (i_entries s)\<rparr>)"

definition Reserve :: "int \<Rightarrow> string \<Rightarrow> bytes \<Rightarrow> IdemStore \<Rightarrow> Status \<times> CachedReply option \<times> IdemStore" where
  "Reserve now key hash s =
     (case map_of (i_entries s) key of
        Some e \<Rightarrow>
          if now > e_expires e then reserve_new now key hash (s\<lparr>i_entries := AList.delete key (i_entries s)\<rparr>)
          else if e_bodyHash e \<noteq> hash then (StatusConflict, None, s)
          else if e_reply e \<noteq> None then (StatusCached, e_reply e, s)
          else (StatusInFlight, None, s)
      | None \<Rightarrow> reserve_new now key hash s)"

text \<open>The hash of an entry made by Commit without reservation is the zero value of the array.\<close>

definition zero_hash :: bytes where
  "zero_hash = replicate 32 0"

definition Commit :: "int \<Rightarrow> string \<Rightarrow> CachedReply \<Rightarrow> IdemStore \<Rightarrow> IdemStore" where
  "Commit now key reply s =
     (case map_of (i_entries s) key of
        None \<Rightarrow> s\<lparr>i_entries := AList.update key
                 \<lparr>e_bodyHash = zero_hash, e_reply = Some reply, e_expires = now + i_ttl s\<rparr> (i_entries s)\<rparr>
      | Some e \<Rightarrow> s\<lparr>i_entries := AList.update key
                 (e\<lparr>e_reply := Some reply, e_expires := now + i_ttl s\<rparr>) (i_entries s)\<rparr>)"

definition Rollback :: "string \<Rightarrow> IdemStore \<Rightarrow> IdemStore" where
  "Rollback key s =
     (case map_of (i_entries s) key of
        Some e \<Rightarrow> if e_reply e = None then s\<lparr>i_entries := AList.delete key (i_entries s)\<rparr> else s
      | None \<Rightarrow> s)"

definition Size :: "IdemStore \<Rightarrow> nat" where
  "Size s = length (i_entries s)"

section \<open>The handler\<close>

datatype response = Replay CachedReply | Refused int string

text \<open>The three ways out of reserveIdempotency: proceed without idempotency, response already sent, or
  leader of the key.\<close>

datatype reserved = Inactive | Handled response | Leader string

definition reserveIdempotency ::
  "(bytes \<Rightarrow> bytes) \<Rightarrow> int \<Rightarrow> string \<Rightarrow> string \<Rightarrow> bytes \<Rightarrow> IdemStore option \<Rightarrow> reserved \<times> IdemStore option" where
  "reserveIdempotency sha now usid hdr body store =
     (case store of
        None \<Rightarrow> (Inactive, None)
      | Some s \<Rightarrow>
          if hdr = [] then (Inactive, Some s)
          else (case Reserve now (MakeKey usid hdr) (sha body) s of
              (StatusCached, Some r, s') \<Rightarrow> (Handled (Replay r), Some s')
            | (StatusConflict, _, s') \<Rightarrow> (Handled (Refused 409 ''idempotency_conflict''), Some s')
            | (StatusInFlight, _, s') \<Rightarrow> (Handled (Refused 409 ''idempotency_in_flight''), Some s')
            | (_, _, s') \<Rightarrow> (Leader (MakeKey usid hdr), Some s')))"

text \<open>The response as the capturing writer has recorded it: the status defaults to 200.\<close>

record captureWriter =
  w_status :: int
  w_body :: bytes

definition new_capture :: captureWriter where
  "new_capture = \<lparr>w_status = 200, w_body = []\<rparr>"

definition WriteHeader :: "int \<Rightarrow> captureWriter \<Rightarrow> captureWriter" where
  "WriteHeader c w = w\<lparr>w_status := c\<rparr>"

definition capture_Write :: "bytes \<Rightarrow> captureWriter \<Rightarrow> captureWriter" where
  "capture_Write b w = w\<lparr>w_body := w_body w @ b\<rparr>"

text \<open>The deferred function of a leader; it runs on every exit of the handler.\<close>

definition finish_leader :: "int \<Rightarrow> string \<Rightarrow> captureWriter \<Rightarrow> IdemStore \<Rightarrow> IdemStore" where
  "finish_leader now key w s =
     (if w_status w \<ge> 500 then Rollback key s
      else Commit now key \<lparr>cr_StatusCode = w_status w, cr_Body = w_body w\<rparr> s)"

section \<open>Concurrent requests\<close>

text \<open>
  A running leader: its key, the hash of its body and the time of its reservation.  A finished
  execution: key, hash, the reply it recorded and the time it was recorded.
\<close>

record leader =
  ld_key :: string
  ld_hash :: bytes
  ld_since :: int

record execution =
  x_key :: string
  x_hash :: bytes
  x_reply :: CachedReply
  x_at :: int

record idem_sys =
  y_store :: IdemStore
  y_now :: int
  y_leaders :: "leader list"
  y_done :: "execution list"

definition timely :: "int \<Rightarrow> idem_sys \<Rightarrow> bool" where
  "timely t y \<longleftrightarrow> (\<forall>l \<in> set (y_leaders y). t \<le> ld_since l + i_ttl (y_store y))"

text \<open>
  The steps: a request arrives and becomes a leader or is answered from the store, or a leader
  finishes with a response.  Time does not go back, and every leader finishes before its
  reservation lapses (the broker call is bounded by CallTimeout, far below the TTL).
\<close>

inductive idem_step :: "idem_sys \<Rightarrow> idem_sys \<Rightarrow> bool" where
  lead: "y_now y \<le> t \<Longrightarrow> timely t y \<Longrightarrow> Reserve t k h (y_store y) = (StatusMiss, r, s') \<Longrightarrow>
     idem_step y (y\<lparr>y_store := s', y_now := t,
       y_leaders := \<lparr>ld_key = k, ld_hash = h, ld_since = t\<rparr> # y_leaders y\<rparr>)"
| answer: "y_now y \<le> t \<Longrightarrow> timely t y \<Longrightarrow> Reserve t k h (y_store y) = (st, r, s') \<Longrightarrow> st \<noteq> StatusMiss \<Longrightarrow>
     idem_step y (y\<lparr>y_store := s', y_now := t\<rparr>)"
| finish: "y_now y \<le> t \<Longrightarrow> timely t y \<Longrightarrow> y_leaders y = ls1 @ l # ls2 \<Longrightarrow>
     idem_step y (y\<lparr>y_store := finish_leader t (ld_key l) w (y_store y), y_now := t, y_leaders := ls1 @ ls2,
       y_done := (if w_status w \<ge> 500 then y_done y
          else \<lparr>x_key = ld_key l, x_hash = ld_hash l,
                x_reply = \<lparr>cr_StatusCode = w_status w, cr_Body = w_body w\<rparr>, x_at = t\<rparr> # y_done y)\<rparr>)"

definition idem_init :: "int \<Rightarrow> int \<Rightarrow> idem_sys" where
  "idem_init ttl t0 = \<lparr>y_store = NewIdemStore ttl, y_now = t0, y_leaders = [], y_done = []\<rparr>"

definition idem_inv :: "idem_sys \<Rightarrow> bool" where
  "idem_inv y \<longleftrightarrow> distinct (map ld_key (y_leaders y)) \<and> i_ttl (y_store y) > 0 \<and>
     (\<forall>l \<in> set (y_leaders y). map_of (i_entries (y_store y)) (ld_key l) =
        Some \<lparr>e_bodyHash = ld_hash l, e_reply = None, e_expires = ld_since l + i_ttl (y_store y)\<rparr>) \<and>
     (\<forall>x \<in> set (y_done y). y_now y > x_at x + i_ttl (y_store y) \<or>
        map_of (i_entries (y_store y)) (x_key x) =
          Some \<lparr>e_bodyHash = x_hash x, e_reply = Some (x_reply x), e_expires = x_at x + i_ttl (y_store y)\<rparr>) \<and>
     (\<forall>k e r. map_of (i_entries (y_store y)) k = Some e \<and> e_reply e = Some r \<longrightarrow>
        (\<exists>x \<in> set (y_done y). x_key x = k \<and> x_hash x = e_bodyHash e \<and> x_reply x = r))"

lemma Reserve_miss:
  assumes "Reserve t k h s = (StatusMiss, r, s')"
  shows "(\<forall>e. map_of (i_entries s) k = Some e \<longrightarrow> t > e_expires e) \<and> i_ttl s' = i_ttl s \<and>
    map_of (i_entries s') = (map_of (i_entries s))(k \<mapsto> \<lparr>e_bodyHash = h, e_reply = None, e_expires = t + i_ttl s\<rparr>)"
  using assms by (auto simp: Reserve_def reserve_new_def split: option.splits if_splits)

lemma Reserve_other: "Reserve t k h s = (st, r, s') \<Longrightarrow> st \<noteq> StatusMiss \<Longrightarrow> s' = s"
  by (auto simp: Reserve_def reserve_new_def split: option.splits if_splits)

lemma finish_leader_ttl [simp]: "i_ttl (finish_leader t k w s) = i_ttl s"
  by (auto simp: finish_leader_def Commit_def Rollback_def split: option.splits)

lemma finish_leader_entries:
  assumes "map_of (i_entries s) k = Some e" "e_reply e = None"
  shows "map_of (i_entries (finish_leader t k w s)) = (map_of (i_entries s))
     (k := if w_status w \<ge> 500 then None
           else Some (e\<lparr>e_reply := Some \<lparr>cr_StatusCode = w_status w, cr_Body = w_body w\<rparr>, e_expires := t + i_ttl s\<rparr>))"
  using assms by (auto simp: finish_leader_def Commit_def Rollback_def)

lemma idem_inv_init: "idem_inv (idem_init ttl t0)"
  by (simp add: idem_inv_def idem_init_def NewIdemStore_def effectiveTTL_def)

lemma idem_inv_lead:
  assumes inv: "idem_inv y" and t: "y_now y \<le> t" and tm: "timely t y"
    and R: "Reserve t k h (y_store y) = (StatusMiss, r, s')"
  shows "idem_inv (y\<lparr>y_store := s', y_now := t, y_leaders := \<lparr>ld_key = k, ld_hash = h, ld_since = t\<rparr> # y_leaders y\<rparr>)"
proof -
  note M = Reserve_miss [OF R]
  have new: "k \<notin> ld_key ` set (y_leaders y)"
  proof
    assume "k \<in> ld_key ` set (y_leaders y)"
    then obtain l where l: "l \<in> set (y_leaders y)" "k = ld_key l" by blast
    with inv M have "t > ld_since l + i_ttl (y_store y)" unfolding idem_inv_def by fastforce
    with tm l show False unfolding timely_def by fastforce
  qed
  have old: "t > x_at x + i_ttl (y_store y) \<or> (x_key x \<noteq> k \<and> map_of (i_entries (y_store y)) (x_key x) =
      Some \<lparr>e_bodyHash = x_hash x, e_reply = Some (x_reply x), e_expires = x_at x + i_ttl (y_store y)\<rparr>)"
    if "x \<in> set (y_done y)" for x
  proof -
    from inv that consider "y_now y > x_at x + i_ttl (y_store y)" | "map_of (i_entries (y_store y)) (x_key x) =
      Some \<lparr>e_bodyHash = x_hash x, e_reply = Some (x_reply x), e_expires = x_at x + i_ttl (y_store y)\<rparr>"
      unfolding idem_inv_def by blast
    then show ?thesis
    proof cases
      case 2
      then show ?thesis using M by (cases "x_key x = k") auto
    qed (use t in simp)
  qed
  show ?thesis
    using inv M new old unfolding idem_inv_def by (auto simp: image_iff)
qed

lemma idem_inv_finish:
  assumes inv: "idem_inv y" and t: "y_now y \<le> t" and ls: "y_leaders y = ls1 @ l # ls2"
  shows "idem_inv (y\<lparr>y_store := finish_leader t (ld_key l) w (y_store y), y_now := t, y_leaders := ls1 @ ls2,
       y_done := (if w_status w \<ge> 500 then y_done y
          else \<lparr>x_key = ld_key l, x_hash = ld_hash l,
                x_reply = \<lparr>cr_StatusCode = w_status w, cr_Body = w_body w\<rparr>, x_at = t\<rparr> # y_done y)\<rparr>)"
proof -
  let ?e = "\<lparr>e_bodyHash = ld_hash l, e_reply = None, e_expires = ld_since l + i_ttl (y_store y)\<rparr>"
  have e: "map_of (i_entries (y_store y)) (ld_key l) = Some ?e" using inv ls unfolding idem_inv_def by simp
  note F = finish_leader_entries [OF e, of t w, simplified]
  have rest: "ld_key l' \<noteq> ld_key l" if "l' \<in> set (ls1 @ ls2)" for l'
    using inv ls that unfolding idem_inv_def by (auto simp: image_iff)
  have old: "t > x_at x + i_ttl (y_store y) \<or> (x_key x \<noteq> ld_key l \<and> map_of (i_entries (y_store y)) (x_key x) =
      Some \<lparr>e_bodyHash = x_hash x, e_reply = Some (x_reply x), e_expires = x_at x + i_ttl (y_store y)\<rparr>)"
    if "x \<in> set (y_done y)" for x
  proof -
    from inv that consider "y_now y > x_at x + i_ttl (y_store y)" | "map_of (i_entries (y_store y)) (x_key x) =
      Some \<lparr>e_bodyHash = x_hash x, e_reply = Some (x_reply x), e_expires = x_at x + i_ttl (y_store y)\<rparr>"
      unfolding idem_inv_def by blast
    then show ?thesis
      using t e by cases auto
  qed
  show ?thesis
    using inv ls F rest old unfolding idem_inv_def by (auto simp: image_iff)
qed

lemma idem_inv_step: "idem_step y y' \<Longrightarrow> idem_inv y \<Longrightarrow> idem_inv y'"
proof (induction rule: idem_step.induct)
  case (lead y t k h r s')
  then show ?case by (intro idem_inv_lead)
next
  case (answer y t k h st r s')
  then have "s' = y_store y" by (blast dest: Reserve_other)
  with answer show ?case unfolding idem_inv_def by fastforce
next
  case (finish y t ls1 l ls2 w)
  then show ?case by (intro idem_inv_finish)
qed

lemma idem_inv_reach: "idem_step\<^sup>*\<^sup>* y y' \<Longrightarrow> idem_inv y \<Longrightarrow> idem_inv y'"
  by (induction rule: rtranclp_induct) (auto intro: idem_inv_step)

lemma replay_entry:
  assumes "reserveIdempotency sha t usid hdr body (Some s) = (Handled (Replay r), s')"
  shows "\<exists>e. map_of (i_entries s) (MakeKey usid hdr) = Some e \<and> e_bodyHash e = sha body \<and> e_reply e = Some r"
  using assms by (auto simp: reserveIdempotency_def Reserve_def reserve_new_def split: option.splits if_splits)

text \<open>C5: In every interleaving of requests in which leaders answer within the reservation time, a key has
  at most one running leader; while it runs, a repetition of the request is refused and starts
  nothing; once it has recorded a reply below 500, every repetition until the entry lapses is
  answered with exactly that reply, and the same key with another body hash is refused; and a
  replayed reply always comes from an execution of the same key and body hash.\<close>

theorem idempotent_execution:
  assumes "idem_step\<^sup>*\<^sup>* (idem_init ttl t0) y"
  shows "distinct (map ld_key (y_leaders y)) \<and>
    (\<forall>l t body. l \<in> set (y_leaders y) \<and> ld_key l = MakeKey usid hdr \<and> hdr \<noteq> [] \<and>
       t \<le> ld_since l + i_ttl (y_store y) \<longrightarrow>
         (\<exists>code. reserveIdempotency sha t usid hdr body (Some (y_store y)) = (Handled (Refused 409 code), Some (y_store y)))) \<and>
    (\<forall>x t body. x \<in> set (y_done y) \<and> x_key x = MakeKey usid hdr \<and> hdr \<noteq> [] \<and> y_now y \<le> t \<and>
       t \<le> x_at x + i_ttl (y_store y) \<longrightarrow>
         reserveIdempotency sha t usid hdr body (Some (y_store y)) =
           (Handled (if sha body = x_hash x then Replay (x_reply x) else Refused 409 ''idempotency_conflict''),
            Some (y_store y))) \<and>
    (\<forall>t body r s'. reserveIdempotency sha t usid hdr body (Some (y_store y)) = (Handled (Replay r), s') \<longrightarrow>
       (\<exists>x. x \<in> set (y_done y) \<and> x_key x = MakeKey usid hdr \<and> x_hash x = sha body \<and> x_reply x = r))"
proof -
  have inv: "idem_inv y" using idem_inv_reach [OF assms] idem_inv_init by blast
  have A: "\<exists>code. reserveIdempotency sha t usid hdr body (Some (y_store y)) = (Handled (Refused 409 code), Some (y_store y))"
    if "l \<in> set (y_leaders y)" "ld_key l = MakeKey usid hdr" "hdr \<noteq> []" "t \<le> ld_since l + i_ttl (y_store y)" for l t body
  proof -
    have "map_of (i_entries (y_store y)) (MakeKey usid hdr) =
        Some \<lparr>e_bodyHash = ld_hash l, e_reply = None, e_expires = ld_since l + i_ttl (y_store y)\<rparr>"
      using inv that unfolding idem_inv_def by metis
    then show ?thesis using that by (simp add: reserveIdempotency_def Reserve_def)
  qed
  have B: "reserveIdempotency sha t usid hdr body (Some (y_store y)) =
       (Handled (if sha body = x_hash x then Replay (x_reply x) else Refused 409 ''idempotency_conflict''), Some (y_store y))"
    if "x \<in> set (y_done y)" "x_key x = MakeKey usid hdr" "hdr \<noteq> []" "y_now y \<le> t" "t \<le> x_at x + i_ttl (y_store y)"
    for x t body
  proof -
    have "\<not> y_now y > x_at x + i_ttl (y_store y)" using that by simp
    then have "map_of (i_entries (y_store y)) (MakeKey usid hdr) =
        Some \<lparr>e_bodyHash = x_hash x, e_reply = Some (x_reply x), e_expires = x_at x + i_ttl (y_store y)\<rparr>"
      using inv that unfolding idem_inv_def by metis
    then show ?thesis using that by (simp add: reserveIdempotency_def Reserve_def)
  qed
  have C: "\<exists>x. x \<in> set (y_done y) \<and> x_key x = MakeKey usid hdr \<and> x_hash x = sha body \<and> x_reply x = r"
    if "reserveIdempotency sha t usid hdr body (Some (y_store y)) = (Handled (Replay r), s')" for t body r s'
  proof -
    from replay_entry [OF that] obtain e where "map_of (i_entries (y_store y)) (MakeKey usid hdr) = Some e"
      "e_bodyHash e = sha body" "e_reply e = Some r" by blast
    then show ?thesis using inv unfolding idem_inv_def by metis
  qed
  have "distinct (map ld_key (y_leaders y))" using inv unfolding idem_inv_def by blast
  with A B C show ?thesis by blast
qed

theorem idempotent_execution_witness:
  "\<exists>y. idem_step\<^sup>*\<^sup>* (idem_init 100 0) y \<and>
     reserveIdempotency (\<lambda>b. b) 20 ''u'' ''h'' [1] (Some (y_store y)) =
       (Handled (Replay \<lparr>cr_StatusCode = 201, cr_Body = [7]\<rparr>), Some (y_store y)) \<and>
     reserveIdempotency (\<lambda>b. b) 20 ''u'' ''h'' [2] (Some (y_store y)) =
       (Handled (Refused 409 ''idempotency_conflict''), Some (y_store y))"
proof -
  let ?y0 = "idem_init 100 0" and ?k = "MakeKey ''u'' ''h''"
  let ?l = "\<lparr>ld_key = ?k, ld_hash = [1], ld_since = 5\<rparr>" and ?w = "\<lparr>w_status = 201, w_body = [7]\<rparr>"
  let ?s1 = "snd (snd (Reserve 5 ?k [1] (y_store ?y0)))"
  let ?y1 = "?y0\<lparr>y_store := ?s1, y_now := 5, y_leaders := ?l # []\<rparr>"
  let ?x = "\<lparr>x_key = ?k, x_hash = [1], x_reply = \<lparr>cr_StatusCode = 201, cr_Body = [7]\<rparr>, x_at = 10\<rparr>"
  let ?y2 = "?y1\<lparr>y_store := finish_leader 10 ?k ?w ?s1, y_now := 10, y_leaders := [] @ [], y_done := [?x]\<rparr>"
  have "Reserve 5 ?k [1] (y_store ?y0) = (StatusMiss, None, ?s1)"
    by (simp add: Reserve_def reserve_new_def idem_init_def NewIdemStore_def)
  then have "idem_step ?y0 ?y1"
    using idem_step.lead [of ?y0 5 ?k "[1]" None ?s1] by (simp add: idem_init_def timely_def)
  moreover have ttl: "i_ttl ?s1 = 100"
    by (simp add: Reserve_def reserve_new_def idem_init_def NewIdemStore_def effectiveTTL_def)
  then have "idem_step ?y1 ?y2"
    using idem_step.finish [of ?y1 10 "[]" ?l "[]" ?w] by (simp add: timely_def idem_init_def)
  ultimately have reach: "idem_step\<^sup>*\<^sup>* ?y0 ?y2" by (meson converse_rtranclp_into_rtranclp r_into_rtranclp)
  have "i_ttl (y_store ?y2) = 100" using ttl by simp
  with idempotent_execution [OF reach, of "''u''" "''h''" "\<lambda>b. b"] reach
  have "reserveIdempotency (\<lambda>b. b) 20 ''u'' ''h'' body (Some (y_store ?y2)) =
      (Handled (if body = [1] then Replay (x_reply ?x) else Refused 409 ''idempotency_conflict''), Some (y_store ?y2))"
    for body by (simp add: MakeKey_def)
  with reach show ?thesis by (intro exI [of _ ?y2]) simp
qed

text \<open>The deferred function also runs when the handler panics: a leader that panics before it wrote a
  response has its default status 200 and an empty body committed, so a retry of the request is
  answered with an empty success although nothing was executed.\<close>

theorem leader_panic_replayed:
  assumes "reserveIdempotency sha t usid hdr body (Some s) = (Leader k, Some s1)"
    and "t2 \<le> t1 + i_ttl s"
  shows "fst (reserveIdempotency sha t2 usid hdr body (Some (finish_leader t1 k new_capture s1))) =
    Handled (Replay \<lparr>cr_StatusCode = 200, cr_Body = []\<rparr>)"
  using assms
  by (auto simp: reserveIdempotency_def Reserve_def reserve_new_def finish_leader_def new_capture_def Commit_def
      split: option.splits if_splits)

theorem leader_panic_replayed_witness:
  "fst (reserveIdempotency (\<lambda>b. b) 2 ''u'' ''h'' [1] (Some (finish_leader 1 ''u|h'' new_capture
      (the (snd (reserveIdempotency (\<lambda>b. b) 0 ''u'' ''h'' [1] (Some (NewIdemStore 0)))))))) =
    Handled (Replay \<lparr>cr_StatusCode = 200, cr_Body = []\<rparr>)"
proof -
  let ?s1 = "the (snd (reserveIdempotency (\<lambda>b. b) 0 ''u'' ''h'' [1] (Some (NewIdemStore 0))))"
  have "reserveIdempotency (\<lambda>b. b) 0 ''u'' ''h'' [1] (Some (NewIdemStore 0)) = (Leader ''u|h'', Some ?s1)"
    by (simp add: reserveIdempotency_def Reserve_def reserve_new_def NewIdemStore_def MakeKey_def)
  from leader_panic_replayed [OF this, of 2 1] show ?thesis
    by (simp add: NewIdemStore_def effectiveTTL_def)
qed

end
