(* ===== verification/Routing.thy ===== *)
theory Routing
  imports Go_Strings Mymq_Frame
begin

text \<open>
  Alias routing: the rules and the in-process registry of src/pkg/routing/registry.go, the
  resolution of an alias, and the request envelope of src/internal/api/transform/envelope.go that
  turns an alias into the exchange and routing key of a broker frame.
\<close>

section \<open>Rules\<close>

record Rule =
  ru_Alias :: string
  ru_Exchange :: string
  ru_RoutingKey :: string
  ru_Active :: bool
  ru_Comment :: string
  ru_UpdatedAt :: int
  ru_UpdatedBy :: string

datatype route_error = ErrAliasRequired | ErrAliasInvalid | ErrRouteNotFound | ErrExchangeTooLong
  | ErrRkeyTooLong | ErrRkeyRequired

definition IsPattern :: "Rule \<Rightarrow> bool" where
  "IsPattern r \<longleftrightarrow> HasSuffix (ru_Alias r) ''*''"

text \<open>Validate trims the alias in place; the result is the rule with the trimmed alias, or the error.\<close>

definition Validate :: "Rule \<Rightarrow> route_error + Rule" where
  "Validate r0 =
     (let r = r0\<lparr>ru_Alias := TrimSpace (ru_Alias r0)\<rparr>; a = ru_Alias r
      in if a = [] then Inl ErrAliasRequired
         else if length a > 64 \<or> ContainsAny a [CHR '' '', CHR 0x09, CHR 0x0D, CHR 0x0A, CHR ''/''] then Inl ErrAliasInvalid
         else if (case IndexByte a (CHR ''*'') of None \<Rightarrow> False | Some i \<Rightarrow> i \<noteq> length a - 1) then Inl ErrAliasInvalid
         else if ru_RoutingKey r = [] \<and> \<not> IsPattern r then Inl ErrRkeyRequired
         else if length (ru_Exchange r) > LXchg then Inl ErrExchangeTooLong
         else if length (ru_RoutingKey r) > LRkey then Inl ErrRkeyTooLong
         else Inr r)"

section \<open>The registry\<close>

type_synonym InMemoryRegistry = "(string \<times> Rule) list"

definition NewInMemoryRegistry :: InMemoryRegistry where
  "NewInMemoryRegistry = []"

definition Route_Get :: "InMemoryRegistry \<Rightarrow> string \<Rightarrow> route_error + Rule" where
  "Route_Get reg alias = (case map_of reg alias of None \<Rightarrow> Inl ErrRouteNotFound | Some r \<Rightarrow> Inr r)"

definition Route_List :: "InMemoryRegistry \<Rightarrow> Rule list" where
  "Route_List reg = sort_key ru_Alias (map snd reg)"

definition Route_Put :: "int \<Rightarrow> Rule option \<Rightarrow> string \<Rightarrow> InMemoryRegistry \<Rightarrow> route_error option \<times> InMemoryRegistry" where
  "Route_Put now rule who reg =
     (case rule of
        None \<Rightarrow> (Some ErrAliasRequired, reg)
      | Some r \<Rightarrow>
          (case Validate r of
             Inl e \<Rightarrow> (Some e, reg)
           | Inr r' \<Rightarrow> (None, AList.update (ru_Alias r') (r'\<lparr>ru_UpdatedAt := now, ru_UpdatedBy := who\<rparr>) reg)))"

definition Route_Delete :: "string \<Rightarrow> InMemoryRegistry \<Rightarrow> route_error option \<times> InMemoryRegistry" where
  "Route_Delete alias reg =
     (case map_of reg alias of
        None \<Rightarrow> (Some ErrRouteNotFound, reg)
      | Some _ \<Rightarrow> (None, AList.delete alias reg))"

definition Route_SetActive :: "int \<Rightarrow> string \<Rightarrow> bool \<Rightarrow> string \<Rightarrow> InMemoryRegistry \<Rightarrow> route_error option \<times> InMemoryRegistry" where
  "Route_SetActive now alias active who reg =
     (case map_of reg alias of
        None \<Rightarrow> (Some ErrRouteNotFound, reg)
      | Some r \<Rightarrow> (None, AList.update alias
           (r\<lparr>ru_Active := active, ru_UpdatedAt := now, ru_UpdatedBy := who\<rparr>) reg))"

section \<open>Resolution\<close>

definition pattern_prefix :: "Rule \<Rightarrow> string" where
  "pattern_prefix r = TrimSuffix (ru_Alias r) ''*''"

fun best_pattern :: "string \<Rightarrow> Rule option \<Rightarrow> Rule list \<Rightarrow> Rule option" where
  "best_pattern alias best [] = best"
| "best_pattern alias best (r # rs) =
     (if \<not> ru_Active r \<or> \<not> IsPattern r then best_pattern alias best rs
      else if \<not> HasPrefix alias (pattern_prefix r) then best_pattern alias best rs
      else if (case best of None \<Rightarrow> True | Some b \<Rightarrow> length (pattern_prefix r) > length (pattern_prefix b))
        then best_pattern alias (Some r) rs
      else best_pattern alias best rs)"

definition Resolve :: "InMemoryRegistry option \<Rightarrow> string \<Rightarrow> route_error + Rule" where
  "Resolve reg alias =
     (case reg of
        None \<Rightarrow> Inl ErrRouteNotFound
      | Some reg \<Rightarrow>
          if alias = [] then Inl ErrRouteNotFound
          else if CHR ''*'' \<in> set alias then Inl ErrRouteNotFound
          else (case Route_Get reg alias of
              Inr rule \<Rightarrow> if \<not> ru_Active rule then Inl ErrRouteNotFound else Inr rule
            | Inl _ \<Rightarrow>
                (case best_pattern alias None (Route_List reg) of
                   None \<Rightarrow> Inl ErrRouteNotFound
                 | Some best \<Rightarrow>
                     (let resolved = best\<lparr>ru_Alias := alias,
                            ru_RoutingKey := (if ru_RoutingKey best = [] then alias else ru_RoutingKey best)\<rparr>
                      in if length (ru_RoutingKey resolved) > LRkey then Inl ErrRkeyTooLong
                         else Inr resolved))))"

section \<open>The envelope\<close>

record Envelope =
  ev_Alias :: string
  ev_Exchange :: string
  ev_RoutingKey :: string
  ev_Keyc :: string
  ev_Pkey :: string
  ev_Nkey :: string

datatype env_error = EnvInvalid | ErrUnknownAlias

definition ValidateRequest :: "Envelope \<Rightarrow> bool" where
  "ValidateRequest e \<longleftrightarrow>
     \<not> (ev_Alias e = [] \<and> ev_RoutingKey e = []) \<and> length (ev_Alias e) \<le> 64 \<and>
     (ev_Alias e = [] \<longrightarrow> length (ev_RoutingKey e) \<le> LRkey \<and> length (ev_Exchange e) \<le> LXchg) \<and>
     length (ev_Pkey e) \<le> LSkey \<and> length (ev_Nkey e) \<le> LSkey"

definition keycValue :: "Envelope \<Rightarrow> byte" where
  "keycValue e =
     (case ev_Keyc e of
        [] \<Rightarrow> 0x53
      | c # _ \<Rightarrow> if c = CHR ''P'' \<or> c = CHR ''p'' then 0x50
               else if c = CHR ''N'' \<or> c = CHR ''n'' then 0x4E else 0x53)"

text \<open>BuildFrame; \<open>body\<close> is the payload DataBytes extracts from the JSON data field.\<close>

definition BuildFrame :: "u32 \<Rightarrow> bytes \<Rightarrow> bytes \<Rightarrow> InMemoryRegistry option \<Rightarrow> Envelope \<Rightarrow> env_error + FrameInput" where
  "BuildFrame ckey traceHex body reg e =
     (if \<not> ValidateRequest e then Inl EnvInvalid
      else (case (if ev_Alias e \<noteq> [] then
                    (case Resolve reg (ev_Alias e) of
                       Inl _ \<Rightarrow> None | Inr r \<Rightarrow> Some (ru_Exchange r, ru_RoutingKey r))
                  else Some (ev_Exchange e, ev_RoutingKey e)) of
              None \<Rightarrow> Inl ErrUnknownAlias
            | Some (xchg, rkey) \<Rightarrow> Inr
                \<lparr>in_Func = 10, in_Subc = 0, in_Dirf = 1, in_Keyc = keycValue e, in_Msgf = 0, in_Ctlf = 0,
                 in_Xchg = str_bytes xchg, in_Rkey = str_bytes rkey, in_Ckey = ckey, in_Clid = 0,
                 in_Wkey = replicate 8 0, in_Chan = replicate 4 0, in_TraceID = TraceIDFromHex traceHex,
                 in_Navis = [], in_Errn = 0, in_ErrMsg = [], in_Pkey = str_bytes (ev_Pkey e),
                 in_Nkey = str_bytes (ev_Nkey e), in_Cookie = None, in_Body = body\<rparr>))"

section \<open>The registry keeps its rules valid\<close>

definition rule_ok :: "string \<Rightarrow> Rule \<Rightarrow> bool" where
  "rule_ok k r \<longleftrightarrow> ru_Alias r = k \<and> k \<noteq> [] \<and> length k \<le> 64 \<and> CHR ''*'' \<notin> set (butlast k) \<and>
     (ru_RoutingKey r \<noteq> [] \<or> last k = CHR ''*'') \<and>
     length (ru_Exchange r) \<le> LXchg \<and> length (ru_RoutingKey r) \<le> LRkey"

definition route_wf :: "InMemoryRegistry \<Rightarrow> bool" where
  "route_wf reg \<longleftrightarrow> gomap reg \<and> list_all (\<lambda>(k, r). rule_ok k r) reg"

lemma star_suffix: "HasSuffix a ''*'' \<longleftrightarrow> a \<noteq> [] \<and> last a = CHR ''*''"
  unfolding HasSuffix_append by (metis append_butlast_last_id last_snoc snoc_eq_iff_butlast)

lemma Validate_ok: "Validate r0 = Inr r \<Longrightarrow> rule_ok (ru_Alias r) r"
proof -
  assume V: "Validate r0 = Inr r"
  let ?a = "TrimSpace (ru_Alias r0)"
  from V have r: "r = r0\<lparr>ru_Alias := ?a\<rparr>" and ne: "?a \<noteq> []"
    and star: "\<not> (case IndexByte ?a (CHR ''*'') of None \<Rightarrow> False | Some i \<Rightarrow> i \<noteq> length ?a - 1)"
    and rest: "length ?a \<le> 64" "ru_RoutingKey r0 \<noteq> [] \<or> IsPattern r" "length (ru_Exchange r0) \<le> LXchg"
      "length (ru_RoutingKey r0) \<le> LRkey"
    by (auto simp: Validate_def Let_def split: if_splits cong: option.case_cong)
  have "CHR ''*'' \<notin> set (butlast ?a)"
  proof (cases "IndexByte ?a (CHR ''*'')")
    case None
    then show ?thesis by (auto simp: IndexByte_None dest: in_set_butlastD)
  next
    case (Some i)
    with star IndexByte_Some [OF Some] show ?thesis by (simp add: butlast_conv_take)
  qed
  with r ne rest show ?thesis by (simp add: rule_ok_def IsPattern_def star_suffix)
qed

lemma route_wf_map_of: "route_wf reg \<Longrightarrow> map_of reg k = Some r \<Longrightarrow> rule_ok k r"
  unfolding route_wf_def by (auto simp: list_all_iff dest: map_of_SomeD)

lemma route_wf_update: "route_wf reg \<Longrightarrow> rule_ok k r \<Longrightarrow> route_wf (AList.update k r reg)"
  unfolding route_wf_def list_all_iff
  by (auto simp: gomap_set_iff split: if_splits)

lemma route_wf_delete: "route_wf reg \<Longrightarrow> route_wf (AList.delete k reg)"
  unfolding route_wf_def list_all_iff by (auto simp: gomap_set_iff split: if_splits)

lemma route_ops_wf:
  assumes "route_wf reg"
  shows "route_wf (snd (Route_Put now rule who reg))" "route_wf (snd (Route_Delete alias reg))"
    "route_wf (snd (Route_SetActive now alias active who reg))"
proof -
  show "route_wf (snd (Route_Put now rule who reg))"
    using assms Validate_ok [of "the rule"]
    by (auto simp: Route_Put_def rule_ok_def split: option.splits sum.splits intro!: route_wf_update)
  show "route_wf (snd (Route_Delete alias reg))"
    using assms by (auto simp: Route_Delete_def route_wf_delete split: option.splits)
  show "route_wf (snd (Route_SetActive now alias active who reg))"
    using assms route_wf_map_of [OF assms, of "alias"]
    by (auto simp: Route_SetActive_def rule_ok_def split: option.splits intro!: route_wf_update)
qed

section \<open>The longest pattern wins\<close>

definition covers :: "string \<Rightarrow> Rule \<Rightarrow> bool" where
  "covers a r \<longleftrightarrow> ru_Active r \<and> IsPattern r \<and> HasPrefix a (pattern_prefix r)"

lemma best_pattern_None: "best_pattern a best rs = None \<longleftrightarrow> best = None \<and> \<not> list_ex (covers a) rs"
  by (induction rs arbitrary: best) (auto simp: covers_def split: option.splits)

lemma best_pattern_Cons:
  "best_pattern a best (r # rs) =
     best_pattern a (if covers a r \<and> (\<forall>b. best = Some b \<longrightarrow> length (pattern_prefix b) < length (pattern_prefix r))
                     then Some r else best) rs"
  by (simp add: covers_def split: option.splits)

lemma best_pattern_grows:
  "best_pattern a (Some b0) rs = Some b \<Longrightarrow> length (pattern_prefix b0) \<le> length (pattern_prefix b)"
proof (induction rs arbitrary: b0)
  case (Cons r rs)
  show ?case
    using Cons.prems Cons.IH [of r] Cons.IH [of b0]
    by (simp add: best_pattern_Cons del: best_pattern.simps split: if_splits)
qed simp

lemma best_pattern_mem:
  "best_pattern a best rs = Some b \<Longrightarrow> best = Some b \<or> (b \<in> set rs \<and> covers a b)"
proof (induction rs arbitrary: best)
  case (Cons r rs)
  show ?case
    using Cons.prems Cons.IH [of "Some r"] Cons.IH [of best]
    by (simp add: best_pattern_Cons del: best_pattern.simps split: if_splits) auto
qed simp

lemma best_pattern_longest:
  "best_pattern a best rs = Some b \<Longrightarrow> r \<in> set rs \<Longrightarrow> covers a r \<Longrightarrow>
     length (pattern_prefix r) \<le> length (pattern_prefix b)"
proof (induction rs arbitrary: best)
  case (Cons q rs)
  let ?best = "if covers a q \<and> (\<forall>b. best = Some b \<longrightarrow> length (pattern_prefix b) < length (pattern_prefix q))
               then Some q else best"
  have step: "best_pattern a ?best rs = Some b" using Cons.prems(1) unfolding best_pattern_Cons .
  show ?case
  proof (cases "r = q")
    case True
    with Cons.prems(3) have "\<exists>b1. ?best = Some b1 \<and> length (pattern_prefix r) \<le> length (pattern_prefix b1)"
      by (cases best) (auto simp: not_less)
    then obtain b1 where "?best = Some b1" "length (pattern_prefix r) \<le> length (pattern_prefix b1)" by blast
    with step best_pattern_grows [of a b1 rs b] show ?thesis by simp
  next
    case False
    with Cons.prems Cons.IH [OF step] show ?thesis by simp
  qed
qed simp

lemma Route_List_set: "set (Route_List reg) = snd ` set reg"
  by (simp add: Route_List_def)

lemma pattern_alias: "IsPattern r \<Longrightarrow> ru_Alias r = pattern_prefix r @ ''*''"
  unfolding IsPattern_def pattern_prefix_def HasSuffix_append by auto

lemma route_wf_stored: "route_wf reg \<Longrightarrow> r \<in> snd ` set reg \<Longrightarrow> map_of reg (ru_Alias r) = Some r"
proof -
  assume wf: "route_wf reg" and "r \<in> snd ` set reg"
  then obtain k where k: "(k, r) \<in> set reg" by force
  from wf have g: "gomap reg" and all: "\<forall>x \<in> set reg. case x of (k, r) \<Rightarrow> rule_ok k r"
    by (simp_all add: route_wf_def list_all_iff)
  from g k have m: "map_of reg k = Some r" by (simp add: gomap_def)
  from bspec [OF all k] have "ru_Alias r = k" by (simp add: rule_ok_def)
  with m show ?thesis by (simp only:)
qed

text \<open>Two rules of a registry that cover an alias with prefixes of the same length are the same rule.\<close>

lemma covers_unique:
  assumes wf: "route_wf reg" and r: "r \<in> snd ` set reg" "r' \<in> snd ` set reg"
    and c: "covers a r" "covers a r'" "length (pattern_prefix r) = length (pattern_prefix r')"
  shows "r = r'"
proof -
  have p: "IsPattern q" "take (length (pattern_prefix q)) a = pattern_prefix q" if "covers a q" for q
    using that unfolding covers_def HasPrefix_def by blast+
  have "pattern_prefix r = take (length (pattern_prefix r)) a" by (rule p(2) [OF c(1), symmetric])
  also have "\<dots> = take (length (pattern_prefix r')) a" by (simp only: c(3))
  also have "\<dots> = pattern_prefix r'" by (rule p(2) [OF c(2)])
  finally have "ru_Alias r = ru_Alias r'"
    unfolding pattern_alias [OF p(1) [OF c(1)]] pattern_alias [OF p(1) [OF c(2)]] by (rule arg_cong)
  with route_wf_stored [OF wf r(1)] route_wf_stored [OF wf r(2)] show ?thesis by (metis option.inject)
qed

lemma Resolve_pattern:
  assumes wf: "route_wf reg" and none: "map_of reg a = None" and a: "a \<noteq> []" "CHR ''*'' \<notin> set a"
    and r: "r \<in> snd ` set reg" "covers a r"
    and longest: "\<And>r'. r' \<in> snd ` set reg \<Longrightarrow> covers a r' \<Longrightarrow> length (pattern_prefix r') \<le> length (pattern_prefix r)"
  shows "best_pattern a None (Route_List reg) = Some r"
proof -
  have "best_pattern a None (Route_List reg) \<noteq> None"
    using r by (auto simp: best_pattern_None list_ex_iff Route_List_set)
  then obtain b where b: "best_pattern a None (Route_List reg) = Some b" by blast
  from best_pattern_mem [OF b] best_pattern_longest [OF b, of r] r have "b \<in> snd ` set reg" "covers a b"
    "length (pattern_prefix r) \<le> length (pattern_prefix b)" by (simp_all add: Route_List_set)
  with longest [of b] have "r = b" by (intro covers_unique [OF wf r(1) _ r(2)]) simp_all
  with b show ?thesis by simp
qed

text \<open>C31: In a registry kept by Put, Delete and SetActive, an alias resolves to its own rule when that is
  active and to nothing when it is inactive; without a rule of its own it resolves to the active
  pattern with the longest matching prefix, whichever order the rules are stored in, with the alias
  itself as routing key when the pattern names none.  Whatever is resolved fits the wire: a
  non-empty routing key of at most 16 bytes and an exchange of at most 8.\<close>

theorem resolve_longest_prefix:
  assumes wf: "route_wf reg" and a: "a \<noteq> []" "CHR ''*'' \<notin> set a"
  shows "(case map_of reg a of
      Some r \<Rightarrow> Resolve (Some reg) a = (if ru_Active r then Inr r else Inl ErrRouteNotFound)
    | None \<Rightarrow>
        (\<not> list_ex (covers a) (map snd reg) \<longrightarrow> Resolve (Some reg) a = Inl ErrRouteNotFound) \<and>
        (\<forall>r \<in> set (map snd reg). covers a r \<and>
           (\<forall>r' \<in> set (map snd reg). covers a r' \<longrightarrow> length (pattern_prefix r') \<le> length (pattern_prefix r)) \<longrightarrow>
             (let rk = (if ru_RoutingKey r = [] then a else ru_RoutingKey r)
              in Resolve (Some reg) a =
                (if length rk > LRkey then Inl ErrRkeyTooLong else Inr (r\<lparr>ru_Alias := a, ru_RoutingKey := rk\<rparr>))))) \<and>
    (\<forall>r. Resolve (Some reg) a = Inr r \<longrightarrow> ru_Alias r = a \<and> ru_RoutingKey r \<noteq> [] \<and>
       length (ru_RoutingKey r) \<le> LRkey \<and> length (ru_Exchange r) \<le> LXchg)"
    (is "?A \<and> ?B")
proof
  show ?A
  proof (cases "map_of reg a")
    case None
    have R: "Resolve (Some reg) a = (case best_pattern a None (Route_List reg) of
        None \<Rightarrow> Inl ErrRouteNotFound
      | Some r \<Rightarrow> (let rk = (if ru_RoutingKey r = [] then a else ru_RoutingKey r)
          in if length rk > LRkey then Inl ErrRkeyTooLong else Inr (r\<lparr>ru_Alias := a, ru_RoutingKey := rk\<rparr>)))"
      using None a by (simp add: Resolve_def Route_Get_def Let_def split: option.splits)
    have "\<not> list_ex (covers a) (map snd reg) \<Longrightarrow> best_pattern a None (Route_List reg) = None"
      by (simp add: best_pattern_None list_ex_iff Route_List_set)
    moreover have "best_pattern a None (Route_List reg) = Some r"
      if "r \<in> set (map snd reg)" "covers a r"
        "\<forall>r' \<in> set (map snd reg). covers a r' \<longrightarrow> length (pattern_prefix r') \<le> length (pattern_prefix r)" for r
      using Resolve_pattern [OF wf None a, of r] that by simp
    ultimately show ?thesis unfolding None option.case R by simp
  qed (use a in \<open>simp add: Resolve_def Route_Get_def\<close>)
  show ?B
  proof (intro allI impI)
    fix r assume R: "Resolve (Some reg) a = Inr r"
    show "ru_Alias r = a \<and> ru_RoutingKey r \<noteq> [] \<and> length (ru_RoutingKey r) \<le> LRkey \<and> length (ru_Exchange r) \<le> LXchg"
    proof (cases "map_of reg a")
      case None
      with R a obtain b where b: "best_pattern a None (Route_List reg) = Some b"
        and rb: "r = b\<lparr>ru_Alias := a, ru_RoutingKey := (if ru_RoutingKey b = [] then a else ru_RoutingKey b)\<rparr>"
        and len: "length (ru_RoutingKey r) \<le> LRkey"
        by (auto simp: Resolve_def Route_Get_def Let_def split: option.splits if_splits)
      from best_pattern_mem [OF b] have "b \<in> snd ` set reg" by (simp add: Route_List_set)
      then have "length (ru_Exchange b) \<le> LXchg"
        using wf by (auto simp: route_wf_def list_all_iff rule_ok_def)
      with rb len a show ?thesis by simp
    next
      case (Some r0)
      with R a have "r = r0" by (simp add: Resolve_def Route_Get_def split: if_splits)
      moreover have "last a \<noteq> CHR ''*''" using a last_in_set by metis
      ultimately show ?thesis using route_wf_map_of [OF wf Some] by (auto simp: rule_ok_def)
    qed
  qed
qed

definition sample_rule :: "string \<Rightarrow> string \<Rightarrow> Rule" where
  "sample_rule a rk = \<lparr>ru_Alias = a, ru_Exchange = ''ORDER'', ru_RoutingKey = rk, ru_Active = True,
     ru_Comment = [], ru_UpdatedAt = 0, ru_UpdatedBy = ''op''\<rparr>"

theorem resolve_longest_prefix_witness:
  "Resolve (Some [(''W1*'', sample_rule ''W1*'' ''X''), (''W11*'', sample_rule ''W11*'' []), (''A'', sample_rule ''A'' ''K'')]) ''W1130'' =
     Inr (sample_rule ''W1130'' ''W1130'')"
proof -
  let ?reg = "[(''W1*'', sample_rule ''W1*'' ''X''), (''W11*'', sample_rule ''W11*'' []), (''A'', sample_rule ''A'' ''K'')]"
  have wf: "route_wf ?reg" by (simp add: route_wf_def gomap_def rule_ok_def sample_rule_def)
  have cov: "covers ''W1130'' (sample_rule ''W11*'' [])" "covers ''W1130'' (sample_rule ''W1*'' ''X'')"
     "\<not> covers ''W1130'' (sample_rule ''A'' ''K'')"
    by (simp_all add: covers_def sample_rule_def IsPattern_def HasSuffix_def pattern_prefix_def TrimSuffix_def HasPrefix_def)
  have len: "length (pattern_prefix (sample_rule ''W11*'' [])) = 3" "length (pattern_prefix (sample_rule ''W1*'' ''X'')) = 2"
    by (simp_all add: sample_rule_def HasSuffix_def pattern_prefix_def TrimSuffix_def)
  have none: "map_of ?reg ''W1130'' = None" by simp
  have mem: "sample_rule ''W11*'' [] \<in> set (map snd ?reg)" by simp
  have name: "''W1130'' \<noteq> []" "CHR ''*'' \<notin> set ''W1130''" by simp_all
  have longest: "\<forall>r' \<in> set (map snd ?reg). covers ''W1130'' r' \<longrightarrow>
      length (pattern_prefix r') \<le> length (pattern_prefix (sample_rule ''W11*'' []))"
    using cov len by simp
  note spec = resolve_longest_prefix [OF wf name, THEN conjunct1, unfolded none option.case, THEN conjunct2]
  have "let rk = (if ru_RoutingKey (sample_rule ''W11*'' []) = [] then ''W1130'' else ru_RoutingKey (sample_rule ''W11*'' []))
      in Resolve (Some ?reg) ''W1130'' = (if length rk > LRkey then Inl ErrRkeyTooLong
           else Inr ((sample_rule ''W11*'' [])\<lparr>ru_Alias := ''W1130'', ru_RoutingKey := rk\<rparr>))"
    by (rule mp [OF bspec [OF spec mem] conjI [OF cov(1) longest]])
  then show ?thesis unfolding Let_def by (simp add: sample_rule_def)
qed

end
