(* ===== verification/Policy.thy ===== *)
theory Policy
  imports Routing
begin

text \<open>
  The operational policy engine of src/pkg/policy/policy.go: kill switch, maintenance window and
  blocked symbols and routing keys, its mutators with their change notifications, and Check; and the
  policy step of the transaction handler.  The human-readable messages of a decision are not
  modelled.
\<close>

section \<open>State\<close>

record MaintenanceWindow =
  mw_Start :: int
  mw_End :: int

record PolState =
  po_KillSwitch :: bool
  po_KillSwitchChannels :: "string list"
  po_Maintenance :: MaintenanceWindow
  po_BlockedSymbols :: "string list"
  po_BlockedRoutingKeys :: "string list"
  po_UpdatedAt :: int
  po_UpdatedBy :: string

record PolRequest =
  rq_Usid :: string
  rq_Channel :: string
  rq_Alias :: string
  rq_Exchange :: string
  rq_RoutingKey :: string
  rq_Symbol :: string

datatype Reason = ReasonKillSwitch | ReasonMaintenance | ReasonSymbol | ReasonRoutingKey

datatype Decision = Allow | Block Reason

datatype policy_error = ErrInvalidWindow | ErrSymbolEmpty | ErrRkeyEmpty

definition window_active :: "MaintenanceWindow \<Rightarrow> int \<Rightarrow> bool" where
  "window_active w now \<longleftrightarrow>
     \<not> (mw_Start w = go_zero_time \<or> mw_End w = go_zero_time) \<and> mw_End w > mw_Start w \<and>
     \<not> now < mw_Start w \<and> now < mw_End w"

text \<open>\<open>en_onChange\<close> is the number of registered callbacks; a mutator that fires passes each of them the
  same snapshot.\<close>

record Engine =
  en_state :: PolState
  en_blockedSymbols :: "string set"
  en_blockedRkeys :: "string set"
  en_onChange :: nat
  en_suppressChange :: bool

section \<open>Normalisation\<close>

fun norm_loop :: "string set \<Rightarrow> string list \<Rightarrow> string list" where
  "norm_loop seen [] = []"
| "norm_loop seen (s # ss) =
     (let t = TrimSpace (ToUpper s)
      in if t = [] then norm_loop seen ss
         else if t \<in> seen then norm_loop seen ss
         else t # norm_loop (insert t seen) ss)"

definition normalizeUpper :: "string list \<Rightarrow> string list" where
  "normalizeUpper ss = (if ss = [] then [] else sort (norm_loop {} ss))"

fun norm_channels_loop :: "string set \<Rightarrow> string list \<Rightarrow> string list" where
  "norm_channels_loop seen [] = []"
| "norm_channels_loop seen (c # cs) =
     (let t = ToUpper (TrimSpace c)
      in if t = [] then norm_channels_loop seen cs
         else if t \<in> seen then norm_channels_loop seen cs
         else t # norm_channels_loop (insert t seen) cs)"

definition normalizeChannels :: "string list \<Rightarrow> string list" where
  "normalizeChannels cs = norm_channels_loop {} cs"

section \<open>The engine\<close>

definition empty_state :: PolState where
  "empty_state = \<lparr>po_KillSwitch = False, po_KillSwitchChannels = [],
     po_Maintenance = \<lparr>mw_Start = go_zero_time, mw_End = go_zero_time\<rparr>, po_BlockedSymbols = [],
     po_BlockedRoutingKeys = [], po_UpdatedAt = go_zero_time, po_UpdatedBy = []\<rparr>"

definition NewEngine :: Engine where
  "NewEngine = \<lparr>en_state = empty_state, en_blockedSymbols = {}, en_blockedRkeys = {}, en_onChange = 0,
     en_suppressChange = False\<rparr>"

definition SetOnChange :: "bool \<Rightarrow> Engine \<Rightarrow> Engine" where
  "SetOnChange present e = e\<lparr>en_onChange := (if present then 1 else 0)\<rparr>"

definition AddOnChange :: "bool \<Rightarrow> Engine \<Rightarrow> Engine" where
  "AddOnChange present e = (if present then e\<lparr>en_onChange := en_onChange e + 1\<rparr> else e)"

definition snapshotLocked :: "Engine \<Rightarrow> PolState" where
  "snapshotLocked e = en_state e"

definition rebuildSetsLocked :: "Engine \<Rightarrow> Engine" where
  "rebuildSetsLocked e = e\<lparr>en_blockedSymbols := set (po_BlockedSymbols (en_state e)),
     en_blockedRkeys := set (po_BlockedRoutingKeys (en_state e))\<rparr>"

text \<open>The snapshots the callbacks receive after the lock is released.\<close>

definition notifyPrepLocked :: "Engine \<Rightarrow> PolState list" where
  "notifyPrepLocked e =
     (if en_suppressChange e \<or> en_onChange e = 0 then [] else replicate (en_onChange e) (snapshotLocked e))"

definition ApplyRemote :: "PolState \<Rightarrow> Engine \<Rightarrow> Engine" where
  "ApplyRemote s e = rebuildSetsLocked (e\<lparr>en_state := s\<lparr>po_BlockedSymbols := normalizeUpper (po_BlockedSymbols s),
     po_BlockedRoutingKeys := normalizeUpper (po_BlockedRoutingKeys s)\<rparr>\<rparr>)"

definition SetState :: "int \<Rightarrow> PolState \<Rightarrow> string \<Rightarrow> Engine \<Rightarrow> Engine" where
  "SetState now s who e = rebuildSetsLocked (e\<lparr>en_state := s\<lparr>po_UpdatedAt := now, po_UpdatedBy := who,
     po_BlockedSymbols := normalizeUpper (po_BlockedSymbols s),
     po_BlockedRoutingKeys := normalizeUpper (po_BlockedRoutingKeys s)\<rparr>\<rparr>)"

definition stamp :: "int \<Rightarrow> string \<Rightarrow> PolState \<Rightarrow> PolState" where
  "stamp now who s = s\<lparr>po_UpdatedAt := now, po_UpdatedBy := who\<rparr>"

definition SetKillSwitchScoped :: "int \<Rightarrow> bool \<Rightarrow> string list \<Rightarrow> string \<Rightarrow> Engine \<Rightarrow> Engine" where
  "SetKillSwitchScoped now active cs who e =
     e\<lparr>en_state := stamp now who ((en_state e)\<lparr>po_KillSwitch := active,
       po_KillSwitchChannels := normalizeChannels cs\<rparr>)\<rparr>"

definition SetKillSwitch :: "int \<Rightarrow> bool \<Rightarrow> string \<Rightarrow> Engine \<Rightarrow> Engine" where
  "SetKillSwitch now active who e = SetKillSwitchScoped now active [] who e"

definition SetMaintenance :: "int \<Rightarrow> MaintenanceWindow \<Rightarrow> string \<Rightarrow> Engine \<Rightarrow> policy_error option \<times> Engine" where
  "SetMaintenance now w who e =
     (if mw_Start w \<noteq> go_zero_time \<and> mw_End w \<noteq> go_zero_time \<and> \<not> mw_End w > mw_Start w
      then (Some ErrInvalidWindow, e)
      else (None, e\<lparr>en_state := stamp now who ((en_state e)\<lparr>po_Maintenance := w\<rparr>)\<rparr>))"

definition AddBlockedSymbol :: "int \<Rightarrow> string \<Rightarrow> string \<Rightarrow> Engine \<Rightarrow> policy_error option \<times> Engine" where
  "AddBlockedSymbol now sym0 who e =
     (let sym = TrimSpace (ToUpper sym0)
      in if sym = [] then (Some ErrSymbolEmpty, e)
         else (None,
           (if sym \<in> en_blockedSymbols e then e\<lparr>en_state := stamp now who (en_state e)\<rparr>
            else e\<lparr>en_blockedSymbols := insert sym (en_blockedSymbols e),
                   en_state := stamp now who ((en_state e)
                     \<lparr>po_BlockedSymbols := sort (po_BlockedSymbols (en_state e) @ [sym])\<rparr>)\<rparr>)))"

definition RemoveBlockedSymbol :: "int \<Rightarrow> string \<Rightarrow> string \<Rightarrow> Engine \<Rightarrow> Engine" where
  "RemoveBlockedSymbol now sym0 who e =
     (let sym = TrimSpace (ToUpper sym0)
      in if sym = [] then e
         else if sym \<notin> en_blockedSymbols e then e
         else e\<lparr>en_blockedSymbols := en_blockedSymbols e - {sym},
                en_state := stamp now who ((en_state e)
                  \<lparr>po_BlockedSymbols := filter (\<lambda>s. s \<noteq> sym) (po_BlockedSymbols (en_state e))\<rparr>)\<rparr>)"

definition AddBlockedRoutingKey :: "int \<Rightarrow> string \<Rightarrow> string \<Rightarrow> Engine \<Rightarrow> policy_error option \<times> Engine" where
  "AddBlockedRoutingKey now rk0 who e =
     (let rk = TrimSpace (ToUpper rk0)
      in if rk = [] then (Some ErrRkeyEmpty, e)
         else (None,
           (if rk \<in> en_blockedRkeys e then e\<lparr>en_state := stamp now who (en_state e)\<rparr>
            else e\<lparr>en_blockedRkeys := insert rk (en_blockedRkeys e),
                   en_state := stamp now who ((en_state e)
                     \<lparr>po_BlockedRoutingKeys := sort (po_BlockedRoutingKeys (en_state e) @ [rk])\<rparr>)\<rparr>)))"

definition RemoveBlockedRoutingKey :: "int \<Rightarrow> string \<Rightarrow> string \<Rightarrow> Engine \<Rightarrow> Engine" where
  "RemoveBlockedRoutingKey now rk0 who e =
     (let rk = TrimSpace (ToUpper rk0)
      in if rk = [] then e
         else if rk \<notin> en_blockedRkeys e then e
         else e\<lparr>en_blockedRkeys := en_blockedRkeys e - {rk},
                en_state := stamp now who ((en_state e)
                  \<lparr>po_BlockedRoutingKeys := filter (\<lambda>s. s \<noteq> rk) (po_BlockedRoutingKeys (en_state e))\<rparr>)\<rparr>)"

definition kill_applies :: "string \<Rightarrow> PolState \<Rightarrow> bool" where
  "kill_applies channel s \<longleftrightarrow> po_KillSwitch s \<and>
     (po_KillSwitchChannels s = [] \<or> ToUpper (TrimSpace channel) \<in> set (po_KillSwitchChannels s))"

definition Check :: "int \<Rightarrow> PolRequest \<Rightarrow> Engine \<Rightarrow> Decision" where
  "Check now req e =
     (if kill_applies (rq_Channel req) (en_state e) then Block ReasonKillSwitch
      else if window_active (po_Maintenance (en_state e)) now then Block ReasonMaintenance
      else (let rk = ToUpper (TrimSpace (rq_RoutingKey req))
            in if rk \<noteq> [] \<and> rk \<in> en_blockedRkeys e then Block ReasonRoutingKey
      else (let sym = ToUpper (TrimSpace (rq_Symbol req))
            in if sym \<noteq> [] \<and> sym \<in> en_blockedSymbols e then Block ReasonSymbol
      else Allow)))"

text \<open>The policy step of the transaction handler: the request it checks, and the HTTP status of a
  refusal.\<close>

definition policy_request :: "string \<Rightarrow> string \<Rightarrow> string \<Rightarrow> Envelope \<Rightarrow> PolRequest" where
  "policy_request usid channel symbol env =
     \<lparr>rq_Usid = usid, rq_Channel = channel, rq_Alias = ev_Alias env, rq_Exchange = ev_Exchange env,
      rq_RoutingKey = ev_RoutingKey env, rq_Symbol = symbol\<rparr>"

definition block_status :: "Reason \<Rightarrow> int" where
  "block_status r = (if r = ReasonKillSwitch \<or> r = ReasonMaintenance then 503 else 403)"

datatype tx_start = TxBlocked int Reason | TxRejected env_error | TxCall FrameInput

definition Transaction_start ::
  "int \<Rightarrow> string \<Rightarrow> string \<Rightarrow> string \<Rightarrow> bytes \<Rightarrow> bytes \<Rightarrow> Engine option \<Rightarrow> InMemoryRegistry option \<Rightarrow> Envelope \<Rightarrow> tx_start" where
  "Transaction_start now usid channel symbol traceHex body engine routes env =
     (case (case engine of None \<Rightarrow> Allow | Some e \<Rightarrow> Check now (policy_request usid channel symbol env) e) of
        Block r \<Rightarrow> TxBlocked (block_status r) r
      | Allow \<Rightarrow> (case BuildFrame 0 traceHex body routes env of Inl err \<Rightarrow> TxRejected err | Inr f \<Rightarrow> TxCall f))"

section \<open>Histories of the engine\<close>

datatype pol_op =
    PSetOnChange bool
  | PAddOnChange bool
  | PApplyRemote PolState
  | PSetState int PolState string
  | PKillSwitch int bool "string list" string
  | PMaintenance int MaintenanceWindow string
  | PAddSymbol int string string
  | PRemoveSymbol int string string
  | PAddRkey int string string
  | PRemoveRkey int string string

fun pol_exec :: "pol_op \<Rightarrow> Engine \<Rightarrow> Engine" where
  "pol_exec (PSetOnChange p) e = SetOnChange p e"
| "pol_exec (PAddOnChange p) e = AddOnChange p e"
| "pol_exec (PApplyRemote s) e = ApplyRemote s e"
| "pol_exec (PSetState now s who) e = SetState now s who e"
| "pol_exec (PKillSwitch now a cs who) e = SetKillSwitchScoped now a cs who e"
| "pol_exec (PMaintenance now w who) e = snd (SetMaintenance now w who e)"
| "pol_exec (PAddSymbol now s who) e = snd (AddBlockedSymbol now s who e)"
| "pol_exec (PRemoveSymbol now s who) e = RemoveBlockedSymbol now s who e"
| "pol_exec (PAddRkey now s who) e = snd (AddBlockedRoutingKey now s who e)"
| "pol_exec (PRemoveRkey now s who) e = RemoveBlockedRoutingKey now s who e"

primrec pol_run :: "pol_op list \<Rightarrow> Engine \<Rightarrow> Engine" where
  "pol_run [] e = e"
| "pol_run (op # ops) e = pol_run ops (pol_exec op e)"

section \<open>Reported lists and enforced sets agree\<close>

definition normal :: "string \<Rightarrow> bool" where
  "normal t \<longleftrightarrow> t \<noteq> [] \<and> TrimSpace (ToUpper t) = t"

lemma normal_norm: "TrimSpace (ToUpper s) \<noteq> [] \<Longrightarrow> normal (TrimSpace (ToUpper s))"
  by (simp add: normal_def TrimSpace_ToUpper)

lemma norm_loop_set: "set (norm_loop seen ss) = (\<lambda>s. TrimSpace (ToUpper s)) ` set ss - {[]} - seen"
  by (induction ss arbitrary: seen) (auto simp: Let_def)

lemma norm_loop_distinct: "distinct (norm_loop seen ss)"
  by (induction ss arbitrary: seen) (auto simp: Let_def norm_loop_set)

definition good_list :: "string list \<Rightarrow> bool" where
  "good_list ss \<longleftrightarrow> sorted ss \<and> distinct ss \<and> list_all normal ss"

lemma good_normalizeUpper: "good_list (normalizeUpper ss)"
  by (auto simp: good_list_def normalizeUpper_def norm_loop_distinct norm_loop_set list_all_iff
      intro: normal_norm)

lemma good_insert: "good_list ss \<Longrightarrow> normal t \<Longrightarrow> t \<notin> set ss \<Longrightarrow> good_list (sort (ss @ [t]))"
  by (auto simp: good_list_def list_all_iff)

lemma good_filter: "good_list ss \<Longrightarrow> good_list (filter P ss)"
  by (auto simp: good_list_def list_all_iff sorted_wrt_filter)

definition pol_inv :: "Engine \<Rightarrow> bool" where
  "pol_inv e \<longleftrightarrow> en_blockedSymbols e = set (po_BlockedSymbols (en_state e)) \<and>
     en_blockedRkeys e = set (po_BlockedRoutingKeys (en_state e)) \<and>
     good_list (po_BlockedSymbols (en_state e)) \<and> good_list (po_BlockedRoutingKeys (en_state e))"

lemma pol_exec_inv: "pol_inv e \<Longrightarrow> pol_inv (pol_exec op e)"
proof (cases op)
  case (PAddSymbol now s who)
  moreover assume "pol_inv e"
  ultimately show ?thesis using normal_norm [of s]
    by (auto simp: pol_inv_def AddBlockedSymbol_def Let_def stamp_def good_insert)
next
  case (PAddRkey now s who)
  moreover assume "pol_inv e"
  ultimately show ?thesis using normal_norm [of s]
    by (auto simp: pol_inv_def AddBlockedRoutingKey_def Let_def stamp_def good_insert)
next
  case (PRemoveSymbol now s who)
  moreover assume "pol_inv e"
  ultimately show ?thesis
    by (auto simp: pol_inv_def RemoveBlockedSymbol_def Let_def stamp_def good_filter)
next
  case (PRemoveRkey now s who)
  moreover assume "pol_inv e"
  ultimately show ?thesis
    by (auto simp: pol_inv_def RemoveBlockedRoutingKey_def Let_def stamp_def good_filter)
qed (simp_all add: pol_inv_def SetOnChange_def AddOnChange_def ApplyRemote_def SetState_def rebuildSetsLocked_def
      good_normalizeUpper SetKillSwitchScoped_def stamp_def SetMaintenance_def)

lemma pol_run_inv: "pol_inv e \<Longrightarrow> pol_inv (pol_run ops e)"
  by (induction ops arbitrary: e) (simp_all add: pol_exec_inv)

lemma pol_inv_new: "pol_inv NewEngine"
  by (simp add: pol_inv_def NewEngine_def empty_state_def good_list_def)

text \<open>The decision as the operator reads it off the reported state.\<close>

definition blocks_key :: "string list \<Rightarrow> string \<Rightarrow> bool" where
  "blocks_key ss k \<longleftrightarrow> list_ex (\<lambda>s. TrimSpace (ToUpper s) = TrimSpace (ToUpper k)) ss"

definition decide :: "int \<Rightarrow> PolRequest \<Rightarrow> PolState \<Rightarrow> Decision" where
  "decide now req s =
     (if kill_applies (rq_Channel req) s then Block ReasonKillSwitch
      else if window_active (po_Maintenance s) now then Block ReasonMaintenance
      else if blocks_key (po_BlockedRoutingKeys s) (rq_RoutingKey req) then Block ReasonRoutingKey
      else if blocks_key (po_BlockedSymbols s) (rq_Symbol req) then Block ReasonSymbol
      else Allow)"

lemma blocks_key_good:
  "good_list ss \<Longrightarrow> blocks_key ss k \<longleftrightarrow> ToUpper (TrimSpace k) \<noteq> [] \<and> ToUpper (TrimSpace k) \<in> set ss"
  by (auto simp: blocks_key_def good_list_def list_all_iff list_ex_iff normal_def TrimSpace_ToUpper)

lemma Check_decide: "pol_inv e \<Longrightarrow> Check now req e = decide now req (en_state e)"
  by (simp add: Check_def decide_def pol_inv_def blocks_key_good Let_def)

text \<open>C8: After every history of operator changes and remote updates, the decision of Check is the one
  read off the state the engine reports, evaluated in the documented order and without regard to
  case and surrounding space; the reported lists are sorted, without duplicates and normalised; and
  a symbol that was just blocked in any spelling is refused, and accepted again after its removal,
  unless an earlier rule applies.\<close>

theorem policy_enforces_reported_state:
  "let e = pol_run ops NewEngine; s = snapshotLocked e
   in Check now req e = decide now req s \<and> good_list (po_BlockedSymbols s) \<and> good_list (po_BlockedRoutingKeys s) \<and>
      (fst (AddBlockedSymbol t sb who e) = None \<and> TrimSpace (ToUpper (rq_Symbol req)) = TrimSpace (ToUpper sb) \<longrightarrow>
         Check now req (snd (AddBlockedSymbol t sb who e)) \<noteq> Allow \<and>
         Check now req (RemoveBlockedSymbol t sb who (snd (AddBlockedSymbol t sb who e))) \<noteq> Block ReasonSymbol)"
proof -
  define e where "e = pol_run ops NewEngine"
  have inv: "pol_inv e" unfolding e_def by (intro pol_run_inv pol_inv_new)
  have "Check now req (snd (AddBlockedSymbol t sb who e)) \<noteq> Allow \<and>
        Check now req (RemoveBlockedSymbol t sb who (snd (AddBlockedSymbol t sb who e))) \<noteq> Block ReasonSymbol"
    if "fst (AddBlockedSymbol t sb who e) = None" "TrimSpace (ToUpper (rq_Symbol req)) = TrimSpace (ToUpper sb)"
    using that by (auto simp: Check_def AddBlockedSymbol_def RemoveBlockedSymbol_def Let_def TrimSpace_ToUpper)
  with inv Check_decide [OF inv] show ?thesis
    unfolding e_def [symmetric] Let_def snapshotLocked_def by (simp add: pol_inv_def)
qed

definition sample_request :: "string \<Rightarrow> PolRequest" where
  "sample_request sb = \<lparr>rq_Usid = ''u'', rq_Channel = ''WEB'', rq_Alias = [], rq_Exchange = ''ORDER'',
     rq_RoutingKey = ''NEW'', rq_Symbol = sb\<rparr>"

lemma sample_texts:
  "TrimSpace (ToUpper '' usd'') = ''USD''" "TrimSpace (ToUpper ''USD '') = ''USD''" "ToUpper (TrimSpace ''web'') = ''WEB''"
  "TrimSpace (ToUpper ''NEW'') = ''NEW''" "ToUpper (TrimSpace ''NEW'') = ''NEW''" "ToUpper (TrimSpace ''WEB'') = ''WEB''"
  by code_simp+

theorem policy_enforces_reported_state_witness:
  "Check 5 (sample_request '' usd'') (snd (AddBlockedSymbol 1 ''USD '' ''op'' (pol_run [] NewEngine))) \<noteq> Allow"
  using policy_enforces_reported_state [of "[]" 5 "sample_request '' usd''" 1 "''USD ''" "''op''"]
  by (simp add: Let_def sample_request_def sample_texts AddBlockedSymbol_def)

text \<open>The channel list of a kill switch set through SetState or ApplyRemote is not normalised, but
  Check compares it with the normalised channel of the request: when every listed channel is in
  lower case or has surrounding space, the active kill switch stops nobody.\<close>

theorem kill_switch_unnormalised:
  assumes "po_KillSwitch s" "po_KillSwitchChannels s \<noteq> []"
    and "list_all (\<lambda>c. ToUpper (TrimSpace c) \<noteq> c) (po_KillSwitchChannels s)"
  shows "Check now req (SetState t s who e) \<noteq> Block ReasonKillSwitch \<and>
         Check now req (ApplyRemote s e) \<noteq> Block ReasonKillSwitch"
proof -
  have "ToUpper (TrimSpace c) \<notin> set (po_KillSwitchChannels s)" for c
    using assms(3) by (auto simp: list_all_iff TrimSpace_ToUpper [symmetric])
  then have "\<not> kill_applies c s'" if "po_KillSwitchChannels s' = po_KillSwitchChannels s" for c s'
    using that assms(2) by (simp add: kill_applies_def)
  then show ?thesis
    by (simp add: Check_def SetState_def ApplyRemote_def rebuildSetsLocked_def Let_def)
qed

theorem kill_switch_unnormalised_witness:
  "Check 5 (sample_request []) (SetState 1 (empty_state\<lparr>po_KillSwitch := True, po_KillSwitchChannels := [''web'']\<rparr>) ''op'' NewEngine)
     \<noteq> Block ReasonKillSwitch"
  using kill_switch_unnormalised [of "empty_state\<lparr>po_KillSwitch := True, po_KillSwitchChannels := [''web'']\<rparr>" 5
      "sample_request []" 1 "''op''" NewEngine]
  by (simp add: sample_texts)

text \<open>The handler checks the routing key written in the request, while the frame is sent to the routing
  key of the resolved alias: a request that names an active alias of a blocked transaction, and no
  routing key of its own, is sent although that transaction is blocked.\<close>

theorem alias_bypasses_blocked_key:
  assumes "ToUpper (TrimSpace (ru_RoutingKey r)) \<in> en_blockedRkeys e"
    and "Resolve (Some reg) a = Inr r" "length a \<le> 64" "a \<noteq> []"
    and "\<not> kill_applies channel (en_state e)" "\<not> window_active (po_Maintenance (en_state e)) now"
  shows "\<exists>f. Transaction_start now usid channel [] tr body (Some e) (Some reg)
       \<lparr>ev_Alias = a, ev_Exchange = [], ev_RoutingKey = [], ev_Keyc = [], ev_Pkey = [], ev_Nkey = []\<rparr> = TxCall f \<and>
     in_Rkey f = str_bytes (ru_RoutingKey r)"
  using assms
  by (simp add: Transaction_start_def Check_def policy_request_def Let_def BuildFrame_def ValidateRequest_def
      TrimSpace_def ToUpper_def)

theorem alias_bypasses_blocked_key_witness:
  "\<exists>f. Transaction_start 5 ''u'' ''WEB'' [] [] [] (Some (snd (AddBlockedRoutingKey 1 ''NEW'' ''op'' NewEngine)))
       (Some [(''order'', sample_rule ''order'' ''NEW'')])
       \<lparr>ev_Alias = ''order'', ev_Exchange = [], ev_RoutingKey = [], ev_Keyc = [], ev_Pkey = [], ev_Nkey = []\<rparr> = TxCall f \<and>
     in_Rkey f = str_bytes ''NEW''"
  using alias_bypasses_blocked_key [of "sample_rule ''order'' ''NEW''"
      "snd (AddBlockedRoutingKey 1 ''NEW'' ''op'' NewEngine)" "[(''order'', sample_rule ''order'' ''NEW'')]" "''order''"
      "''WEB''" 5 "''u''" "[]" "[]"]
  by (simp add: AddBlockedRoutingKey_def NewEngine_def empty_state_def stamp_def kill_applies_def window_active_def
      Resolve_def Route_Get_def sample_rule_def sample_texts Let_def)

end
