(* ===== verification/Push_Ring.thy ===== *)
theory Push_Ring
  imports Wtg_Prelude "HOL-Library.Multiset"
begin

text \<open>
  The consistent hash ring of src/pkg/push/hashring.go and the routing of the multi-instance push
  client of src/pkg/push/multiclient.go.  The first 32 bits of SHA-1 are the argument \<open>sha1Hash\<close>.
  sort.Slice is not stable, so the order of equal hashes is not determined: sorting is an argument
  of which only its documented behaviour is assumed.
\<close>

section \<open>The ring\<close>

record ringNode =
  n_hash :: u32
  n_instance :: nat

record HashRing =
  hr_nodes :: "ringNode list"
  hr_endpoints :: "string list"

fun Itoa :: "nat \<Rightarrow> string" where
  "Itoa n = (if n < 10 then [char_of (48 + n)] else Itoa (n div 10) @ [char_of (48 + n mod 10)])"

declare Itoa.simps [simp del]

definition endpoint_nodes :: "(string \<Rightarrow> u32) \<Rightarrow> nat \<Rightarrow> nat \<times> string \<Rightarrow> ringNode list" where
  "endpoint_nodes sha1Hash vnodes = (\<lambda>(i, ep).
     map (\<lambda>v. \<lparr>n_hash = sha1Hash (Itoa v @ ''#'' @ ep), n_instance = i\<rparr>) [0..<vnodes])"

definition place_nodes :: "(string \<Rightarrow> u32) \<Rightarrow> nat \<Rightarrow> string list \<Rightarrow> ringNode list" where
  "place_nodes sha1Hash vnodes eps = concat (map (endpoint_nodes sha1Hash vnodes) (enumerate 0 eps))"

definition NewRing ::
  "(string \<Rightarrow> u32) \<Rightarrow> (ringNode list \<Rightarrow> ringNode list) \<Rightarrow> string list \<Rightarrow> int \<Rightarrow> HashRing option" where
  "NewRing sha1Hash srt eps vnodes =
     (if eps = [] then None
      else (let v = (if vnodes \<le> 0 then 100 else nat vnodes)
            in Some \<lparr>hr_nodes = srt (place_nodes sha1Hash v eps), hr_endpoints = eps\<rparr>))"

text \<open>sort.Search of the standard library: binary search for the first index with the property.\<close>

function search_loop :: "(nat \<Rightarrow> bool) \<Rightarrow> nat \<Rightarrow> nat \<Rightarrow> nat" where
  "search_loop f i j =
     (if i < j then (let h = (i + j) div 2 in if \<not> f h then search_loop f (h + 1) j else search_loop f i h) else i)"
  by pat_completeness auto
termination by (relation "measure (\<lambda>(f, i, j). j - i)") auto

declare search_loop.simps [simp del]

definition sort_Search :: "nat \<Rightarrow> (nat \<Rightarrow> bool) \<Rightarrow> nat" where
  "sort_Search n f = search_loop f 0 n"

definition Ring_Lookup :: "(string \<Rightarrow> u32) \<Rightarrow> string \<Rightarrow> HashRing option \<Rightarrow> nat" where
  "Ring_Lookup sha1Hash user ring =
     (case ring of
        None \<Rightarrow> 0
      | Some r \<Rightarrow>
          if hr_nodes r = [] then 0
          else (let h = sha1Hash user;
                    i = sort_Search (length (hr_nodes r)) (\<lambda>i. n_hash (hr_nodes r ! i) \<ge> h);
                    i' = (if i = length (hr_nodes r) then 0 else i)
                in n_instance (hr_nodes r ! i')))"

definition Ring_Endpoints :: "HashRing option \<Rightarrow> string list" where
  "Ring_Endpoints ring = (case ring of None \<Rightarrow> [] | Some r \<Rightarrow> hr_endpoints r)"

definition VNodeCount :: "HashRing option \<Rightarrow> nat" where
  "VNodeCount ring = (case ring of None \<Rightarrow> 0 | Some r \<Rightarrow> length (hr_nodes r))"

section \<open>The multi-instance client\<close>

text \<open>FNV-1a over the bytes of the user, modulo the number of instances.\<close>

definition fnv32a :: "bytes \<Rightarrow> u32" where
  "fnv32a bs = fold (\<lambda>b h. (xor h (ucast b)) * 16777619) bs 2166136261"

definition userIndex :: "string \<Rightarrow> int \<Rightarrow> nat" where
  "userIndex user n = (if n \<le> 0 then 0 else unat (fnv32a (map of_char user) mod word_of_int n))"

record MultiClient =
  mc_clients :: nat
  mc_errCount :: "u64 list"
  mc_ring :: "HashRing option"

definition IndexForUser :: "(string \<Rightarrow> u32) \<Rightarrow> string \<Rightarrow> MultiClient \<Rightarrow> nat" where
  "IndexForUser sha1Hash user m =
     (case mc_ring m of
        Some r \<Rightarrow> Ring_Lookup sha1Hash user (Some r)
      | None \<Rightarrow> userIndex user (int (mc_clients m)))"

text \<open>\<open>ok i\<close> is whether the HTTP call to instance i succeeds.  The result is None for an error; the list
  names the instances that were called.\<close>

definition count_error :: "nat \<Rightarrow> MultiClient \<Rightarrow> MultiClient" where
  "count_error i m = m\<lparr>mc_errCount := (mc_errCount m)[i := mc_errCount m ! i + 1]\<rparr>"

definition MultiClient_Push ::
  "(string \<Rightarrow> u32) \<Rightarrow> (nat \<Rightarrow> bool) \<Rightarrow> string \<Rightarrow> MultiClient \<Rightarrow> unit option \<times> nat list \<times> MultiClient" where
  "MultiClient_Push sha1Hash ok user m =
     (if user = [] then
        (let failed = filter (\<lambda>i. \<not> ok i) [0..<mc_clients m]
         in ((if length failed = mc_clients m then None else Some ()), [0..<mc_clients m],
             fold count_error failed m))
      else (let idx = IndexForUser sha1Hash user m
            in if ok idx then (Some (), [idx], m) else (None, [idx], count_error idx m)))"

section \<open>Binary search finds the first index\<close>

definition first_in :: "(nat \<Rightarrow> bool) \<Rightarrow> nat \<Rightarrow> nat \<Rightarrow> nat \<Rightarrow> bool" where
  "first_in f i j r \<longleftrightarrow> i \<le> r \<and> r \<le> j \<and> (\<forall>a. i \<le> a \<and> a < r \<longrightarrow> \<not> f a) \<and> (r < j \<longrightarrow> f r)"

lemma first_in_left: "first_in f i h r \<Longrightarrow> f h \<Longrightarrow> h < j \<Longrightarrow> first_in f i j r"
  unfolding first_in_def by (cases "r = h") auto

lemma first_in_right:
  assumes "first_in f (h + 1) j r" "\<And>a. a \<le> h \<Longrightarrow> \<not> f a" "i \<le> h"
  shows "first_in f i j r"
  using assms unfolding first_in_def by (metis Suc_eq_plus1 not_less_eq_eq le_trans le_SucI)

lemma search_loop_first:
  "i \<le> j \<Longrightarrow> (\<And>a b. a \<le> b \<Longrightarrow> b < j \<Longrightarrow> f a \<Longrightarrow> f b) \<Longrightarrow> first_in f i j (search_loop f i j)"
proof (induction f i j rule: search_loop.induct)
  case (1 f i j)
  let ?h = "(i + j) div 2"
  show ?case
  proof (cases "i < j")
    case True
    then have h: "i \<le> ?h" "?h < j" by simp_all
    show ?thesis
    proof (cases "f ?h")
      case fh: True
      have "first_in f i ?h (search_loop f i ?h)"
      proof (rule "1.IH"(2) [OF True refl])
        show "\<not> \<not> f ?h" using fh by simp
        show "f b" if "a \<le> b" "b < ?h" "f a" for a b using "1.prems"(2) [of a b] that h(2) by simp
      qed (rule h(1))
      then show ?thesis
        using True fh h(2) first_in_left by (subst search_loop.simps) (simp add: Let_def)
    next
      case False
      have "first_in f (?h + 1) j (search_loop f (?h + 1) j)"
        using False h(2) "1.prems"(2) by (intro "1.IH"(1) [OF True refl]) simp_all
      moreover have "\<not> f a" if "a \<le> ?h" for a using "1.prems"(2) [OF that h(2)] False by blast
      ultimately have "first_in f i j (search_loop f (?h + 1) j)" using h(1) by (rule first_in_right)
      then show ?thesis using True False by (subst search_loop.simps) (simp add: Let_def)
    qed
  next
    case False
    then have "search_loop f i j = i" by (subst search_loop.simps) simp
    with False "1.prems"(1) show ?thesis by (auto simp: first_in_def)
  qed
qed

lemma sort_Search_first:
  assumes "\<And>a b. a \<le> b \<Longrightarrow> b < n \<Longrightarrow> f a \<Longrightarrow> f b"
  shows "sort_Search n f \<le> n" "a < sort_Search n f \<Longrightarrow> \<not> f a" "sort_Search n f < n \<Longrightarrow> f (sort_Search n f)"
  using search_loop_first [of 0 n f] assms unfolding sort_Search_def first_in_def by auto

section \<open>Clockwise successors\<close>

lemma clockwise_ahead: "h \<le> x \<Longrightarrow> unat (x - h) = unat x - unat h" for x h :: u32
  by (rule unat_sub)

lemma clockwise_behind: "x < h \<Longrightarrow> unat (x - h) = unat x + 2 ^ 32 - unat h" for x h :: u32
proof -
  assume "x < h"
  then have "unat x < unat h" by (simp add: word_less_nat_alt)
  moreover have "unat h < 2 ^ 32" using unsigned_less [of h] by simp
  ultimately show ?thesis by (simp add: unat_sub_if' word_size)
qed

lemma clockwise_le:
  fixes x y h :: u32
  assumes "(h \<le> x \<and> h \<le> y \<and> x \<le> y) \<or> (h \<le> x \<and> y < h) \<or> (x < h \<and> y < h \<and> x \<le> y)"
  shows "x - h \<le> y - h"
proof -
  have b: "unat x < 2 ^ 32" "unat y < 2 ^ 32" "unat h < 2 ^ 32"
    using unsigned_less [of x] unsigned_less [of y] unsigned_less [of h] by simp_all
  have "unat (x - h) \<le> unat (y - h)"
    using assms b clockwise_ahead [of h x] clockwise_ahead [of h y] clockwise_behind [of x h] clockwise_behind [of y h]
    unfolding word_less_nat_alt word_le_nat_alt by linarith
  then show ?thesis by (simp add: word_le_nat_alt)
qed

definition successor_index :: "u32 \<Rightarrow> ringNode list \<Rightarrow> nat" where
  "successor_index h ns =
     (let i = sort_Search (length ns) (\<lambda>i. n_hash (ns ! i) \<ge> h) in if i = length ns then 0 else i)"

lemma successor_index_min:
  assumes s: "sorted (map n_hash ns)" and ne: "ns \<noteq> []"
  shows "successor_index h ns < length ns \<and>
    (\<forall>m \<in> set ns. n_hash (ns ! successor_index h ns) - h \<le> n_hash m - h)"
proof -
  let ?f = "\<lambda>i. n_hash (ns ! i) \<ge> h" let ?i = "sort_Search (length ns) ?f"
  have ord: "n_hash (ns ! a) \<le> n_hash (ns ! b)" if "a \<le> b" "b < length ns" for a b
  proof -
    have "map n_hash ns ! a \<le> map n_hash ns ! b" using s that by (intro sorted_nth_mono) simp_all
    then show ?thesis using that by simp
  qed
  have mono: "?f b" if "a \<le> b" "b < length ns" "?f a" for a b using ord that by (meson order_trans)
  have f1: "?i \<le> length ns" by (rule sort_Search_first(1)) (use mono in blast)
  have f2: "\<not> ?f k" if "k < ?i" for k by (rule sort_Search_first(2) [OF _ that]) (use mono in blast)
  have f3: "?f ?i" if "?i < length ns" by (rule sort_Search_first(3) [OF _ that]) (use mono in blast)
  show ?thesis
  proof (cases "?i = length ns")
    case True
    then have "successor_index h ns = 0" by (simp add: successor_index_def)
    moreover have "n_hash (ns ! k) < h" if "k < length ns" for k using f2 [of k] True that by (simp add: not_le)
    ultimately show ?thesis using ne ord
      by (auto simp: in_set_conv_nth intro!: clockwise_le)
  next
    case False
    then have i: "successor_index h ns = ?i" "?i < length ns" "?f ?i"
      using f1 f3 by (simp_all add: successor_index_def Let_def order_le_less)
    have "n_hash (ns ! ?i) - h \<le> n_hash (ns ! k) - h" if "k < length ns" for k
    proof (cases "k < ?i")
      case True
      then show ?thesis using f2 [of k] i(3) by (intro clockwise_le) (simp add: not_le)
    next
      case False
      then have "n_hash (ns ! ?i) \<le> n_hash (ns ! k)" using ord that by simp
      then show ?thesis using i(3) by (intro clockwise_le) auto
    qed
    with i show ?thesis by (auto simp: in_set_conv_nth)
  qed
qed

text \<open>The documented behaviour of sort.Slice with the comparison of NewRing.\<close>

definition sorts_nodes :: "(ringNode list \<Rightarrow> ringNode list) \<Rightarrow> bool" where
  "sorts_nodes srt \<longleftrightarrow> (\<forall>ns. mset (srt ns) = mset ns \<and> sorted (map n_hash (srt ns)))"

lemma Lookup_closest:
  assumes srt: "sorts_nodes srt" and ne: "place_nodes sha v eps \<noteq> []"
  shows "\<exists>n \<in> set (place_nodes sha v eps).
    Ring_Lookup sha user (Some \<lparr>hr_nodes = srt (place_nodes sha v eps), hr_endpoints = eps\<rparr>) = n_instance n \<and>
    (\<forall>m \<in> set (place_nodes sha v eps). n_hash n - sha user \<le> n_hash m - sha user)"
proof -
  let ?ns = "srt (place_nodes sha v eps)"
  have "mset ?ns = mset (place_nodes sha v eps)" "sorted (map n_hash ?ns)" using srt by (auto simp: sorts_nodes_def)
  then have set: "set ?ns = set (place_nodes sha v eps)" and ne': "?ns \<noteq> []"
    and min: "successor_index (sha user) ?ns < length ?ns \<and>
      (\<forall>m \<in> set ?ns. n_hash (?ns ! successor_index (sha user) ?ns) - sha user \<le> n_hash m - sha user)"
    using ne successor_index_min [of ?ns "sha user"] by (metis set_mset_mset, metis mset_zero_iff, metis mset_zero_iff)
  then show ?thesis
    by (intro bexI [of _ "?ns ! successor_index (sha user) ?ns"])
       (auto simp: Ring_Lookup_def Let_def successor_index_def set [symmetric])
qed

lemma place_nodes_snoc:
  "place_nodes sha v (eps @ [e]) = place_nodes sha v eps @ endpoint_nodes sha v (length eps, e)"
  by (simp add: place_nodes_def enumerate_append_eq)

lemma place_nodes_instance: "n \<in> set (place_nodes sha v eps) \<Longrightarrow> n_instance n < length eps"
  by (auto simp: place_nodes_def endpoint_nodes_def in_set_enumerate_eq)

text \<open>C32: A user is routed to the instance of the virtual node that comes first clockwise from the hash of
  the user, wrapping at the end of the ring; the instance is one of the configured ones.  When an
  instance is appended to the list, and no two virtual nodes share a hash, every user either stays
  where they were or moves to the new instance.\<close>

theorem ring_lookup_consistent:
  assumes srt: "sorts_nodes srt" and eps: "eps \<noteq> []"
    and v: "v = (if vnodes \<le> 0 then 100 else nat vnodes)"
    and nodup: "distinct (map n_hash (place_nodes sha v (eps @ [e])))"
  shows "(\<exists>n \<in> set (place_nodes sha v eps). Ring_Lookup sha user (NewRing sha srt eps vnodes) = n_instance n \<and>
      (\<forall>m \<in> set (place_nodes sha v eps). n_hash n - sha user \<le> n_hash m - sha user)) \<and>
    Ring_Lookup sha user (NewRing sha srt eps vnodes) < length eps \<and>
    (Ring_Lookup sha user (NewRing sha srt (eps @ [e]) vnodes) = Ring_Lookup sha user (NewRing sha srt eps vnodes) \<or>
     Ring_Lookup sha user (NewRing sha srt (eps @ [e]) vnodes) = length eps)"
proof -
  have "v > 0" using v by simp
  then have ne: "place_nodes sha v eps \<noteq> []"
    using eps by (cases eps) (auto simp: place_nodes_def endpoint_nodes_def)
  have ring: "NewRing sha srt es vnodes = Some \<lparr>hr_nodes = srt (place_nodes sha v es), hr_endpoints = es\<rparr>"
    if "es \<noteq> []" for es using that v by (simp add: NewRing_def Let_def)
  obtain n where n: "n \<in> set (place_nodes sha v eps)"
      "Ring_Lookup sha user (NewRing sha srt eps vnodes) = n_instance n"
      "\<forall>m \<in> set (place_nodes sha v eps). n_hash n - sha user \<le> n_hash m - sha user"
    using Lookup_closest [OF srt ne] ring [OF eps] by metis
  have ne': "place_nodes sha v (eps @ [e]) \<noteq> []" using ne by (simp add: place_nodes_snoc)
  obtain n' where n': "n' \<in> set (place_nodes sha v (eps @ [e]))"
      "Ring_Lookup sha user (NewRing sha srt (eps @ [e]) vnodes) = n_instance n'"
      "\<forall>m \<in> set (place_nodes sha v (eps @ [e])). n_hash n' - sha user \<le> n_hash m - sha user"
    using Lookup_closest [OF srt ne'] ring [of "eps @ [e]"] by (metis snoc_eq_iff_butlast)
  have "n_instance n' = n_instance n \<or> n_instance n' = length eps"
  proof (cases "n' \<in> set (place_nodes sha v eps)")
    case True
    then have "n_hash n - sha user \<le> n_hash n' - sha user" using n(3) by blast
    moreover have sub: "n \<in> set (place_nodes sha v (eps @ [e]))" using n(1) by (simp add: place_nodes_snoc)
    then have "n_hash n' - sha user \<le> n_hash n - sha user" using n'(3) by blast
    ultimately have "n_hash n - sha user = n_hash n' - sha user" by (rule antisym)
    then have "n_hash n = n_hash n'" by (metis diff_add_cancel)
    moreover have "inj_on n_hash (set (place_nodes sha v (eps @ [e])))" using nodup unfolding distinct_map by blast
    ultimately have "n = n'" using sub n'(1) by (meson inj_onD)
    then show ?thesis by simp
  next
    case False
    then show ?thesis using n'(1) by (auto simp: place_nodes_snoc endpoint_nodes_def)
  qed
  with n n' place_nodes_instance [OF n(1)] show ?thesis by auto
qed

definition sample_sha :: "string \<Rightarrow> u32" where
  "sample_sha s = (if s = ''0#a'' then 10 else if s = ''0#b'' then 20 else 15)"

theorem ring_lookup_consistent_witness:
  "Ring_Lookup sample_sha ''u'' (NewRing sample_sha (sort_key n_hash) [''a''] 1) < 1 \<and>
   (Ring_Lookup sample_sha ''u'' (NewRing sample_sha (sort_key n_hash) ([''a''] @ [''b'']) 1) =
      Ring_Lookup sample_sha ''u'' (NewRing sample_sha (sort_key n_hash) [''a''] 1) \<or>
    Ring_Lookup sample_sha ''u'' (NewRing sample_sha (sort_key n_hash) ([''a''] @ [''b'']) 1) = 1)"
proof -
  have srt: "sorts_nodes (sort_key n_hash)" by (simp add: sorts_nodes_def)
  have "Itoa 0 = ''0''" by code_simp
  then have "map n_hash (place_nodes sample_sha 1 ([''a''] @ [''b''])) = [10, 20]"
    by (simp add: place_nodes_def endpoint_nodes_def sample_sha_def)
  then have nodup: "distinct (map n_hash (place_nodes sample_sha 1 ([''a''] @ [''b''])))" by (simp only:) simp
  have v: "1 = (if (1::int) \<le> 0 then 100 else nat 1)" by simp
  have ne: "[''a''] \<noteq> []" by simp
  have len: "length [''a''] = 1" by simp
  show ?thesis
    by (rule ring_lookup_consistent [OF srt ne v nodup, of "''u''", THEN conjunct2, unfolded len])
qed

end
