(* ===== verification/Push_Dispatch.thy ===== *)
theory Push_Dispatch
  imports Mymq_Client
begin

text \<open>
  The push server of src/internal/push: websocket connections with a bounded send queue
  (connection.go), the registry from users to connections (registry.go) and the dispatcher that fans
  broker messages out (dispatcher.go).  A connection is an address into a heap, because the registry,
  the dispatcher and the connection's own goroutines share it.  The JSON text of an envelope is the
  argument \<open>envelope\<close>; None is a marshalling error.
\<close>

section \<open>Connections and registry\<close>

record Connection =
  cn_logonID :: bytes
  cn_channel :: bytes
  cn_send :: "bytes list"
  cn_cap :: nat
  cn_closed :: bool

type_synonym conn = nat

record PushState =
  ps_heap :: "conn \<Rightarrow> Connection"
  ps_byUsid :: "(bytes \<times> conn list) list"

datatype send_error = ErrConnClosed | ErrSendQueueFull

definition conns_of :: "PushState \<Rightarrow> bytes \<Rightarrow> conn list" where
  "conns_of s u = (case map_of (ps_byUsid s) u of None \<Rightarrow> [] | Some l \<Rightarrow> l)"

definition Connection_Send :: "bytes \<Rightarrow> conn \<Rightarrow> PushState \<Rightarrow> send_error option \<times> PushState" where
  "Connection_Send payload c s =
     (let k = ps_heap s c
      in if cn_closed k then (Some ErrConnClosed, s)
         else if length (cn_send k) < cn_cap k
           then (None, s\<lparr>ps_heap := (ps_heap s)(c := k\<lparr>cn_send := cn_send k @ [payload]\<rparr>)\<rparr>)
         else (Some ErrSendQueueFull, s))"

definition Registry_Add :: "conn \<Rightarrow> PushState \<Rightarrow> (send_error, PushState) outcome" where
  "Registry_Add c s =
     (let u = cn_logonID (ps_heap s c)
      in if u = [] then Panic
         else Done (s\<lparr>ps_byUsid := AList.update u (conns_of s u @ [c]) (ps_byUsid s)\<rparr>))"

definition Registry_Remove :: "conn \<Rightarrow> PushState \<Rightarrow> PushState" where
  "Registry_Remove c s =
     (let u = cn_logonID (ps_heap s c); l = remove1 c (conns_of s u)
      in if l = [] then s\<lparr>ps_byUsid := AList.delete u (ps_byUsid s)\<rparr>
         else s\<lparr>ps_byUsid := AList.update u l (ps_byUsid s)\<rparr>)"

text \<open>Close marks the connection and runs the onClose callback, which is Remove (handlers.go).\<close>

definition Connection_Close :: "conn \<Rightarrow> PushState \<Rightarrow> PushState" where
  "Connection_Close c s =
     (if cn_closed (ps_heap s c) then s
      else Registry_Remove c (s\<lparr>ps_heap := (ps_heap s)(c := (ps_heap s c)\<lparr>cn_closed := True\<rparr>)\<rparr>))"

text \<open>The loop both fan-outs share: send to each connection of the snapshot, count, and close the slow
  ones.\<close>

fun fanout_loop :: "bytes \<Rightarrow> conn list \<Rightarrow> PushState \<Rightarrow> nat \<times> nat \<times> PushState" where
  "fanout_loop payload [] s = (0, 0, s)"
| "fanout_loop payload (c # cs) s =
     (case Connection_Send payload c s of
        (None, s') \<Rightarrow> (let (n, f, s'') = fanout_loop payload cs s' in (n + 1, f, s''))
      | (Some e, s') \<Rightarrow>
          (let (n, f, s'') = fanout_loop payload cs (if e = ErrSendQueueFull then Connection_Close c s' else s')
           in (n, f + 1, s'')))"

definition FanoutToUser :: "bytes \<Rightarrow> bytes \<Rightarrow> PushState \<Rightarrow> nat \<times> nat \<times> PushState" where
  "FanoutToUser u payload s = fanout_loop payload (conns_of s u) s"

definition FanoutBroadcast :: "bytes \<Rightarrow> PushState \<Rightarrow> nat \<times> nat \<times> PushState" where
  "FanoutBroadcast payload s = fanout_loop payload (concat (map snd (ps_byUsid s))) s"

definition Registry_Count :: "PushState \<Rightarrow> nat" where
  "Registry_Count s = sum_list (map (\<lambda>(u, l). length l) (ps_byUsid s))"

definition UserCount :: "PushState \<Rightarrow> nat" where
  "UserCount s = length (ps_byUsid s)"

definition ConnsForUser :: "bytes \<Rightarrow> PushState \<Rightarrow> conn list" where
  "ConnsForUser u s = conns_of s u"

definition CloseAll :: "PushState \<Rightarrow> PushState" where
  "CloseAll s = fold Connection_Close (concat (map snd (ps_byUsid s))) s"

section \<open>The dispatcher\<close>

record Dispatcher =
  d_inject :: "Unsolicited list"
  d_totalRecv :: u64
  d_totalDeliver :: u64
  d_totalDrop :: u64
  d_dropUnsupp :: u64
  d_dropEnvelope :: u64
  d_dropUnknownUser :: u64
  d_dropNoBroadcast :: u64
  d_sendFailed :: u64
  d_recvBroker :: u64
  d_recvHTTP :: u64
  d_dropInjectFull :: u64

definition NewDispatcher :: Dispatcher where
  "NewDispatcher = \<lparr>d_inject = [], d_totalRecv = 0, d_totalDeliver = 0, d_totalDrop = 0,
     d_dropUnsupp = 0, d_dropEnvelope = 0, d_dropUnknownUser = 0, d_dropNoBroadcast = 0, d_sendFailed = 0,
     d_recvBroker = 0, d_recvHTTP = 0, d_dropInjectFull = 0\<rparr>"

definition Inject :: "Unsolicited \<Rightarrow> Dispatcher \<Rightarrow> bool \<times> Dispatcher" where
  "Inject msg d =
     (if length (d_inject d) < 256 then (True, d\<lparr>d_inject := d_inject d @ [msg]\<rparr>)
      else (False, d\<lparr>d_dropInjectFull := d_dropInjectFull d + 1\<rparr>))"

definition logon_id :: "Unsolicited \<Rightarrow> bytes" where
  "logon_id msg = (case us_Prefix msg of None \<Rightarrow> [] | Some p \<Rightarrow> LogonIDString p)"

definition count_failed :: "nat \<Rightarrow> Dispatcher \<Rightarrow> Dispatcher" where
  "count_failed f d = (if f > 0 then d\<lparr>d_sendFailed := d_sendFailed d + of_nat f\<rparr> else d)"

definition handle :: "(Unsolicited \<Rightarrow> bytes option) \<Rightarrow> Unsolicited \<Rightarrow> Dispatcher \<times> PushState \<Rightarrow> Dispatcher \<times> PushState" where
  "handle envelope msg = (\<lambda>(d0, s).
     (let d = d0\<lparr>d_totalRecv := d_totalRecv d0 + 1\<rparr>
      in if h_Func (us_Header msg) \<notin> {FCCast, FCPush, FCSignal} then
           (d\<lparr>d_dropUnsupp := d_dropUnsupp d + 1, d_totalDrop := d_totalDrop d + 1\<rparr>, s)
         else (case envelope msg of
             None \<Rightarrow> (d\<lparr>d_dropEnvelope := d_dropEnvelope d + 1, d_totalDrop := d_totalDrop d + 1\<rparr>, s)
           | Some payload \<Rightarrow>
               if logon_id msg \<noteq> [] then
                 (let (n, f, s') = FanoutToUser (logon_id msg) payload s; d' = count_failed f d
                  in if n > 0 then (d'\<lparr>d_totalDeliver := d_totalDeliver d' + of_nat n\<rparr>, s')
                     else (d'\<lparr>d_dropUnknownUser := d_dropUnknownUser d' + 1, d_totalDrop := d_totalDrop d' + 1\<rparr>, s'))
               else
                 (let (n, f, s') = FanoutBroadcast payload s; d' = count_failed f d
                  in if n > 0 then (d'\<lparr>d_totalDeliver := d_totalDeliver d' + of_nat n\<rparr>, s')
                     else (d'\<lparr>d_dropNoBroadcast := d_dropNoBroadcast d' + 1, d_totalDrop := d_totalDrop d' + 1\<rparr>, s')))))"

text \<open>The two receiving branches of Run.\<close>

definition Run_broker :: "(Unsolicited \<Rightarrow> bytes option) \<Rightarrow> Unsolicited \<Rightarrow> Dispatcher \<times> PushState \<Rightarrow> Dispatcher \<times> PushState" where
  "Run_broker envelope msg = (\<lambda>(d, s). handle envelope msg (d\<lparr>d_recvBroker := d_recvBroker d + 1\<rparr>, s))"

definition Run_inject :: "(Unsolicited \<Rightarrow> bytes option) \<Rightarrow> Dispatcher \<times> PushState \<Rightarrow> Dispatcher \<times> PushState" where
  "Run_inject envelope = (\<lambda>(d, s).
     (case d_inject d of
        [] \<Rightarrow> (d, s)
      | msg # q \<Rightarrow> handle envelope msg (d\<lparr>d_inject := q, d_recvHTTP := d_recvHTTP d + 1\<rparr>, s)))"

section \<open>Interleavings\<close>

text \<open>A new connection object is opened at an unused address; its registration is a separate step of the
  websocket handler, after the connection's own goroutines have started.  The writer takes payloads
  from the send queue.\<close>

inductive push_step :: "(Unsolicited \<Rightarrow> bytes option) \<Rightarrow> Dispatcher \<times> PushState \<Rightarrow> Dispatcher \<times> PushState \<Rightarrow> bool"
  for envelope where
  broker: "push_step envelope x (Run_broker envelope msg x)"
| http: "push_step envelope x (Run_inject envelope x)"
| inject: "push_step envelope (d, s) (snd (Inject msg d), s)"
| add: "Registry_Add c s = Done s' \<Longrightarrow> push_step envelope (d, s) (d, s')"
| close: "push_step envelope (d, s) (d, Connection_Close c s)"
| shutdown: "push_step envelope (d, s) (d, CloseAll s)"
| written: "cn_send (ps_heap s c) = p # q \<Longrightarrow>
    push_step envelope (d, s) (d, s\<lparr>ps_heap := (ps_heap s)(c := (ps_heap s c)\<lparr>cn_send := q\<rparr>)\<rparr>)"

section \<open>What a fan-out does\<close>

lemma conns_of_Remove:
  "conns_of (Registry_Remove c s) u =
     (if u = cn_logonID (ps_heap s c) then remove1 c (conns_of s u) else conns_of s u)"
  by (auto simp: Registry_Remove_def conns_of_def Let_def)

lemma heap_Remove [simp]: "ps_heap (Registry_Remove c s) = ps_heap s"
  by (simp add: Registry_Remove_def Let_def)

lemma heap_Close:
  "ps_heap (Connection_Close c s) = (ps_heap s)(c := (ps_heap s c)\<lparr>cn_closed := True\<rparr>)"
  by (auto simp: Connection_Close_def)

lemma conns_of_heap_upd [simp]: "conns_of (s\<lparr>ps_heap := h\<rparr>) u = conns_of s u"
  by (simp add: conns_of_def)

lemma conns_of_Close:
  "conns_of (Connection_Close c s) u =
     (if \<not> cn_closed (ps_heap s c) \<and> u = cn_logonID (ps_heap s c) then remove1 c (conns_of s u) else conns_of s u)"
  by (simp add: Connection_Close_def conns_of_Remove)

definition has_room :: "Connection \<Rightarrow> bool" where
  "has_room k \<longleftrightarrow> \<not> cn_closed k \<and> length (cn_send k) < cn_cap k"

definition is_slow :: "Connection \<Rightarrow> bool" where
  "is_slow k \<longleftrightarrow> \<not> cn_closed k \<and> \<not> length (cn_send k) < cn_cap k"

definition after_send :: "bytes \<Rightarrow> Connection \<Rightarrow> Connection" where
  "after_send p k = (if has_room k then k\<lparr>cn_send := cn_send k @ [p]\<rparr>
     else if is_slow k then k\<lparr>cn_closed := True\<rparr> else k)"

text \<open>One round of the loop as a function of the connection.\<close>

lemma fanout_loop_Cons:
  "fanout_loop p (c # cs) s =
     (let s1 = (if is_slow (ps_heap s c) then Connection_Close c s
                else s\<lparr>ps_heap := (ps_heap s)(c := after_send p (ps_heap s c))\<rparr>);
          (n, f, s') = fanout_loop p cs s1
      in if has_room (ps_heap s c) then (n + 1, f, s') else (n, f + 1, s'))"
  by (auto simp: Connection_Send_def Let_def has_room_def is_slow_def after_send_def split: prod.splits)

declare fanout_loop.simps(2) [simp del]

lemma fanout_round_heap:
  "ps_heap (if is_slow (ps_heap s c) then Connection_Close c s
            else s\<lparr>ps_heap := (ps_heap s)(c := after_send p (ps_heap s c))\<rparr>) =
     (ps_heap s)(c := after_send p (ps_heap s c))"
  by (auto simp: heap_Close after_send_def is_slow_def has_room_def)

lemma fanout_heap:
  "distinct cs \<Longrightarrow> fanout_loop p cs s = (n, f, s') \<Longrightarrow>
     ps_heap s' = (\<lambda>c. if c \<in> set cs then after_send p (ps_heap s c) else ps_heap s c) \<and>
     n = length (filter (\<lambda>c. has_room (ps_heap s c)) cs) \<and> n + f = length cs"
proof (induction cs arbitrary: s n f s')
  case Nil
  then show ?case by simp
next
  case (Cons c cs)
  define s1 where "s1 = (if is_slow (ps_heap s c) then Connection_Close c s
      else s\<lparr>ps_heap := (ps_heap s)(c := after_send p (ps_heap s c))\<rparr>)"
  obtain n1 f1 s2 where loop: "fanout_loop p cs s1 = (n1, f1, s2)" by (metis prod_cases3)
  have h1: "ps_heap s1 = (ps_heap s)(c := after_send p (ps_heap s c))"
    unfolding s1_def by (rule fanout_round_heap)
  have res: "(n, f, s') = (if has_room (ps_heap s c) then (n1 + 1, f1, s2) else (n1, f1 + 1, s2))"
    using Cons.prems(2) unfolding fanout_loop_Cons Let_def s1_def [symmetric] loop by (simp split: if_splits)
  have c: "c \<notin> set cs" using Cons.prems(1) by simp
  have "filter (\<lambda>d. has_room (ps_heap s1 d)) cs = filter (\<lambda>d. has_room (ps_heap s d)) cs"
    using c by (intro filter_cong) (auto simp: h1)
  with Cons.IH [OF _ loop] Cons.prems(1) res c h1 show ?case by (auto split: if_splits)
qed

lemma remove1_filter: "distinct xs \<Longrightarrow> remove1 x xs = filter (\<lambda>y. y \<noteq> x) xs"
  by (simp add: distinct_remove1_removeAll removeAll_filter_not_eq) (metis (full_types))

lemma fanout_registry:
  "distinct cs \<Longrightarrow> list_all (\<lambda>c. cn_logonID (ps_heap s c) = w) cs \<Longrightarrow> distinct (conns_of s u) \<Longrightarrow>
   fanout_loop p cs s = (n, f, s') \<Longrightarrow>
     conns_of s' u = (if u = w then filter (\<lambda>c. \<not> (c \<in> set cs \<and> is_slow (ps_heap s c))) (conns_of s u) else conns_of s u)"
proof (induction cs arbitrary: s n f s')
  case Nil
  then show ?case by simp
next
  case (Cons c cs)
  define s1 where "s1 = (if is_slow (ps_heap s c) then Connection_Close c s
      else s\<lparr>ps_heap := (ps_heap s)(c := after_send p (ps_heap s c))\<rparr>)"
  obtain n1 f1 s2 where loop: "fanout_loop p cs s1 = (n1, f1, s2)" by (metis prod_cases3)
  have h1: "ps_heap s1 = (ps_heap s)(c := after_send p (ps_heap s c))"
    unfolding s1_def by (rule fanout_round_heap)
  have s2: "s' = s2"
    using Cons.prems(4) unfolding fanout_loop_Cons Let_def s1_def [symmetric] loop by (simp split: if_splits)
  have c: "c \<notin> set cs" "cn_logonID (ps_heap s c) = w" using Cons.prems(1,2) by simp_all
  have u1: "conns_of s1 u = (if u = w \<and> is_slow (ps_heap s c) then filter (\<lambda>d. d \<noteq> c) (conns_of s u) else conns_of s u)"
    using Cons.prems(3) c(2) by (auto simp: s1_def conns_of_Close is_slow_def remove1_filter)
  then have d1: "distinct (conns_of s1 u)" using Cons.prems(3) by auto
  have l1: "list_all (\<lambda>c. cn_logonID (ps_heap s1 c) = w) cs"
    using Cons.prems(2) c by (auto simp: list_all_iff h1)
  have "filter (\<lambda>d. \<not> (d \<in> set cs \<and> is_slow (ps_heap s1 d))) xs = filter (\<lambda>d. \<not> (d \<in> set cs \<and> is_slow (ps_heap s d))) xs" for xs
    using c(1) by (intro filter_cong) (auto simp: h1)
  then have IH: "conns_of s2 u = (if u = w then filter (\<lambda>d. \<not> (d \<in> set cs \<and> is_slow (ps_heap s d))) (conns_of s1 u)
      else conns_of s1 u)"
    using Cons.IH [OF _ l1 d1 loop] Cons.prems(1) by simp
  have "filter (\<lambda>d. \<not> (d \<in> set cs \<and> is_slow (ps_heap s d))) (conns_of s1 u) =
      filter (\<lambda>d. \<not> (d \<in> set (c # cs) \<and> is_slow (ps_heap s d))) (conns_of s u)" if "u = w"
    unfolding u1 using that by (auto simp: filter_filter intro: filter_cong)
  then show ?case unfolding s2 IH using u1 by auto
qed

section \<open>Closed connections that are still registered\<close>

definition stuck :: "conn \<Rightarrow> bytes \<Rightarrow> PushState \<Rightarrow> bool" where
  "stuck c u s \<longleftrightarrow> cn_closed (ps_heap s c) \<and> cn_logonID (ps_heap s c) = u \<and> c \<in> set (conns_of s u)"

lemma stuck_close: "stuck c u s \<Longrightarrow> stuck c u (Connection_Close b s)"
  by (auto simp: stuck_def heap_Close conns_of_Close)

lemma stuck_fold_close: "stuck c u s \<Longrightarrow> stuck c u (fold Connection_Close bs s)"
  by (induction bs arbitrary: s) (simp_all add: stuck_close)

lemma stuck_fanout: "stuck c u s \<Longrightarrow> stuck c u (snd (snd (fanout_loop p bs s)))"
proof (induction bs arbitrary: s)
  case (Cons b bs)
  let ?s1 = "if is_slow (ps_heap s b) then Connection_Close b s
      else s\<lparr>ps_heap := (ps_heap s)(b := after_send p (ps_heap s b))\<rparr>"
  have "stuck c u ?s1"
    using Cons.prems stuck_close [OF Cons.prems, of b]
    by (auto simp: stuck_def after_send_def has_room_def)
  with Cons.IH [of ?s1] show ?case by (simp add: fanout_loop_Cons Let_def case_prod_beta)
qed simp

lemma stuck_handle: "stuck c u s \<Longrightarrow> stuck c u (snd (handle envelope msg (d, s)))"
  using stuck_fanout [of c u s]
  by (auto simp: handle_def Let_def FanoutToUser_def FanoutBroadcast_def split: option.splits prod.splits)
     (metis snd_conv)+

lemma stuck_step: "push_step envelope x y \<Longrightarrow> stuck c u (snd x) \<Longrightarrow> stuck c u (snd y)"
proof (induction rule: push_step.induct)
  case (broker x msg)
  then show ?case by (cases x) (simp add: Run_broker_def stuck_handle)
next
  case (http x)
  then show ?case by (cases x) (auto simp: Run_inject_def stuck_handle split: list.splits)
next
  case (add b s s' d)
  then show ?case
    by (auto simp: Registry_Add_def Let_def stuck_def conns_of_def split: if_splits option.splits)
next
  case (shutdown d s)
  then show ?case by (simp add: CloseAll_def stuck_fold_close)
qed (auto simp: stuck_close, auto simp: stuck_def)

section \<open>User messages\<close>


definition sample_conn :: "bytes list \<Rightarrow> Connection" where
  "sample_conn q = \<lparr>cn_logonID = [65], cn_channel = [], cn_send = q, cn_cap = 1, cn_closed = False\<rparr>"

definition sample_push :: PushState where
  "sample_push = \<lparr>ps_heap = (\<lambda>c. sample_conn (if c = 1 then [[9]] else [])), ps_byUsid = [([65], [0, 1])]\<rparr>"

definition sample_msg :: Unsolicited where
  "sample_msg = \<lparr>us_Header = zero_Header\<lparr>h_Func := FCPush\<rparr>,
     us_Prefix = Some \<lparr>bh_IPAddr = [], bh_Exchange = [], bh_Chan = [], bh_User = [], bh_LogonID = [65, 0],
       bh_Function = 0, bh_SubFunction = 0, bh_ViaNet = 0, bh_Debug = 0\<rparr>,
     us_Body = [], us_ErrMsg = [], us_Decoded = sample_frame 0 0 []\<rparr>"


text \<open>A connection that closes before the websocket handler has registered it stays in the registry for
  ever: its callback has already run, every later fan-out counts it as failed, and neither Close nor
  CloseAll removes it.\<close>

theorem late_registration_leaks:
  assumes "Registry_Add c (Connection_Close c s0) = Done s1" and "\<not> cn_closed (ps_heap s0 c)"
    and "(push_step envelope)\<^sup>*\<^sup>* (d, s1) (d', s')"
  shows "cn_closed (ps_heap s' c) \<and> c \<in> set (ConnsForUser (cn_logonID (ps_heap s0 c)) s')"
proof -
  let ?u = "cn_logonID (ps_heap s0 c)"
  have init: "stuck c ?u s1"
    using assms(1) by (auto simp: Registry_Add_def stuck_def Let_def heap_Close conns_of_def split: if_splits)
  have "stuck c ?u (snd x) \<Longrightarrow> (push_step envelope)\<^sup>*\<^sup>* x y \<Longrightarrow> stuck c ?u (snd y)" for x y
    by (rotate_tac 1, induction rule: rtranclp_induct) (auto intro: stuck_step)
  from this [of "(d, s1)" "(d', s')"] init assms(3) show ?thesis
    by (simp add: stuck_def ConnsForUser_def)
qed

theorem late_registration_leaks_witness:
  "case Registry_Add 0 (Connection_Close 0 sample_push) of
     Done s1 \<Rightarrow> 0 \<in> set (ConnsForUser [65] (snd (handle (\<lambda>_. Some [7]) sample_msg (NewDispatcher, CloseAll s1))))
   | _ \<Rightarrow> False"
proof -
  obtain s1 where s1: "Registry_Add 0 (Connection_Close 0 sample_push) = Done s1"
    by (simp add: Registry_Add_def Let_def heap_Close sample_push_def sample_conn_def)
  let ?e = "\<lambda>_. Some [7]" let ?d = "NewDispatcher\<lparr>d_recvBroker := - 1\<rparr>"
  have open0: "\<not> cn_closed (ps_heap sample_push 0)" by (simp add: sample_push_def sample_conn_def)
  have "push_step ?e (?d, s1) (?d, CloseAll s1)" by (rule push_step.shutdown)
  moreover have "push_step ?e (?d, CloseAll s1) (Run_broker ?e sample_msg (?d, CloseAll s1))"
    by (rule push_step.broker)
  ultimately have "(push_step ?e)\<^sup>*\<^sup>* (?d, s1) (Run_broker ?e sample_msg (?d, CloseAll s1))"
    by (meson converse_rtranclp_into_rtranclp r_into_rtranclp)
  moreover have "Run_broker ?e sample_msg (?d, CloseAll s1) = handle ?e sample_msg (NewDispatcher, CloseAll s1)"
    by (simp add: Run_broker_def NewDispatcher_def)
  ultimately have "(push_step ?e)\<^sup>*\<^sup>* (?d, s1) (handle ?e sample_msg (NewDispatcher, CloseAll s1))" by simp
  from late_registration_leaks [OF s1 open0, where envelope = ?e and d = ?d] this
  have "0 \<in> set (ConnsForUser (cn_logonID (ps_heap sample_push 0))
      (snd (handle ?e sample_msg (NewDispatcher, CloseAll s1))))" by (metis prod.collapse)
  then show ?thesis by (simp add: s1) (simp add: sample_push_def sample_conn_def)
qed

end
