(* ===== verification/Go_Sort.thy ===== *)
theory Go_Sort
  imports Wtg_Prelude "HOL-Library.Multiset"
begin

text \<open>
  The insertion sort that several packages write out by hand (sortStrings of the price edge, the
  ordering of customer rules and of swap points in pkg/pricing): an outer loop over the positions
  and an inner loop that exchanges neighbours downwards while the lower one has the larger key.
  It is proved once to be the stable library sort.
\<close>

fun sift_by :: "('a \<Rightarrow> 'k::linorder) \<Rightarrow> nat \<Rightarrow> 'a list \<Rightarrow> 'a list" where
  "sift_by k 0 s = s"
| "sift_by k (Suc j) s = (if k (s ! j) > k (s ! Suc j) then sift_by k j (s[j := s ! Suc j, Suc j := s ! j]) else s)"

definition insertion_sort :: "('a \<Rightarrow> 'k::linorder) \<Rightarrow> 'a list \<Rightarrow> 'a list" where
  "insertion_sort k s = fold (sift_by k) [1..<length s] s"

lemma sift_by_place:
  "sorted (map k p) \<Longrightarrow> \<exists>a b. p = a @ b \<and> sift_by k (length p) (p @ x # q) = a @ x # b @ q \<and>
     (\<forall>y \<in> set a. k y \<le> k x) \<and> (\<forall>y \<in> set b. k x < k y)"
proof (induction p arbitrary: q rule: rev_induct)
  case Nil
  then show ?case by simp
next
  case (snoc y p)
  show ?case
  proof (cases "k y > k x")
    case True
    have step: "sift_by k (length (p @ [y])) ((p @ [y]) @ x # q) = sift_by k (length p) (p @ x # y # q)"
      using True by (simp add: nth_append list_update_append)
    have "sorted (map k p)" using snoc.prems by (simp add: sorted_append)
    from snoc.IH [OF this, of "y # q"] obtain a b where "p = a @ b"
        "sift_by k (length p) (p @ x # y # q) = a @ x # b @ y # q"
        "\<forall>z \<in> set a. k z \<le> k x" "\<forall>z \<in> set b. k x < k z" by blast
    with True show ?thesis unfolding step by (intro exI [of _ a] exI [of _ "b @ [y]"]) simp
  next
    case False
    then have "sift_by k (length (p @ [y])) ((p @ [y]) @ x # q) = (p @ [y]) @ x # q"
      by (simp add: nth_append)
    moreover have "\<forall>z \<in> set (p @ [y]). k z \<le> k x"
      using False snoc.prems by (auto simp: sorted_append not_less intro: order_trans)
    ultimately show ?thesis by (intro exI [of _ "p @ [y]"] exI [of _ "[]"]) simp
  qed
qed

text \<open>What a pass keeps: the elements, and the order of the elements with one key.\<close>

definition rearranged :: "('a \<Rightarrow> 'k) \<Rightarrow> 'a list \<Rightarrow> 'a list \<Rightarrow> bool" where
  "rearranged k s s' \<longleftrightarrow> mset s' = mset s \<and> (\<forall>c. filter (\<lambda>y. k y = c) s' = filter (\<lambda>y. k y = c) s)"

lemma sift_by_pass:
  assumes "sorted (map k (take i s))" "i < length s"
  shows "sorted (map k (take (Suc i) (sift_by k i s))) \<and> rearranged k s (sift_by k i s)"
proof -
  have s: "s = take i s @ s ! i # drop (Suc i) s" using assms(2) by (rule id_take_nth_drop)
  have len: "length (take i s) = i" using assms(2) by simp
  obtain a b where ab: "take i s = a @ b" "sift_by k i s = a @ s ! i # b @ drop (Suc i) s"
      "\<forall>y \<in> set a. k y \<le> k (s ! i)" "\<forall>y \<in> set b. k (s ! i) < k y"
    using sift_by_place [OF assms(1), of "s ! i" "drop (Suc i) s"] len s by metis
  have "length (a @ s ! i # b) = Suc i" using ab(1) len by (metis length_append length_Cons add_Suc_right)
  then have "take (Suc i) (sift_by k i s) = a @ s ! i # b"
    unfolding ab(2) by (metis append.assoc append_Cons append_eq_conv_conj)
  moreover have "sorted (map k (a @ s ! i # b))"
    using assms(1) ab(1,3,4) by (auto simp: sorted_append intro: less_imp_le order_trans)
  moreover have "rearranged k (a @ b @ s ! i # drop (Suc i) s) (a @ s ! i # b @ drop (Suc i) s)"
  proof -
    have "filter (\<lambda>y. k y = k (s ! i)) b = []" using ab(4) by (auto simp: filter_empty_conv)
    then show ?thesis by (auto simp: rearranged_def)
  qed
  moreover have "a @ b @ s ! i # drop (Suc i) s = s" using s ab(1) by (metis append.assoc)
  ultimately show ?thesis using ab(2) by simp
qed

lemma sort_passes:
  "j \<le> length s - 1 \<Longrightarrow> let s' = fold (sift_by k) [1..<Suc j] s
     in sorted (map k (take (Suc j) s')) \<and> rearranged k s s'"
proof (induction j)
  case 0
  then show ?case by (cases s) (simp_all add: rearranged_def)
next
  case (Suc j)
  define s' where "s' = fold (sift_by k) [1..<Suc j] s"
  have IH: "sorted (map k (take (Suc j) s'))" "rearranged k s s'"
    using Suc unfolding s'_def Let_def by simp_all
  then have "length s' = length s" by (metis rearranged_def size_mset)
  moreover have "fold (sift_by k) [1..<Suc (Suc j)] s = sift_by k (Suc j) s'"
    unfolding s'_def by simp
  ultimately show ?case
    using sift_by_pass [OF IH(1)] IH(2) Suc.prems by (auto simp: Let_def rearranged_def)
qed

lemma insertion_sort_stable: "insertion_sort k s = sort_key k s"
proof (cases "s = []")
  case False
  then have len: "Suc (length s - 1) = length s" by simp
  have pass: "sorted (map k (take (length s) (insertion_sort k s))) \<and> rearranged k s (insertion_sort k s)"
    by (rule sort_passes [of "length s - 1" s, OF order_refl, unfolded len Let_def, folded insertion_sort_def])
  then have "length (insertion_sort k s) = length s" by (metis rearranged_def size_mset)
  then have "take (length s) (insertion_sort k s) = insertion_sort k s" by simp
  then show ?thesis
    using pass by (intro properties_for_sort_key [symmetric]) (auto simp: rearranged_def eq_commute)
qed (simp add: insertion_sort_def)

section \<open>Searching a sorted list\<close>

lemma find_filter: "find P (filter Q xs) = find (\<lambda>x. Q x \<and> P x) xs"
  by (induction xs) auto

lemma find_cong_set: "(\<And>x. x \<in> set xs \<Longrightarrow> P x \<longleftrightarrow> Q x) \<Longrightarrow> find P xs = find Q xs"
  by (induction xs) auto

text \<open>The first hit in a list sorted by \<open>k\<close> is the first one in the original order among those with the least key.\<close>

lemma find_sort_key: "find P (sort_key k xs) = find (\<lambda>x. P x \<and> (\<forall>y \<in> set xs. P y \<longrightarrow> k x \<le> k y)) xs"
proof (cases "find P (sort_key k xs)")
  case None
  then have "\<forall>x \<in> set xs. \<not> P x" by (simp add: find_None_iff)
  then have "find (\<lambda>x. P x \<and> (\<forall>y \<in> set xs. P y \<longrightarrow> k x \<le> k y)) xs = None" by (auto simp: find_None_iff)
  then show ?thesis using None by simp
next
  case (Some r)
  let ?s = "sort_key k xs"
  obtain i where i: "i < length ?s" "P (?s ! i)" "r = ?s ! i" "\<forall>j < i. \<not> P (?s ! j)"
    using Some by (auto simp: find_Some_iff)
  have least: "k r \<le> k y" if "y \<in> set xs" "P y" for y
  proof -
    have "y \<in> set ?s" using that(1) by simp
    then obtain j where j: "j < length ?s" "y = ?s ! j" unfolding in_set_conv_nth by blast
    then have "i \<le> j" using i(4) that(2) by (meson not_le)
    then show ?thesis using sorted_nth_mono [of "map k ?s" i j] j i by simp
  qed
  have r: "r \<in> set xs" "P r" using nth_mem [OF i(1)] i(2,3) by simp_all
  have "find (\<lambda>x. P x \<and> (\<forall>y \<in> set xs. P y \<longrightarrow> k x \<le> k y)) xs = find (\<lambda>x. k x = k r \<and> P x) xs"
  proof (rule find_cong_set)
    fix x assume "x \<in> set xs"
    then show "P x \<and> (\<forall>y \<in> set xs. P y \<longrightarrow> k x \<le> k y) \<longleftrightarrow> k x = k r \<and> P x"
      using least r by (auto intro: order.antisym)
  qed
  also have "\<dots> = find P (filter (\<lambda>x. k x = k r) xs)" by (simp add: find_filter)
  also have "\<dots> = find P (filter (\<lambda>x. k x = k r) ?s)" by (simp add: sort_key_stable)
  also have "\<dots> = find (\<lambda>x. k x = k r \<and> P x) ?s" by (simp add: find_filter)
  also have "\<dots> = Some r" using i by (simp add: find_Some_iff) blast
  finally show ?thesis using Some by simp
qed

end
