(* ===== verification/Edge_Price.thy ===== *)
theory Edge_Price
  imports Go_Sort "HOL-Library.Char_ord" "HOL-Library.List_Lexorder"
begin

text \<open>
  The price edge of src/internal/edge/price/registry.go: websocket subscribers with their pair and
  source filters, and the fan-outs of the registry.  Subscribers are shared objects at the address
  of their id.  The backpressure log and its statistics are not modelled; the order in which the map
  of subscribers is walked is that of a list.
\<close>

section \<open>Subscribers\<close>

record Subscriber =
  sb_profileKey :: string
  sb_customerID :: string
  sb_sources :: "string set"
  sb_ev :: int
  sb_send :: "bytes list"
  sb_cap :: nat
  sb_closed :: bool
  sb_pairs :: "string set option"

record EdgeRegistry =
  er_heap :: "nat \<Rightarrow> Subscriber"
  er_subs :: "nat list"
  er_totalSent :: u64
  er_totalDrop :: u64

datatype sub_error = ErrSubClosed | ErrSubQueueFull

definition NewSubscriber :: "string \<Rightarrow> string \<Rightarrow> string list \<Rightarrow> int \<Rightarrow> int \<Rightarrow> Subscriber" where
  "NewSubscriber profileKey customerID srcs ev queueSize =
     \<lparr>sb_profileKey = profileKey, sb_customerID = customerID, sb_sources = set srcs - {[]}, sb_ev = ev,
      sb_send = [], sb_cap = (if queueSize \<le> 0 then 256 else nat queueSize), sb_closed = False, sb_pairs = None\<rparr>"

definition MatchesSource :: "string \<Rightarrow> Subscriber \<Rightarrow> bool" where
  "MatchesSource source s = (if source = [] then sb_sources s = {} else source \<in> sb_sources s)"

definition MatchesPair :: "string \<Rightarrow> Subscriber \<Rightarrow> bool" where
  "MatchesPair pair s = (case sb_pairs s of None \<Rightarrow> True | Some ps \<Rightarrow> pair \<in> ps)"

definition SubscribePairs :: "string list \<Rightarrow> Subscriber \<Rightarrow> Subscriber" where
  "SubscribePairs ps s =
     (if ps = [] then s
      else (let old = (case sb_pairs s of None \<Rightarrow> {} | Some q \<Rightarrow> q)
            in s\<lparr>sb_pairs := Some (old \<union> (set ps - {[]}))\<rparr>))"

definition UnsubscribePairs :: "string list \<Rightarrow> Subscriber \<Rightarrow> Subscriber" where
  "UnsubscribePairs ps s =
     (if ps = [] then s
      else (case sb_pairs s of
          None \<Rightarrow> s
        | Some q \<Rightarrow> (let q' = q - set ps in s\<lparr>sb_pairs := (if q' = {} then None else Some q')\<rparr>)))"

text \<open>The in-place insertion sort of the package: the inner loop exchanges neighbours downwards from
  position j.\<close>

definition sift_down :: "nat \<Rightarrow> string list \<Rightarrow> string list" where
  "sift_down j s = sift_by (\<lambda>x. x) j s"

definition sortStrings :: "string list \<Rightarrow> string list" where
  "sortStrings s = fold sift_down [1..<length s] s"

text \<open>The keys of the filter in any order of iteration \<open>keys\<close>, sorted; None is the mode without filter.\<close>

definition SubscribedPairs :: "(string set \<Rightarrow> string list) \<Rightarrow> Subscriber \<Rightarrow> string list option" where
  "SubscribedPairs keys s = map_option (\<lambda>ps. sortStrings (keys ps)) (sb_pairs s)"

section \<open>Sending\<close>

definition Sub_Send :: "bytes \<Rightarrow> nat \<Rightarrow> EdgeRegistry \<Rightarrow> sub_error option \<times> EdgeRegistry" where
  "Sub_Send p i r =
     (let s = er_heap r i
      in if sb_closed s then (Some ErrSubClosed, r)
         else if length (sb_send s) < sb_cap s
           then (None, r\<lparr>er_heap := (er_heap r)(i := s\<lparr>sb_send := sb_send s @ [p]\<rparr>)\<rparr>)
         else (Some ErrSubQueueFull, r))"

text \<open>The payload SendVersioned chooses; a nil second encoding falls back to the first.\<close>

definition versioned :: "bytes \<Rightarrow> bytes option \<Rightarrow> Subscriber \<Rightarrow> bytes" where
  "versioned v1 v2 s = (case v2 of Some p \<Rightarrow> if sb_ev s \<ge> 2 then p else v1 | None \<Rightarrow> v1)"

definition SendVersioned :: "bytes \<Rightarrow> bytes option \<Rightarrow> nat \<Rightarrow> EdgeRegistry \<Rightarrow> sub_error option \<times> EdgeRegistry" where
  "SendVersioned v1 v2 i r = Sub_Send (versioned v1 v2 (er_heap r i)) i r"

definition Edge_Add :: "nat \<Rightarrow> EdgeRegistry \<Rightarrow> EdgeRegistry" where
  "Edge_Add i r = (if i \<in> set (er_subs r) then r else r\<lparr>er_subs := er_subs r @ [i]\<rparr>)"

definition Edge_Remove :: "nat \<Rightarrow> EdgeRegistry \<Rightarrow> EdgeRegistry" where
  "Edge_Remove i r = r\<lparr>er_subs := filter (\<lambda>j. j \<noteq> i) (er_subs r)\<rparr>"

text \<open>Close runs the onClose callback, which removes the subscriber (server.go).\<close>

definition Sub_Close :: "nat \<Rightarrow> EdgeRegistry \<Rightarrow> EdgeRegistry" where
  "Sub_Close i r =
     (if sb_closed (er_heap r i) then r
      else Edge_Remove i (r\<lparr>er_heap := (er_heap r)(i := (er_heap r i)\<lparr>sb_closed := True\<rparr>)\<rparr>))"

text \<open>The loop of a fan-out over its snapshot; \<open>isolate\<close> says whether a slow subscriber is closed.\<close>

fun fan_loop :: "bool \<Rightarrow> (nat \<Rightarrow> EdgeRegistry \<Rightarrow> sub_error option \<times> EdgeRegistry) \<Rightarrow> nat list \<Rightarrow> EdgeRegistry \<Rightarrow> nat \<times> nat \<times> EdgeRegistry" where
  "fan_loop isolate snd_op [] r = (0, 0, r)"
| "fan_loop isolate snd_op (i # is) r =
     (case snd_op i r of
        (None, r') \<Rightarrow> (let (n, d, r'') = fan_loop isolate snd_op is r' in (n + 1, d, r''))
      | (Some e, r') \<Rightarrow>
          (let (n, d, r'') = fan_loop isolate snd_op is (if isolate \<and> e = ErrSubQueueFull then Sub_Close i r' else r')
           in (n, d + 1, r'')))"

definition add_totals :: "nat \<times> nat \<times> EdgeRegistry \<Rightarrow> nat \<times> nat \<times> EdgeRegistry" where
  "add_totals = (\<lambda>(n, d, r). (n, d, r\<lparr>er_totalSent := er_totalSent r + of_nat n, er_totalDrop := er_totalDrop r + of_nat d\<rparr>))"

definition Broadcast :: "bytes \<Rightarrow> EdgeRegistry \<Rightarrow> nat \<times> nat \<times> EdgeRegistry" where
  "Broadcast p r = add_totals (fan_loop True (Sub_Send p) (er_subs r) r)"

definition had_pair :: "string \<Rightarrow> Subscriber \<Rightarrow> bool" where
  "had_pair pair s = (case sb_pairs s of None \<Rightarrow> False | Some q \<Rightarrow> pair \<in> q)"

definition RevokePairFromAll :: "string \<Rightarrow> EdgeRegistry \<Rightarrow> nat \<times> EdgeRegistry" where
  "RevokePairFromAll pair r =
     (if pair = [] then (0, r)
      else (let hit = filter (\<lambda>i. had_pair pair (er_heap r i)) (er_subs r)
            in (length hit, r\<lparr>er_heap := (\<lambda>i. if i \<in> set hit then UnsubscribePairs [pair] (er_heap r i) else er_heap r i)\<rparr>)))"

definition BroadcastForPair :: "string \<Rightarrow> bytes \<Rightarrow> EdgeRegistry \<Rightarrow> nat \<times> nat \<times> EdgeRegistry" where
  "BroadcastForPair pair p r =
     (if pair = [] then (0, 0, r)
      else fan_loop False (Sub_Send p) (filter (\<lambda>i. MatchesPair pair (er_heap r i)) (er_subs r)) r)"

definition profile_match :: "string \<Rightarrow> string \<Rightarrow> Subscriber \<Rightarrow> bool" where
  "profile_match profileKey pair s \<longleftrightarrow> sb_profileKey s = profileKey \<and> MatchesSource [] s \<and> (pair \<noteq> [] \<longrightarrow> MatchesPair pair s)"

definition SendByProfile :: "string \<Rightarrow> string \<Rightarrow> bytes \<Rightarrow> EdgeRegistry \<Rightarrow> nat \<times> nat \<times> EdgeRegistry" where
  "SendByProfile profileKey pair p r =
     (if profileKey = [] then (0, 0, r)
      else add_totals (fan_loop True (Sub_Send p) (filter (\<lambda>i. profile_match profileKey pair (er_heap r i)) (er_subs r)) r))"

definition BroadcastBySymbolV :: "string \<Rightarrow> bytes \<Rightarrow> bytes option \<Rightarrow> EdgeRegistry \<Rightarrow> nat \<times> nat \<times> EdgeRegistry" where
  "BroadcastBySymbolV symbol v1 v2 r =
     (if symbol = [] then (0, 0, r)
      else add_totals (fan_loop True (SendVersioned v1 v2) (filter (\<lambda>i. MatchesPair symbol (er_heap r i)) (er_subs r)) r))"

definition SendByProfileV :: "string \<Rightarrow> string \<Rightarrow> bytes \<Rightarrow> bytes option \<Rightarrow> EdgeRegistry \<Rightarrow> nat \<times> nat \<times> EdgeRegistry" where
  "SendByProfileV profileKey pair v1 v2 r =
     (if profileKey = [] then (0, 0, r)
      else add_totals (fan_loop True (SendVersioned v1 v2) (filter (\<lambda>i. profile_match profileKey pair (er_heap r i)) (er_subs r)) r))"

definition customer_match :: "string \<Rightarrow> string \<Rightarrow> string \<Rightarrow> Subscriber \<Rightarrow> bool" where
  "customer_match customerID pair source s \<longleftrightarrow>
     sb_customerID s = customerID \<and> MatchesSource source s \<and> (pair \<noteq> [] \<longrightarrow> MatchesPair pair s)"

definition SendByCustomerIDV ::
  "string \<Rightarrow> string \<Rightarrow> string \<Rightarrow> bytes \<Rightarrow> bytes option \<Rightarrow> EdgeRegistry \<Rightarrow> nat \<times> nat \<times> EdgeRegistry" where
  "SendByCustomerIDV customerID pair source v1 v2 r =
     (if customerID = [] then (0, 0, r)
      else add_totals (fan_loop True (SendVersioned v1 v2)
        (filter (\<lambda>i. customer_match customerID pair source (er_heap r i)) (er_subs r)) r))"

definition SendByCustomerID :: "string \<Rightarrow> string \<Rightarrow> string \<Rightarrow> bytes \<Rightarrow> EdgeRegistry \<Rightarrow> nat \<times> nat \<times> EdgeRegistry" where
  "SendByCustomerID customerID pair source p r =
     (if customerID = [] then (0, 0, r)
      else add_totals (fan_loop True (Sub_Send p)
        (filter (\<lambda>i. customer_match customerID pair source (er_heap r i)) (er_subs r)) r))"

definition Edge_Count :: "EdgeRegistry \<Rightarrow> nat" where
  "Edge_Count r = length (er_subs r)"

definition Edge_CloseAll :: "EdgeRegistry \<Rightarrow> EdgeRegistry" where
  "Edge_CloseAll r = fold Sub_Close (er_subs r) r"

section \<open>What a fan-out does\<close>

definition sub_room :: "Subscriber \<Rightarrow> bool" where
  "sub_room s \<longleftrightarrow> \<not> sb_closed s \<and> length (sb_send s) < sb_cap s"

definition sub_slow :: "Subscriber \<Rightarrow> bool" where
  "sub_slow s \<longleftrightarrow> \<not> sb_closed s \<and> \<not> length (sb_send s) < sb_cap s"

definition served :: "bytes \<Rightarrow> Subscriber \<Rightarrow> Subscriber" where
  "served p s = (if sub_room s then s\<lparr>sb_send := sb_send s @ [p]\<rparr> else if sub_slow s then s\<lparr>sb_closed := True\<rparr> else s)"

text \<open>The send operation of a fan-out whose payload depends on the subscriber.\<close>

definition send_op :: "(Subscriber \<Rightarrow> bytes) \<Rightarrow> nat \<Rightarrow> EdgeRegistry \<Rightarrow> sub_error option \<times> EdgeRegistry" where
  "send_op pay i r = Sub_Send (pay (er_heap r i)) i r"

lemma Sub_Send_op: "Sub_Send p = send_op (\<lambda>_. p)" and SendVersioned_op: "SendVersioned v1 v2 = send_op (versioned v1 v2)"
  by (simp_all add: send_op_def SendVersioned_def fun_eq_iff)

lemma fan_loop_Cons:
  "fan_loop True (send_op pay) (i # is) r =
     (let r1 = (if sub_slow (er_heap r i) then Edge_Remove i else id)
                 (r\<lparr>er_heap := (er_heap r)(i := served (pay (er_heap r i)) (er_heap r i))\<rparr>);
          (n, d, r') = fan_loop True (send_op pay) is r1
      in if sub_room (er_heap r i) then (n + 1, d, r') else (n, d + 1, r'))"
  by (auto simp: send_op_def Sub_Send_def Sub_Close_def Let_def sub_room_def sub_slow_def served_def split: prod.splits)

declare fan_loop.simps(2) [simp del]

lemma fan_loop_result:
  "distinct is \<Longrightarrow> fan_loop True (send_op pay) is r = (n, d, r') \<Longrightarrow>
     er_heap r' = (\<lambda>i. if i \<in> set is then served (pay (er_heap r i)) (er_heap r i) else er_heap r i) \<and>
     er_subs r' = filter (\<lambda>i. \<not> (i \<in> set is \<and> sub_slow (er_heap r i))) (er_subs r) \<and>
     n = length (filter (\<lambda>i. sub_room (er_heap r i)) is) \<and> n + d = length is \<and>
     er_totalSent r' = er_totalSent r \<and> er_totalDrop r' = er_totalDrop r"
proof (induction "is" arbitrary: r n d r')
  case Nil
  then show ?case by simp
next
  case (Cons i js)
  define r1 where "r1 = (if sub_slow (er_heap r i) then Edge_Remove i else id)
      (r\<lparr>er_heap := (er_heap r)(i := served (pay (er_heap r i)) (er_heap r i))\<rparr>)"
  obtain n1 d1 r2 where loop: "fan_loop True (send_op pay) js r1 = (n1, d1, r2)" by (metis prod_cases3)
  have h1: "er_heap r1 = (er_heap r)(i := served (pay (er_heap r i)) (er_heap r i))"
    "er_subs r1 = (if sub_slow (er_heap r i) then filter (\<lambda>j. j \<noteq> i) (er_subs r) else er_subs r)"
    "er_totalSent r1 = er_totalSent r" "er_totalDrop r1 = er_totalDrop r"
    by (simp_all add: r1_def Edge_Remove_def)
  have res: "(n, d, r') = (if sub_room (er_heap r i) then (n1 + 1, d1, r2) else (n1, d1 + 1, r2))"
    using Cons.prems(2) unfolding fan_loop_Cons Let_def r1_def [symmetric] loop by (simp split: if_splits)
  have i: "i \<notin> set js" using Cons.prems(1) by simp
  have same: "filter (\<lambda>j. sub_room (er_heap r1 j)) js = filter (\<lambda>j. sub_room (er_heap r j)) js"
    using i by (intro filter_cong) (auto simp: h1)
  note IH = Cons.IH [OF _ loop]
  have subs: "filter (\<lambda>j. \<not> (j \<in> set js \<and> sub_slow (er_heap r1 j))) (er_subs r1) =
      filter (\<lambda>j. \<not> (j \<in> set (i # js) \<and> sub_slow (er_heap r j))) (er_subs r)"
    using i by (auto simp: h1 filter_filter intro!: filter_cong)
  show ?case
    using IH Cons.prems(1) res i same subs h1 by (auto split: if_splits)
qed

text \<open>What a fan-out to the subscribers selected by \<open>sel\<close>, with payload \<open>pay\<close>, has to do: queue the
  payload for each selected subscriber with room, close and drop the slow ones, and touch nothing
  else.\<close>

definition fan_out_spec ::
  "(Subscriber \<Rightarrow> bool) \<Rightarrow> (Subscriber \<Rightarrow> bytes) \<Rightarrow> EdgeRegistry \<Rightarrow> nat \<Rightarrow> nat \<Rightarrow> EdgeRegistry \<Rightarrow> bool" where
  "fan_out_spec sel pay r n d r' \<longleftrightarrow>
     er_heap r' = (\<lambda>i. if i \<in> set (er_subs r) \<and> sel (er_heap r i) then served (pay (er_heap r i)) (er_heap r i) else er_heap r i) \<and>
     er_subs r' = filter (\<lambda>i. \<not> (sel (er_heap r i) \<and> sub_slow (er_heap r i))) (er_subs r) \<and>
     n = length (filter (\<lambda>i. sel (er_heap r i) \<and> sub_room (er_heap r i)) (er_subs r)) \<and>
     n + d = length (filter (\<lambda>i. sel (er_heap r i)) (er_subs r)) \<and>
     er_totalSent r' = er_totalSent r + of_nat n \<and> er_totalDrop r' = er_totalDrop r + of_nat d"

lemma fan_out_result:
  assumes "distinct (er_subs r)" "add_totals (fan_loop True (send_op pay) (filter (\<lambda>i. sel (er_heap r i)) (er_subs r)) r) = (n, d, r')"
  shows "fan_out_spec sel pay r n d r'"
proof -
  let ?is = "filter (\<lambda>i. sel (er_heap r i)) (er_subs r)"
  obtain n1 d1 r1 where loop: "fan_loop True (send_op pay) ?is r = (n1, d1, r1)" by (metis prod_cases3)
  have "distinct ?is" using assms(1) by simp
  note R = fan_loop_result [OF this loop]
  have "filter (\<lambda>i. \<not> (i \<in> set ?is \<and> sub_slow (er_heap r i))) (er_subs r) =
      filter (\<lambda>i. \<not> (sel (er_heap r i) \<and> sub_slow (er_heap r i))) (er_subs r)"
    by (rule filter_cong) auto
  with R assms(2) loop show ?thesis by (auto simp: fan_out_spec_def add_totals_def conj_commute)
qed

section \<open>Who receives a quote\<close>

text \<open>C24: A customer quote is queued once for exactly the registered subscribers of that customer whose
  source selection and pair filter match it, in the encoding the subscriber negotiated; matching
  subscribers with a full queue are closed and leave the registry, nobody else is touched, and the
  totals grow by what was sent and dropped.  The same holds for a profile quote with the profile key
  in place of the customer, except that subscribers with a source selection never get it.\<close>

theorem quote_reaches_matching_only:
  assumes "distinct (er_subs r)" "customerID \<noteq> []" "profileKey \<noteq> []"
  shows "(let (n, d, r') = SendByCustomerIDV customerID pair source v1 v2 r;
            sel = (\<lambda>s. sb_customerID s = customerID \<and> MatchesSource source s \<and> (pair = [] \<or> MatchesPair pair s))
          in fan_out_spec sel (versioned v1 v2) r n d r') \<and>
         (let (n, d, r') = SendByProfileV profileKey pair v1 v2 r;
            sel = (\<lambda>s. sb_profileKey s = profileKey \<and> sb_sources s = {} \<and> (pair = [] \<or> MatchesPair pair s))
          in fan_out_spec sel (versioned v1 v2) r n d r')"
proof -
  have c: "(\<lambda>i. customer_match customerID pair source (er_heap r i)) =
      (\<lambda>i. (\<lambda>s. sb_customerID s = customerID \<and> MatchesSource source s \<and> (pair = [] \<or> MatchesPair pair s)) (er_heap r i))"
    by (auto simp: customer_match_def)
  have p: "(\<lambda>i. profile_match profileKey pair (er_heap r i)) =
      (\<lambda>i. (\<lambda>s. sb_profileKey s = profileKey \<and> sb_sources s = {} \<and> (pair = [] \<or> MatchesPair pair s)) (er_heap r i))"
    by (auto simp: profile_match_def MatchesSource_def)
  show ?thesis
    using assms(2,3) fan_out_result [OF assms(1), of "versioned v1 v2"]
    unfolding SendByCustomerIDV_def SendByProfileV_def c p SendVersioned_op Let_def by (auto split: prod.splits)
qed

definition sample_edge :: "string set option \<Rightarrow> EdgeRegistry" where
  "sample_edge ps = \<lparr>er_heap = (\<lambda>i. (NewSubscriber ''WEB.HQ.VIP'' (if i = 0 then ''C1'' else ''C2'') [] 2 1)\<lparr>sb_pairs := ps\<rparr>),
     er_subs = [0, 1], er_totalSent = 0, er_totalDrop = 0\<rparr>"

theorem quote_reaches_matching_only_witness:
  "case SendByCustomerIDV ''C1'' ''USD/KRW'' [] [1] (Some [2]) (sample_edge (Some {''USD/KRW''})) of
     (n, d, r') \<Rightarrow> n = 1 \<and> sb_send (er_heap r' 0) = [[2]] \<and> sb_send (er_heap r' 1) = []"
proof -
  let ?r = "sample_edge (Some {''USD/KRW''})"
  obtain n d r' where S: "SendByCustomerIDV ''C1'' ''USD/KRW'' [] [1] (Some [2]) ?r = (n, d, r')" by (metis prod_cases3)
  have "distinct (er_subs ?r)" by (simp add: sample_edge_def)
  from quote_reaches_matching_only [OF this, of "''C1''" "''P''" "''USD/KRW''" "[]" "[1]" "Some [2]"] S
  have "fan_out_spec (\<lambda>s. sb_customerID s = ''C1'' \<and> MatchesSource [] s \<and> MatchesPair ''USD/KRW'' s)
      (versioned [1] (Some [2])) ?r n d r'" by simp
  then show ?thesis unfolding S
    by (simp add: fan_out_spec_def sample_edge_def NewSubscriber_def MatchesSource_def MatchesPair_def sub_room_def
        served_def versioned_def)
qed

text \<open>Revoking a pair from a subscriber whose filter holds that pair alone empties the filter, which
  means no filter at all: afterwards the subscriber matches every pair, the revoked one included, and
  the next quote of the revoked pair is queued for it.\<close>

theorem revoke_last_pair_opens_all:
  assumes "distinct (er_subs r)" "i \<in> set (er_subs r)" "pair \<noteq> []" "sb_pairs (er_heap r i) = Some {pair}"
    and "sub_room (er_heap r i)" "sb_customerID (er_heap r i) = c" "c \<noteq> []" "sb_sources (er_heap r i) = {}"
  shows "let r1 = snd (RevokePairFromAll pair r); r2 = snd (snd (SendByCustomerID c pair [] p r1))
    in (\<forall>q. MatchesPair q (er_heap r1 i)) \<and> sb_send (er_heap r2 i) = sb_send (er_heap r i) @ [p]"
proof -
  define r1 where "r1 = snd (RevokePairFromAll pair r)"
  have r1: "er_heap r1 i = (er_heap r i)\<lparr>sb_pairs := None\<rparr>" "er_subs r1 = er_subs r"
    using assms(2-4) by (simp_all add: r1_def RevokePairFromAll_def Let_def had_pair_def UnsubscribePairs_def)
  have sel: "customer_match c pair [] (er_heap r1 i)"
    using assms by (simp add: r1 customer_match_def MatchesSource_def MatchesPair_def)
  obtain n d r2 where r2: "SendByCustomerID c pair [] p r1 = (n, d, r2)" by (metis prod_cases3)
  have "add_totals (fan_loop True (send_op (\<lambda>_. p)) (filter (\<lambda>i. customer_match c pair [] (er_heap r1 i)) (er_subs r1)) r1) = (n, d, r2)"
    using r2 assms(7) by (simp add: SendByCustomerID_def Sub_Send_op)
  from fan_out_result [OF _ this] have "er_heap r2 i = served p (er_heap r1 i)"
    using assms(1,2) sel by (simp add: fan_out_spec_def r1)
  then show ?thesis
    unfolding Let_def r1_def [symmetric] r2 using assms(5) by (simp add: r1 MatchesPair_def served_def sub_room_def)
qed

theorem revoke_last_pair_opens_all_witness:
  "let r1 = snd (RevokePairFromAll ''USD/KRW'' (sample_edge (Some {''USD/KRW''})));
       r2 = snd (snd (SendByCustomerID ''C1'' ''USD/KRW'' [] [7] r1))
   in MatchesPair ''EUR/KRW'' (er_heap r1 0) \<and> sb_send (er_heap r2 0) = [[7]]"
  using revoke_last_pair_opens_all [of "sample_edge (Some {''USD/KRW''})" 0 "''USD/KRW''" "''C1''" "[7]"]
  by (simp add: Let_def) (simp add: sample_edge_def NewSubscriber_def sub_room_def)

section \<open>The package's sorting\<close>

text \<open>One pass of the inner loop moves an element down to its place in the sorted prefix.\<close>

text \<open>The hand-written insertion sort of the package agrees with sorting by the byte order of
  strings, for lists of every length, so the reported subscription of a filtered subscriber is the
  sorted list of its pairs.\<close>

theorem sortStrings_sorts:
  "sortStrings s = sort s"
  using insertion_sort_stable [of "\<lambda>x. x" s]
  by (simp add: sortStrings_def insertion_sort_def sift_down_def [abs_def])

end
