(* ===== verification/Go_Float.thy ===== *)
theory Go_Float
  imports Wtg_Prelude
begin

text \<open>
  Go's float64: IEEE 754 binary64 on its bit pattern, with comparison, addition, subtraction,
  multiplication, division, conversion from int and decimal literals, all rounded to nearest with
  ties to even.  Every finite number is an integer multiple of \<open>2 ^ (- 1074)\<close>, so the exact result
  of an operation is a quotient of two naturals in that unit, which \<open>f_round\<close> rounds once.
  All NaNs are represented by one pattern.  Go may fuse a multiplication and an addition on some
  processors; as on amd64, every operation here is rounded on its own.
\<close>

section \<open>Bit patterns\<close>

type_synonym float64 = u64

abbreviation (input) inf_mag :: nat where "inf_mag \<equiv> 2047 * 2 ^ 52"

definition f_sign :: "float64 \<Rightarrow> bool" where
  "f_sign x \<longleftrightarrow> 2 ^ 63 \<le> unat x"

definition f_mag :: "float64 \<Rightarrow> nat" where
  "f_mag x = unat x mod 2 ^ 63"

definition f_make :: "bool \<Rightarrow> nat \<Rightarrow> float64" where
  "f_make s m = word_of_nat ((if s then 2 ^ 63 else 0) + m)"

definition f_nan :: float64 where
  "f_nan = f_make False (inf_mag + 2 ^ 51)"

definition f_zero :: float64 where
  "f_zero = f_make False 0"

definition f_isnan :: "float64 \<Rightarrow> bool" where
  "f_isnan x \<longleftrightarrow> inf_mag < f_mag x"

definition f_isinf :: "float64 \<Rightarrow> bool" where
  "f_isinf x \<longleftrightarrow> f_mag x = inf_mag"

definition f_finite :: "float64 \<Rightarrow> bool" where
  "f_finite x \<longleftrightarrow> f_mag x < inf_mag"

text \<open>The signed magnitude orders the numbers; both zeros have the key 0.\<close>

definition f_key :: "float64 \<Rightarrow> int" where
  "f_key x = (if f_sign x then - int (f_mag x) else int (f_mag x))"

definition f_lt :: "float64 \<Rightarrow> float64 \<Rightarrow> bool" where
  "f_lt x y \<longleftrightarrow> \<not> f_isnan x \<and> \<not> f_isnan y \<and> f_key x < f_key y"

definition f_le :: "float64 \<Rightarrow> float64 \<Rightarrow> bool" where
  "f_le x y \<longleftrightarrow> \<not> f_isnan x \<and> \<not> f_isnan y \<and> f_key x \<le> f_key y"

definition f_eq :: "float64 \<Rightarrow> float64 \<Rightarrow> bool" where
  "f_eq x y \<longleftrightarrow> \<not> f_isnan x \<and> \<not> f_isnan y \<and> f_key x = f_key y"

section \<open>Rounding\<close>

text \<open>The number with a given magnitude, in units of \<open>2 ^ (- 1074)\<close>.\<close>

definition f_units :: "nat \<Rightarrow> nat" where
  "f_units m = (let e = m div 2 ^ 52; f = m mod 2 ^ 52 in if e = 0 then f else (2 ^ 52 + f) * 2 ^ (e - 1))"

definition f_num :: "float64 \<Rightarrow> int" where
  "f_num x = (if f_sign x then - int (f_units (f_mag x)) else int (f_units (f_mag x)))"

fun nat_bits :: "nat \<Rightarrow> nat" where
  "nat_bits n = (if n = 0 then 0 else Suc (nat_bits (n div 2)))"

declare nat_bits.simps [simp del]

text \<open>The nearest integer to \<open>n / d\<close>, the even one of two.\<close>

definition rne :: "nat \<Rightarrow> nat \<Rightarrow> nat" where
  "rne n d = (let q = n div d; r = n mod d in if d < 2 * r \<or> d = 2 * r \<and> odd q then q + 1 else q)"

text \<open>The magnitude nearest to \<open>n / d\<close> units: with \<open>s\<close> bits to drop the significand has 53 bits, and
  a carry into the 54th moves to the next exponent by itself.\<close>

definition f_round :: "nat \<Rightarrow> nat \<Rightarrow> nat" where
  "f_round n d = (let s = nat_bits (n div d) - 53 in min (s * 2 ^ 52 + rne n (d * 2 ^ s)) inf_mag)"

text \<open>The units of the number 1.\<close>

definition f_scale :: nat where
  "f_scale = 2 ^ 1074"

lemma f_scale_pos [simp]: "0 < f_scale"
  by (simp add: f_scale_def)

section \<open>Operations\<close>

definition f_neg :: "float64 \<Rightarrow> float64" where
  "f_neg x = f_make (\<not> f_sign x) (f_mag x)"

definition f_of_units :: "int \<Rightarrow> float64" where
  "f_of_units n = f_make (n < 0) (f_round (nat \<bar>n\<bar>) 1)"

definition f_add :: "float64 \<Rightarrow> float64 \<Rightarrow> float64" where
  "f_add x y =
     (if f_isnan x \<or> f_isnan y then f_nan
      else if f_isinf x then (if f_isinf y \<and> f_sign x \<noteq> f_sign y then f_nan else x)
      else if f_isinf y then y
      else if f_num x + f_num y = 0 then f_make (f_sign x \<and> f_sign y) 0
      else f_of_units (f_num x + f_num y))"

definition f_sub :: "float64 \<Rightarrow> float64 \<Rightarrow> float64" where
  "f_sub x y = f_add x (f_neg y)"

definition f_mul :: "float64 \<Rightarrow> float64 \<Rightarrow> float64" where
  "f_mul x y =
     (let s = (f_sign x \<noteq> f_sign y) in
      if f_isnan x \<or> f_isnan y \<or> f_isinf x \<and> f_mag y = 0 \<or> f_mag x = 0 \<and> f_isinf y then f_nan
      else if f_isinf x \<or> f_isinf y then f_make s inf_mag
      else f_make s (f_round (f_units (f_mag x) * f_units (f_mag y)) f_scale))"

definition f_div :: "float64 \<Rightarrow> float64 \<Rightarrow> float64" where
  "f_div x y =
     (let s = (f_sign x \<noteq> f_sign y) in
      if f_isnan x \<or> f_isnan y \<or> f_isinf x \<and> f_isinf y \<or> f_mag x = 0 \<and> f_mag y = 0 then f_nan
      else if f_isinf x \<or> f_mag y = 0 then f_make s inf_mag
      else if f_isinf y then f_make s 0
      else f_make s (f_round (f_units (f_mag x) * f_scale) (f_units (f_mag y))))"

definition f_of_int :: "int \<Rightarrow> float64" where
  "f_of_int n = f_of_units (n * int f_scale)"

text \<open>The decimal literal \<open>n / 10 ^ k\<close>.\<close>

definition f_lit :: "nat \<Rightarrow> nat \<Rightarrow> float64" where
  "f_lit n k = f_make False (f_round (n * f_scale) (10 ^ k))"

section \<open>Bit patterns, order\<close>

lemma f_mag_less: "f_mag x < 2 ^ 63"
  by (simp add: f_mag_def)

lemma f_make_parts:
  assumes "m < 2 ^ 63"
  shows "f_sign (f_make s m) = s" "f_mag (f_make s m) = m"
proof -
  have u: "unat (f_make s m) = (if s then 2 ^ 63 else 0) + m"
    using assms unfolding f_make_def unat_of_nat by (auto intro!: mod_less)
  show "f_sign (f_make s m) = s" "f_mag (f_make s m) = m"
    using assms by (auto simp: f_sign_def f_mag_def u)
qed

lemma f_make_key: "m < 2 ^ 63 \<Longrightarrow> f_key (f_make s m) = (if s then - int m else int m)"
  by (simp add: f_key_def f_make_parts)

lemma f_nan_isnan [simp]: "f_isnan f_nan"
  by (simp add: f_isnan_def f_nan_def f_make_parts)

lemma f_kinds: "f_isnan x \<or> f_isinf x \<or> f_finite x" "f_finite x \<Longrightarrow> \<not> f_isnan x \<and> \<not> f_isinf x"
  "f_isinf x \<Longrightarrow> \<not> f_isnan x"
  by (auto simp: f_isnan_def f_isinf_def f_finite_def)

lemma f_le_refl: "\<not> f_isnan x \<Longrightarrow> f_le x x"
  by (simp add: f_le_def)

lemma f_le_trans: "f_le x y \<Longrightarrow> f_le y z \<Longrightarrow> f_le x z"
  by (auto simp: f_le_def)

lemma f_lt_not_le: "\<not> f_isnan x \<Longrightarrow> \<not> f_isnan y \<Longrightarrow> f_lt x y \<longleftrightarrow> \<not> f_le y x"
  by (auto simp: f_lt_def f_le_def)

lemma f_lt_imp_le: "f_lt x y \<Longrightarrow> f_le x y"
  by (auto simp: f_le_def f_lt_def)

section \<open>Rounding is monotone and exact on representable numbers\<close>

lemma rne_exact: "0 < d \<Longrightarrow> rne (k * d) d = k"
  by (simp add: rne_def)

lemma rne_mono:
  assumes le: "n1 * d2 \<le> n2 * d1" and pos: "0 < d1" "0 < d2"
  shows "rne n1 d1 \<le> rne n2 d2"
proof -
  define q1 r1 q2 r2 where q: "q1 = n1 div d1" "r1 = n1 mod d1" "q2 = n2 div d2" "r2 = n2 mod d2"
  have n: "n1 = q1 * d1 + r1" "n2 = q2 * d2 + r2" and r: "r1 < d1" "r2 < d2"
    using pos by (simp_all add: q)
  have "q1 \<le> q2"
  proof (rule ccontr)
    assume "\<not> q1 \<le> q2"
    then have "(q2 + 1) * (d1 * d2) \<le> q1 * (d1 * d2)" by (intro mult_le_mono1) simp
    moreover have "q1 * (d1 * d2) \<le> n1 * d2" by (simp add: n algebra_simps)
    moreover have "n2 * d1 < (q2 + 1) * (d1 * d2)" using r pos by (simp add: n algebra_simps)
    ultimately show False using le by linarith
  qed
  show ?thesis
  proof (cases "q1 = q2")
    case False
    with \<open>q1 \<le> q2\<close> have "q1 + 1 \<le> q2" by simp
    then show ?thesis by (simp add: rne_def Let_def flip: q)
  next
    case True
    then have rr: "r1 * d2 \<le> r2 * d1" using le by (simp add: n algebra_simps)
    have "d2 < 2 * r2" if "d1 < 2 * r1"
    proof (rule ccontr)
      assume "\<not> d2 < 2 * r2"
      then have "2 * r2 * d1 \<le> d2 * d1" by simp
      also have "\<dots> < 2 * r1 * d2" using that pos by simp
      finally show False using rr by simp
    qed
    moreover have "d2 \<le> 2 * r2" if "d1 = 2 * r1"
    proof -
      have "d2 * d1 \<le> (2 * r2) * d1" using rr that by (simp add: algebra_simps)
      then show ?thesis using pos by simp
    qed
    ultimately show ?thesis using True by (auto simp: rne_def Let_def simp flip: q)
  qed
qed

lemma rne_ge: "k * d \<le> n \<Longrightarrow> 0 < d \<Longrightarrow> k \<le> rne n d"
  using rne_mono [of "k * d" d n d] by (simp add: rne_exact)

lemma rne_le: "n \<le> k * d \<Longrightarrow> 0 < d \<Longrightarrow> rne n d \<le> k"
  using rne_mono [of n d "k * d" d] by (simp add: rne_exact)

lemma nat_bits_0 [simp]: "nat_bits 0 = 0"
  by (simp add: nat_bits.simps)

lemma nat_bits_bounds: "n < 2 ^ nat_bits n" "0 < n \<Longrightarrow> 2 ^ (nat_bits n - 1) \<le> n"
proof (induction n rule: nat_bits.induct)
  case (1 n)
  {
    case 1
    show ?case
    proof (cases "n = 0")
      case False
      then show ?thesis using \<open>n \<noteq> 0 \<Longrightarrow> n div 2 < 2 ^ nat_bits (n div 2)\<close> by (subst nat_bits.simps) simp
    qed (simp add: nat_bits.simps)
  next
    case 2
    show ?case
    proof (cases "n = 1")
      case False
      then have h: "0 < n div 2" using 2 by simp
      then have "2 ^ (nat_bits (n div 2) - 1) \<le> n div 2"
        using \<open>n \<noteq> 0 \<Longrightarrow> 0 < n div 2 \<Longrightarrow> 2 ^ (nat_bits (n div 2) - 1) \<le> n div 2\<close> 2 by simp
      moreover obtain b where "nat_bits (n div 2) = Suc b"
        using h by (subst (asm) nat_bits.simps) (auto simp: nat_bits.simps)
      ultimately show ?thesis using 2 by (subst nat_bits.simps) simp
    qed (simp add: nat_bits.simps)
  }
qed

lemma nat_bits_mono: "m \<le> n \<Longrightarrow> nat_bits m \<le> nat_bits n"
proof (rule ccontr)
  assume "m \<le> n" "\<not> nat_bits m \<le> nat_bits n"
  then have "nat_bits n \<le> nat_bits m - 1" "0 < m" by (auto simp: nat_bits.simps intro: ccontr)
  then have "2 ^ nat_bits n \<le> m" using nat_bits_bounds(2) [of m] by (meson le_trans one_le_numeral power_increasing)
  then show False using \<open>m \<le> n\<close> nat_bits_bounds(1) [of n] by linarith
qed

lemma f_round_shape:
  fixes n d :: nat
  assumes "0 < d"
  defines "s \<equiv> nat_bits (n div d) - 53"
  shows "rne n (d * 2 ^ s) \<le> 2 ^ 53" "0 < s \<Longrightarrow> 2 ^ 52 \<le> rne n (d * 2 ^ s)"
proof -
  have "n div d < 2 ^ nat_bits (n div d)" by (rule nat_bits_bounds)
  also have "\<dots> \<le> 2 ^ (53 + s)" by (intro power_increasing) (auto simp: s_def)
  finally have "n < d * 2 ^ (53 + s)" using assms(1) by (simp add: div_less_iff_less_mult mult.commute)
  then show "rne n (d * 2 ^ s) \<le> 2 ^ 53"
    using assms(1) by (intro rne_le) (simp_all add: power_add algebra_simps)
  assume "0 < s"
  then have b: "nat_bits (n div d) - 1 = 52 + s" by (simp add: s_def)
  moreover have "0 < n div d" using \<open>0 < s\<close> by (cases "n div d = 0") (simp_all add: s_def)
  ultimately have "2 ^ (52 + s) \<le> n div d" using nat_bits_bounds(2) [of "n div d"] by simp
  then have "2 ^ (52 + s) * d \<le> n" by (meson div_times_less_eq_dividend le_trans mult_le_mono1)
  then show "2 ^ 52 \<le> rne n (d * 2 ^ s)"
    using assms(1) by (intro rne_ge) (simp_all add: power_add algebra_simps)
qed

lemma f_round_mono:
  assumes le: "n1 * d2 \<le> n2 * d1" and pos: "0 < d1" "0 < d2"
  shows "f_round n1 d1 \<le> f_round n2 d2"
proof -
  define s1 s2 where s: "s1 = nat_bits (n1 div d1) - 53" "s2 = nat_bits (n2 div d2) - 53"
  have "n1 div d1 \<le> n2 div d2"
  proof -
    have "(n1 div d1) * d2 * d1 \<le> n1 * d2"
      by (metis div_times_less_eq_dividend mult.assoc mult.commute mult_le_mono1)
    then have "(n1 div d1) * d2 * d1 \<le> n2 * d1" using le by linarith
    then show ?thesis using pos by (simp add: less_eq_div_iff_mult_less_eq)
  qed
  then have "s1 \<le> s2" unfolding s by (intro diff_le_mono nat_bits_mono)
  have "s1 * 2 ^ 52 + rne n1 (d1 * 2 ^ s1) \<le> s2 * 2 ^ 52 + rne n2 (d2 * 2 ^ s2)"
  proof (cases "s1 = s2")
    case True
    have "n1 * (d2 * 2 ^ s2) \<le> n2 * (d1 * 2 ^ s1)"
      using le True by (metis mult.assoc mult_le_mono1)
    then show ?thesis using pos True rne_mono [of n1 "d2 * 2 ^ s2" n2 "d1 * 2 ^ s1"] by simp
  next
    case False
    then have "s1 + 1 \<le> s2" using \<open>s1 \<le> s2\<close> by simp
    then have "(s1 + 1) * 2 ^ 52 \<le> s2 * 2 ^ 52" by (rule mult_le_mono1)
    moreover have "rne n1 (d1 * 2 ^ s1) \<le> 2 ^ 53" "2 ^ 52 \<le> rne n2 (d2 * 2 ^ s2)"
      using pos False \<open>s1 \<le> s2\<close> f_round_shape [of d1 n1] f_round_shape [of d2 n2] by (simp_all flip: s)
    ultimately show ?thesis by simp
  qed
  then show ?thesis unfolding f_round_def Let_def by (fold s) (auto intro: min.mono)
qed

lemma f_round_cong: "n1 * d2 = n2 * d1 \<Longrightarrow> 0 < d1 \<Longrightarrow> 0 < d2 \<Longrightarrow> f_round n1 d1 = f_round n2 d2"
  by (intro antisym f_round_mono) simp_all

lemma f_round_zero [simp]: "f_round 0 d = 0"
  by (simp add: f_round_def rne_def)

lemma f_round_inf: "f_round n d \<le> inf_mag"
  unfolding f_round_def Let_def by (rule min.cobounded2)

lemma nat_bits_eq: "2 ^ k \<le> n \<Longrightarrow> n < 2 ^ Suc k \<Longrightarrow> nat_bits n = Suc k"
proof -
  assume a: "2 ^ k \<le> n" "n < 2 ^ Suc k"
  have pos: "0 < n" using a(1) by (metis gr0I not_le zero_less_numeral zero_less_power)
  have "k < nat_bits n"
    using a(1) nat_bits_bounds(1) [of n] by (meson le_less_trans one_less_numeral_iff power_less_imp_less_exp semiring_norm(76))
  moreover have "nat_bits n - 1 < Suc k"
    using a(2) nat_bits_bounds(2) [OF pos]
    by (meson le_less_trans one_less_numeral_iff power_less_imp_less_exp semiring_norm(76))
  ultimately show ?thesis by simp
qed

lemma f_round_units:
  assumes "m \<le> inf_mag"
  shows "f_round (f_units m) 1 = m"
proof -
  define e f where ef: "e = m div 2 ^ 52" "f = m mod 2 ^ 52"
  have m: "m = e * 2 ^ 52 + f" and f: "f < 2 ^ 52" by (simp_all add: ef)
  have units: "f_units m = (if e = 0 then f else (2 ^ 52 + f) * 2 ^ (e - 1))"
    unfolding f_units_def ef Let_def by (rule refl)
  show ?thesis
  proof (cases "e = 0")
    case True
    have "nat_bits f \<le> nat_bits (2 ^ 52)" using f by (intro nat_bits_mono) simp
    also have "\<dots> = Suc 52" by (rule nat_bits_eq) simp_all
    finally have "nat_bits f - 53 = 0" by simp
    moreover have "f_units m = f" using True units by simp
    ultimately show ?thesis
      using assms m True rne_exact [of 1 f] by (simp add: f_round_def)
  next
    case False
    have u: "f_units m = (2 ^ 52 + f) * 2 ^ (e - 1)" using False units by (simp only: if_False)
    have p: "(2 :: nat) ^ (52 + (e - 1)) = 2 ^ 52 * 2 ^ (e - 1)" "(2 :: nat) ^ Suc (52 + (e - 1)) = 2 ^ 53 * 2 ^ (e - 1)"
      unfolding power_Suc power_add by simp_all
    have "nat_bits (f_units m) = Suc (52 + (e - 1))"
    proof (rule nat_bits_eq)
      show "2 ^ (52 + (e - 1)) \<le> f_units m" unfolding u p by (intro mult_le_mono1) simp
      show "f_units m < 2 ^ Suc (52 + (e - 1))" unfolding u p by (intro mult_strict_right_mono) (use f in simp_all)
    qed
    then have s: "nat_bits (f_units m) - 53 = e - 1" by simp
    have r: "rne (f_units m) (2 ^ (e - 1)) = 2 ^ 52 + f" unfolding u by (rule rne_exact) simp
    have "(e - 1) * 2 ^ 52 + (2 ^ 52 + f) = m" using False by (cases e) (simp_all add: m)
    then show ?thesis unfolding f_round_def Let_def div_by_1 mult_1 s r using assms by simp
  qed
qed

lemma f_units_zero_iff [simp]: "f_units m = 0 \<longleftrightarrow> m = 0"
  unfolding f_units_def Let_def
  by (cases "m div 2 ^ 52 = 0") (metis add_0 div_mult_mod_eq mult_0, simp)

lemma f_units_0 [simp]: "f_units 0 = 0"
  by (simp add: f_units_def)

lemma f_units_mono: "m \<le> m' \<Longrightarrow> m' \<le> inf_mag \<Longrightarrow> f_units m \<le> f_units m'"
proof (rule ccontr)
  assume a: "m \<le> m'" "m' \<le> inf_mag" "\<not> f_units m \<le> f_units m'"
  then have "f_round (f_units m') 1 \<le> f_round (f_units m) 1" by (intro f_round_mono) simp_all
  then have "m = m'" using a f_round_units [of m] f_round_units [of m'] by simp
  then show False using a by simp
qed

section \<open>The order of results\<close>

definition sround :: "int \<Rightarrow> int" where
  "sround n = (if n < 0 then - int (f_round (nat (- n)) 1) else int (f_round (nat n) 1))"

lemma sround_mono: "a \<le> b \<Longrightarrow> sround a \<le> sround b"
proof -
  assume "a \<le> b"
  moreover have "f_round (nat a) 1 \<le> f_round (nat b) 1" if "a \<le> b" for a b
    using that by (intro f_round_mono) auto
  ultimately show ?thesis by (auto simp: sround_def)
qed

lemma f_round_63: "f_round n d < 2 ^ 63"
proof -
  have "f_round n d \<le> inf_mag" by (rule f_round_inf)
  also have "inf_mag < 2 ^ 63" by simp
  finally show ?thesis .
qed

lemma f_of_units_key: "f_key (f_of_units n) = sround n" "\<not> f_isnan (f_of_units n)"
  using f_round_63 [of "nat \<bar>n\<bar>" 1] f_round_inf [of "nat \<bar>n\<bar>" 1]
  by (auto simp: f_of_units_def sround_def f_make_key f_isnan_def f_make_parts not_less)

lemma f_num_key: "\<not> f_isnan x \<Longrightarrow> sround (f_num x) = f_key x"
proof -
  assume "\<not> f_isnan x"
  then have "f_round (f_units (f_mag x)) 1 = f_mag x" by (intro f_round_units) (simp add: f_isnan_def)
  then show ?thesis by (auto simp: sround_def f_num_def f_key_def)
qed

lemma f_num_mono: "f_le x y \<Longrightarrow> f_num x \<le> f_num y"
proof -
  assume le: "f_le x y"
  then have inf: "f_mag x \<le> inf_mag" "f_mag y \<le> inf_mag" by (auto simp: f_le_def f_isnan_def)
  have "f_mag x \<le> f_mag y \<Longrightarrow> f_units (f_mag x) \<le> f_units (f_mag y)"
    "f_mag y \<le> f_mag x \<Longrightarrow> f_units (f_mag y) \<le> f_units (f_mag x)"
    using inf f_units_mono by auto
  then show ?thesis using le by (auto simp: f_le_def f_key_def f_num_def split: if_splits)
qed

lemma f_neg_parts: "f_sign (f_neg x) = (\<not> f_sign x)" "f_mag (f_neg x) = f_mag x"
  unfolding f_neg_def by (rule f_make_parts [OF f_mag_less])+

lemma f_neg_kinds [simp]:
  "f_isnan (f_neg x) = f_isnan x" "f_isinf (f_neg x) = f_isinf x" "f_finite (f_neg x) = f_finite x"
  "f_num (f_neg x) = - f_num x" "f_key (f_neg x) = - f_key x"
  by (simp_all add: f_isnan_def f_isinf_def f_finite_def f_num_def f_key_def f_neg_parts)

lemma f_le_neg: "f_le (f_neg x) (f_neg y) = f_le y x"
  by (auto simp: f_le_def)

lemma f_add_finite:
  assumes "f_finite x" "f_finite y"
  shows "f_key (f_add x y) = sround (f_num x + f_num y)" "\<not> f_isnan (f_add x y)"
proof -
  have "sround 0 = 0" "\<not> f_isnan (f_make s 0)" for s by (simp_all add: sround_def f_isnan_def f_make_parts)
  then show "f_key (f_add x y) = sround (f_num x + f_num y)" "\<not> f_isnan (f_add x y)"
    using assms f_kinds(2) [of x] f_kinds(2) [of y]
    by (auto simp: f_add_def f_of_units_key f_make_key)
qed

lemma f_key_inf: "f_isinf x \<Longrightarrow> f_key x = (if f_sign x then - int inf_mag else int inf_mag)"
  by (simp add: f_key_def f_isinf_def)

lemma f_key_bounds: "\<not> f_isnan x \<Longrightarrow> \<bar>f_key x\<bar> \<le> int inf_mag"
  by (auto simp: f_key_def f_isnan_def)

lemma f_add_inf:
  assumes "\<not> f_isnan (f_add x y)" "f_isinf x \<or> f_isinf y"
  shows "f_key (f_add x y) = (if f_isinf x then f_key x else f_key y)"
  using assms by (auto simp: f_add_def split: if_splits)

lemma f_add_nan: "\<not> f_isnan (f_add x y) \<Longrightarrow> \<not> f_isnan x \<and> \<not> f_isnan y"
  by (auto simp: f_add_def)

text \<open>Addition is monotone wherever neither sum is NaN.\<close>

lemma f_add_mono:
  assumes le: "f_le x x'" "f_le y y'" and num: "\<not> f_isnan (f_add x y)" "\<not> f_isnan (f_add x' y')"
  shows "f_le (f_add x y) (f_add x' y')"
proof -
  let ?I = "int inf_mag"
  have lo: "f_key (f_add x y) = - ?I" if "f_isinf x \<and> f_sign x \<or> f_isinf y \<and> f_sign y"
    using num(1) that by (auto simp: f_add_def f_key_inf split: if_splits)
  have hi: "f_key (f_add x' y') = ?I" if "f_isinf x' \<and> \<not> f_sign x' \<or> f_isinf y' \<and> \<not> f_sign y'"
    using num(2) that by (auto simp: f_add_def f_key_inf split: if_splits)
  have b: "- ?I \<le> f_key (f_add x' y')" "f_key (f_add x y) \<le> ?I"
    using f_key_bounds [OF num(1)] f_key_bounds [OF num(2)] by auto
  have up: "f_isinf u' \<and> \<not> f_sign u'" if "f_le u u'" "f_isinf u" "\<not> f_sign u" for u u'
    using that by (auto simp: f_le_def f_isnan_def f_isinf_def f_key_def split: if_splits)
  have dn: "f_isinf u \<and> f_sign u" if "f_le u u'" "f_isinf u'" "f_sign u'" for u u'
    using that by (auto simp: f_le_def f_isnan_def f_isinf_def f_key_def split: if_splits)
  have fin: "f_key (f_add x y) \<le> f_key (f_add x' y')" if "f_finite x" "f_finite y" "f_finite x'" "f_finite y'"
    using that f_num_mono [OF le(1)] f_num_mono [OF le(2)] by (simp add: f_add_finite sround_mono)
  have k: "f_isinf u \<or> f_finite u" if "u = x \<or> u = x' \<or> u = y \<or> u = y'" for u
    using that le f_kinds(1) [of u] by (auto simp: f_le_def)
  show ?thesis
  proof (cases "f_isinf x \<and> f_sign x \<or> f_isinf y \<and> f_sign y \<or> f_isinf x' \<and> \<not> f_sign x' \<or> f_isinf y' \<and> \<not> f_sign y'")
    case True
    then show ?thesis using lo hi b num by (auto simp: f_le_def)
  next
    case False
    then have "f_finite x \<and> f_finite y \<and> f_finite x' \<and> f_finite y'"
      using k up [OF le(1)] up [OF le(2)] dn [OF le(1)] dn [OF le(2)] by blast
    then show ?thesis using fin num by (simp add: f_le_def)
  qed
qed

lemma f_zero_parts [simp]:
  "f_sign f_zero = False" "f_mag f_zero = 0" "f_key f_zero = 0" "f_num f_zero = 0"
  "\<not> f_isnan f_zero" "f_finite f_zero"
  by (simp_all add: f_zero_def f_make_parts f_key_def f_num_def f_isnan_def f_finite_def)

lemma f_add_zero_key: "\<not> f_isnan x \<Longrightarrow> f_key (f_add x f_zero) = f_key x \<and> \<not> f_isnan (f_add x f_zero)"
  using f_kinds(1) [of x] f_kinds(2) [of f_zero] f_num_key [of x] f_add_finite [of x f_zero]
  by (auto simp: f_add_def [of x f_zero])

text \<open>Adding a non-negative amount does not lower a price, subtracting one does not raise it.\<close>

lemma f_add_ge: "f_le f_zero y \<Longrightarrow> \<not> f_isnan (f_add x y) \<Longrightarrow> f_le x (f_add x y)"
  using f_add_mono [of x x f_zero y] f_add_zero_key [of x] f_add_nan [of x y] by (auto simp: f_le_def)

lemma f_sub_le: "f_le f_zero y \<Longrightarrow> \<not> f_isnan (f_sub x y) \<Longrightarrow> f_le (f_sub x y) x"
  using f_add_mono [of x x "f_neg y" f_zero] f_add_zero_key [of x] f_add_nan [of x "f_neg y"]
  by (auto simp: f_le_def f_sub_def)

section \<open>Products and quotients of positive numbers\<close>

lemma f_nonneg_num: "f_le f_zero x \<Longrightarrow> f_key x = int (f_mag x) \<and> (f_sign x \<longrightarrow> f_mag x = 0)"
  by (auto simp: f_le_def f_key_def)

lemma f_le_mag: "f_le f_zero x \<Longrightarrow> f_le x y \<Longrightarrow> f_mag x \<le> f_mag y \<and> f_le f_zero y \<and> f_mag y \<le> inf_mag"
proof -
  assume a: "f_le f_zero x" "f_le x y"
  then have y: "f_le f_zero y" by (rule f_le_trans)
  have "f_key x \<le> f_key y" "\<not> inf_mag < f_mag y" using a(2) unfolding f_le_def f_isnan_def by blast+
  then show ?thesis using y f_nonneg_num [OF a(1)] f_nonneg_num [OF y] by (metis not_less of_nat_le_iff)
qed

lemma f_make_nonneg:
  assumes "m \<le> inf_mag" "s \<longrightarrow> m = 0"
  shows "f_key (f_make s m) = int m" "\<not> f_isnan (f_make s m)" "f_mag (f_make s m) = m"
proof -
  have "m < 2 ^ 63" using assms(1) by (rule order.strict_trans1) simp
  then show "f_key (f_make s m) = int m" "\<not> f_isnan (f_make s m)" "f_mag (f_make s m) = m"
    using assms by (auto simp: f_make_key f_isnan_def f_make_parts)
qed

lemma f_mul_nonneg:
  assumes "f_le f_zero x" "f_le f_zero y" "\<not> f_isnan (f_mul x y)"
  shows "f_key (f_mul x y) =
      (if f_isinf x \<or> f_isinf y then int inf_mag else int (f_round (f_units (f_mag x) * f_units (f_mag y)) f_scale))"
    and "f_le f_zero (f_mul x y)"
proof -
  let ?s = "f_sign x \<noteq> f_sign y" and ?m = "f_round (f_units (f_mag x) * f_units (f_mag y)) f_scale"
  have s: "?s \<longrightarrow> f_mag x = 0 \<or> f_mag y = 0" using f_nonneg_num [OF assms(1)] f_nonneg_num [OF assms(2)] by auto
  then have s0: "?s \<longrightarrow> ?m = 0" by auto
  have n: "f_mul x y = (if f_isinf x \<or> f_isinf y then f_make ?s inf_mag else f_make ?s ?m)"
    and nz: "\<not> (f_isinf x \<and> f_mag y = 0)" "\<not> (f_mag x = 0 \<and> f_isinf y)"
    using assms(3) by (auto simp: f_mul_def Let_def split: if_splits)
  show k: "f_key (f_mul x y) = (if f_isinf x \<or> f_isinf y then int inf_mag else int ?m)"
  proof (cases "f_isinf x \<or> f_isinf y")
    case True
    have "inf_mag \<noteq> 0" by simp
    then have "\<not> ?s" using True s nz unfolding f_isinf_def by metis
    then have "f_key (f_make ?s inf_mag) = int inf_mag" by (intro f_make_nonneg(1)) simp_all
    then show ?thesis unfolding n if_P [OF True] .
  next
    case False
    show ?thesis unfolding n if_not_P [OF False] by (rule f_make_nonneg(1) [OF f_round_inf s0])
  qed
  show "f_le f_zero (f_mul x y)" using assms(3) k by (simp add: f_le_def)
qed

lemma f_mul_mono:
  assumes "f_le f_zero x" "f_le x x'" "f_le f_zero y" "f_le y y'"
    and num: "\<not> f_isnan (f_mul x y)" "\<not> f_isnan (f_mul x' y')"
  shows "f_le (f_mul x y) (f_mul x' y')"
proof -
  have m: "f_mag x \<le> f_mag x'" "f_mag y \<le> f_mag y'" "f_le f_zero x'" "f_le f_zero y'" "f_mag x' \<le> inf_mag" "f_mag y' \<le> inf_mag"
    using assms f_le_mag by blast+
  have "f_units (f_mag x) * f_units (f_mag y) \<le> f_units (f_mag x') * f_units (f_mag y')"
    using m by (intro mult_le_mono f_units_mono)
  then have "f_units (f_mag x) * f_units (f_mag y) * f_scale \<le> f_units (f_mag x') * f_units (f_mag y') * f_scale"
    by (rule mult_le_mono1)
  then have r: "f_round (f_units (f_mag x) * f_units (f_mag y)) f_scale \<le> f_round (f_units (f_mag x') * f_units (f_mag y')) f_scale"
    by (rule f_round_mono) simp_all
  have "f_isinf x \<or> f_isinf y \<Longrightarrow> f_isinf x' \<or> f_isinf y'" using m by (auto simp: f_isinf_def)
  then have "f_key (f_mul x y) \<le> f_key (f_mul x' y')"
    unfolding f_mul_nonneg(1) [OF assms(1,3) num(1)] f_mul_nonneg(1) [OF m(3,4) num(2)]
    using r f_round_inf [of "f_units (f_mag x) * f_units (f_mag y)" f_scale] by auto
  then show ?thesis using num by (simp add: f_le_def)
qed

lemma f_div_pos:
  assumes "f_lt f_zero x" "f_finite x" "f_lt f_zero y" "f_finite y"
  shows "f_key (f_div x y) = int (f_round (f_units (f_mag x) * f_scale) (f_units (f_mag y)))"
    "\<not> f_isnan (f_div x y)" "f_le f_zero (f_div x y)"
proof -
  have p: "\<not> f_sign x" "\<not> f_sign y" "f_mag x \<noteq> 0" "f_mag y \<noteq> 0"
    using assms by (auto simp: f_lt_def f_key_def split: if_splits)
  have "f_div x y = f_make False (f_round (f_units (f_mag x) * f_scale) (f_units (f_mag y)))"
    using p assms f_kinds(2) [of x] f_kinds(2) [of y] unfolding f_div_def Let_def by simp
  then show "f_key (f_div x y) = int (f_round (f_units (f_mag x) * f_scale) (f_units (f_mag y)))"
    "\<not> f_isnan (f_div x y)" "f_le f_zero (f_div x y)"
    using f_make_nonneg [OF f_round_inf, of False] by (simp_all add: f_le_def)
qed

lemma f_div_mono:
  assumes "f_lt f_zero x" "f_le x x'" "f_finite x'" "f_lt f_zero y'" "f_le y' y" "f_finite y"
  shows "f_le (f_div x y) (f_div x' y')"
proof -
  have z: "f_le f_zero x" "f_le f_zero y'" using assms f_lt_imp_le by auto
  have m: "f_mag x \<le> f_mag x'" "f_mag y' \<le> f_mag y" "f_mag x' \<le> inf_mag" "f_mag y \<le> inf_mag"
    using f_le_mag [OF z(1) assms(2)] f_le_mag [OF z(2) assms(5)] by auto
  then have fin: "f_finite x" "f_finite y'" using assms by (auto simp: f_finite_def)
  have pos: "f_lt f_zero x'" "f_lt f_zero y" using assms by (auto simp: f_lt_def f_le_def)
  then have u: "0 < f_units (f_mag y)" "0 < f_units (f_mag y')"
    using assms(4) by (auto simp: f_lt_def f_key_def intro: gr0I split: if_splits)
  have "f_units (f_mag x) * f_scale * f_units (f_mag y') \<le> f_units (f_mag x') * f_scale * f_units (f_mag y)"
    using m by (intro mult_le_mono f_units_mono order_refl)
  then have "f_round (f_units (f_mag x) * f_scale) (f_units (f_mag y)) \<le> f_round (f_units (f_mag x') * f_scale) (f_units (f_mag y'))"
    using u by (rule f_round_mono)
  then show ?thesis
    using f_div_pos [OF assms(1) fin(1) pos(2) assms(6)] f_div_pos [OF pos(1) assms(3,4) fin(2)] by (simp add: f_le_def)
qed

section \<open>Evaluation\<close>

lemma nat_bits_numeral [simp]:
  "nat_bits (Suc 0) = 1" "nat_bits (numeral Num.One) = 1"
  "nat_bits (numeral (Num.Bit0 n)) = nat_bits (numeral n) + 1"
  "nat_bits (numeral (Num.Bit1 n)) = nat_bits (numeral n) + 1"
  by (subst nat_bits.simps, simp)+

lemmas f_cmp_eval = f_lt_def f_le_def f_eq_def f_isnan_def f_isinf_def f_finite_def f_key_def f_sign_def f_mag_def

lemmas f_eval = f_cmp_eval f_add_def f_sub_def f_neg_def f_mul_def f_div_def f_lit_def f_of_int_def f_of_units_def
  f_round_def rne_def f_num_def f_units_def f_make_def f_scale_def f_zero_def f_nan_def

end
