(* ===== verification/Quote_Data.thy ===== *)
theory Quote_Data
  imports Go_Float Go_Strings
begin

text \<open>
  Market data of src/pkg/quote: the raw quote, the per-pair ring buffer of recent quotes (ring.go),
  the OHLC bar and its timeframes (bar.go), the symbol map (symbolmap.go) and the check of its entries
  (validate.go).  Instants are nanoseconds of Unix time; locks give each operation atomically.
\<close>

section \<open>Quotes\<close>

record Quote =
  qt_Pair :: string
  qt_Bid :: float64
  qt_Ask :: float64
  qt_TS :: int
  qt_BidSize :: float64
  qt_AskSize :: float64

definition zero_Quote :: Quote where
  "zero_Quote = \<lparr>qt_Pair = [], qt_Bid = f_zero, qt_Ask = f_zero, qt_TS = go_zero_time,
     qt_BidSize = f_zero, qt_AskSize = f_zero\<rparr>"

section \<open>Ring buffer\<close>

record pairRing =
  pr_data :: "Quote list"
  pr_next :: nat
  pr_full :: bool

record RingBuffer =
  rb_cap :: nat
  rb_pairs :: "(string \<times> pairRing) list"

definition NewRingBuffer :: "int \<Rightarrow> ('e, RingBuffer) outcome" where
  "NewRingBuffer capPerPair =
     (if capPerPair \<le> 0 then Panic else Done \<lparr>rb_cap = nat capPerPair, rb_pairs = []\<rparr>)"

definition getOrCreate :: "string \<Rightarrow> RingBuffer \<Rightarrow> pairRing \<times> RingBuffer" where
  "getOrCreate pair r =
     (case map_of (rb_pairs r) pair of
        Some ring \<Rightarrow> (ring, r)
      | None \<Rightarrow>
          (let ring = \<lparr>pr_data = replicate (rb_cap r) zero_Quote, pr_next = 0, pr_full = False\<rparr>
           in (ring, r\<lparr>rb_pairs := AList.update pair ring (rb_pairs r)\<rparr>)))"

text \<open>The locked part of Add: store, advance, wrap.\<close>

definition ring_put :: "nat \<Rightarrow> Quote \<Rightarrow> pairRing \<Rightarrow> pairRing" where
  "ring_put c q ring =
     (let next' = pr_next ring + 1;
          ring' = ring\<lparr>pr_data := (pr_data ring)[pr_next ring := q], pr_next := next'\<rparr>
      in if next' \<ge> c then ring'\<lparr>pr_next := 0, pr_full := True\<rparr> else ring')"

definition Ring_Add :: "Quote \<Rightarrow> RingBuffer \<Rightarrow> RingBuffer" where
  "Ring_Add q r =
     (let (ring, r') = getOrCreate (qt_Pair q) r
      in r'\<lparr>rb_pairs := AList.update (qt_Pair q) (ring_put (rb_cap r') q ring) (rb_pairs r')\<rparr>)"

text \<open>The slices of Snapshot are taken with Go's bounds checks.\<close>

definition ring_snapshot :: "nat \<Rightarrow> int \<Rightarrow> pairRing \<Rightarrow> ('e, Quote list) outcome" where
  "ring_snapshot c mx ring =
     (let have = (if pr_full ring then c else pr_next ring);
          m = (if mx \<le> 0 \<or> mx > int have then have else nat mx)
      in if m = 0 then Done []
         else if \<not> pr_full ring then go_slice (pr_data ring) (pr_next ring - m) (pr_next ring)
         else (let start = nat ((int (pr_next ring) - int m + int c) mod int c)
               in if start + m \<le> c then go_slice (pr_data ring) start (start + m)
                  else (let first = c - start
                        in go_bind (go_slice (pr_data ring) start (length (pr_data ring)))
                             (\<lambda>a. go_bind (go_slice (pr_data ring) 0 (m - first)) (\<lambda>b. Done (a @ b))))))"

definition Ring_Snapshot :: "string \<Rightarrow> int \<Rightarrow> RingBuffer \<Rightarrow> ('e, Quote list) outcome" where
  "Ring_Snapshot pair mx r =
     (case map_of (rb_pairs r) pair of None \<Rightarrow> Done [] | Some ring \<Rightarrow> ring_snapshot (rb_cap r) mx ring)"

definition Ring_Size :: "string \<Rightarrow> RingBuffer \<Rightarrow> nat" where
  "Ring_Size pair r =
     (case map_of (rb_pairs r) pair of
        None \<Rightarrow> 0
      | Some ring \<Rightarrow> if pr_full ring then rb_cap r else pr_next ring)"

definition Ring_Pairs :: "RingBuffer \<Rightarrow> string list" where
  "Ring_Pairs r = map fst (rb_pairs r)"

section \<open>Timeframes and bars\<close>

abbreviation (input) go_second :: int where "go_second \<equiv> 1000000000"

definition AllTimeframes :: "string list" where
  "AllTimeframes = [''1s'', ''30s'', ''1m'', ''5m'', ''15m'', ''1h'', ''4h'', ''1d'']"

definition PersistentTimeframes :: "string list" where
  "PersistentTimeframes = [''1m'', ''5m'', ''15m'', ''1h'', ''4h'', ''1d'']"

definition TF_Duration :: "string \<Rightarrow> int" where
  "TF_Duration t =
     (if t = ''1s'' then go_second else if t = ''30s'' then 30 * go_second
      else if t = ''1m'' then 60 * go_second else if t = ''5m'' then 300 * go_second
      else if t = ''15m'' then 900 * go_second else if t = ''1h'' then 3600 * go_second
      else if t = ''4h'' then 14400 * go_second else if t = ''1d'' then 86400 * go_second else 0)"

definition Persistent :: "string \<Rightarrow> bool" where
  "Persistent t \<longleftrightarrow> (if t = ''1s'' \<or> t = ''30s'' then False else TF_Duration t > 0)"

text \<open>Truncate rounds down to a multiple of d since the zero time.\<close>

definition BucketStart :: "string \<Rightarrow> int \<Rightarrow> int" where
  "BucketStart t ts = (let d = TF_Duration t in if d \<le> 0 then ts else ts - (ts - go_zero_time) mod d)"

definition TF_Validate :: "string \<Rightarrow> bool" where
  "TF_Validate t \<longleftrightarrow> \<not> TF_Duration t \<le> 0"

record Bar =
  b_Pair :: string
  b_TF :: string
  b_OpenedAt :: int
  b_ClosedAt :: int
  b_OpenBid :: float64
  b_OpenAsk :: float64
  b_HighBid :: float64
  b_HighAsk :: float64
  b_LowBid :: float64
  b_LowAsk :: float64
  b_CloseBid :: float64
  b_CloseAsk :: float64
  b_TickCount :: nat

definition NewBar :: "string \<Rightarrow> Quote \<Rightarrow> Bar" where
  "NewBar tf q =
     \<lparr>b_Pair = qt_Pair q, b_TF = tf, b_OpenedAt = BucketStart tf (qt_TS q), b_ClosedAt = go_zero_time,
      b_OpenBid = qt_Bid q, b_OpenAsk = qt_Ask q, b_HighBid = qt_Bid q, b_HighAsk = qt_Ask q,
      b_LowBid = qt_Bid q, b_LowAsk = qt_Ask q, b_CloseBid = qt_Bid q, b_CloseAsk = qt_Ask q,
      b_TickCount = 1\<rparr>"

definition Bar_Update :: "Quote \<Rightarrow> Bar \<Rightarrow> Bar" where
  "Bar_Update q b =
     b\<lparr>b_HighBid := (if f_lt (b_HighBid b) (qt_Bid q) then qt_Bid q else b_HighBid b),
       b_LowBid := (if f_lt (qt_Bid q) (b_LowBid b) then qt_Bid q else b_LowBid b),
       b_HighAsk := (if f_lt (b_HighAsk b) (qt_Ask q) then qt_Ask q else b_HighAsk b),
       b_LowAsk := (if f_lt (qt_Ask q) (b_LowAsk b) then qt_Ask q else b_LowAsk b),
       b_CloseBid := qt_Bid q, b_CloseAsk := qt_Ask q, b_TickCount := b_TickCount b + 1\<rparr>"

definition Bar_Close :: "Bar \<Rightarrow> Bar" where
  "Bar_Close b = b\<lparr>b_ClosedAt := b_OpenedAt b + TF_Duration (b_TF b)\<rparr>"

definition Bar_Contains :: "int \<Rightarrow> Bar \<Rightarrow> bool" where
  "Bar_Contains ts b \<longleftrightarrow> b_OpenedAt b \<le> ts \<and> ts < b_OpenedAt b + TF_Duration (b_TF b)"

section \<open>Symbols\<close>

record SymbolEntry =
  sy_Symbol :: string
  sy_Pair :: string
  sy_Active :: bool

record SymbolMap =
  sm_bySymbol :: "(string \<times> SymbolEntry) list"
  sm_byPair :: "(string \<times> string) list"

definition SymbolMap_Replace :: "SymbolEntry list \<Rightarrow> SymbolMap" where
  "SymbolMap_Replace entries =
     fold (\<lambda>e d. d\<lparr>sm_bySymbol := AList.update (sy_Symbol e) e (sm_bySymbol d),
                    sm_byPair := AList.update (sy_Pair e) (sy_Symbol e) (sm_byPair d)\<rparr>)
       entries \<lparr>sm_bySymbol = [], sm_byPair = []\<rparr>"

definition NewSymbolMap :: SymbolMap where
  "NewSymbolMap = SymbolMap_Replace []"

text \<open>The results pair, active and found.\<close>

definition Symbol_Lookup :: "SymbolMap \<Rightarrow> string \<Rightarrow> string \<times> bool \<times> bool" where
  "Symbol_Lookup d symbol =
     (case map_of (sm_bySymbol d) symbol of
        None \<Rightarrow> ([], False, False)
      | Some e \<Rightarrow> (sy_Pair e, sy_Active e, True))"

definition Symbol_Reverse :: "SymbolMap \<Rightarrow> string \<Rightarrow> string option" where
  "Symbol_Reverse d pair = map_of (sm_byPair d) pair"

definition Symbol_All :: "SymbolMap \<Rightarrow> SymbolEntry list" where
  "Symbol_All d = map snd (sm_bySymbol d)"

definition Symbol_Size :: "SymbolMap \<Rightarrow> nat" where
  "Symbol_Size d = length (sm_bySymbol d)"

datatype symbol_error = ErrSymbolEmpty | ErrPairEmpty | ErrPairFormat

definition validPair :: "string \<Rightarrow> bool" where
  "validPair s =
     (case IndexByte s (CHR ''/'') of
        None \<Rightarrow> False
      | Some slash \<Rightarrow> \<not> (slash = 0 \<or> int slash \<ge> int (length s) - 1) \<and> count_list s (CHR ''/'') = 1)"

definition SymbolEntry_Validate :: "SymbolEntry \<Rightarrow> symbol_error option" where
  "SymbolEntry_Validate e =
     (if TrimSpace (sy_Symbol e) = [] then Some ErrSymbolEmpty
      else if sy_Pair e = [] then Some ErrPairEmpty
      else if \<not> validPair (sy_Pair e) then Some ErrPairFormat
      else None)"

section \<open>The ring buffer keeps the most recent quotes\<close>

text \<open>The ring of a pair represents the history of its quotes: the write position and the wrap flag
  follow from its length, and the last \<open>c\<close> quotes stand at their positions modulo \<open>c\<close>.\<close>

definition ring_repr :: "nat \<Rightarrow> Quote list \<Rightarrow> pairRing \<Rightarrow> bool" where
  "ring_repr c h ring \<longleftrightarrow> 0 < c \<and> length (pr_data ring) = c \<and> pr_next ring = length h mod c \<and>
     (pr_full ring \<longleftrightarrow> c \<le> length h) \<and>
     (\<forall>j < length h. length h \<le> j + c \<longrightarrow> pr_data ring ! (j mod c) = h ! j)"

definition last_quotes :: "nat \<Rightarrow> Quote list \<Rightarrow> Quote list" where
  "last_quotes n h = drop (length h - n) h"

lemma ring_repr_empty:
  "0 < c \<Longrightarrow> ring_repr c [] \<lparr>pr_data = replicate c zero_Quote, pr_next = 0, pr_full = False\<rparr>"
  by (simp add: ring_repr_def)

lemma mod_cong_window: "i < n \<Longrightarrow> n \<le> i + c \<Longrightarrow> i mod c = n mod c \<Longrightarrow> n = i + (c :: nat)"
proof -
  assume a: "i < n" "n \<le> i + c" "i mod c = n mod c"
  then have "c dvd n - i" by (metis less_imp_le mod_eq_dvd_iff_nat)
  moreover have "0 < n - i" "n - i \<le> c" using a by auto
  ultimately have "n - i = c" by (meson dvd_imp_le le_antisym)
  then show ?thesis using a by simp
qed

lemma ring_repr_put: "ring_repr c h ring \<Longrightarrow> ring_repr c (h @ [q]) (ring_put c q ring)"
proof -
  assume r: "ring_repr c h ring"
  then have c: "0 < c" "length (pr_data ring) = c" "pr_next ring = length h mod c" by (simp_all add: ring_repr_def)
  have dat: "pr_data (ring_put c q ring) = (pr_data ring)[length h mod c := q]"
    using c by (simp add: ring_put_def Let_def)
  have nxt: "pr_next (ring_put c q ring) = Suc (length h) mod c"
    using c mod_less_divisor [of c "length h"] unfolding ring_put_def Let_def mod_Suc by (auto simp: le_Suc_eq not_le)
  have "Suc (length h mod c) \<ge> c \<or> c \<le> length h \<longleftrightarrow> c \<le> Suc (length h)"
    using c mod_less_eq_dividend [of "length h" c] by (cases "length h < c") auto
  then have ful: "pr_full (ring_put c q ring) \<longleftrightarrow> c \<le> Suc (length h)"
    using r c by (auto simp: ring_put_def Let_def ring_repr_def)
  have "(pr_data ring)[length h mod c := q] ! (j mod c) = (h @ [q]) ! j"
    if j: "j < Suc (length h)" "Suc (length h) \<le> j + c" for j
  proof (cases "j = length h")
    case True
    then show ?thesis using c by simp
  next
    case False
    then have "j mod c \<noteq> length h mod c" using j mod_cong_window [of j "length h" c] by auto
    then show ?thesis using r j False by (auto simp: ring_repr_def nth_append)
  qed
  then show ?thesis using c ful by (simp add: ring_repr_def dat nxt)
qed

text \<open>Reading \<open>m\<close> slots of a full ring from \<open>start\<close>, around the end where needed.\<close>

lemma ring_window:
  assumes "length d = c" "start < c" "m \<le> c" "length w = m" "\<And>i. i < m \<Longrightarrow> w ! i = d ! ((start + i) mod c)"
  shows "start + m \<le> c \<Longrightarrow> bslice d start (start + m) = w"
    and "\<not> start + m \<le> c \<Longrightarrow> drop start d @ take (m - (c - start)) d = w"
proof -
  assume fits: "start + m \<le> c"
  show "bslice d start (start + m) = w"
    using assms fits by (intro nth_equalityI) (simp_all add: bslice_def)
next
  assume wraps: "\<not> start + m \<le> c"
  show "drop start d @ take (m - (c - start)) d = w"
  proof (rule nth_equalityI)
    show l: "length (drop start d @ take (m - (c - start)) d) = length w" using assms wraps by simp
    fix i assume "i < length (drop start d @ take (m - (c - start)) d)"
    then have i: "i < m" using l assms(4) by simp
    have "(start + i) mod c = (if start + i < c then start + i else i + start - c)"
      using assms(2,3) i by (simp add: mod_if le_mod_geq add.commute)
    then show "(drop start d @ take (m - (c - start)) d) ! i = w ! i"
      using assms i wraps by (auto simp: nth_append)
  qed
qed

lemma ring_snapshot_repr:
  assumes r: "ring_repr c h ring"
  defines "have \<equiv> min c (length h)"
  shows "ring_snapshot c mx ring = Done (last_quotes (if mx \<le> 0 then have else min have (nat mx)) h)"
proof -
  define m where "m = (if mx \<le> 0 then have else min have (nat mx))"
  have c: "0 < c" "length (pr_data ring) = c" "pr_next ring = length h mod c" "pr_full ring \<longleftrightarrow> c \<le> length h"
    and win: "\<And>j. j < length h \<Longrightarrow> length h \<le> j + c \<Longrightarrow> pr_data ring ! (j mod c) = h ! j"
    using r by (auto simp: ring_repr_def)
  have hv: "(if pr_full ring then c else pr_next ring) = have" using c by (auto simp: have_def)
  have m: "(if mx \<le> 0 \<or> mx > int have then have else nat mx) = m" by (auto simp: m_def min_def)
  have mle: "m \<le> c" "m \<le> length h" by (auto simp: m_def have_def)
  have at: "last_quotes m h ! i = pr_data ring ! ((length h - m + i) mod c)" if "i < m" for i
    using that mle win [of "length h - m + i"] by (simp add: last_quotes_def)
  have len: "length (last_quotes m h) = m" using mle by (simp add: last_quotes_def)
  note unf = m_def [symmetric] ring_snapshot_def hv m Let_def
  consider "m = 0" | "m \<noteq> 0" "\<not> pr_full ring" | "m \<noteq> 0" "pr_full ring" by blast
  then show ?thesis
  proof cases
    case 1
    then show ?thesis unfolding unf by (simp add: last_quotes_def)
  next
    case 2
    then have "length h < c" using c by simp
    then have "bslice (pr_data ring) (length h - m) (length h) = last_quotes m h"
      using mle c(2) len at by (intro nth_equalityI) (auto simp: bslice_def)
    then show ?thesis unfolding unf using 2 c mle \<open>length h < c\<close> by (simp add: go_slice_def)
  next
    case 3
    define start where "start = nat ((int (pr_next ring) - int m + int c) mod int c)"
    have "(int (pr_next ring) - int m + int c) mod int c = (int (length h) - int m) mod int c"
      using c(3) by (simp add: zmod_int mod_diff_left_eq)
    also have "\<dots> = int ((length h - m) mod c)" using mle by (simp add: zmod_int of_nat_diff)
    finally have st: "start = (length h - m) mod c" by (simp add: start_def)
    then have sc: "start < c" and at': "\<And>i. i < m \<Longrightarrow> last_quotes m h ! i = pr_data ring ! ((start + i) mod c)"
      using c at by (simp_all add: mod_add_left_eq)
    show ?thesis
      unfolding unf start_def [symmetric]
      using 3 c(2) sc mle ring_window [OF c(2) sc mle(1) len at']
      by (cases "start + m \<le> c") (simp_all add: go_slice_def bslice_def)
  qed
qed

text \<open>Every pair of the buffer has its own ring.\<close>

definition buffer_repr :: "nat \<Rightarrow> Quote list \<Rightarrow> RingBuffer \<Rightarrow> bool" where
  "buffer_repr c qs r \<longleftrightarrow> 0 < c \<and> rb_cap r = c \<and>
     (\<forall>p. case map_of (rb_pairs r) p of
        None \<Rightarrow> filter (\<lambda>q. qt_Pair q = p) qs = []
      | Some ring \<Rightarrow> ring_repr c (filter (\<lambda>q. qt_Pair q = p) qs) ring)"

lemma buffer_repr_add: "buffer_repr c qs r \<Longrightarrow> buffer_repr c (qs @ [q]) (Ring_Add q r)"
proof -
  assume b: "buffer_repr c qs r"
  have "ring_repr c (filter (\<lambda>x. qt_Pair x = qt_Pair q) qs) (fst (getOrCreate (qt_Pair q) r))"
  proof (cases "map_of (rb_pairs r) (qt_Pair q)")
    case None
    then have "filter (\<lambda>x. qt_Pair x = qt_Pair q) qs = []" "0 < c" "rb_cap r = c"
      using b unfolding buffer_repr_def by (auto dest: spec [of _ "qt_Pair q"])
    then show ?thesis using None by (simp add: getOrCreate_def Let_def ring_repr_empty del: filter_empty_conv)
  next
    case (Some ring)
    then show ?thesis using b unfolding buffer_repr_def by (auto simp: getOrCreate_def dest: spec [of _ "qt_Pair q"])
  qed
  then have put: "ring_repr c (filter (\<lambda>x. qt_Pair x = qt_Pair q) (qs @ [q])) (ring_put c q (fst (getOrCreate (qt_Pair q) r)))"
    using ring_repr_put by simp
  have cap: "0 < c" "rb_cap r = c" and old: "\<And>p. case map_of (rb_pairs r) p of
      None \<Rightarrow> filter (\<lambda>q. qt_Pair q = p) qs = []
    | Some ring \<Rightarrow> ring_repr c (filter (\<lambda>q. qt_Pair q = p) qs) ring" using b unfolding buffer_repr_def by blast+
  have look: "map_of (rb_pairs (Ring_Add q r)) p =
      (if p = qt_Pair q then Some (ring_put c q (fst (getOrCreate (qt_Pair q) r))) else map_of (rb_pairs r) p)" for p
    using cap by (auto simp: Ring_Add_def getOrCreate_def Let_def split: option.splits)
  have "rb_cap (Ring_Add q r) = c" using cap by (simp add: Ring_Add_def getOrCreate_def Let_def split: option.splits)
  moreover have "case map_of (rb_pairs (Ring_Add q r)) p of
      None \<Rightarrow> filter (\<lambda>q. qt_Pair q = p) (qs @ [q]) = []
    | Some ring \<Rightarrow> ring_repr c (filter (\<lambda>q. qt_Pair q = p) (qs @ [q])) ring" for p
  proof (cases "p = qt_Pair q")
    case True
    then show ?thesis unfolding look using put by simp
  next
    case False
    then have "filter (\<lambda>x. qt_Pair x = p) (qs @ [q]) = filter (\<lambda>x. qt_Pair x = p) qs" by simp
    then show ?thesis unfolding look using False old [of p] by (simp only: if_False)
  qed
  ultimately show ?thesis unfolding buffer_repr_def using cap by blast
qed

lemma buffer_repr_fold: "0 < c \<Longrightarrow> buffer_repr c qs (fold Ring_Add qs \<lparr>rb_cap = c, rb_pairs = []\<rparr>)"
proof (induction qs rule: rev_induct)
  case Nil
  then show ?case by (simp add: buffer_repr_def)
next
  case (snoc q qs)
  then show ?case by (simp add: buffer_repr_add)
qed

text \<open>A ring buffer with a positive capacity, filled by any sequence of quotes of any pairs, returns
  for a pair exactly its most recent quotes in the order of their arrival: as many as asked for,
  or all that are kept when the number asked for is not positive, and never more than the capacity or
  than arrived.  No slice is out of range, and the reported size is the number of quotes kept.\<close>

theorem ring_keeps_latest:
  fixes qs :: "Quote list" and r0 :: RingBuffer and p :: string
  assumes "0 < n" "NewRingBuffer n = (Done r0 :: (unit, RingBuffer) outcome)"
  defines "r \<equiv> fold Ring_Add qs r0"
    and "h \<equiv> filter (\<lambda>q. qt_Pair q = p) qs"
  shows "(Ring_Snapshot p mx r :: (unit, Quote list) outcome) =
       Done (last_quotes (if mx \<le> 0 then nat n else min (nat n) (nat mx)) h) \<and>
     Ring_Size p r = min (nat n) (length h)"
proof -
  have c: "buffer_repr (nat n) qs r"
    using assms buffer_repr_fold [of "nat n" qs] by (auto simp: NewRingBuffer_def)
  have last: "last_quotes (if mx \<le> 0 then min c (length h) else min (min c (length h)) (nat mx)) h =
      last_quotes (if mx \<le> 0 then c else min c (nat mx)) h" for c
    by (auto simp: last_quotes_def min_def)
  show ?thesis
  proof (cases "map_of (rb_pairs r) p")
    case None
    then have "h = []" using c unfolding buffer_repr_def h_def by (auto dest: spec [of _ p])
    then show ?thesis using None by (simp add: Ring_Snapshot_def Ring_Size_def last_quotes_def)
  next
    case (Some ring)
    then have "ring_repr (nat n) h ring" "rb_cap r = nat n"
      using c unfolding buffer_repr_def h_def by (auto dest: spec [of _ p])
    moreover from this have "(if pr_full ring then nat n else pr_next ring) = min (nat n) (length h)"
      by (auto simp: ring_repr_def)
    ultimately show ?thesis
      using Some unfolding Ring_Snapshot_def Ring_Size_def by (simp only: option.case ring_snapshot_repr last)
  qed
qed

definition sample_quote :: "nat \<Rightarrow> Quote" where
  "sample_quote k = zero_Quote\<lparr>qt_Pair := ''USD/KRW'', qt_TS := int k\<rparr>"

theorem ring_keeps_latest_witness:
  "(Ring_Snapshot ''USD/KRW'' 2 (fold Ring_Add (map sample_quote [0..<5]) \<lparr>rb_cap = 3, rb_pairs = []\<rparr>) :: (unit, Quote list) outcome)
     = Done [sample_quote 3, sample_quote 4]"
  using ring_keeps_latest [of 3 "\<lparr>rb_cap = 3, rb_pairs = []\<rparr>" "''USD/KRW''" 2 "map sample_quote [0..<5]"]
  by (simp add: NewRingBuffer_def last_quotes_def sample_quote_def upt_rec)

end
