(* ===== verification/Price_Ticks.thy ===== *)
theory Price_Ticks
  imports Mymq_Client Quote_Data
begin

text \<open>
  The way of a tick into mci-price: the pushdata record of src/pkg/quote/pushdata.go and its decoder
  (src/internal/price/decoder.go), the JSON envelope and its check (src/pkg/quote/codec.go), the removal
  of duplicates from two active forwarders (tick_dedup.go), the table of latest ticks (conflation.go),
  the latency counters (latency.go), the warm-up gate (readiness.go) and the ingestion of a message
  (handleUnsolicited and IngestEnvelopes of server.go).  encoding/json is an argument; the consumers of
  a tick are represented by the list of ticks handed to them.
\<close>

section \<open>The pushdata record\<close>

abbreviation (input) LSymb :: nat where "LSymb \<equiv> 20"
abbreviation (input) MaxPushLen :: nat where "MaxPushLen \<equiv> 1512"
abbreviation (input) PushdataSize :: nat where "PushdataSize \<equiv> 1552"

record PushdataOptions =
  po_MarketID :: u64
  po_SeqNum :: u32
  po_Symbol :: string
  po_Mask :: u32
  po_Type :: byte
  po_Flag :: byte

record Tick =
  tk_MarketID :: u64
  tk_Symbol :: string
  tk_SeqNum :: u32
  tk_Mask :: u32
  tk_Type :: byte
  tk_Flag :: byte
  tk_Body :: bytes
  tk_Received :: int
  tk_Source :: string

datatype push_error = ErrPushdataPayloadTooLong | ErrTooShortPushData | ErrBatchEmpty | ErrMarshal

definition putU64 :: "u64 \<Rightarrow> bytes" where
  "putU64 v = putU32 (ucast (drop_bit 32 v)) @ putU32 (ucast v)"

definition getU64 :: "bytes \<Rightarrow> u64" where
  "getU64 b = push_bit 32 (ucast (getU32 (take 4 b))) OR ucast (getU32 (drop 4 b))"

text \<open>The fields are written one after the other; a symbol that is shorter than its field leaves the
  zeros of the fresh buffer.\<close>

definition EncodePushdata :: "PushdataOptions \<Rightarrow> bytes \<Rightarrow> (push_error, bytes) outcome" where
  "EncodePushdata opts payload =
     (if length payload > MaxPushLen then Fail ErrPushdataPayloadTooLong
      else Done (writes (replicate PushdataSize 0)
        [(0, putU64 (po_MarketID opts)),
         (8, putU32 (po_SeqNum opts)),
         (12, padCopyString LSymb (str_bytes (po_Symbol opts))),
         (32, putU32 (po_Mask opts)),
         (36, [po_Type opts]),
         (37, [po_Flag opts]),
         (38, putU16 (word_of_nat (length payload))),
         (40, payload)]))"

definition DecodePushData :: "int \<Rightarrow> bytes \<Rightarrow> (push_error, Tick) outcome" where
  "DecodePushData now raw =
     (if length raw < PushdataSize then Fail ErrTooShortPushData
      else (let msgl0 = unat (getU16 (bslice raw 38 40));
                msgl1 = (if msgl0 > MaxPushLen then MaxPushLen else msgl0);
                msgl = (if 40 + msgl1 > length raw then length raw - 40 else msgl1)
            in Done \<lparr>tk_MarketID = getU64 (bslice raw 0 8), tk_Symbol = bytes_str (trimNul (bslice raw 12 32)),
                     tk_SeqNum = getU32 (bslice raw 8 12), tk_Mask = getU32 (bslice raw 32 36),
                     tk_Type = raw ! 36, tk_Flag = raw ! 37, tk_Body = bslice raw 40 (40 + msgl),
                     tk_Received = now, tk_Source = []\<rparr>))"

section \<open>JSON envelopes\<close>

record JSONEnvelope =
  je_Sym :: string
  je_Bid :: float64
  je_Ask :: float64
  je_TS :: int
  je_Src :: string
  je_Seq :: u64
  je_Last :: float64
  je_LastQty :: float64
  je_BidSize :: float64
  je_AskSize :: float64

datatype env_err = ErrEnvelopeEmpty | ErrJSON | ErrEnvelopeMissingSym | ErrEnvelopeInvalidBidAsk

definition byte_space :: "byte \<Rightarrow> bool" where
  "byte_space b \<longleftrightarrow> b = 32 \<or> (9 \<le> b \<and> b \<le> 13)"

definition trim_nuls :: "bytes \<Rightarrow> bytes" where
  "trim_nuls b = rev (dropWhile (\<lambda>x. x = 0) (rev b))"

definition trim_spaces :: "bytes \<Rightarrow> bytes" where
  "trim_spaces b = rev (dropWhile byte_space (rev (dropWhile byte_space b)))"

definition check_envelope :: "JSONEnvelope \<Rightarrow> env_err + JSONEnvelope" where
  "check_envelope env =
     (if je_Sym env = [] then Inl ErrEnvelopeMissingSym
      else if f_le (je_Bid env) f_zero \<or> f_le (je_Ask env) f_zero \<or> f_lt (je_Ask env) (je_Bid env)
        then Inl ErrEnvelopeInvalidBidAsk
      else Inr env)"

definition DecodeJSONEnvelope :: "(bytes \<Rightarrow> JSONEnvelope option) \<Rightarrow> bytes \<Rightarrow> env_err + JSONEnvelope" where
  "DecodeJSONEnvelope unmarshal body =
     (if body = [] then Inl ErrEnvelopeEmpty
      else (let b = trim_spaces (trim_nuls body)
            in if b = [] then Inl ErrEnvelopeEmpty
               else (case unmarshal b of None \<Rightarrow> Inl ErrJSON | Some env \<Rightarrow> check_envelope env)))"

text \<open>A batch is an array of envelopes, which is not checked; a single envelope is.\<close>

definition ParseEnvelopes ::
  "(bytes \<Rightarrow> JSONEnvelope option) \<Rightarrow> (bytes \<Rightarrow> JSONEnvelope list option) \<Rightarrow> bytes \<Rightarrow> env_err + JSONEnvelope list" where
  "ParseEnvelopes unmarshal unmarshalArray body0 =
     (let body = dropWhile (\<lambda>b. b = 32 \<or> b = 9 \<or> b = 13 \<or> b = 10) (trim_nuls body0)
      in case body of
           [] \<Rightarrow> Inl ErrEnvelopeEmpty
         | b # _ \<Rightarrow>
             if b = 0x5B then (case unmarshalArray body of None \<Rightarrow> Inl ErrJSON | Some arr \<Rightarrow> Inr arr)
             else (case DecodeJSONEnvelope unmarshal body of Inl e \<Rightarrow> Inl e | Inr env \<Rightarrow> Inr [env]))"

text \<open>The decoder that the consumers use: bid, ask and the two sizes of a valid envelope.\<close>

definition JSONCookerDecoder ::
  "(bytes \<Rightarrow> JSONEnvelope option) \<Rightarrow> bytes \<Rightarrow> (float64 \<times> float64 \<times> float64 \<times> float64) option" where
  "JSONCookerDecoder unmarshal body =
     (case DecodeJSONEnvelope unmarshal body of
        Inl _ \<Rightarrow> None
      | Inr env \<Rightarrow> Some (je_Bid env, je_Ask env, je_BidSize env, je_AskSize env))"

text \<open>The producers of pushdata: one envelope, or several as an array under the symbol of the first.\<close>

definition envelope_options :: "JSONEnvelope \<Rightarrow> PushdataOptions" where
  "envelope_options env =
     \<lparr>po_MarketID = 0, po_SeqNum = ucast (je_Seq env), po_Symbol = je_Sym env, po_Mask = 0, po_Type = 0, po_Flag = 0\<rparr>"

definition EncodePushdataBatch ::
  "(JSONEnvelope list \<Rightarrow> bytes option) \<Rightarrow> JSONEnvelope list \<Rightarrow> (push_error, bytes) outcome" where
  "EncodePushdataBatch marshalArray envs =
     (case envs of
        [] \<Rightarrow> Fail ErrBatchEmpty
      | first # _ \<Rightarrow>
          (case marshalArray envs of
             None \<Rightarrow> Fail ErrMarshal
           | Some body \<Rightarrow> EncodePushdata (envelope_options first) body))"

definition EncodePushdataV1 ::
  "(JSONEnvelope \<Rightarrow> bytes option) \<Rightarrow> JSONEnvelope \<Rightarrow> (push_error, bytes) outcome" where
  "EncodePushdataV1 marshal env =
     (case marshal env of
        None \<Rightarrow> Fail ErrMarshal
      | Some body \<Rightarrow> EncodePushdata (envelope_options env) body)"

section \<open>Duplicates\<close>

type_synonym tickDedup = "(string \<times> u64) list"

abbreviation (input) tickResetGap :: u64 where "tickResetGap \<equiv> 65536"

definition dedup_seen :: "string \<Rightarrow> u64 \<Rightarrow> tickDedup \<Rightarrow> bool \<times> tickDedup" where
  "dedup_seen src seq d =
     (if src = [] \<or> seq = 0 then (False, d)
      else (case map_of d src of
          None \<Rightarrow> (False, AList.update src seq d)
        | Some h \<Rightarrow>
            if seq > h then (False, AList.update src seq d)
            else if h - seq \<ge> tickResetGap then (False, AList.update src seq d)
            else (True, d)))"

section \<open>Latest ticks, latency, readiness\<close>

record Conflation =
  cf_bySymbol :: "(string \<times> Tick) list"
  cf_totalUpdate :: u64
  cf_totalSwap :: u64
  cf_totalSeen :: u64

definition NewConflation :: Conflation where
  "NewConflation = \<lparr>cf_bySymbol = [], cf_totalUpdate = 0, cf_totalSwap = 0, cf_totalSeen = 0\<rparr>"

definition Conflation_Update :: "Tick option \<Rightarrow> Conflation \<Rightarrow> Tick option \<times> Conflation" where
  "Conflation_Update tk c =
     (case tk of
        None \<Rightarrow> (None, c)
      | Some t \<Rightarrow>
          (let c1 = c\<lparr>cf_totalUpdate := cf_totalUpdate c + 1,
                       cf_bySymbol := AList.update (tk_Symbol t) t (cf_bySymbol c)\<rparr>
           in case map_of (cf_bySymbol c) (tk_Symbol t) of
                Some prev \<Rightarrow> (Some prev, c1\<lparr>cf_totalSwap := cf_totalSwap c1 + 1\<rparr>)
              | None \<Rightarrow> (None, c1\<lparr>cf_totalSeen := cf_totalSeen c1 + 1\<rparr>)))"

definition Conflation_Latest :: "string \<Rightarrow> Conflation \<Rightarrow> Tick option" where
  "Conflation_Latest symbol c = map_of (cf_bySymbol c) symbol"

definition SymbolCount :: "Conflation \<Rightarrow> u64" where
  "SymbolCount c = cf_totalSeen c"

record LatencyTracker =
  lt_count :: u64
  lt_sumNs :: u64
  lt_maxNs :: u64
  lt_negative :: u64
  lt_LT1ms :: u64
  lt_LT10ms :: u64
  lt_LT100ms :: u64
  lt_LT1s :: u64
  lt_GE1s :: u64

definition latency_bucket :: "int \<Rightarrow> LatencyTracker \<Rightarrow> LatencyTracker" where
  "latency_bucket delta t =
     (if delta < 1000000 then t\<lparr>lt_LT1ms := lt_LT1ms t + 1\<rparr>
      else if delta < 10000000 then t\<lparr>lt_LT10ms := lt_LT10ms t + 1\<rparr>
      else if delta < 100000000 then t\<lparr>lt_LT100ms := lt_LT100ms t + 1\<rparr>
      else if delta < 1000000000 then t\<lparr>lt_LT1s := lt_LT1s t + 1\<rparr>
      else t\<lparr>lt_GE1s := lt_GE1s t + 1\<rparr>)"

definition Latency_Observe :: "int \<Rightarrow> int \<Rightarrow> LatencyTracker \<Rightarrow> LatencyTracker" where
  "Latency_Observe producerTS now t =
     (if producerTS = go_zero_time then t
      else (let delta = now - producerTS
            in if delta < 0 then t\<lparr>lt_negative := lt_negative t + 1\<rparr>
               else (let ns = word_of_int delta
                     in latency_bucket delta (t\<lparr>lt_count := lt_count t + 1, lt_sumNs := lt_sumNs t + ns,
                          lt_maxNs := (if ns \<le> lt_maxNs t then lt_maxNs t else ns)\<rparr>))))"

record LatencySnapshot =
  ls_tracker :: LatencyTracker
  ls_AvgNs :: u64
  ls_AvgMs :: float64
  ls_MaxMs :: float64

definition Latency_Snapshot :: "LatencyTracker \<Rightarrow> LatencySnapshot" where
  "Latency_Snapshot t =
     (let avgNs = (if lt_count t > 0 then lt_sumNs t div lt_count t else 0)
      in \<lparr>ls_tracker = t, ls_AvgNs = avgNs, ls_AvgMs = f_div (f_of_int (uint avgNs)) (f_of_int 1000000),
          ls_MaxMs = f_div (f_of_int (uint (lt_maxNs t))) (f_of_int 1000000)\<rparr>)"

record readiness =
  rd_start :: int
  rd_warmup :: int
  rd_maxWarmup :: int
  rd_ticks :: nat
  rd_ready :: bool

definition markTick :: "readiness \<Rightarrow> readiness" where
  "markTick r = r\<lparr>rd_ticks := rd_ticks r + 1\<rparr>"

definition isReady :: "int \<Rightarrow> readiness \<Rightarrow> bool \<times> readiness" where
  "isReady now r =
     (if rd_ready r then (True, r)
      else (let elapsed = now - rd_start r
            in if (elapsed \<ge> rd_warmup r \<and> rd_ticks r > 0) \<or> elapsed \<ge> rd_maxWarmup r
               then (True, r\<lparr>rd_ready := True\<rparr>) else (False, r)))"

section \<open>Ingestion\<close>

record PriceServer =
  sv_ExchangeName :: bytes
  sv_conflation :: Conflation
  sv_dedup :: "tickDedup option"
  sv_ready :: readiness
  sv_latency :: LatencyTracker
  sv_totalRecv :: u64
  sv_totalMatch :: u64
  sv_totalDrop :: u64
  sv_totalTicks :: u64

definition sub_tick :: "int \<Rightarrow> bytes \<Rightarrow> JSONEnvelope \<Rightarrow> Tick \<Rightarrow> Tick" where
  "sub_tick received encBody env base =
     (let seqNum = (ucast (je_Seq env) :: u32)
      in \<lparr>tk_MarketID = tk_MarketID base, tk_Symbol = je_Sym env,
          tk_SeqNum = (if seqNum = 0 then tk_SeqNum base else seqNum), tk_Mask = tk_Mask base,
          tk_Type = tk_Type base, tk_Flag = tk_Flag base, tk_Body = encBody, tk_Received = received,
          tk_Source = je_Src env\<rparr>)"

text \<open>One round of the loop of IngestEnvelopes; \<open>received\<close> is the reading of the clock for the tick.\<close>

definition ingest_one ::
  "(JSONEnvelope \<Rightarrow> bytes option) \<Rightarrow> int \<Rightarrow> int \<Rightarrow> Tick \<Rightarrow> JSONEnvelope \<Rightarrow> PriceServer \<Rightarrow> Tick list \<times> PriceServer" where
  "ingest_one marshal ingressTS received base env s =
     (let (dup, dd) = (case sv_dedup s of
              None \<Rightarrow> (False, None)
            | Some d \<Rightarrow> (let (b, d') = dedup_seen (je_Src env) (je_Seq env) d in (b, Some d')));
          s1 = s\<lparr>sv_dedup := dd\<rparr>
      in if dup then ([], s1\<lparr>sv_totalDrop := sv_totalDrop s1 + 1\<rparr>)
         else (let s2 = s1\<lparr>sv_ready := markTick (sv_ready s1),
                           sv_latency := Latency_Observe (je_TS env) ingressTS (sv_latency s1)\<rparr>
               in case marshal env of
                    None \<Rightarrow> ([], s2\<lparr>sv_totalDrop := sv_totalDrop s2 + 1\<rparr>)
                  | Some encBody \<Rightarrow>
                      (let sub = sub_tick received encBody env base
                       in ([sub], s2\<lparr>sv_totalTicks := sv_totalTicks s2 + 1,
                                     sv_conflation := snd (Conflation_Update (Some sub) (sv_conflation s2))\<rparr>))))"

fun ingest_loop ::
  "(JSONEnvelope \<Rightarrow> bytes option) \<Rightarrow> int \<Rightarrow> (nat \<Rightarrow> int) \<Rightarrow> nat \<Rightarrow> Tick \<Rightarrow> JSONEnvelope list \<Rightarrow> PriceServer \<Rightarrow>
     Tick list \<times> PriceServer" where
  "ingest_loop marshal ingressTS clk k base [] s = ([], s)"
| "ingest_loop marshal ingressTS clk k base (env # envs) s =
     (let (out, s1) = ingest_one marshal ingressTS (clk k) base env s;
          (outs, s2) = ingest_loop marshal ingressTS clk (Suc k) base envs s1
      in (out @ outs, s2))"

definition IngestEnvelopes ::
  "(bytes \<Rightarrow> JSONEnvelope option) \<Rightarrow> (bytes \<Rightarrow> JSONEnvelope list option) \<Rightarrow> (JSONEnvelope \<Rightarrow> bytes option) \<Rightarrow>
     int \<Rightarrow> (nat \<Rightarrow> int) \<Rightarrow> bytes \<Rightarrow> Tick \<Rightarrow> PriceServer \<Rightarrow> Tick list \<times> PriceServer" where
  "IngestEnvelopes unmarshal unmarshalArray marshal ingressTS clk body base s =
     (case ParseEnvelopes unmarshal unmarshalArray body of
        Inl _ \<Rightarrow> ([], s\<lparr>sv_totalDrop := sv_totalDrop s + 1\<rparr>)
      | Inr envs \<Rightarrow> ingest_loop marshal ingressTS clk 0 base envs s)"

definition handleUnsolicited ::
  "(bytes \<Rightarrow> JSONEnvelope option) \<Rightarrow> (bytes \<Rightarrow> JSONEnvelope list option) \<Rightarrow> (JSONEnvelope \<Rightarrow> bytes option) \<Rightarrow>
     int \<Rightarrow> (nat \<Rightarrow> int) \<Rightarrow> Unsolicited \<Rightarrow> PriceServer \<Rightarrow> Tick list \<times> PriceServer" where
  "handleUnsolicited unmarshal unmarshalArray marshal now clk msg s =
     (if h_Func (us_Header msg) \<noteq> FCCast \<and> h_Func (us_Header msg) \<noteq> FCPush then ([], s)
      else if sv_ExchangeName s \<noteq> [] \<and>
          (case us_Prefix msg of None \<Rightarrow> True | Some p \<Rightarrow> ExchangeString p \<noteq> sv_ExchangeName s) then ([], s)
      else (let s1 = s\<lparr>sv_totalMatch := sv_totalMatch s + 1\<rparr>
            in case DecodePushData now (us_Body msg) of
                 Done tick \<Rightarrow> IngestEnvelopes unmarshal unmarshalArray marshal now clk (tk_Body tick) tick s1
               | _ \<Rightarrow> ([], s1\<lparr>sv_totalDrop := sv_totalDrop s1 + 1\<rparr>)))"

definition subscribe_receive ::
  "(bytes \<Rightarrow> JSONEnvelope option) \<Rightarrow> (bytes \<Rightarrow> JSONEnvelope list option) \<Rightarrow> (JSONEnvelope \<Rightarrow> bytes option) \<Rightarrow>
     int \<Rightarrow> (nat \<Rightarrow> int) \<Rightarrow> Unsolicited \<Rightarrow> PriceServer \<Rightarrow> Tick list \<times> PriceServer" where
  "subscribe_receive unmarshal unmarshalArray marshal now clk msg s =
     handleUnsolicited unmarshal unmarshalArray marshal now clk msg (s\<lparr>sv_totalRecv := sv_totalRecv s + 1\<rparr>)"

section \<open>Accepted envelopes\<close>

text \<open>JSON has no infinities and no NaN: a number that does not fit is an error.\<close>

definition json_finite :: "(bytes \<Rightarrow> JSONEnvelope option) \<Rightarrow> bool" where
  "json_finite unmarshal \<longleftrightarrow> (\<forall>b e. unmarshal b = Some e \<longrightarrow> f_finite (je_Bid e) \<and> f_finite (je_Ask e))"

lemma decoded_ok:
  assumes "json_finite unmarshal" "DecodeJSONEnvelope unmarshal body = Inr env"
  shows "f_lt f_zero (je_Bid env) \<and> f_le (je_Bid env) (je_Ask env)"
proof -
  have c: "check_envelope env = Inr env" "f_finite (je_Bid env)" "f_finite (je_Ask env)"
    using assms by (auto simp: DecodeJSONEnvelope_def Let_def json_finite_def check_envelope_def
      split: if_splits option.splits)
  show ?thesis using c f_kinds(2) f_lt_not_le [of f_zero "je_Bid env"] f_lt_not_le [of "je_Ask env" "je_Bid env"]
    by (auto simp: check_envelope_def split: if_splits)
qed

section \<open>The record is read back\<close>

lemma getU64_putU64 [simp]: "getU64 (putU64 v) = v"
proof -
  have "getU64 (putU64 v) = push_bit 32 (ucast (ucast (drop_bit 32 v) :: u32)) OR ucast (ucast v :: u32)"
    by (simp add: getU64_def putU64_def)
  also have "\<dots> = v"
    by (rule bit_word_eqI) (auto simp: bit_simps)
  finally show ?thesis .
qed

lemma length_putU64 [simp]: "length (putU64 v) = 8"
  by (simp add: putU64_def)

definition pushdata_image :: "PushdataOptions \<Rightarrow> bytes \<Rightarrow> bytes" where
  "pushdata_image opts payload =
     putU64 (po_MarketID opts) @ putU32 (po_SeqNum opts) @ padCopyString LSymb (str_bytes (po_Symbol opts)) @
     putU32 (po_Mask opts) @ [po_Type opts, po_Flag opts] @ putU16 (word_of_nat (length payload)) @ payload"

lemma EncodePushdata_image:
  "length payload \<le> MaxPushLen \<Longrightarrow>
   EncodePushdata opts payload = Done (pushdata_image opts payload @ replicate (MaxPushLen - length payload) 0)"
  by (simp add: EncodePushdata_def pushdata_image_def writes_contig del: writes.simps)

text \<open>A payload of at most 1512 bytes is encoded into a record of exactly 1552 bytes, and the decoder
  of the price server reads every field and the payload back from it; the symbol is cut to 20 bytes
  and read up to its first NUL byte.  A longer payload is refused, and so is a shorter record.\<close>

theorem pushdata_roundtrip:
  "(length payload \<le> 1512 \<longrightarrow>
     (\<exists>b. EncodePushdata opts payload = Done b \<and> length b = 1552 \<and>
        DecodePushData now b = Done \<lparr>tk_MarketID = po_MarketID opts,
          tk_Symbol = bytes_str (trimNul (take 20 (str_bytes (po_Symbol opts)))), tk_SeqNum = po_SeqNum opts,
          tk_Mask = po_Mask opts, tk_Type = po_Type opts, tk_Flag = po_Flag opts, tk_Body = payload,
          tk_Received = now, tk_Source = []\<rparr>)) \<and>
   (1512 < length payload \<longrightarrow> EncodePushdata opts payload = Fail ErrPushdataPayloadTooLong) \<and>
   (length raw < 1552 \<longrightarrow> DecodePushData now raw = Fail ErrTooShortPushData)"
proof (intro conjI impI)
  assume len: "length payload \<le> 1512"
  have l16: "unat (word_of_nat (length payload) :: u16) = length payload"
    using len by (simp add: unat_of_nat)
  have sy: "trimNul (padCopyString LSymb s) = trimNul (take 20 s)" for s
  proof -
    have "trimNul (a @ replicate k 0) = trimNul a" for a k by (induction a) (cases k, simp_all)
    then show ?thesis by (simp add: padCopyString_def)
  qed
  define b where "b = pushdata_image opts payload @ replicate (1512 - length payload) 0"
  have lb: "length b = 1552" using len by (simp add: b_def pushdata_image_def)
  have fields: "bslice b 38 40 = putU16 (word_of_nat (length payload))" "bslice b 0 8 = putU64 (po_MarketID opts)"
    "bslice b 8 12 = putU32 (po_SeqNum opts)" "bslice b 12 32 = padCopyString LSymb (str_bytes (po_Symbol opts))"
    "bslice b 32 36 = putU32 (po_Mask opts)" "b ! 36 = po_Type opts" "b ! 37 = po_Flag opts"
    "bslice b 40 (40 + length payload) = payload"
    by (simp_all add: b_def pushdata_image_def wire_simps)
  have "DecodePushData now b = Done \<lparr>tk_MarketID = po_MarketID opts,
          tk_Symbol = bytes_str (trimNul (take 20 (str_bytes (po_Symbol opts)))), tk_SeqNum = po_SeqNum opts,
          tk_Mask = po_Mask opts, tk_Type = po_Type opts, tk_Flag = po_Flag opts, tk_Body = payload,
          tk_Received = now, tk_Source = []\<rparr>"
    unfolding DecodePushData_def fields using len lb by (simp add: fields l16 sy)
  then show "\<exists>b. EncodePushdata opts payload = Done b \<and> length b = 1552 \<and>
        DecodePushData now b = Done \<lparr>tk_MarketID = po_MarketID opts,
          tk_Symbol = bytes_str (trimNul (take 20 (str_bytes (po_Symbol opts)))), tk_SeqNum = po_SeqNum opts,
          tk_Mask = po_Mask opts, tk_Type = po_Type opts, tk_Flag = po_Flag opts, tk_Body = payload,
          tk_Received = now, tk_Source = []\<rparr>"
    using lb EncodePushdata_image [OF len, of opts] unfolding b_def by blast
qed (simp_all add: EncodePushdata_def DecodePushData_def)

theorem pushdata_roundtrip_witness:
  "\<exists>b. EncodePushdata \<lparr>po_MarketID = 7, po_SeqNum = 9, po_Symbol = ''USDKRW'', po_Mask = 0, po_Type = 1, po_Flag = 2\<rparr> [65, 66] = Done b \<and>
     length b = 1552 \<and> (\<exists>t. DecodePushData 5 b = Done t \<and> tk_Symbol t = ''USDKRW'' \<and> tk_Body t = [65, 66])"
proof -
  have sym: "bytes_str (trimNul (take 20 (str_bytes ''USDKRW''))) = ''USDKRW''" by code_simp
  show ?thesis
    using pushdata_roundtrip [of "[65, 66]"
        "\<lparr>po_MarketID = 7, po_SeqNum = 9, po_Symbol = ''USDKRW'', po_Mask = 0, po_Type = 1, po_Flag = 2\<rparr>" 5 "[]"]
    unfolding PushdataOptions.select_convs sym by auto
qed

section \<open>Two forwarders, each tick once\<close>

primrec dedup_run :: "string \<Rightarrow> u64 list \<Rightarrow> tickDedup \<Rightarrow> u64 list" where
  "dedup_run src [] d = []"
| "dedup_run src (q # qs) d =
     (let (dup, d') = dedup_seen src q d in (if dup then [] else [q]) @ dedup_run src qs d')"

text \<open>The arrivals from two forwarders that relay one feed 1, 2, 3, ...: each choice says which of them
  delivers its next tick, \<open>i\<close> and \<open>j\<close> are what they have delivered.  A forwarder lags less than 65536
  ticks behind the other when it delivers.\<close>

fun relay :: "nat \<Rightarrow> nat \<Rightarrow> bool list \<Rightarrow> nat list" where
  "relay i j [] = []"
| "relay i j (True # bs) = Suc i # relay (Suc i) j bs"
| "relay i j (False # bs) = Suc j # relay i (Suc j) bs"

fun lag_ok :: "nat \<Rightarrow> nat \<Rightarrow> bool list \<Rightarrow> bool" where
  "lag_ok i j [] \<longleftrightarrow> True"
| "lag_ok i j (True # bs) \<longleftrightarrow> j < Suc i + 65536 \<and> lag_ok (Suc i) j bs"
| "lag_ok i j (False # bs) \<longleftrightarrow> i < Suc j + 65536 \<and> lag_ok i (Suc j) bs"

text \<open>The mark of a source that has been delivered up to \<open>h\<close>.\<close>

definition marked :: "string \<Rightarrow> nat \<Rightarrow> tickDedup \<Rightarrow> bool" where
  "marked src h d \<longleftrightarrow> map_of d src = (if h = 0 then None else Some (word_of_nat h))"

lemma word_of_nat_cmp:
  assumes "m < 2 ^ 64" "n < 2 ^ 64"
  shows "(word_of_nat m :: u64) < word_of_nat n \<longleftrightarrow> m < n" "(word_of_nat m :: u64) = word_of_nat n \<longleftrightarrow> m = n"
  using assms by (simp_all add: word_less_nat_alt word_unat_eq_iff unat_of_nat)

lemma dedup_seen_new:
  assumes "src \<noteq> []" "marked src h d" "h < q" "q < 2 ^ 64"
  shows "fst (dedup_seen src (word_of_nat q) d) = False \<and> marked src q (snd (dedup_seen src (word_of_nat q) d))"
proof -
  have "(word_of_nat q :: u64) \<noteq> 0" using assms word_of_nat_cmp(2) [of q 0] by simp
  then show ?thesis using assms word_of_nat_cmp(1) [of h q] by (auto simp: dedup_seen_def marked_def)
qed

lemma dedup_seen_old:
  assumes "src \<noteq> []" "marked src h d" "0 < q" "q \<le> h" "h < q + 65536" "h < 2 ^ 64"
  shows "dedup_seen src (word_of_nat q) d = (True, d)"
proof -
  have "(word_of_nat q :: u64) \<noteq> 0" "\<not> (word_of_nat h :: u64) < word_of_nat q"
    using assms word_of_nat_cmp [of q 0] word_of_nat_cmp [of h q] by simp_all
  moreover have "(word_of_nat h :: u64) - word_of_nat q = word_of_nat (h - q)" using assms by (simp add: of_nat_diff)
  moreover have "(word_of_nat (h - q) :: u64) < word_of_nat 65536" using assms by (subst word_of_nat_cmp) simp_all
  ultimately show ?thesis using assms by (simp add: dedup_seen_def marked_def not_le)
qed

lemma dedup_relay:
  "src \<noteq> [] \<Longrightarrow> marked src (max i j) d \<Longrightarrow> lag_ok i j bs \<Longrightarrow> max i j + length bs < 2 ^ 64 \<Longrightarrow>
   dedup_run src (map word_of_nat (relay i j bs)) d =
     map word_of_nat [Suc (max i j)..<Suc (max (i + count_list bs True) (j + count_list bs False))]"
proof (induction bs arbitrary: i j d)
  case Nil
  then show ?case by simp
next
  case (Cons b bs)
  define n where "n = (if b then Suc i else Suc j)"
  define i' j' where ij: "i' = (if b then Suc i else i)" "j' = (if b then j else Suc j)"
  have step: "relay i j (b # bs) = n # relay i' j' bs" "lag_ok i' j' bs" "max i j < n + 65536"
    using Cons.prems(3) by (cases b; auto simp: n_def ij)+
  have mx: "max i' j' = max (max i j) n" by (auto simp: n_def ij)
  have cnt: "i + count_list (b # bs) True = i' + count_list bs True" "j + count_list (b # bs) False = j' + count_list bs False"
    by (auto simp: ij)
  have bound: "max i' j' + length bs < 2 ^ 64" using Cons.prems(4) by (auto simp: n_def mx)
  show ?case
  proof (cases "max i j < n")
    case True
    then have n: "n = max i' j'" "n = Suc (max i j)" "n < 2 ^ 64" using bound by (auto simp: mx n_def)
    note new = dedup_seen_new [OF Cons.prems(1,2) True n(3)]
    have "dedup_run src (map word_of_nat (relay i' j' bs)) (snd (dedup_seen src (word_of_nat n) d)) =
        map word_of_nat [Suc n..<Suc (max (i' + count_list bs True) (j' + count_list bs False))]"
      using Cons.IH [OF Cons.prems(1), of i' j' "snd (dedup_seen src (word_of_nat n) d)"] new n(1) step(2) bound by simp
    moreover have "[n..<Suc (max (i' + count_list bs True) (j' + count_list bs False))] =
        n # [Suc n..<Suc (max (i' + count_list bs True) (j' + count_list bs False))]"
      using n(1) by (intro upt_conv_Cons) auto
    ultimately show ?thesis
      unfolding step(1) cnt n(2) [symmetric] using new by (simp add: case_prod_beta del: upt_Suc)
  next
    case False
    then have "dedup_seen src (word_of_nat n) d = (True, d)"
      using Cons.prems step(3) by (intro dedup_seen_old [where h = "max i j"]) (auto simp: n_def)
    then show ?thesis
      unfolding step(1) cnt using Cons.IH [OF Cons.prems(1), of i' j' d] Cons.prems(2) step(2) bound False mx
      by (simp add: max_absorb1 del: upt_Suc)
  qed
qed

text \<open>C30: When two active forwarders relay one feed, in whatever interleaving, with neither lagging 65536
  ticks or more behind, the ticks that pass the filter are exactly those that either of them
  delivered, each once and in the order of the feed.\<close>

theorem dual_feed_once:
  assumes "src \<noteq> []" "lag_ok 0 0 bs" "length bs < 2 ^ 64"
  shows "dedup_run src (map word_of_nat (relay 0 0 bs)) [] =
     map word_of_nat [1..<Suc (max (count_list bs True) (count_list bs False))]"
  using dedup_relay [of src 0 0 "[]" bs] assms by (simp add: marked_def del: upt_Suc)

theorem dual_feed_once_witness:
  "relay 0 0 [True, True, False, False, False, True] = [1, 2, 1, 2, 3, 3] \<and>
   dedup_run ''SMB'' (map word_of_nat (relay 0 0 [True, True, False, False, False, True])) [] = [1, 2, 3]"
  using dual_feed_once [of "''SMB''" "[True, True, False, False, False, True]"] by (simp add: upt_rec)

end
