(* ===== verification/Price_Bars.thy ===== *)
theory Price_Bars
  imports Price_Ticks
begin

text \<open>
  OHLC bars of src/internal/price: the aggregator that turns ticks into bars per pair and timeframe
  (aggregator.go) and the archiver that writes closed bars in batches (archiver.go).  The aggregator
  works under one lock, so its operations are atomic; the bars handed to the close handler are
  collected in the order of the calls.
\<close>

section \<open>The aggregator\<close>

record Aggregator =
  ag_symbols :: SymbolMap
  ag_bars :: "((string \<times> string) \<times> Bar) list"
  ag_closed :: "Bar list"

definition NewAggregator :: "SymbolMap \<Rightarrow> Aggregator" where
  "NewAggregator symbols = \<lparr>ag_symbols = symbols, ag_bars = [], ag_closed = []\<rparr>"

definition applyTo :: "Quote \<Rightarrow> string \<Rightarrow> Aggregator \<Rightarrow> Aggregator" where
  "applyTo q tf a =
     (let key = (qt_Pair q, tf)
      in case map_of (ag_bars a) key of
           None \<Rightarrow> a\<lparr>ag_bars := AList.update key (NewBar tf q) (ag_bars a)\<rparr>
         | Some cur \<Rightarrow>
             if Bar_Contains (qt_TS q) cur then a\<lparr>ag_bars := AList.update key (Bar_Update q cur) (ag_bars a)\<rparr>
             else a\<lparr>ag_closed := ag_closed a @ [Bar_Close cur],
                    ag_bars := AList.update key (NewBar tf q) (ag_bars a)\<rparr>)"

text \<open>The quote of a tick that is aggregated: a registered active symbol and a body that decodes.\<close>

definition tick_quote ::
  "(bytes \<Rightarrow> (float64 \<times> float64 \<times> float64 \<times> float64) option) \<Rightarrow> SymbolMap \<Rightarrow> Tick \<Rightarrow> Quote option" where
  "tick_quote decoder sm t =
     (let (pair, active, found) = Symbol_Lookup sm (tk_Symbol t)
      in if \<not> found \<or> \<not> active then None
         else (case decoder (tk_Body t) of
             None \<Rightarrow> None
           | Some (bid, ask, _, _) \<Rightarrow> Some \<lparr>qt_Pair = pair, qt_Bid = bid, qt_Ask = ask, qt_TS = tk_Received t,
               qt_BidSize = f_zero, qt_AskSize = f_zero\<rparr>))"

definition Agg_OnTick ::
  "(bytes \<Rightarrow> (float64 \<times> float64 \<times> float64 \<times> float64) option) \<Rightarrow> Tick \<Rightarrow> Aggregator \<Rightarrow> Aggregator" where
  "Agg_OnTick decoder t a =
     (case tick_quote decoder (ag_symbols a) t of None \<Rightarrow> a | Some q \<Rightarrow> fold (applyTo q) AllTimeframes a)"

definition bar_expired :: "int \<Rightarrow> Bar \<Rightarrow> bool" where
  "bar_expired now b \<longleftrightarrow> b_OpenedAt b + TF_Duration (b_TF b) \<le> now"

definition Agg_Sweep :: "int \<Rightarrow> Aggregator \<Rightarrow> Aggregator" where
  "Agg_Sweep now a =
     a\<lparr>ag_closed := ag_closed a @ map (Bar_Close \<circ> snd) (filter (\<lambda>(k, b). bar_expired now b) (ag_bars a)),
       ag_bars := filter (\<lambda>(k, b). \<not> bar_expired now b) (ag_bars a)\<rparr>"

definition OpenBars :: "Aggregator \<Rightarrow> Bar list" where
  "OpenBars a = map snd (ag_bars a)"

section \<open>The archiver\<close>

record Archiver =
  ar_QueueSize :: nat
  ar_BatchMax :: nat
  ar_q :: "Bar list"
  ar_batch :: "Bar list"
  ar_enqueued :: u64
  ar_dropped :: u64
  ar_inserted :: u64
  ar_failed :: u64

definition NewArchiver :: "int \<Rightarrow> int \<Rightarrow> Archiver" where
  "NewArchiver queueSize batchMax =
     \<lparr>ar_QueueSize = (if queueSize \<le> 0 then 10000 else nat queueSize),
      ar_BatchMax = (if batchMax \<le> 0 then 500 else nat batchMax),
      ar_q = [], ar_batch = [], ar_enqueued = 0, ar_dropped = 0, ar_inserted = 0, ar_failed = 0\<rparr>"

definition OnBarClose :: "Bar option \<Rightarrow> Archiver \<Rightarrow> Archiver" where
  "OnBarClose b a =
     (case b of
        None \<Rightarrow> a
      | Some b \<Rightarrow>
          if \<not> Persistent (b_TF b) then a
          else if length (ar_q a) < ar_QueueSize a then a\<lparr>ar_q := ar_q a @ [b], ar_enqueued := ar_enqueued a + 1\<rparr>
          else a\<lparr>ar_dropped := ar_dropped a + 1\<rparr>)"

text \<open>\<open>ok\<close> is whether the insert of the batch succeeds.\<close>

definition Archiver_flush :: "bool \<Rightarrow> Archiver \<Rightarrow> Bar list \<times> Archiver" where
  "Archiver_flush good a =
     (if ar_batch a = [] then ([], a)
      else (ar_batch a, (if good then a\<lparr>ar_inserted := ar_inserted a + word_of_nat (length (ar_batch a))\<rparr>
              else a\<lparr>ar_failed := ar_failed a + 1\<rparr>)\<lparr>ar_batch := []\<rparr>))"

definition Archiver_receive :: "bool \<Rightarrow> Archiver \<Rightarrow> Bar list \<times> Archiver" where
  "Archiver_receive good a =
     (case ar_q a of
        [] \<Rightarrow> ([], a)
      | b # q \<Rightarrow>
          (let a' = a\<lparr>ar_q := q, ar_batch := ar_batch a @ [b]\<rparr>
           in if length (ar_batch a') \<ge> ar_BatchMax a' then Archiver_flush good a' else ([], a')))"

text \<open>After the context is done the queue is emptied, then the rest is flushed; \<open>good k\<close> is the result
  of insert number \<open>k\<close>.\<close>

fun Archiver_drain :: "nat \<Rightarrow> (nat \<Rightarrow> bool) \<Rightarrow> Archiver \<Rightarrow> Bar list \<times> Archiver" where
  "Archiver_drain 0 good a = Archiver_flush (good 0) a"
| "Archiver_drain (Suc n) good a =
     (let (out, a') = Archiver_receive (good (Suc n)) a; (outs, a'') = Archiver_drain n good a' in (out @ outs, a''))"

section \<open>Buckets and bars\<close>

lemma TF_Duration_pos: "tf \<in> set AllTimeframes \<Longrightarrow> 0 < TF_Duration tf"
  by (auto simp: AllTimeframes_def TF_Duration_def)

lemma bucket_contains:
  assumes "0 < TF_Duration tf"
  shows "BucketStart tf x \<le> ts \<and> ts < BucketStart tf x + TF_Duration tf \<longleftrightarrow> BucketStart tf ts = BucketStart tf x"
proof -
  define d where "d = TF_Duration tf"
  have d: "0 < d" using assms by (simp add: d_def)
  define u v where uv: "u = ts - go_zero_time" "v = x - go_zero_time"
  have b: "BucketStart tf ts = go_zero_time + d * (u div d)" "BucketStart tf x = go_zero_time + d * (v div d)"
    using d minus_mod_eq_mult_div [of u d] minus_mod_eq_mult_div [of v d]
    by (simp_all add: BucketStart_def Let_def uv d_def algebra_simps)
  have "d * (v div d) \<le> u \<and> u < d * (v div d) + d \<longleftrightarrow> u div d = v div d"
  proof
    assume a: "d * (v div d) \<le> u \<and> u < d * (v div d) + d"
    then show "u div d = v div d" by (intro int_div_pos_eq [where r = "u - d * (v div d)"]) auto
  next
    assume "u div d = v div d"
    then show "d * (v div d) \<le> u \<and> u < d * (v div d) + d"
      using mult_div_mod_eq [of d u] pos_mod_sign [OF d, of u] pos_mod_bound [OF d, of u] by simp
  qed
  then show ?thesis unfolding b d_def [symmetric] using d by (auto simp: uv)
qed

definition bar_of :: "string \<Rightarrow> Quote list \<Rightarrow> Bar" where
  "bar_of tf qs = fold Bar_Update (tl qs) (NewBar tf (hd qs))"

lemma fold_update_fixed [simp]:
  "b_Pair (fold Bar_Update qs b) = b_Pair b" "b_TF (fold Bar_Update qs b) = b_TF b"
  "b_OpenedAt (fold Bar_Update qs b) = b_OpenedAt b" "b_OpenBid (fold Bar_Update qs b) = b_OpenBid b"
  "b_OpenAsk (fold Bar_Update qs b) = b_OpenAsk b" "b_ClosedAt (fold Bar_Update qs b) = b_ClosedAt b"
  by (induction qs arbitrary: b) (simp_all add: Bar_Update_def)

lemma bar_of_snoc: "qs \<noteq> [] \<Longrightarrow> bar_of tf (qs @ [q]) = Bar_Update q (bar_of tf qs)"
  by (simp add: bar_of_def)

lemma bar_of_fixed:
  "b_Pair (bar_of tf qs) = qt_Pair (hd qs)" "b_TF (bar_of tf qs) = tf"
  "b_OpenedAt (bar_of tf qs) = BucketStart tf (qt_TS (hd qs))"
  by (simp_all add: bar_of_def NewBar_def)

text \<open>What a bar says of its ticks: first and last prices, their number, and the extremes, which are
  prices of ticks of the bar.\<close>

definition ohlc :: "Quote list \<Rightarrow> Bar \<Rightarrow> bool" where
  "ohlc qs b \<longleftrightarrow> b_OpenBid b = qt_Bid (hd qs) \<and> b_OpenAsk b = qt_Ask (hd qs) \<and>
     b_CloseBid b = qt_Bid (last qs) \<and> b_CloseAsk b = qt_Ask (last qs) \<and> b_TickCount b = length qs \<and>
     b_HighBid b \<in> qt_Bid ` set qs \<and> b_LowBid b \<in> qt_Bid ` set qs \<and>
     b_HighAsk b \<in> qt_Ask ` set qs \<and> b_LowAsk b \<in> qt_Ask ` set qs \<and>
     (\<forall>q \<in> set qs. f_le (b_LowBid b) (qt_Bid q) \<and> f_le (qt_Bid q) (b_HighBid b) \<and>
        f_le (b_LowAsk b) (qt_Ask q) \<and> f_le (qt_Ask q) (b_HighAsk b))"

definition numeric :: "Quote \<Rightarrow> bool" where
  "numeric q \<longleftrightarrow> \<not> f_isnan (qt_Bid q) \<and> \<not> f_isnan (qt_Ask q)"

text \<open>A running maximum or minimum stays one.\<close>

lemma running_max:
  "\<forall>x \<in> S. f_le x h \<Longrightarrow> h \<in> S \<Longrightarrow> \<not> f_isnan v \<Longrightarrow>
   (\<forall>x \<in> insert v S. f_le x (if f_lt h v then v else h)) \<and> (if f_lt h v then v else h) \<in> insert v S"
  using f_lt_not_le [of h v] by (auto simp: f_le_refl f_le_def intro: f_le_trans f_lt_imp_le)

lemma running_min:
  "\<forall>x \<in> S. f_le h x \<Longrightarrow> h \<in> S \<Longrightarrow> \<not> f_isnan v \<Longrightarrow>
   (\<forall>x \<in> insert v S. f_le (if f_lt v h then v else h) x) \<and> (if f_lt v h then v else h) \<in> insert v S"
  using f_lt_not_le [of v h] by (auto simp: f_le_refl f_le_def intro: f_le_trans f_lt_imp_le)

lemma bar_of_ohlc: "qs \<noteq> [] \<Longrightarrow> list_all numeric qs \<Longrightarrow> ohlc qs (bar_of tf qs)"
proof (induction qs rule: rev_nonempty_induct)
  case (single q)
  then show ?case by (simp add: ohlc_def bar_of_def NewBar_def numeric_def f_le_refl)
next
  case (snoc q qs)
  then have IH: "ohlc qs (bar_of tf qs)" "numeric q" by simp_all
  let ?b = "bar_of tf qs"
  have
    "(\<forall>x \<in> insert (qt_Bid q) (qt_Bid ` set qs). f_le x (b_HighBid (Bar_Update q ?b))) \<and> b_HighBid (Bar_Update q ?b) \<in> insert (qt_Bid q) (qt_Bid ` set qs)"
    "(\<forall>x \<in> insert (qt_Ask q) (qt_Ask ` set qs). f_le x (b_HighAsk (Bar_Update q ?b))) \<and> b_HighAsk (Bar_Update q ?b) \<in> insert (qt_Ask q) (qt_Ask ` set qs)"
    using IH running_max [of "qt_Bid ` set qs" "b_HighBid ?b" "qt_Bid q"] running_max [of "qt_Ask ` set qs" "b_HighAsk ?b" "qt_Ask q"]
    by (simp_all add: ohlc_def numeric_def Bar_Update_def)
  moreover have
    "(\<forall>x \<in> insert (qt_Bid q) (qt_Bid ` set qs). f_le (b_LowBid (Bar_Update q ?b)) x) \<and> b_LowBid (Bar_Update q ?b) \<in> insert (qt_Bid q) (qt_Bid ` set qs)"
    "(\<forall>x \<in> insert (qt_Ask q) (qt_Ask ` set qs). f_le (b_LowAsk (Bar_Update q ?b)) x) \<and> b_LowAsk (Bar_Update q ?b) \<in> insert (qt_Ask q) (qt_Ask ` set qs)"
    using IH running_min [of "qt_Bid ` set qs" "b_LowBid ?b" "qt_Bid q"] running_min [of "qt_Ask ` set qs" "b_LowAsk ?b" "qt_Ask q"]
    by (simp_all add: ohlc_def numeric_def Bar_Update_def)
  ultimately show ?case
    using IH(1) snoc.hyps unfolding bar_of_snoc [OF snoc.hyps]
    by (simp add: ohlc_def) (simp add: Bar_Update_def)
qed

section \<open>Every tick is in exactly one bar\<close>

datatype agg_event = ATick Tick | ASweep int | ASymbols SymbolMap

definition agg_exec ::
  "(bytes \<Rightarrow> (float64 \<times> float64 \<times> float64 \<times> float64) option) \<Rightarrow> agg_event \<Rightarrow> Aggregator \<Rightarrow> Aggregator" where
  "agg_exec decoder ev a =
     (case ev of ATick t \<Rightarrow> Agg_OnTick decoder t a | ASweep now \<Rightarrow> Agg_Sweep now a | ASymbols sm \<Rightarrow> a\<lparr>ag_symbols := sm\<rparr>)"

text \<open>The quotes that a history aggregates, from the symbol map \<open>sm\<close>.\<close>

primrec accepted ::
  "(bytes \<Rightarrow> (float64 \<times> float64 \<times> float64 \<times> float64) option) \<Rightarrow> SymbolMap \<Rightarrow> agg_event list \<Rightarrow> Quote list" where
  "accepted decoder sm [] = []"
| "accepted decoder sm (ev # evs) =
     (case ev of
        ATick t \<Rightarrow> (case tick_quote decoder sm t of None \<Rightarrow> [] | Some q \<Rightarrow> [q]) @ accepted decoder sm evs
      | ASweep now \<Rightarrow> accepted decoder sm evs
      | ASymbols sm' \<Rightarrow> accepted decoder sm' evs)"

text \<open>The quotes \<open>qs\<close> of one pair, cut into groups: the closed bars of a timeframe are the bars of the
  groups \<open>gs\<close> in order, the open bar is that of the rest \<open>g\<close>, and no bar spans two buckets.\<close>

definition bar_group :: "string \<Rightarrow> Quote list \<Rightarrow> bool" where
  "bar_group tf g \<longleftrightarrow> g \<noteq> [] \<and> (\<forall>q \<in> set g. BucketStart tf (qt_TS q) = b_OpenedAt (bar_of tf g))"

definition grouped :: "string \<Rightarrow> Quote list \<Rightarrow> Bar list \<Rightarrow> Bar option \<Rightarrow> Quote list list \<Rightarrow> Quote list \<Rightarrow> bool" where
  "grouped tf qs closed open gs g \<longleftrightarrow> qs = concat gs @ g \<and> closed = map (\<lambda>h. Bar_Close (bar_of tf h)) gs \<and>
     open = (if g = [] then None else Some (bar_of tf g)) \<and> list_all (bar_group tf) gs \<and> (g \<noteq> [] \<longrightarrow> bar_group tf g)"

definition closed_of :: "string \<Rightarrow> string \<Rightarrow> Aggregator \<Rightarrow> Bar list" where
  "closed_of p tf a = filter (\<lambda>b. b_Pair b = p \<and> b_TF b = tf) (ag_closed a)"

lemma grouped_close: "grouped tf qs closed (Some b) gs g \<Longrightarrow> grouped tf qs (closed @ [Bar_Close b]) None (gs @ [g]) []"
  by (auto simp: grouped_def split: if_splits)

lemma grouped_new:
  "grouped tf qs closed None gs g \<Longrightarrow> grouped tf (qs @ [q]) closed (Some (NewBar tf q)) gs [q]"
  by (auto simp: grouped_def bar_group_def bar_of_def NewBar_def split: if_splits)

lemma grouped_update:
  assumes "grouped tf qs closed (Some b) gs g" "Bar_Contains (qt_TS q) b" "0 < TF_Duration tf"
  shows "grouped tf (qs @ [q]) closed (Some (Bar_Update q b)) gs (g @ [q])"
proof -
  have g: "g \<noteq> []" "b = bar_of tf g" "bar_group tf g" using assms(1) by (auto simp: grouped_def split: if_splits)
  then have "BucketStart tf (qt_TS q) = b_OpenedAt (bar_of tf g)"
    using assms(2) bucket_contains [OF assms(3), of "qt_TS (hd g)" "qt_TS q"] by (simp add: Bar_Contains_def bar_of_fixed)
  moreover have "b_OpenedAt (bar_of tf (g @ [q])) = b_OpenedAt (bar_of tf g)" using g by (simp add: bar_of_fixed)
  ultimately have "bar_group tf (g @ [q])" using g by (simp add: bar_group_def)
  then show ?thesis using assms(1) g by (auto simp: grouped_def bar_of_snoc split: if_splits)
qed

text \<open>What the state says of one key, and how an operation on another key leaves it.\<close>

definition labelled :: "Aggregator \<Rightarrow> bool" where
  "labelled a \<longleftrightarrow> gomap (ag_bars a) \<and>
     (\<forall>p tf b. map_of (ag_bars a) (p, tf) = Some b \<longrightarrow> b_Pair b = p \<and> b_TF b = tf)"

definition key_ok :: "string \<Rightarrow> string \<Rightarrow> Quote list \<Rightarrow> Aggregator \<Rightarrow> bool" where
  "key_ok p tf qs a \<longleftrightarrow> (\<exists>gs g. grouped tf qs (closed_of p tf a) (map_of (ag_bars a) (p, tf)) gs g)"

lemma labelled_applyTo: "labelled a \<Longrightarrow> labelled (applyTo q tf a)"
  by (auto simp: labelled_def applyTo_def Let_def NewBar_def Bar_Update_def split: option.splits if_splits)

lemma key_ok_other:
  "labelled a \<Longrightarrow> (p, tf) \<noteq> (qt_Pair q, tf') \<Longrightarrow> key_ok p tf qs (applyTo q tf' a) = key_ok p tf qs a"
  by (auto simp: key_ok_def labelled_def closed_of_def applyTo_def Let_def Bar_Close_def split: option.splits)

lemma key_ok_same:
  assumes lab: "labelled a" and pos: "0 < TF_Duration tf" and old: "key_ok (qt_Pair q) tf qs a"
  shows "key_ok (qt_Pair q) tf (qs @ [q]) (applyTo q tf a)"
proof -
  let ?p = "qt_Pair q"
  from old obtain gs g where gr: "grouped tf qs (closed_of ?p tf a) (map_of (ag_bars a) (?p, tf)) gs g"
    by (auto simp: key_ok_def)
  show ?thesis
  proof (cases "map_of (ag_bars a) (?p, tf)")
    case None
    then show ?thesis using grouped_new [of tf qs _ gs g q] gr by (auto simp: key_ok_def applyTo_def closed_of_def)
  next
    case (Some b)
    then have lb: "b_Pair b = ?p" "b_TF b = tf" using lab by (auto simp: labelled_def)
    show ?thesis
    proof (cases "Bar_Contains (qt_TS q) b")
      case True
      then show ?thesis
        using grouped_update [of tf qs _ b gs g q] gr pos Some by (auto simp: key_ok_def applyTo_def closed_of_def)
    next
      case False
      have "closed_of ?p tf (applyTo q tf a) = closed_of ?p tf a @ [Bar_Close b]"
        using Some False lb by (simp add: applyTo_def closed_of_def Bar_Close_def)
      then show ?thesis
        using grouped_new [OF grouped_close, of tf qs "closed_of ?p tf a" b gs g q] gr Some False
        by (auto simp: key_ok_def applyTo_def)
    qed
  qed
qed

lemma fold_applyTo_other:
  "labelled a \<Longrightarrow> tf \<notin> set tfs \<or> p \<noteq> qt_Pair q \<Longrightarrow> key_ok p tf qs a \<Longrightarrow> key_ok p tf qs (fold (applyTo q) tfs a)"
proof (induction tfs arbitrary: a)
  case (Cons s tfs)
  then show ?case using key_ok_other [of a p tf q s qs] labelled_applyTo by auto
qed simp

lemma fold_applyTo:
  "labelled a \<Longrightarrow> distinct tfs \<Longrightarrow> (\<And>tf. tf \<in> set tfs \<Longrightarrow> 0 < TF_Duration tf) \<Longrightarrow>
   labelled (fold (applyTo q) tfs a) \<and>
   (\<forall>p tf. (p = qt_Pair q \<and> tf \<in> set tfs \<longrightarrow> key_ok p tf qs a \<longrightarrow> key_ok p tf (qs @ [q]) (fold (applyTo q) tfs a)) \<and>
      (\<not> (p = qt_Pair q \<and> tf \<in> set tfs) \<longrightarrow> key_ok p tf qs a \<longrightarrow> key_ok p tf qs (fold (applyTo q) tfs a)))"
proof (induction tfs arbitrary: a)
  case Nil
  then show ?case by simp
next
  case (Cons t tfs)
  have l: "labelled (applyTo q t a)" using Cons.prems(1) by (rule labelled_applyTo)
  note IH = Cons.IH [OF l]
  have same: "key_ok (qt_Pair q) t (qs @ [q]) (applyTo q t a)" if "key_ok (qt_Pair q) t qs a"
    using key_ok_same [OF Cons.prems(1) _ that] Cons.prems(3) by simp
  have other: "key_ok (qt_Pair q) tf qs (applyTo q t a)" if "tf \<in> set tfs" "key_ok (qt_Pair q) tf qs a" for tf
    using that key_ok_other [OF Cons.prems(1), of "qt_Pair q" tf q t qs] Cons.prems(2) by auto
  show ?case
    using IH Cons.prems same other fold_applyTo_other [OF l] key_ok_other [OF Cons.prems(1)] by (auto simp: l)
qed

lemma sweep_lookup:
  "gomap (ag_bars a) \<Longrightarrow> map_of (ag_bars (Agg_Sweep now a)) k =
     (case map_of (ag_bars a) k of None \<Rightarrow> None | Some b \<Rightarrow> if bar_expired now b then None else Some b)"
  unfolding Agg_Sweep_def by (simp add: map_of_filter_some split: option.split)

lemma sweep_select:
  "gomap m \<Longrightarrow> (\<And>p tf b. map_of m (p, tf) = Some b \<Longrightarrow> b_Pair b = p \<and> b_TF b = tf) \<Longrightarrow>
   filter (\<lambda>b. b_Pair b = p \<and> b_TF b = tf) (map (Bar_Close \<circ> snd) (filter (\<lambda>(k, b). bar_expired now b) m)) =
     (case map_of m (p, tf) of None \<Rightarrow> [] | Some b \<Rightarrow> if bar_expired now b then [Bar_Close b] else [])"
proof (induction m)
  case (Cons kb m)
  obtain p' tf' b' where kb: "kb = ((p', tf'), b')" by (cases kb) auto
  have gm: "gomap m" "map_of m (p', tf') = None" using Cons.prems(1) by (auto simp: gomap_def kb map_of_eq_None_iff)
  have lb: "b_Pair b' = p'" "b_TF b' = tf'" using Cons.prems(2) [of p' tf' b'] by (simp_all add: kb)
  have "b_Pair b = p \<and> b_TF b = tf" if "map_of m (p, tf) = Some b" for p tf b
    using that gm(2) by (intro Cons.prems(2)) (auto simp: kb)
  note IH = Cons.IH [OF gm(1) this]
  show ?case
  proof (cases "(p, tf) = (p', tf')")
    case True
    then show ?thesis using IH gm(2) lb by (simp add: kb Bar_Close_def)
  next
    case False
    then show ?thesis using IH lb by (auto simp: kb Bar_Close_def)
  qed
qed simp

lemma labelled_sweep: "labelled a \<Longrightarrow> labelled (Agg_Sweep now a)"
proof -
  assume l: "labelled a"
  then have g: "gomap (ag_bars a)" by (simp add: labelled_def)
  then have "gomap (ag_bars (Agg_Sweep now a))" by (simp add: Agg_Sweep_def)
  with l show ?thesis unfolding labelled_def sweep_lookup [OF g] by (simp split: option.split)
qed

lemma key_ok_sweep:
  assumes "labelled a" "key_ok p tf qs a"
  shows "key_ok p tf qs (Agg_Sweep now a)"
proof -
  have g: "gomap (ag_bars a)" and lab: "\<And>p tf b. map_of (ag_bars a) (p, tf) = Some b \<Longrightarrow> b_Pair b = p \<and> b_TF b = tf"
    using assms(1) unfolding labelled_def by blast+
  from assms(2) obtain gs h where gr: "grouped tf qs (closed_of p tf a) (map_of (ag_bars a) (p, tf)) gs h"
    unfolding key_ok_def by blast
  have cl: "closed_of p tf (Agg_Sweep now a) = closed_of p tf a @
      (case map_of (ag_bars a) (p, tf) of None \<Rightarrow> [] | Some b \<Rightarrow> if bar_expired now b then [Bar_Close b] else [])"
    using sweep_select [OF g lab, of p tf now] by (simp add: closed_of_def Agg_Sweep_def)
  show ?thesis
  proof (cases "map_of (ag_bars a) (p, tf)")
    case None
    then show ?thesis using gr unfolding key_ok_def cl sweep_lookup [OF g] by auto
  next
    case (Some b)
    show ?thesis
    proof (cases "bar_expired now b")
      case True
      then show ?thesis
        using grouped_close [OF gr [unfolded Some]] unfolding key_ok_def cl sweep_lookup [OF g] by (auto simp: Some)
    next
      case False
      then show ?thesis using gr unfolding key_ok_def cl sweep_lookup [OF g] by (auto simp: Some)
    qed
  qed
qed

lemma agg_run:
  "labelled a \<Longrightarrow> (\<And>p tf. tf \<in> set AllTimeframes \<Longrightarrow> key_ok p tf (filter (\<lambda>q. qt_Pair q = p) qs) a) \<Longrightarrow>
   tf \<in> set AllTimeframes \<Longrightarrow>
   key_ok p tf (filter (\<lambda>q. qt_Pair q = p) (qs @ accepted decoder (ag_symbols a) evs)) (fold (agg_exec decoder) evs a)"
proof (induction evs arbitrary: a qs)
  case Nil
  then show ?case by simp
next
  case (Cons ev evs)
  note IH = Cons.IH [OF _ _ Cons.prems(3)]
  show ?case
  proof (cases ev)
    case (ASweep now)
    then show ?thesis
      using IH [of "Agg_Sweep now a" qs] labelled_sweep [OF Cons.prems(1)] key_ok_sweep [OF Cons.prems(1)] Cons.prems(2)
      by (simp add: agg_exec_def) (simp add: Agg_Sweep_def)
  next
    case (ASymbols sm)
    then show ?thesis
      using IH [of "a\<lparr>ag_symbols := sm\<rparr>" qs] Cons.prems(1,2) by (simp add: agg_exec_def labelled_def key_ok_def closed_of_def)
  next
    case (ATick t)
    show ?thesis
    proof (cases "tick_quote decoder (ag_symbols a) t")
      case None
      then show ?thesis using IH [of a qs] Cons.prems(1,2) by (simp add: ATick agg_exec_def Agg_OnTick_def)
    next
      case (Some q)
      let ?a = "fold (applyTo q) AllTimeframes a"
      have sym: "ag_symbols (fold (applyTo q) tfs a) = ag_symbols a" for tfs a
        by (induction tfs arbitrary: a) (auto simp: applyTo_def Let_def split: option.splits)
      have dist: "distinct AllTimeframes" by (simp add: AllTimeframes_def)
      have step: "labelled ?a" "\<And>p tf. tf \<in> set AllTimeframes \<Longrightarrow> key_ok p tf (filter (\<lambda>x. qt_Pair x = p) (qs @ [q])) ?a"
        using fold_applyTo [OF Cons.prems(1) dist TF_Duration_pos, of q] Cons.prems(2) by (auto simp: filter_append)
      have "key_ok p tf (filter (\<lambda>x. qt_Pair x = p) ((qs @ [q]) @ accepted decoder (ag_symbols ?a) evs)) (fold (agg_exec decoder) evs ?a)"
        by (rule IH) (rule step, erule step(2))
      moreover have "agg_exec decoder ev a = ?a" by (simp add: ATick Some agg_exec_def Agg_OnTick_def)
      ultimately show ?thesis by (simp add: ATick Some sym)
    qed
  qed
qed

text \<open>C29: Whatever ticks, sweeps and changes of the symbol map are interleaved, for every pair and every
  timeframe the aggregated ticks are cut into consecutive non-empty groups: the closed bars, in the
  order of their closing, are the bars of all groups but the unfinished last one, whose bar is the
  open one.  All ticks of a bar lie in its bucket, so no tick is lost or counted twice and no bar spans
  two buckets; and when prices are numbers, open, close, extremes and tick count of each bar are
  those of its ticks.\<close>

theorem bars_partition_ticks:
  fixes decoder :: "bytes \<Rightarrow> (float64 \<times> float64 \<times> float64 \<times> float64) option" and evs :: "agg_event list"
    and sm :: SymbolMap and p :: string
  assumes "tf \<in> set AllTimeframes"
  defines "a \<equiv> fold (agg_exec decoder) evs (NewAggregator sm)"
    and "qs \<equiv> filter (\<lambda>q. qt_Pair q = p) (accepted decoder sm evs)"
  shows "\<exists>gs g. grouped tf qs (closed_of p tf a) (map_of (ag_bars a) (p, tf)) gs g \<and>
     (list_all numeric qs \<longrightarrow> (\<forall>h. h \<in> set gs \<or> h = g \<and> g \<noteq> [] \<longrightarrow> ohlc h (bar_of tf h)))"
proof -
  have "key_ok p tf qs a"
    using agg_run [of "NewAggregator sm" "[]" tf p decoder evs] assms
    by (simp add: NewAggregator_def labelled_def key_ok_def closed_of_def grouped_def exI [of _ "[]"])
  then obtain gs g where gr: "grouped tf qs (closed_of p tf a) (map_of (ag_bars a) (p, tf)) gs g" by (auto simp: key_ok_def)
  have "ohlc h (bar_of tf h)" if "list_all numeric qs" "h \<in> set gs \<or> h = g \<and> g \<noteq> []" for h
    using that gr by (intro bar_of_ohlc) (auto simp: grouped_def list_all_iff bar_group_def)
  then show ?thesis using gr by blast
qed

definition sample_symbols :: SymbolMap where
  "sample_symbols = SymbolMap_Replace [\<lparr>sy_Symbol = ''USDKRW'', sy_Pair = ''USD/KRW'', sy_Active = True\<rparr>]"

definition sample_tick :: "int \<Rightarrow> Tick" where
  "sample_tick ts = \<lparr>tk_MarketID = 0, tk_Symbol = ''USDKRW'', tk_SeqNum = 1, tk_Mask = 0, tk_Type = 0, tk_Flag = 0,
     tk_Body = [1], tk_Received = ts, tk_Source = ''BEST''\<rparr>"

definition sample_events :: "agg_event list" where
  "sample_events = [ATick (sample_tick 5), ATick (sample_tick 30000000000), ATick (sample_tick 60000000007), ASweep 200000000000]"

theorem bars_partition_ticks_witness:
  "let dec = (\<lambda>b. Some (f_lit 1 0, f_lit 2 0, f_zero, f_zero));
       a = fold (agg_exec dec) sample_events (NewAggregator sample_symbols);
       qs = filter (\<lambda>q. qt_Pair q = ''USD/KRW'') (accepted dec sample_symbols sample_events)
   in map qt_TS qs = [5, 30000000000, 60000000007] \<and>
      (\<exists>gs g. grouped ''1m'' qs (closed_of ''USD/KRW'' ''1m'' a) (map_of (ag_bars a) (''USD/KRW'', ''1m'')) gs g)"
proof -
  let ?dec = "\<lambda>b :: bytes. Some (f_lit 1 0, f_lit 2 0, f_zero, f_zero)"
  have "map qt_TS (filter (\<lambda>q. qt_Pair q = ''USD/KRW'') (accepted ?dec sample_symbols sample_events)) = [5, 30000000000, 60000000007]"
    by (simp add: sample_events_def sample_symbols_def SymbolMap_Replace_def tick_quote_def Symbol_Lookup_def sample_tick_def)
  moreover have "''1m'' \<in> set AllTimeframes" by (simp add: AllTimeframes_def)
  ultimately show ?thesis
    using bars_partition_ticks [where tf = "''1m''" and decoder = ?dec and evs = sample_events and sm = sample_symbols and p = "''USD/KRW''"] unfolding Let_def by blast
qed

end
