(* ===== verification/Quote_Validation.thy ===== *)
theory Quote_Validation
  imports Quote_Id
begin

text \<open>
  The quote validation service of src/internal/price (quote_validation.go, quote_validation_swap.go)
  with the engine permissions of src/pkg/quoteid/etcd_allowlist.go.  The registry is reached through
  the interface \<open>Registry\<close>, which has every answer a Go registry can give, errors included; the
  in-process registry is one instance.  A call of a registry operation gets the clock readings it
  makes, a handler the readings \<open>now\<close> of its own clock and, per registry call, those of the registry.
  Metrics and log lines are left out, and a dash in a reject text is written in ASCII.
\<close>

section \<open>The registry interface\<close>

type_synonym clock = "nat \<Rightarrow> int"

datatype reg_error = RegError quote_error | RegFailed string

record 'r Registry =
  reg_Put :: "clock \<Rightarrow> QuoteRecord \<Rightarrow> 'r \<Rightarrow> reg_error option \<times> 'r"
  reg_MarkConsumed :: "clock \<Rightarrow> QuoteID \<Rightarrow> string \<Rightarrow> 'r \<Rightarrow> (reg_error + ConsumeResult) \<times> 'r"
  reg_MarkConsumedMany :: "clock \<Rightarrow> (QuoteID \<times> string) list \<Rightarrow> 'r \<Rightarrow> (reg_error + ConsumeResult list) \<times> 'r"
  reg_Lookup :: "clock \<Rightarrow> QuoteID \<Rightarrow> 'r \<Rightarrow> (reg_error + LookupResult) \<times> 'r"
  reg_LookupMany :: "clock \<Rightarrow> QuoteID list \<Rightarrow> 'r \<Rightarrow> (reg_error + LookupResult list) \<times> 'r"

record 'r SwapIndex =
  idx_PutSwap :: "clock \<Rightarrow> SwapRecord \<Rightarrow> 'r \<Rightarrow> reg_error option \<times> 'r"
  idx_GetSwap :: "clock \<Rightarrow> string \<Rightarrow> 'r \<Rightarrow> (reg_error + SwapRecord) \<times> 'r"
  idx_Delete :: "clock \<Rightarrow> QuoteID \<Rightarrow> 'r \<Rightarrow> reg_error option \<times> 'r"
  idx_DeleteSwap :: "clock \<Rightarrow> string \<Rightarrow> 'r \<Rightarrow> reg_error option \<times> 'r"

text \<open>The in-process registry behind the two interfaces.\<close>

definition mem_registry :: "MemoryRegistry Registry" where
  "mem_registry = \<lparr>
     reg_Put = (\<lambda>clk r m. let (e, m') = Registry_Put r m in (map_option RegError e, m')),
     reg_MarkConsumed = (\<lambda>clk i c m. let (res, m') = MarkConsumed (clk 0) (clk 1) i c m in (Inr res, m')),
     reg_MarkConsumedMany = (\<lambda>clk qs m. let (res, m') = MarkConsumedMany (clk 0) qs m in (Inr res, m')),
     reg_Lookup = (\<lambda>clk i m. (Inr (lookupLocked (clk 0) i m), m)),
     reg_LookupMany = (\<lambda>clk ids m. (Inr (Registry_LookupMany (zip ids (map clk [0..<length ids])) m), m))\<rparr>"

definition mem_index :: "MemoryRegistry SwapIndex" where
  "mem_index = \<lparr>
     idx_PutSwap = (\<lambda>clk w m. let (e, m') = PutSwap w m in (map_option RegError e, m')),
     idx_GetSwap = (\<lambda>clk i m. case GetSwap (clk 0) i m of (Inl e, m') \<Rightarrow> (Inl (RegError e), m') | (Inr w, m') \<Rightarrow> (Inr w, m')),
     idx_Delete = (\<lambda>clk i m. (None, Registry_Delete i m)),
     idx_DeleteSwap = (\<lambda>clk i m. (None, DeleteSwap i m))\<rparr>"

section \<open>Engine permissions\<close>

record EngineMeta =
  em_Permissions :: "string list"
  em_ExpiresAt :: string
  em_Contact :: string

definition default_EngineMeta :: EngineMeta where
  "default_EngineMeta = \<lparr>em_Permissions = [], em_ExpiresAt = [], em_Contact = []\<rparr>"

definition PermValidate :: string where "PermValidate = ''validate''"
definition PermMarkConsumed :: string where "PermMarkConsumed = ''mark_consumed''"

definition HasPermission :: "EngineMeta \<Rightarrow> string \<Rightarrow> bool" where
  "HasPermission m op \<longleftrightarrow> em_Permissions m = [] \<or> op \<in> set (em_Permissions m)"

text \<open>\<open>parse\<close> is time.Parse for RFC3339: an unreadable expiry counts as no expiry.\<close>

definition ExpiredAt :: "(string \<Rightarrow> int option) \<Rightarrow> EngineMeta \<Rightarrow> int \<Rightarrow> bool" where
  "ExpiredAt parse m t \<longleftrightarrow>
     em_ExpiresAt m \<noteq> [] \<and> (case parse (em_ExpiresAt m) of None \<Rightarrow> False | Some e \<Rightarrow> \<not> t < e)"

text \<open>The value of an etcd entry: only a JSON object is read, \<open>unmarshal\<close> is encoding/json.\<close>

definition parseEngineMeta :: "(string \<Rightarrow> EngineMeta option) \<Rightarrow> string \<Rightarrow> EngineMeta option" where
  "parseEngineMeta unmarshal raw =
     (if raw = [] then Some default_EngineMeta
      else if hd raw \<noteq> CHR 0x7B then Some default_EngineMeta
      else unmarshal raw)"

section \<open>The server\<close>

datatype counter =
    CallsTotal | CallsOK | CallsNotFound | CallsExpired | CallsConsumed | CallsInternal
  | ConsumeTotal | ConsumeOKs | ConsumeAlready | ConsumeNotFounds | ConsumeExpireds | ConsumeInternal
  | BatchTotal | BatchItems | BatchConsumeTotal | BatchConsumeItems | DeniedEngine
  | SwapValidateTotal | SwapValidateOK | SwapValidateNotFound | SwapValidateExpired | SwapValidateConsumed
  | SwapValidateInternal | SwapConsumeTotal | SwapConsumeOK | SwapConsumeAlready | SwapConsumeNotFound
  | SwapConsumeExpired | SwapConsumeInternal | SwapConsumePartialRace

text \<open>The server without the registry it points to: the allowlist, whether a swap index is attached
  (cmd/mci-price attaches the registry itself) and the counters.\<close>

record QuoteValidationServer =
  qv_allow :: "(string \<times> EngineMeta) list option"
  qv_swapIdx :: bool
  qv_count :: "counter \<Rightarrow> u64"

definition NewQuoteValidationServer :: QuoteValidationServer where
  "NewQuoteValidationServer = \<lparr>qv_allow = None, qv_swapIdx = False, qv_count = (\<lambda>_. 0)\<rparr>"

definition SetSwapIndex :: "QuoteValidationServer \<Rightarrow> QuoteValidationServer" where
  "SetSwapIndex s = s\<lparr>qv_swapIdx := True\<rparr>"

definition add_count :: "counter \<Rightarrow> u64 \<Rightarrow> QuoteValidationServer \<Rightarrow> QuoteValidationServer" where
  "add_count c n s = s\<lparr>qv_count := (qv_count s)(c := qv_count s c + n)\<rparr>"

abbreviation (input) bump :: "counter \<Rightarrow> QuoteValidationServer \<Rightarrow> QuoteValidationServer" where
  "bump c s \<equiv> add_count c 1 s"

definition engine_map :: "string list \<Rightarrow> (string \<times> EngineMeta) list" where
  "engine_map engines = fold (\<lambda>e m. if e \<noteq> [] then AList.update e default_EngineMeta m else m) engines []"

definition SetEngineAllowlist :: "string list \<Rightarrow> QuoteValidationServer \<Rightarrow> QuoteValidationServer" where
  "SetEngineAllowlist engines s =
     (if engines = [] then s\<lparr>qv_allow := None\<rparr>
      else if engine_map engines = [] then s\<lparr>qv_allow := None\<rparr>
      else s\<lparr>qv_allow := Some (engine_map engines)\<rparr>)"

definition SetEngineAllowlistMap :: "(string \<times> EngineMeta) list \<Rightarrow> QuoteValidationServer \<Rightarrow> QuoteValidationServer" where
  "SetEngineAllowlistMap m s = (if m = [] then s\<lparr>qv_allow := None\<rparr> else s\<lparr>qv_allow := Some m\<rparr>)"

definition checkEngine :: "(string \<Rightarrow> int option) \<Rightarrow> int \<Rightarrow> string \<Rightarrow> string \<Rightarrow> QuoteValidationServer \<Rightarrow> bool \<times> string" where
  "checkEngine parse now engineID op s =
     (case qv_allow s of
        None \<Rightarrow> (True, [])
      | Some mp \<Rightarrow>
          (case map_of mp engineID of
             None \<Rightarrow> (False, ''engine_id not in allowlist'')
           | Some meta \<Rightarrow>
               if ExpiredAt parse meta now then (False, ''engine_id expired'')
               else if \<not> HasPermission meta op then (False, ''engine_id lacks '' @ op @ '' permission'')
               else (True, [])))"

datatype grpc_error =
    PermissionDenied string
  | Internal reg_error
  | InternalLength nat
  | InvalidArgument nat nat
  | Unimplemented

definition permissionDenied :: "string \<Rightarrow> QuoteValidationServer \<Rightarrow> grpc_error \<times> QuoteValidationServer" where
  "permissionDenied reason s =
     (PermissionDenied (if reason = [] then ''engine_id rejected'' else reason), bump DeniedEngine s)"

section \<open>Answers\<close>

datatype ValidationStatus = STATUS_UNSPECIFIED | OK | NOT_FOUND | EXPIRED | ALREADY_CONSUMED

record QuoteRecordPb =
  pb_QuoteId :: string
  pb_Pair :: string
  pb_Channel :: string
  pb_Site :: string
  pb_Tier :: string
  pb_Tenor :: string
  pb_Bid :: u64
  pb_Ask :: u64
  pb_IssuedUnixNano :: int
  pb_ValidUntilUnixNano :: int
  pb_Sequence :: u64
  pb_Issuer :: string

definition recordToProto :: "QuoteRecord \<Rightarrow> QuoteRecordPb" where
  "recordToProto r = \<lparr>pb_QuoteId = q_QuoteID r, pb_Pair = q_Pair r, pb_Channel = pf_Channel (q_Profile r),
     pb_Site = pf_Site (q_Profile r), pb_Tier = pf_Tier (q_Profile r), pb_Tenor = q_Tenor r, pb_Bid = q_Bid r,
     pb_Ask = q_Ask r, pb_IssuedUnixNano = q_IssuedAt r, pb_ValidUntilUnixNano = q_ValidUntil r,
     pb_Sequence = q_Sequence r, pb_Issuer = q_Issuer r\<rparr>"

text \<open>A Record field that was not filled is the zero record.\<close>

definition zero_QuoteRecord :: QuoteRecord where
  "zero_QuoteRecord = \<lparr>q_QuoteID = [], q_Pair = [], q_Profile = \<lparr>pf_Channel = [], pf_Site = [], pf_Tier = []\<rparr>,
     q_Tenor = [], q_Bid = 0, q_Ask = 0, q_IssuedAt = 0, q_ValidUntil = 0, q_Sequence = 0, q_Issuer = [],
     q_ValueDate = 0, q_OffsetDays = 0, q_InterpolatedFrom = [], q_InterpolatedTo = [], q_InterpolationWeight = 0,
     q_SwapBid = 0, q_SwapAsk = 0\<rparr>"

definition filled :: "QuoteRecord option \<Rightarrow> QuoteRecord" where
  "filled x = (case x of None \<Rightarrow> zero_QuoteRecord | Some r \<Rightarrow> r)"

definition ordRejReasonNotFound :: int where "ordRejReasonNotFound = 5"
definition ordRejReasonExpired :: int where "ordRejReasonExpired = 13"
definition ordRejReasonDuplicate :: int where "ordRejReasonDuplicate = 6"

record ValidateResponse =
  vr_Status :: ValidationStatus
  vr_Record :: "QuoteRecordPb option"
  vr_OrdRejReason :: int
  vr_RejectText :: string

record MarkConsumedResponse =
  mr_Status :: ValidationStatus
  mr_Record :: "QuoteRecordPb option"
  mr_ConsumedBy :: string
  mr_OrdRejReason :: int
  mr_RejectText :: string

definition lookupToValidateResponse ::
  "int \<Rightarrow> LookupResult \<Rightarrow> QuoteValidationServer \<Rightarrow> ValidateResponse \<times> QuoteValidationServer" where
  "lookupToValidateResponse now lr s =
     (if \<not> l_Found lr then
        (\<lparr>vr_Status = NOT_FOUND, vr_Record = None, vr_OrdRejReason = ordRejReasonNotFound,
          vr_RejectText = ''quote_id not found''\<rparr>, bump CallsNotFound s)
      else if \<not> ValidAt (filled (l_Record lr)) now then
        (\<lparr>vr_Status = EXPIRED, vr_Record = Some (recordToProto (filled (l_Record lr))), vr_OrdRejReason = ordRejReasonExpired,
          vr_RejectText = ''quote_id expired''\<rparr>, bump CallsExpired s)
      else if l_Consumed lr then
        (\<lparr>vr_Status = ALREADY_CONSUMED, vr_Record = Some (recordToProto (filled (l_Record lr))),
          vr_OrdRejReason = ordRejReasonDuplicate, vr_RejectText = ''quote_id already consumed''\<rparr>, bump CallsConsumed s)
      else
        (\<lparr>vr_Status = OK, vr_Record = Some (recordToProto (filled (l_Record lr))), vr_OrdRejReason = 0, vr_RejectText = []\<rparr>,
          bump CallsOK s))"

text \<open>The answer for a result of the registry; the three places that build it differ in the text of the
  unknown status only.\<close>

definition consume_answer :: "string \<Rightarrow> ConsumeResult \<Rightarrow> MarkConsumedResponse" where
  "consume_answer unknown r =
     (case c_Status r of
        ConsumeOK \<Rightarrow> \<lparr>mr_Status = OK, mr_Record = Some (recordToProto (filled (c_Record r))), mr_ConsumedBy = [],
            mr_OrdRejReason = 0, mr_RejectText = []\<rparr>
      | ConsumeAlreadyDone \<Rightarrow> \<lparr>mr_Status = ALREADY_CONSUMED, mr_Record = Some (recordToProto (filled (c_Record r))),
            mr_ConsumedBy = c_ConsumedBy r, mr_OrdRejReason = ordRejReasonDuplicate,
            mr_RejectText = ''quote_id already consumed''\<rparr>
      | ConsumeNotFound \<Rightarrow> \<lparr>mr_Status = NOT_FOUND, mr_Record = None, mr_ConsumedBy = [],
            mr_OrdRejReason = ordRejReasonNotFound, mr_RejectText = ''quote_id not found''\<rparr>
      | ConsumeExpired \<Rightarrow> \<lparr>mr_Status = EXPIRED, mr_Record = Some (recordToProto (filled (c_Record r))), mr_ConsumedBy = [],
            mr_OrdRejReason = ordRejReasonExpired, mr_RejectText = ''quote_id expired''\<rparr>
      | ConsumeStatusUnknown \<Rightarrow> \<lparr>mr_Status = STATUS_UNSPECIFIED, mr_Record = None, mr_ConsumedBy = [],
            mr_OrdRejReason = 0, mr_RejectText = unknown\<rparr>)"

definition consumeResultToProto :: "ConsumeResult \<Rightarrow> MarkConsumedResponse" where
  "consumeResultToProto r = consume_answer ''internal error'' r"

definition swapConsumeResultToProto :: "ConsumeResult \<Rightarrow> MarkConsumedResponse" where
  "swapConsumeResultToProto r = consume_answer ''unknown ConsumeStatus'' r"

section \<open>The handlers for single quotes and batches\<close>

definition RPC_Validate ::
  "'r Registry \<Rightarrow> (string \<Rightarrow> int option) \<Rightarrow> clock \<Rightarrow> clock \<Rightarrow> string \<Rightarrow> QuoteID \<Rightarrow> QuoteValidationServer \<times> 'r \<Rightarrow>
     (grpc_error + ValidateResponse) \<times> QuoteValidationServer \<times> 'r" where
  "RPC_Validate reg parse now rc engineID qid = (\<lambda>(s0, r).
     let s = bump CallsTotal s0
     in case checkEngine parse (now 0) engineID PermValidate s of
          (False, reason) \<Rightarrow> (let (e, s') = permissionDenied reason s in (Inl e, s', r))
        | (True, _) \<Rightarrow>
            if qid = [] then
              (Inr \<lparr>vr_Status = NOT_FOUND, vr_Record = None, vr_OrdRejReason = ordRejReasonNotFound,
                 vr_RejectText = ''quote_id required''\<rparr>, bump CallsNotFound s, r)
            else (case reg_Lookup reg rc qid r of
                (Inl e, r') \<Rightarrow> (Inl (Internal e), bump CallsInternal s, r')
              | (Inr lr, r') \<Rightarrow> (let (resp, s') = lookupToValidateResponse (now 1) lr s in (Inr resp, s', r'))))"

text \<open>The counter of a consume result.  The single call counts an unknown status as internal.\<close>

definition consume_counter :: "ConsumeStatus \<Rightarrow> counter option" where
  "consume_counter st =
     (case st of
        ConsumeOK \<Rightarrow> Some ConsumeOKs
      | ConsumeAlreadyDone \<Rightarrow> Some ConsumeAlready
      | ConsumeNotFound \<Rightarrow> Some ConsumeNotFounds
      | ConsumeExpired \<Rightarrow> Some ConsumeExpireds
      | ConsumeStatusUnknown \<Rightarrow> None)"

definition RPC_MarkConsumed ::
  "'r Registry \<Rightarrow> (string \<Rightarrow> int option) \<Rightarrow> clock \<Rightarrow> clock \<Rightarrow> string \<Rightarrow> QuoteID \<Rightarrow> string \<Rightarrow> QuoteValidationServer \<times> 'r \<Rightarrow>
     (grpc_error + MarkConsumedResponse) \<times> QuoteValidationServer \<times> 'r" where
  "RPC_MarkConsumed reg parse now rc engineID qid consumerID = (\<lambda>(s0, r).
     let s = bump ConsumeTotal s0
     in case checkEngine parse (now 0) engineID PermMarkConsumed s of
          (False, reason) \<Rightarrow> (let (e, s') = permissionDenied reason s in (Inl e, s', r))
        | (True, _) \<Rightarrow>
            if qid = [] then
              (Inr \<lparr>mr_Status = NOT_FOUND, mr_Record = None, mr_ConsumedBy = [], mr_OrdRejReason = ordRejReasonNotFound,
                 mr_RejectText = ''quote_id required''\<rparr>, bump ConsumeNotFounds s, r)
            else (case reg_MarkConsumed reg rc qid consumerID r of
                (Inl e, r') \<Rightarrow> (Inl (Internal e), bump ConsumeInternal s, r')
              | (Inr res, r') \<Rightarrow>
                  (Inr (consume_answer ''unknown ConsumeStatus'' res),
                   (case consume_counter (c_Status res) of Some c \<Rightarrow> bump c s | None \<Rightarrow> bump ConsumeInternal s), r')))"

definition MaxBatchValidateSize :: nat where "MaxBatchValidateSize = 1000"
definition MaxBatchConsumeSize :: nat where "MaxBatchConsumeSize = 1000"

text \<open>The loop of BatchValidate over the lookups; the readings of the clock are counted from \<open>k\<close>.\<close>

fun batch_answers ::
  "clock \<Rightarrow> nat \<Rightarrow> LookupResult list \<Rightarrow> QuoteValidationServer \<Rightarrow> ValidateResponse list \<times> QuoteValidationServer" where
  "batch_answers now k [] s = ([], s)"
| "batch_answers now k (lr # lrs) s =
     (let (resp, s1) = lookupToValidateResponse (now k) lr (bump CallsTotal s);
          (resps, s2) = batch_answers now (Suc k) lrs s1
      in (resp # resps, s2))"

definition BatchValidate ::
  "'r Registry \<Rightarrow> (string \<Rightarrow> int option) \<Rightarrow> clock \<Rightarrow> clock \<Rightarrow> string \<Rightarrow> QuoteID list \<Rightarrow> QuoteValidationServer \<times> 'r \<Rightarrow>
     (grpc_error + ValidateResponse list) \<times> QuoteValidationServer \<times> 'r" where
  "BatchValidate reg parse now rc engineID ids = (\<lambda>(s0, r).
     let s = bump BatchTotal s0
     in case checkEngine parse (now 0) engineID PermValidate s of
          (False, reason) \<Rightarrow> (let (e, s') = permissionDenied reason s in (Inl e, s', r))
        | (True, _) \<Rightarrow>
            if ids = [] then (Inr [], s, r)
            else if length ids > MaxBatchValidateSize then (Inl (InvalidArgument (length ids) MaxBatchValidateSize), s, r)
            else let s1 = add_count BatchItems (of_nat (length ids)) s
                 in (case reg_LookupMany reg rc ids r of
                       (Inl e, r') \<Rightarrow> (Inl (Internal e), bump CallsInternal s1, r')
                     | (Inr lrs, r') \<Rightarrow> (let (resps, s2) = batch_answers now 1 lrs s1 in (Inr resps, s2, r'))))"

definition batch_consume_step :: "ConsumeResult \<Rightarrow> QuoteValidationServer \<Rightarrow> QuoteValidationServer" where
  "batch_consume_step res s =
     bump ConsumeTotal (case consume_counter (c_Status res) of Some c \<Rightarrow> bump c s | None \<Rightarrow> s)"

definition BatchMarkConsumed ::
  "'r Registry \<Rightarrow> (string \<Rightarrow> int option) \<Rightarrow> clock \<Rightarrow> clock \<Rightarrow> string \<Rightarrow> (QuoteID \<times> string) list \<Rightarrow> QuoteValidationServer \<times> 'r \<Rightarrow>
     (grpc_error + MarkConsumedResponse list) \<times> QuoteValidationServer \<times> 'r" where
  "BatchMarkConsumed reg parse now rc engineID items = (\<lambda>(s0, r).
     let s = bump BatchConsumeTotal s0
     in case checkEngine parse (now 0) engineID PermMarkConsumed s of
          (False, reason) \<Rightarrow> (let (e, s') = permissionDenied reason s in (Inl e, s', r))
        | (True, _) \<Rightarrow>
            if items = [] then (Inr [], s, r)
            else if length items > MaxBatchConsumeSize then (Inl (InvalidArgument (length items) MaxBatchConsumeSize), s, r)
            else let s1 = add_count BatchConsumeItems (of_nat (length items)) s
                 in (case reg_MarkConsumedMany reg rc items r of
                       (Inl e, r') \<Rightarrow> (Inl (Internal e), bump ConsumeInternal s1, r')
                     | (Inr results, r') \<Rightarrow> (Inr (map consumeResultToProto results), fold batch_consume_step results s1, r')))"

section \<open>The handlers for swaps\<close>

definition status_rank :: "ValidationStatus \<Rightarrow> nat" where
  "status_rank st =
     (case st of NOT_FOUND \<Rightarrow> 4 | ALREADY_CONSUMED \<Rightarrow> 3 | EXPIRED \<Rightarrow> 2 | OK \<Rightarrow> 1 | STATUS_UNSPECIFIED \<Rightarrow> 0)"

definition worstStatus :: "ValidationStatus \<Rightarrow> ValidationStatus \<Rightarrow> ValidationStatus" where
  "worstStatus a b = (if status_rank a \<ge> status_rank b then a else b)"

definition preValidateToConsumeShape :: "ValidateResponse \<Rightarrow> MarkConsumedResponse" where
  "preValidateToConsumeShape v = \<lparr>mr_Status = vr_Status v, mr_Record = vr_Record v, mr_ConsumedBy = [],
     mr_OrdRejReason = vr_OrdRejReason v, mr_RejectText = vr_RejectText v\<rparr>"

record 'a SwapResponse =
  sr_SwapStatus :: ValidationStatus
  sr_Near :: "'a option"
  sr_Far :: "'a option"
  sr_OrdRejReason :: int
  sr_RejectText :: string

definition swap_refused :: "string \<Rightarrow> 'a SwapResponse" where
  "swap_refused text = \<lparr>sr_SwapStatus = NOT_FOUND, sr_Near = None, sr_Far = None,
     sr_OrdRejReason = ordRejReasonNotFound, sr_RejectText = text\<rparr>"

text \<open>The reject reason, its text and the kind of counter for the status of a swap.\<close>

definition swap_response :: "string \<Rightarrow> ValidationStatus \<Rightarrow> 'a \<Rightarrow> 'a \<Rightarrow> 'a SwapResponse" where
  "swap_response already st near far =
     (case st of
        OK \<Rightarrow> \<lparr>sr_SwapStatus = st, sr_Near = Some near, sr_Far = Some far, sr_OrdRejReason = 0, sr_RejectText = []\<rparr>
      | EXPIRED \<Rightarrow> \<lparr>sr_SwapStatus = st, sr_Near = Some near, sr_Far = Some far,
          sr_OrdRejReason = ordRejReasonExpired, sr_RejectText = ''swap leg expired''\<rparr>
      | ALREADY_CONSUMED \<Rightarrow> \<lparr>sr_SwapStatus = st, sr_Near = Some near, sr_Far = Some far,
          sr_OrdRejReason = ordRejReasonDuplicate, sr_RejectText = already\<rparr>
      | _ \<Rightarrow> \<lparr>sr_SwapStatus = st, sr_Near = Some near, sr_Far = Some far,
          sr_OrdRejReason = ordRejReasonNotFound, sr_RejectText = ''swap leg not found''\<rparr>)"

definition validate_counter :: "ValidationStatus \<Rightarrow> counter" where
  "validate_counter st =
     (case st of OK \<Rightarrow> SwapValidateOK | EXPIRED \<Rightarrow> SwapValidateExpired | ALREADY_CONSUMED \<Rightarrow> SwapValidateConsumed
      | _ \<Rightarrow> SwapValidateNotFound)"

definition swap_counter :: "ValidationStatus \<Rightarrow> counter" where
  "swap_counter st =
     (case st of OK \<Rightarrow> SwapConsumeOK | EXPIRED \<Rightarrow> SwapConsumeExpired | ALREADY_CONSUMED \<Rightarrow> SwapConsumeAlready
      | _ \<Rightarrow> SwapConsumeNotFound)"

text \<open>Other calls may change the registry between two registry calls of a handler: \<open>env k\<close> is what they do
  before the k-th one.\<close>

definition ValidateSwap ::
  "'r Registry \<Rightarrow> 'r SwapIndex \<Rightarrow> (string \<Rightarrow> int option) \<Rightarrow> clock \<Rightarrow> (nat \<Rightarrow> clock) \<Rightarrow> (nat \<Rightarrow> 'r \<Rightarrow> 'r) \<Rightarrow>
     string \<Rightarrow> string \<Rightarrow> QuoteValidationServer \<times> 'r \<Rightarrow>
     (grpc_error + ValidateResponse SwapResponse) \<times> QuoteValidationServer \<times> 'r" where
  "ValidateSwap reg idx parse now rc env engineID swapID = (\<lambda>(s0, r0).
     let s = bump SwapValidateTotal s0
     in case checkEngine parse (now 0) engineID PermValidate s of
          (False, reason) \<Rightarrow> (let (e, s') = permissionDenied reason s in (Inl e, s', r0))
        | (True, _) \<Rightarrow>
            if \<not> qv_swapIdx s then (Inl Unimplemented, s, r0)
            else if swapID = [] then (Inr (swap_refused ''swap_id required''), bump SwapValidateNotFound s, r0)
            else (case idx_GetSwap idx (rc 0) swapID (env 0 r0) of
                (Inl e, r1) \<Rightarrow>
                  if e = RegError ErrSwapNotFound
                  then (Inr (swap_refused ''swap_id not found''), bump SwapValidateNotFound s, r1)
                  else (Inl (Internal e), bump SwapValidateInternal s, r1)
              | (Inr sw, r1) \<Rightarrow>
                  (case reg_LookupMany reg (rc 1) [w_NearID sw, w_FarID sw] (env 1 r1) of
                     (Inl e, r2) \<Rightarrow> (Inl (Internal e), bump SwapValidateInternal s, r2)
                   | (Inr results, r2) \<Rightarrow>
                       if length results \<noteq> 2 then (Inl (InternalLength (length results)), bump SwapValidateInternal s, r2)
                       else let (near, s1) = lookupToValidateResponse (now 1) (results ! 0) s;
                                (far, s2) = lookupToValidateResponse (now 2) (results ! 1) s1;
                                st = worstStatus (vr_Status near) (vr_Status far)
                            in (Inr (swap_response ''swap leg already consumed'' st near far), bump (validate_counter st) s2, r2))))"

text \<open>The second stage of ConsumeSwap: both legs are marked in one call.\<close>

definition swap_mark ::
  "'r Registry \<Rightarrow> clock \<Rightarrow> string \<Rightarrow> SwapRecord \<Rightarrow> QuoteValidationServer \<Rightarrow> 'r \<Rightarrow>
     (grpc_error + MarkConsumedResponse SwapResponse) \<times> QuoteValidationServer \<times> 'r" where
  "swap_mark reg clk consumerID sw s r =
     (case reg_MarkConsumedMany reg clk [(w_NearID sw, consumerID), (w_FarID sw, consumerID)] r of
        (Inl e, r') \<Rightarrow> (Inl (Internal e), bump SwapConsumeInternal s, r')
      | (Inr results, r') \<Rightarrow>
          if length results \<noteq> 2 then (Inl (InternalLength (length results)), bump SwapConsumeInternal s, r')
          else let near = swapConsumeResultToProto (results ! 0); far = swapConsumeResultToProto (results ! 1);
                   st = worstStatus (mr_Status near) (mr_Status far);
                   s1 = bump (swap_counter st) s
               in (Inr (swap_response ''swap leg already consumed (partial - race)'' st near far),
                   (if st = ALREADY_CONSUMED then bump SwapConsumePartialRace s1 else s1), r'))"

definition ConsumeSwap ::
  "'r Registry \<Rightarrow> 'r SwapIndex \<Rightarrow> (string \<Rightarrow> int option) \<Rightarrow> clock \<Rightarrow> (nat \<Rightarrow> clock) \<Rightarrow> (nat \<Rightarrow> 'r \<Rightarrow> 'r) \<Rightarrow>
     string \<Rightarrow> string \<Rightarrow> string \<Rightarrow> QuoteValidationServer \<times> 'r \<Rightarrow>
     (grpc_error + MarkConsumedResponse SwapResponse) \<times> QuoteValidationServer \<times> 'r" where
  "ConsumeSwap reg idx parse now rc env engineID swapID consumerID = (\<lambda>(s0, r0).
     let s = bump SwapConsumeTotal s0
     in case checkEngine parse (now 0) engineID PermMarkConsumed s of
          (False, reason) \<Rightarrow> (let (e, s') = permissionDenied reason s in (Inl e, s', r0))
        | (True, _) \<Rightarrow>
            if \<not> qv_swapIdx s then (Inl Unimplemented, s, r0)
            else if swapID = [] then (Inr (swap_refused ''swap_id required''), bump SwapConsumeNotFound s, r0)
            else (case idx_GetSwap idx (rc 0) swapID (env 0 r0) of
                (Inl e, r1) \<Rightarrow>
                  if e = RegError ErrSwapNotFound
                  then (Inr (swap_refused ''swap_id not found''), bump SwapConsumeNotFound s, r1)
                  else (Inl (Internal e), bump SwapConsumeInternal s, r1)
              | (Inr sw, r1) \<Rightarrow>
                  (case reg_LookupMany reg (rc 1) [w_NearID sw, w_FarID sw] (env 1 r1) of
                     (Inl e, r2) \<Rightarrow> (Inl (Internal e), bump SwapConsumeInternal s, r2)
                   | (Inr results, r2) \<Rightarrow>
                       if length results \<noteq> 2 then (Inl (InternalLength (length results)), bump SwapConsumeInternal s, r2)
                       else let (near, s1) = lookupToValidateResponse (now 1) (results ! 0) s;
                                (far, s2) = lookupToValidateResponse (now 2) (results ! 1) s1;
                                pre = worstStatus (vr_Status near) (vr_Status far)
                            in if pre \<noteq> OK then
                                 (Inr (swap_response ''swap leg already consumed'' pre (preValidateToConsumeShape near)
                                    (preValidateToConsumeShape far)), bump (swap_counter pre) s2, r2)
                               else swap_mark reg (rc 2) consumerID sw s2 (env 2 r2))))"

section \<open>Who may call\<close>

definition permitted :: "(string \<Rightarrow> int option) \<Rightarrow> int \<Rightarrow> string \<Rightarrow> string \<Rightarrow> QuoteValidationServer \<Rightarrow> bool" where
  "permitted parse now engineID op s \<longleftrightarrow>
     (\<forall>mp. qv_allow s = Some mp \<longrightarrow>
        (\<exists>meta. map_of mp engineID = Some meta \<and> \<not> ExpiredAt parse meta now \<and> HasPermission meta op))"

lemma qv_allow_add [simp]: "qv_allow (add_count c n s) = qv_allow s" "qv_swapIdx (add_count c n s) = qv_swapIdx s"
  by (simp_all add: add_count_def)

lemma checkEngine_add [simp]: "checkEngine parse now e op (add_count c n s) = checkEngine parse now e op s"
  by (simp add: checkEngine_def)

lemma checkEngine_permitted: "fst (checkEngine parse now e op s) \<longleftrightarrow> permitted parse now e op s"
  by (auto simp: checkEngine_def permitted_def split: option.splits)

lemma checkEngine_cases:
  obtains (ok) "permitted parse now e op s" "checkEngine parse now e op s = (True, [])"
  | (no) reason where "\<not> permitted parse now e op s" "checkEngine parse now e op s = (False, reason)"
  by (cases "checkEngine parse now e op s")
    (auto simp: checkEngine_def permitted_def split: option.splits if_splits)

lemmas handler_defs = RPC_Validate_def RPC_MarkConsumed_def BatchValidate_def BatchMarkConsumed_def ValidateSwap_def
  ConsumeSwap_def

lemma swap_mark_never_denied: "fst (swap_mark reg clk c sw s r) \<noteq> Inl (PermissionDenied x)"
  by (auto simp: swap_mark_def Let_def split: sum.splits prod.splits)

text \<open>What a handler does for an engine that is not permitted, and that nothing else answers so.\<close>

definition gated :: "bool \<Rightarrow> ((grpc_error + 'a) \<times> QuoteValidationServer \<times> 'r) \<Rightarrow> 'r \<Rightarrow> bool" where
  "gated allowed res r \<longleftrightarrow>
     (if allowed then \<forall>reason. fst res \<noteq> Inl (PermissionDenied reason)
      else (\<exists>reason. fst res = Inl (PermissionDenied reason)) \<and> snd (snd res) = r)"

lemma gated_single:
  "gated (permitted parse (now 0) e PermValidate s) (RPC_Validate reg parse now rc e qid (s, r)) r"
  "gated (permitted parse (now 0) e PermMarkConsumed s) (RPC_MarkConsumed reg parse now rc e qid c (s, r)) r"
  by (rule checkEngine_cases [of parse "now 0" e PermValidate s];
      simp add: RPC_Validate_def gated_def permissionDenied_def Let_def split: sum.splits prod.splits)
    (rule checkEngine_cases [of parse "now 0" e PermMarkConsumed s];
      simp add: RPC_MarkConsumed_def gated_def permissionDenied_def Let_def split: sum.splits prod.splits)

lemma gated_batch:
  "gated (permitted parse (now 0) e PermValidate s) (BatchValidate reg parse now rc e ids (s, r)) r"
  "gated (permitted parse (now 0) e PermMarkConsumed s) (BatchMarkConsumed reg parse now rc e items (s, r)) r"
  by (rule checkEngine_cases [of parse "now 0" e PermValidate s];
      simp add: BatchValidate_def gated_def permissionDenied_def Let_def split: sum.splits prod.splits)
    (rule checkEngine_cases [of parse "now 0" e PermMarkConsumed s];
      simp add: BatchMarkConsumed_def gated_def permissionDenied_def Let_def split: sum.splits prod.splits)

lemma gated_swap:
  "gated (permitted parse (now 0) e PermValidate s) (ValidateSwap reg idx parse now rk env e swapID (s, r)) r"
  "gated (permitted parse (now 0) e PermMarkConsumed s) (ConsumeSwap reg idx parse now rk env e swapID c (s, r)) r"
  by (rule checkEngine_cases [of parse "now 0" e PermValidate s];
      simp add: ValidateSwap_def gated_def permissionDenied_def Let_def split: sum.splits prod.splits)
    (rule checkEngine_cases [of parse "now 0" e PermMarkConsumed s];
      simp add: ConsumeSwap_def gated_def permissionDenied_def swap_mark_never_denied Let_def split: sum.splits prod.splits)

text \<open>C18: Every call of the validation service is gated by the allowlist: the answer is PermissionDenied
  exactly when an allowlist is set in which the engine is missing, expired or lacks the permission of
  the operation (mark_consumed for everything that consumes), and then the registry is not touched.
  This holds for single quotes, batches and swaps, for every registry and index, and for every
  interleaving of other calls.\<close>

theorem engine_gate:
  "gated (permitted parse (now 0) e PermValidate s) (RPC_Validate reg parse now rc e qid (s, r)) r \<and>
   gated (permitted parse (now 0) e PermMarkConsumed s) (RPC_MarkConsumed reg parse now rc e qid c (s, r)) r \<and>
   gated (permitted parse (now 0) e PermValidate s) (BatchValidate reg parse now rc e ids (s, r)) r \<and>
   gated (permitted parse (now 0) e PermMarkConsumed s) (BatchMarkConsumed reg parse now rc e items (s, r)) r \<and>
   gated (permitted parse (now 0) e PermValidate s) (ValidateSwap reg idx parse now rk env e swapID (s, r)) r \<and>
   gated (permitted parse (now 0) e PermMarkConsumed s) (ConsumeSwap reg idx parse now rk env e swapID c (s, r)) r"
  by (intro conjI gated_single gated_batch gated_swap)

section \<open>Consuming a swap\<close>

lemma mem_ops_simps [simp]:
  "reg_Lookup mem_registry clk i m = (Inr (lookupLocked (clk 0) i m), m)"
  "reg_LookupMany mem_registry clk ids m = (Inr (Registry_LookupMany (zip ids (map clk [0..<length ids])) m), m)"
  "reg_MarkConsumed mem_registry clk i c m = (Inr (fst (MarkConsumed (clk 0) (clk 1) i c m)), snd (MarkConsumed (clk 0) (clk 1) i c m))"
  "reg_MarkConsumedMany mem_registry clk qs m =
     (Inr (fst (MarkConsumedMany (clk 0) qs m)), snd (MarkConsumedMany (clk 0) qs m))"
  "reg_Put mem_registry clk r m = (map_option RegError (fst (Registry_Put r m)), snd (Registry_Put r m))"
  "idx_PutSwap mem_index clk w m = (map_option RegError (fst (PutSwap w m)), snd (PutSwap w m))"
  "idx_Delete mem_index clk i m = (None, Registry_Delete i m)"
  by (simp_all add: mem_registry_def mem_index_def split: prod.splits)

lemma mem_GetSwap:
  "idx_GetSwap mem_index clk i m =
     ((case fst (GetSwap (clk 0) i m) of Inl e \<Rightarrow> Inl (RegError e) | Inr w \<Rightarrow> Inr w), snd (GetSwap (clk 0) i m))"
  by (simp add: mem_index_def split: prod.splits sum.splits)

lemma consume_answer_ok: "mr_Status (consume_answer x r) = OK \<longleftrightarrow> is_ok r"
  by (cases "c_Status r") (simp_all add: consume_answer_def is_ok_def)

lemma consume_answer_known:
  "c_Status r \<noteq> ConsumeStatusUnknown \<Longrightarrow> mr_Status (consume_answer x r) \<noteq> STATUS_UNSPECIFIED"
  by (cases "c_Status r") (simp_all add: consume_answer_def)

lemma MarkConsumed_known: "c_Status (fst (MarkConsumed n1 n2 i c m)) \<noteq> ConsumeStatusUnknown"
  by (simp add: MarkConsumed_def split: option.splits)

lemma worstStatus_ok:
  "worstStatus a b = OK \<Longrightarrow> a \<noteq> STATUS_UNSPECIFIED \<Longrightarrow> b \<noteq> STATUS_UNSPECIFIED \<Longrightarrow> a = OK \<and> b = OK"
  by (cases a; cases b) (simp_all add: worstStatus_def status_rank_def)

lemma swap_response_status [simp]:
  "sr_SwapStatus (swap_response x st a b) = st" "sr_Near (swap_response x st a b) = Some a"
  "sr_Far (swap_response x st a b) = Some b"
  by (cases st; simp add: swap_response_def)+

text \<open>Marking the two legs of a swap.\<close>

lemma many_two:
  "MarkConsumedMany n [(a, c), (b, c)] m =
     (let (r1, m1) = MarkConsumed n n a c m; (r2, m2) = MarkConsumed n n b c m1 in ([r1, r2], m2))"
  by (simp add: MarkConsumedMany_Cons case_prod_beta)

lemma MarkConsumed_ok_state:
  assumes "is_ok (fst (MarkConsumed n1 n2 i c m))"
  shows "snd (MarkConsumed n1 n2 i c m) = m\<lparr>m_consumed := AList.update i c (m_consumed m)\<rparr>"
  using assms by (auto simp: MarkConsumed_def is_ok_def split: option.splits if_splits)

lemma swap_mark_ok:
  assumes "fst (swap_mark mem_registry clk c sw s m) = Inr resp" "sr_SwapStatus resp = OK"
  defines "m' \<equiv> snd (snd (swap_mark mem_registry clk c sw s m))"
  shows "w_NearID sw \<noteq> w_FarID sw \<and>
    (\<forall>i \<in> {w_NearID sw, w_FarID sw}.
       (\<exists>r. map_of (m_records m) i = Some r \<and> ValidAt r (clk 0)) \<and>
       map_of (m_consumed m) i = None \<and> map_of (m_consumed m') i = Some c)"
proof -
  let ?a = "w_NearID sw" and ?b = "w_FarID sw" and ?n = "clk 0"
  let ?r1 = "fst (MarkConsumed ?n ?n ?a c m)" and ?m1 = "snd (MarkConsumed ?n ?n ?a c m)"
  let ?r2 = "fst (MarkConsumed ?n ?n ?b c ?m1)"
  have m': "m' = snd (MarkConsumed ?n ?n ?b c ?m1)"
    by (simp add: m'_def swap_mark_def many_two case_prod_beta Let_def)
  have "worstStatus (mr_Status (swapConsumeResultToProto ?r1)) (mr_Status (swapConsumeResultToProto ?r2)) = OK"
    using assms(1,2) by (auto simp: swap_mark_def many_two case_prod_beta Let_def)
  then have ok: "is_ok ?r1" "is_ok ?r2"
    using worstStatus_ok [of "mr_Status (swapConsumeResultToProto ?r1)" "mr_Status (swapConsumeResultToProto ?r2)"]
      consume_answer_known [OF MarkConsumed_known]
    by (auto simp: swapConsumeResultToProto_def consume_answer_ok)
  have m1: "?m1 = m\<lparr>m_consumed := AList.update ?a c (m_consumed m)\<rparr>" by (rule MarkConsumed_ok_state [OF ok(1)])
  from ok(1) obtain r1 where r1: "map_of (m_records m) ?a = Some r1" "ValidAt r1 ?n" "map_of (m_consumed m) ?a = None"
    unfolding MarkConsumed_ok_iff by blast
  from ok(2) obtain r2 where r2: "map_of (m_records m) ?b = Some r2" "ValidAt r2 ?n" "map_of (m_consumed ?m1) ?b = None"
    unfolding MarkConsumed_ok_iff m1 by auto
  have ne: "?a \<noteq> ?b" using r2(3) by (auto simp: m1)
  have m'': "m' = m\<lparr>m_consumed := AList.update ?b c (AList.update ?a c (m_consumed m))\<rparr>"
    using MarkConsumed_ok_state [OF ok(2)] by (simp add: m' m1)
  show ?thesis using r1 r2 ne by (auto simp: m'' m1 split: if_splits)
qed

lemma ConsumeSwap_stages:
  assumes "ConsumeSwap mem_registry mem_index parse now rc env e swapID c (s, m) = (Inr resp, s', m')"
    "sr_SwapStatus resp = OK"
  obtains sw s2 where "map_of (m_swaps (env 0 m)) swapID = Some sw"
    "swap_mark mem_registry (rc 2) c sw s2 (env 2 (env 1 (env 0 m))) = (Inr resp, s', m')"
proof -
  obtain sw where sw: "fst (GetSwap (rc 0 0) swapID (env 0 m)) = Inr sw"
    and idx: "map_of (m_swaps (env 0 m)) swapID = Some sw" "snd (GetSwap (rc 0 0) swapID (env 0 m)) = env 0 m"
    using assms
    by (auto simp: ConsumeSwap_def mem_GetSwap GetSwap_def swap_refused_def Let_def
        split: prod.splits bool.splits if_splits sum.splits option.splits)
  let ?s = "add_count SwapConsumeTotal 1 s"
  define results where "results = Registry_LookupMany (zip [w_NearID sw, w_FarID sw] (map (rc 1) [0..<2])) (env 1 (env 0 m))"
  have lk: "length results = 2" by (simp add: results_def Registry_LookupMany_def numeral_2_eq_2)
  have many: "reg_LookupMany mem_registry (rc 1) [w_NearID sw, w_FarID sw] (env 1 (env 0 m)) = (Inr results, env 1 (env 0 m))"
    by (simp add: results_def numeral_2_eq_2)
  obtain near s1 where near: "lookupToValidateResponse (now 1) (results ! 0) ?s = (near, s1)" by fastforce
  obtain far s2 where far: "lookupToValidateResponse (now 2) (results ! 1) s1 = (far, s2)" by fastforce
  obtain b x where chk: "checkEngine parse (now 0) e PermMarkConsumed s = (b, x)" by fastforce
  have b: "b" "qv_swapIdx s" "swapID \<noteq> []"
    using assms by (auto simp: ConsumeSwap_def chk swap_refused_def Let_def permissionDenied_def split: bool.splits if_splits)
  have run: "ConsumeSwap mem_registry mem_index parse now rc env e swapID c (s, m) =
      (if worstStatus (vr_Status near) (vr_Status far) \<noteq> OK
       then (Inr (swap_response ''swap leg already consumed'' (worstStatus (vr_Status near) (vr_Status far))
              (preValidateToConsumeShape near) (preValidateToConsumeShape far)),
            bump (swap_counter (worstStatus (vr_Status near) (vr_Status far))) s2, env 1 (env 0 m))
       else swap_mark mem_registry (rc 2) c sw s2 (env 2 (env 1 (env 0 m))))"
    unfolding ConsumeSwap_def Let_def
    by (simp only: prod.case checkEngine_add chk b if_True if_False not_True_eq_False qv_allow_add mem_GetSwap sw idx sum.case
        bool.case many lk simp_thms near far)
  have "swap_mark mem_registry (rc 2) c sw s2 (env 2 (env 1 (env 0 m))) = (Inr resp, s', m')"
    using assms unfolding run by (auto split: if_splits)
  with idx(1) show thesis by (rule that)
qed

text \<open>C6: A swap that is answered OK consumed both its legs: the index held the swap, in the registry at
  the moment of marking both quotes were valid and unspent, now both carry the consumer of this call,
  and no later operation grants one of them again before it is registered anew.  This holds whatever
  other calls do to the registry between the steps of the handler.\<close>

theorem swap_consumed_together:
  assumes "ConsumeSwap mem_registry mem_index parse now rc env e swapID c (s, m) = (Inr resp, s', m')"
    and "sr_SwapStatus resp = OK"
  shows "\<exists>sw m2. map_of (m_swaps (env 0 m)) swapID = Some sw \<and> m2 = env 2 (env 1 (env 0 m)) \<and>
    w_NearID sw \<noteq> w_FarID sw \<and>
    (\<forall>i \<in> {w_NearID sw, w_FarID sw}.
       (\<exists>r. map_of (m_records m2) i = Some r \<and> ValidAt r (rc 2 0)) \<and>
       map_of (m_consumed m2) i = None \<and> map_of (m_consumed m') i = Some c \<and>
       (\<forall>ops. mem_wf m' \<and> list_all (\<lambda>op. \<not> mem_issues op i) ops \<longrightarrow> i \<notin> set (fst (run_ops mem_exec ops m'))))"
proof -
  obtain sw s2 where sw: "map_of (m_swaps (env 0 m)) swapID = Some sw"
    and mark: "swap_mark mem_registry (rc 2) c sw s2 (env 2 (env 1 (env 0 m))) = (Inr resp, s', m')"
    by (rule ConsumeSwap_stages [OF assms])
  have both: "w_NearID sw \<noteq> w_FarID sw \<and>
    (\<forall>i \<in> {w_NearID sw, w_FarID sw}.
       (\<exists>r. map_of (m_records (env 2 (env 1 (env 0 m)))) i = Some r \<and> ValidAt r (rc 2 0)) \<and>
       map_of (m_consumed (env 2 (env 1 (env 0 m)))) i = None \<and> map_of (m_consumed m') i = Some c)"
    using swap_mark_ok [of "rc 2" c sw s2 "env 2 (env 1 (env 0 m))" resp] mark assms(2) by simp
  then have spent: "mem_spent m' i" if "i \<in> {w_NearID sw, w_FarID sw}" for i
    using that by (auto simp: mem_spent_def)
  have later: "\<forall>ops. mem_wf m' \<and> list_all (\<lambda>op. \<not> mem_issues op i) ops \<longrightarrow> i \<notin> set (fst (run_ops mem_exec ops m'))"
    if "i \<in> {w_NearID sw, w_FarID sw}" for i
    using mem.run_spent [OF _ spent [OF that]] by simp
  show ?thesis
    by (rule exI [where x = sw], rule exI [where x = "env 2 (env 1 (env 0 m))"])
      (use both sw later in simp)
qed

definition sample_far :: QuoteRecord where
  "sample_far = sample_rec\<lparr>q_QuoteID := ''A-1-2'', q_Tenor := ''1M'', q_Sequence := 2\<rparr>"

definition sample_swap :: SwapRecord where
  "sample_swap = \<lparr>w_SwapID = ''SW-1'', w_NearID = ''A-1-1'', w_FarID = ''A-1-2'', w_IssuedAt = 100, w_ValidUntil = 200,
     w_Issuer = ''A''\<rparr>"

definition sample_swap_reg :: MemoryRegistry where
  "sample_swap_reg = snd (PutSwap sample_swap (put_rec sample_far sample_reg))"

definition sample_server :: QuoteValidationServer where
  "sample_server = SetSwapIndex NewQuoteValidationServer"

lemmas sample_swap_defs = sample_swap_reg_def sample_swap_def sample_far_def sample_rec_def sample_reg_def
  NewMemoryRegistry_def put_rec_def PutSwap_def sample_server_def SetSwapIndex_def NewQuoteValidationServer_def

definition sample_run :: "(grpc_error + MarkConsumedResponse SwapResponse) \<times> QuoteValidationServer \<times> MemoryRegistry" where
  "sample_run = ConsumeSwap mem_registry mem_index (\<lambda>_. None) (\<lambda>_. 150) (\<lambda>_ _. 150) (\<lambda>_ m. m) ''E'' ''SW-1'' ''x''
     (sample_server, sample_swap_reg)"

lemma sample_run_ok: "case fst sample_run of Inl _ \<Rightarrow> False | Inr resp \<Rightarrow> sr_SwapStatus resp = OK"
  by code_simp

theorem swap_consumed_together_witness:
  "\<exists>sw m2. map_of (m_swaps sample_swap_reg) ''SW-1'' = Some sw \<and> m2 = sample_swap_reg \<and> w_NearID sw \<noteq> w_FarID sw \<and>
    (\<forall>i \<in> {w_NearID sw, w_FarID sw}.
       (\<exists>r. map_of (m_records m2) i = Some r \<and> ValidAt r 150) \<and> map_of (m_consumed m2) i = None \<and>
       map_of (m_consumed (snd (snd sample_run))) i = Some ''x'' \<and>
       (\<forall>ops. mem_wf (snd (snd sample_run)) \<and> list_all (\<lambda>op. \<not> mem_issues op i) ops \<longrightarrow>
          i \<notin> set (fst (run_ops mem_exec ops (snd (snd sample_run))))))"
proof -
  obtain resp where ans: "fst sample_run = Inr resp" "sr_SwapStatus resp = OK"
    using sample_run_ok by (auto split: sum.splits)
  have run: "ConsumeSwap mem_registry mem_index (\<lambda>_. None) (\<lambda>_. 150) (\<lambda>_ _. 150) (\<lambda>_ m. m) ''E'' ''SW-1'' ''x''
      (sample_server, sample_swap_reg) = (Inr resp, fst (snd sample_run), snd (snd sample_run))"
    using ans(1) by (simp add: sample_run_def prod_eq_iff)
  show ?thesis by (rule swap_consumed_together [OF run ans(2)])
qed

text \<open>The comment of ConsumeSwap promises that no leg is marked when the other one cannot be.  If another
  order takes the near leg between the check and the marking, the swap is refused as already consumed,
  but its far leg is marked all the same and lost for everybody.\<close>

theorem swap_race_burns_leg:
  "case ConsumeSwap mem_registry mem_index (\<lambda>_. None) (\<lambda>_. 150) (\<lambda>_ _. 150)
       (\<lambda>k m. if k = 2 then snd (MarkConsumed 150 150 ''A-1-1'' ''y'' m) else m) ''E'' ''SW-1'' ''x''
       (sample_server, sample_swap_reg) of
     (Inl _, _) \<Rightarrow> False
   | (Inr resp, s', m') \<Rightarrow>
       sr_SwapStatus resp = ALREADY_CONSUMED \<and> Registry_Consumed ''A-1-1'' m' = Some ''y'' \<and>
       Registry_Consumed ''A-1-2'' m' = Some ''x'' \<and>
       c_Status (fst (MarkConsumed 160 160 ''A-1-2'' ''z'' m')) = ConsumeAlreadyDone"
  by code_simp

text \<open>worstStatus ranks an unspecified status below OK.  A registry that answers OK for one leg and
  nothing for the other, as the Redis registry does when a command of its pipeline fails, makes
  ConsumeSwap answer OK although the second leg was not marked.\<close>

theorem swap_unknown_leg_ok:
  assumes "reg_MarkConsumedMany reg clk [(w_NearID sw, c), (w_FarID sw, c)] r = (Inr [a, b], r')"
    and "c_Status a = ConsumeOK" "c_Status b = ConsumeStatusUnknown"
  shows "\<exists>resp s'. swap_mark reg clk c sw s r = (Inr resp, s', r') \<and> sr_SwapStatus resp = OK \<and>
    map_option mr_Status (sr_Far resp) = Some STATUS_UNSPECIFIED"
  using assms
  by (simp add: swap_mark_def swapConsumeResultToProto_def consume_answer_def worstStatus_def status_rank_def Let_def)

theorem swap_unknown_leg_ok_witness:
  "\<exists>resp s'. swap_mark (mem_registry\<lparr>reg_MarkConsumedMany := (\<lambda>clk qs m. (Inr
       [\<lparr>c_Status = ConsumeOK, c_Record = Some sample_rec, c_ConsumedBy = []\<rparr>,
        \<lparr>c_Status = ConsumeStatusUnknown, c_Record = None, c_ConsumedBy = []\<rparr>], m))\<rparr>) (\<lambda>_. 150) ''x'' sample_swap
       sample_server sample_swap_reg = (Inr resp, s', sample_swap_reg) \<and> sr_SwapStatus resp = OK \<and>
     map_option mr_Status (sr_Far resp) = Some STATUS_UNSPECIFIED"
  by (rule swap_unknown_leg_ok
      [where a = "\<lparr>c_Status = ConsumeOK, c_Record = Some sample_rec, c_ConsumedBy = []\<rparr>"
         and b = "\<lparr>c_Status = ConsumeStatusUnknown, c_Record = None, c_ConsumedBy = []\<rparr>"]) simp_all

text \<open>ValidateSwap counts its legs as validated quotes but not as calls: CallsOK exceeds CallsTotal.\<close>

lemma swap_calls_unaccounted:
  "let s = fst (snd (ValidateSwap mem_registry mem_index (\<lambda>_. None) (\<lambda>_. 150) (\<lambda>_ _. 150) (\<lambda>_ m. m) ''E'' ''SW-1''
       (sample_server, sample_swap_reg)))
   in qv_count s CallsOK = 2 \<and> qv_count s CallsTotal = 0"
  by code_simp

section \<open>Consuming a valid swap succeeds\<close>

lemma ConsumeSwap_grants:
  assumes perm: "permitted parse t e PermMarkConsumed s" and idx: "qv_swapIdx s" and i: "swapID \<noteq> []"
    and sw: "map_of (m_swaps m) swapID = Some sw" "t < w_ValidUntil sw" and grace: "m_grace m \<ge> 0"
    and near: "map_of (m_records m) (w_NearID sw) = Some nr" "ValidAt nr t" "map_of (m_consumed m) (w_NearID sw) = None"
    and far: "map_of (m_records m) (w_FarID sw) = Some fr" "ValidAt fr t" "map_of (m_consumed m) (w_FarID sw) = None"
    and ne: "w_NearID sw \<noteq> w_FarID sw"
  obtains resp s' m' where
    "ConsumeSwap mem_registry mem_index parse (\<lambda>_. t) (\<lambda>_ _. t) (\<lambda>_ m. m) e swapID c (s, m) = (Inr resp, s', m')"
    "sr_SwapStatus resp = OK"
    "sr_Near resp = Some \<lparr>mr_Status = OK, mr_Record = Some (recordToProto nr), mr_ConsumedBy = [], mr_OrdRejReason = 0, mr_RejectText = []\<rparr>"
    "sr_Far resp = Some \<lparr>mr_Status = OK, mr_Record = Some (recordToProto fr), mr_ConsumedBy = [], mr_OrdRejReason = 0, mr_RejectText = []\<rparr>"
proof -
  have live: "\<not> lapsed t (q_ValidUntil nr) m" "\<not> lapsed t (q_ValidUntil fr) m" "\<not> lapsed t (w_ValidUntil sw) m"
    using near(2) far(2) sw(2) grace by (simp_all add: lapsed_def ValidAt_def)
  have chk: "checkEngine parse t e PermMarkConsumed s = (True, [])"
    using checkEngine_permitted [of parse t e PermMarkConsumed s] perm
    by (auto simp: checkEngine_def split: option.splits if_splits)
  have get: "GetSwap t swapID m = (Inr sw, m)" using sw(1) live(3) by (simp add: GetSwap_def)
  let ?ln = "\<lparr>l_Found = True, l_Record = Some nr, l_Consumed = False, l_ConsumedBy = []\<rparr>"
  let ?lf = "\<lparr>l_Found = True, l_Record = Some fr, l_Consumed = False, l_ConsumedBy = []\<rparr>"
  have look: "reg_LookupMany mem_registry (\<lambda>_. t) [w_NearID sw, w_FarID sw] m = (Inr [?ln, ?lf], m)"
    using near far live by (simp add: Registry_LookupMany_def lookupLocked_def)
  let ?s1 = "add_count CallsOK 1 (add_count SwapConsumeTotal 1 s)" and ?s2 = "add_count CallsOK 1 (add_count CallsOK 1 (add_count SwapConsumeTotal 1 s))"
  have ans: "lookupToValidateResponse t ?ln (add_count SwapConsumeTotal 1 s) =
      (\<lparr>vr_Status = OK, vr_Record = Some (recordToProto nr), vr_OrdRejReason = 0, vr_RejectText = []\<rparr>, ?s1)"
    "lookupToValidateResponse t ?lf ?s1 =
      (\<lparr>vr_Status = OK, vr_Record = Some (recordToProto fr), vr_OrdRejReason = 0, vr_RejectText = []\<rparr>, ?s2)"
    using near far by (simp_all add: lookupToValidateResponse_def filled_def)
  have run: "ConsumeSwap mem_registry mem_index parse (\<lambda>_. t) (\<lambda>_ _. t) (\<lambda>_ m. m) e swapID c (s, m) =
      swap_mark mem_registry (\<lambda>_. t) c sw ?s2 m"
    using chk idx i by (simp add: ConsumeSwap_def mem_GetSwap get look ans worstStatus_def status_rank_def del: mem_ops_simps)
  have c1: "MarkConsumed t t (w_NearID sw) c m =
      (\<lparr>c_Status = ConsumeOK, c_Record = Some nr, c_ConsumedBy = []\<rparr>, m\<lparr>m_consumed := AList.update (w_NearID sw) c (m_consumed m)\<rparr>)"
    using near live by (simp add: MarkConsumed_def)
  have c2: "fst (MarkConsumed t t (w_FarID sw) c (m\<lparr>m_consumed := AList.update (w_NearID sw) c (m_consumed m)\<rparr>)) =
      \<lparr>c_Status = ConsumeOK, c_Record = Some fr, c_ConsumedBy = []\<rparr>"
    using far live ne by (simp add: MarkConsumed_def lapsed_def)
  let ?ok = "\<lambda>r. \<lparr>mr_Status = OK, mr_Record = Some (recordToProto r), mr_ConsumedBy = [], mr_OrdRejReason = 0, mr_RejectText = []\<rparr>"
  have "\<exists>s' m'. swap_mark mem_registry (\<lambda>_. t) c sw ?s2 m =
      (Inr (swap_response ''swap leg already consumed (partial - race)'' OK (?ok nr) (?ok fr)), s', m')"
    by (simp add: swap_mark_def many_two case_prod_beta Let_def c1 c2 swapConsumeResultToProto_def consume_answer_def
        worstStatus_def status_rank_def filled_def)
  then obtain s' m' where "swap_mark mem_registry (\<lambda>_. t) c sw ?s2 m =
      (Inr (swap_response ''swap leg already consumed (partial - race)'' OK (?ok nr) (?ok fr)), s', m')" by blast
  from that [OF run [unfolded this]] show thesis by simp
qed

end
