(* ===== verification/Go_Float_Int.thy ===== *)
theory Go_Float_Int
  imports Go_Float
begin

text \<open>
  Integers of at most 53 bits are float64 numbers: comparison, addition, subtraction, multiplication and
  exact division of the model agree with the integers on them.  The rules evaluate concrete prices
  without unfolding the rounding.
\<close>

definition small :: "int \<Rightarrow> bool" where
  "small n \<longleftrightarrow> \<bar>n\<bar> < 2 ^ 53"

lemma f_scale_nz [simp]: "f_scale \<noteq> 0"
  using f_scale_pos by simp

lemma units_of_nat:
  assumes "0 < n" "n < 2 ^ 53"
  shows "\<exists>m < inf_mag. f_units m = n * f_scale"
proof -
  define k where "k = nat_bits n"
  have k: "2 ^ (k - 1) \<le> n" "n < 2 ^ k" "0 < k" "k \<le> 53"
    using nat_bits_bounds [of n] assms nat_bits_mono [of n "2 ^ 53 - 1"] nat_bits_eq [of 52 "2 ^ 53 - 1"]
    by (auto simp: k_def intro: gr0I)
  define M where "M = n * 2 ^ (53 - k)"
  have "2 ^ 52 = 2 ^ (k - 1) * (2::nat) ^ (53 - k)" "2 ^ 53 = 2 ^ k * (2::nat) ^ (53 - k)"
    using k by (simp_all flip: power_add)
  then have M: "2 ^ 52 \<le> M" "M < 2 ^ 53"
    using mult_le_mono1 [OF k(1), of "2 ^ (53 - k)"] mult_less_mono1 [OF k(2), of "2 ^ (53 - k)"]
    unfolding M_def by simp_all
  define F where "F = M - 2 ^ 52"
  define m where "m = (k + 1022) * 2 ^ 52 + F"
  have F: "F < 2 ^ 52" "M = 2 ^ 52 + F" using M by (simp_all add: F_def)
  have parts: "m div 2 ^ 52 = k + 1022" "m mod 2 ^ 52 = F"
    unfolding m_def using F(1) by (simp_all only: div_mult_self3 mod_mult_self3 div_less mod_less)
  have "f_units m = M * 2 ^ (k + 1021)" using parts F by (simp add: f_units_def)
  also have "\<dots> = n * f_scale" using k by (simp add: M_def f_scale_def mult.assoc flip: power_add)
  finally show ?thesis using F k by (intro exI [of _ m]) (simp add: m_def)
qed

lemma f_of_int_exact:
  assumes "small n"
  shows "f_num (f_of_int n) = n * int f_scale" "f_finite (f_of_int n)" "f_sign (f_of_int n) \<longleftrightarrow> n < 0"
    "f_units (f_mag (f_of_int n)) = nat \<bar>n\<bar> * f_scale"
proof -
  have a: "nat \<bar>n * int f_scale\<bar> = nat \<bar>n\<bar> * f_scale" by (simp add: abs_mult nat_mult_distrib)
  have neg: "n * int f_scale < 0 \<longleftrightarrow> n < 0" by (simp add: mult_less_0_iff)
  obtain m where m: "m < inf_mag" "f_units m = nat \<bar>n\<bar> * f_scale"
  proof (cases "n = 0")
    case True
    then show thesis using that [of 0] by simp
  next
    case False
    then have "0 < nat \<bar>n\<bar>" "nat \<bar>n\<bar> < 2 ^ 53" using assms by (simp_all add: small_def)
    then show thesis using units_of_nat that by blast
  qed
  then have r: "f_round (nat \<bar>n\<bar> * f_scale) 1 = m" using f_round_units [of m] by simp
  have m63: "m < 2 ^ 63" using m(1) by simp
  have f: "f_of_int n = f_make (n < 0) m" by (simp only: f_of_int_def f_of_units_def a r neg)
  show "f_finite (f_of_int n)" "f_sign (f_of_int n) \<longleftrightarrow> n < 0" "f_units (f_mag (f_of_int n)) = nat \<bar>n\<bar> * f_scale"
    using m by (simp_all add: f f_finite_def f_make_parts [OF m63])
  show "f_num (f_of_int n) = n * int f_scale"
    using m by (auto simp: f f_num_def f_make_parts [OF m63])
qed

lemma f_of_int_kinds [simp]:
  "small n \<Longrightarrow> \<not> f_isnan (f_of_int n)" "small n \<Longrightarrow> \<not> f_isinf (f_of_int n)" "small n \<Longrightarrow> f_finite (f_of_int n)"
  using f_of_int_exact(2) f_kinds(2) by blast+

lemma f_of_int_0: "f_of_int 0 = f_zero"
  by (simp add: f_of_int_def f_of_units_def f_zero_def)

lemma f_le_of_int [simp]:
  assumes "small a" "small b"
  shows "f_le (f_of_int a) (f_of_int b) \<longleftrightarrow> a \<le> b"
proof
  assume "f_le (f_of_int a) (f_of_int b)"
  then have "a * int f_scale \<le> b * int f_scale" using f_num_mono f_of_int_exact(1) assms by metis
  then show "a \<le> b" by simp
next
  assume "a \<le> b"
  then have "sround (f_num (f_of_int a)) \<le> sround (f_num (f_of_int b))"
    using assms by (intro sround_mono) (simp add: f_of_int_exact mult_right_mono)
  then show "f_le (f_of_int a) (f_of_int b)" using assms by (simp add: f_le_def f_num_key)
qed

lemma f_lt_of_int [simp]: "small a \<Longrightarrow> small b \<Longrightarrow> f_lt (f_of_int a) (f_of_int b) \<longleftrightarrow> a < b"
  using f_lt_not_le [of "f_of_int a" "f_of_int b"] by auto

lemma f_eq_of_int [simp]: "small a \<Longrightarrow> small b \<Longrightarrow> f_eq (f_of_int a) (f_of_int b) \<longleftrightarrow> a = b"
  using f_le_of_int [of a b] f_le_of_int [of b a] by (auto simp: f_le_def f_eq_def)

lemma small_0 [simp]: "small 0" "small 1"
  by (simp_all add: small_def)

lemma f_zero_of_int [simp]:
  "small a \<Longrightarrow> f_le f_zero (f_of_int a) \<longleftrightarrow> 0 \<le> a" "small a \<Longrightarrow> f_lt f_zero (f_of_int a) \<longleftrightarrow> 0 < a"
  "small a \<Longrightarrow> f_le (f_of_int a) f_zero \<longleftrightarrow> a \<le> 0" "small a \<Longrightarrow> f_lt (f_of_int a) f_zero \<longleftrightarrow> a < 0"
  unfolding f_of_int_0 [symmetric] by simp_all

lemma f_add_of_int [simp]:
  assumes "small a" "small b"
  shows "f_add (f_of_int a) (f_of_int b) = f_of_int (a + b)"
proof -
  have s: "f_num (f_of_int a) + f_num (f_of_int b) = (a + b) * int f_scale"
    using assms by (simp add: f_of_int_exact distrib_right)
  show ?thesis
  proof (cases "a + b = 0")
    case True
    then have "(f_sign (f_of_int a) \<and> f_sign (f_of_int b)) = False" using assms by (auto simp: f_of_int_exact)
    then show ?thesis using True assms s by (simp only: f_add_def f_of_int_kinds f_of_int_0 f_zero_def) simp
  next
    case False
    then show ?thesis using assms s by (simp add: f_add_def f_of_int_def [of "a + b"])
  qed
qed

lemma f_sub_of_int [simp]:
  assumes "small a" "small b"
  shows "f_sub (f_of_int a) (f_of_int b) = f_of_int (a - b)"
proof -
  have s: "f_num (f_of_int a) + f_num (f_neg (f_of_int b)) = (a - b) * int f_scale"
    using assms by (simp add: f_of_int_exact left_diff_distrib)
  show ?thesis
  proof (cases "a - b = 0")
    case True
    then have "(f_sign (f_of_int a) \<and> f_sign (f_neg (f_of_int b))) = False" using assms by (auto simp: f_of_int_exact f_neg_parts)
    then show ?thesis using True assms s by (simp only: f_sub_def f_add_def f_of_int_kinds f_neg_kinds f_of_int_0 f_zero_def) simp
  next
    case False
    then show ?thesis using assms s by (simp add: f_sub_def f_add_def f_of_int_def [of "a - b"])
  qed
qed

lemma f_mag_0_of_int: "small a \<Longrightarrow> f_mag (f_of_int a) = 0 \<longleftrightarrow> a = 0"
  using f_of_int_exact(4) [of a] f_units_zero_iff [of "f_mag (f_of_int a)"] by auto

lemma f_of_int_make: "f_of_int n = f_make (n < 0) (f_round (nat \<bar>n\<bar> * f_scale) 1)"
proof -
  have "nat \<bar>n * int f_scale\<bar> = nat \<bar>n\<bar> * f_scale" by (simp add: abs_mult nat_mult_distrib)
  moreover have "n * int f_scale < 0 \<longleftrightarrow> n < 0" by (simp add: mult_less_0_iff)
  ultimately show ?thesis by (simp only: f_of_int_def f_of_units_def)
qed

lemma f_mul_of_int [simp]:
  assumes "small a" "small b" "a \<noteq> 0 \<and> b \<noteq> 0 \<or> 0 \<le> a \<and> 0 \<le> b"
  shows "f_mul (f_of_int a) (f_of_int b) = f_of_int (a * b)"
proof -
  have r: "f_round (nat \<bar>a\<bar> * f_scale * (nat \<bar>b\<bar> * f_scale)) f_scale = f_round (nat \<bar>a * b\<bar> * f_scale) 1"
    by (rule f_round_cong) (simp_all add: abs_mult nat_mult_distrib)
  have s: "(f_sign (f_of_int a) \<noteq> f_sign (f_of_int b)) = (a * b < 0)"
    using assms by (auto simp: f_of_int_exact(3) mult_less_0_iff)
  show ?thesis using assms(1,2) unfolding f_mul_def Let_def s f_of_int_make [of "a * b"]
    by (simp add: f_of_int_exact(4) r)
qed

lemma f_div_of_int:
  assumes "small (a * b)" "small b" "0 < b"
  shows "f_div (f_of_int (a * b)) (f_of_int b) = f_of_int a"
proof -
  have r: "f_round (nat \<bar>a * b\<bar> * f_scale * f_scale) (nat b * f_scale) = f_round (nat \<bar>a\<bar> * f_scale) 1"
    using assms(3) by (intro f_round_cong) (simp_all add: abs_mult nat_mult_distrib)
  have s: "(f_sign (f_of_int (a * b)) \<noteq> f_sign (f_of_int b)) = (a < 0)"
    using assms by (auto simp: f_of_int_exact(3) mult_less_0_iff)
  show ?thesis using assms unfolding f_div_def Let_def s f_of_int_make [of a]
    by (simp add: f_of_int_exact(4) f_mag_0_of_int r [simplified])
qed

lemma small_numeral [simp]:
  "small (numeral n) \<longleftrightarrow> (numeral n :: int) < 2 ^ 53" "small (- numeral n) \<longleftrightarrow> (numeral n :: int) < 2 ^ 53" "small (- 1)"
  by (simp_all add: small_def)

section \<open>Signs\<close>

lemma f_add_nonneg: "f_le f_zero x \<Longrightarrow> f_le f_zero y \<Longrightarrow> \<not> f_isnan (f_add x y) \<Longrightarrow> f_le f_zero (f_add x y)"
  using f_add_ge f_le_trans by blast

lemma f_div_two_nonneg:
  assumes "f_le f_zero x"
  shows "f_le f_zero (f_div x (f_of_int 2))"
proof -
  have x: "\<not> f_isnan x" "f_sign x \<longrightarrow> f_mag x = 0" using assms f_nonneg_num [OF assms] by (auto simp: f_le_def)
  have two: "small 2" by simp
  have t: "\<not> f_isnan (f_of_int 2)" "\<not> f_isinf (f_of_int 2)" "f_mag (f_of_int 2) \<noteq> 0" "\<not> f_sign (f_of_int 2)"
    using two f_mag_0_of_int [OF two] f_of_int_exact(3) [OF two] by simp_all
  show ?thesis
  proof (cases "f_isinf x")
    case True
    then have "\<not> f_sign x" using x(2) by (auto simp: f_isinf_def)
    then have "f_div x (f_of_int 2) = f_make False inf_mag" using x t True by (simp add: f_div_def)
    then show ?thesis by (simp add: f_le_def f_make_nonneg)
  next
    case False
    define r where "r = f_round (f_units (f_mag x) * f_scale) (f_units (f_mag (f_of_int 2)))"
    have d: "f_div x (f_of_int 2) = f_make (f_sign x) r" using x t False by (simp add: f_div_def r_def)
    have r: "r \<le> inf_mag" unfolding r_def by (rule f_round_inf)
    moreover have "f_sign x \<longrightarrow> r = 0" using x(2) by (auto simp: r_def)
    ultimately show ?thesis unfolding d by (simp add: f_le_def f_make_nonneg)
  qed
qed

end
