(* ===== verification/Pricing_Calendar.thy ===== *)
theory Pricing_Calendar
  imports Wtg_Prelude
begin

text \<open>
  Business days of src/pkg/pricing: the weekend and holiday calendars (calendar.go) and the
  arithmetic of settlement dates (valuedate.go).  A date is the number of days since 1970-01-01; an
  instant also carries the civil day of its location.  A holiday is kept under its printed date in the
  code, here under its day.
\<close>

section \<open>Calendars\<close>

text \<open>The weekday with Sunday as 0; 1970-01-01 was a Thursday.\<close>

definition Weekday :: "int \<Rightarrow> int" where
  "Weekday d = (d + 4) mod 7"

datatype Calendar = WeekendCalendar | HolidayCalendar "int list"

definition weekend :: "int \<Rightarrow> bool" where
  "weekend d \<longleftrightarrow> Weekday d = 6 \<or> Weekday d = 0"

fun IsBusinessDay :: "Calendar \<Rightarrow> int \<Rightarrow> bool" where
  "IsBusinessDay WeekendCalendar d = (\<not> weekend d)"
| "IsBusinessDay (HolidayCalendar hs) d = (if weekend d then False else if d \<in> set hs then False else True)"

definition NewHolidayCalendar :: "int list \<Rightarrow> Calendar" where
  "NewHolidayCalendar holidays = HolidayCalendar (remdups holidays)"

fun Calendar_Count :: "Calendar \<Rightarrow> nat" where
  "Calendar_Count WeekendCalendar = 0"
| "Calendar_Count (HolidayCalendar hs) = length hs"

text \<open>A calendar that is not set is the weekend calendar.\<close>

definition Cal :: "Calendar option \<Rightarrow> Calendar" where
  "Cal c = (case c of None \<Rightarrow> WeekendCalendar | Some k \<Rightarrow> k)"

definition IsBusinessDayCal :: "int \<Rightarrow> Calendar option \<Rightarrow> bool" where
  "IsBusinessDayCal d cal = IsBusinessDay (Cal cal) d"

section \<open>Adding business days\<close>

text \<open>The inner loop runs until the calendar has a business day; None is a loop that does not end.\<close>

partial_function (option) skip_closed :: "Calendar \<Rightarrow> int \<Rightarrow> int \<Rightarrow> int option" where
  "skip_closed cal step cur =
     (if \<not> IsBusinessDay cal cur then skip_closed cal step (cur + step) else Some cur)"

fun add_loop :: "Calendar \<Rightarrow> int \<Rightarrow> nat \<Rightarrow> int \<Rightarrow> int option" where
  "add_loop cal step 0 cur = Some cur"
| "add_loop cal step (Suc n) cur =
     (case skip_closed cal step (cur + step) of None \<Rightarrow> None | Some c \<Rightarrow> add_loop cal step n c)"

definition AddBusinessDaysCal :: "int \<Rightarrow> int \<Rightarrow> Calendar option \<Rightarrow> int option" where
  "AddBusinessDaysCal d n cal =
     (if n = 0 then Some d
      else if n < 0 then add_loop (Cal cal) (- 1) (nat (- n)) d
      else add_loop (Cal cal) 1 (nat n) d)"

section \<open>Counting business days\<close>

record gotime =
  gt_ns :: int
  gt_day :: int

definition utc_day :: "int \<Rightarrow> gotime" where
  "utc_day d = \<lparr>gt_ns = d * 86400000000000, gt_day = d\<rparr>"

definition startOfDay :: "gotime \<Rightarrow> gotime" where
  "startOfDay t = utc_day (gt_day t)"

function count_loop :: "Calendar \<Rightarrow> int \<Rightarrow> int \<Rightarrow> int \<Rightarrow> int" where
  "count_loop cal to cur n =
     (if cur < to then count_loop cal to (cur + 1) (if IsBusinessDay cal (cur + 1) then n + 1 else n) else n)"
  by pat_completeness auto
termination
  by (relation "measure (\<lambda>(cal, to, cur, n). nat (to - cur))") auto

declare count_loop.simps [simp del]

definition BusinessDaysBetweenCal :: "gotime \<Rightarrow> gotime \<Rightarrow> Calendar option \<Rightarrow> int" where
  "BusinessDaysBetweenCal from to cal =
     (if gt_ns from = gt_ns to then 0
      else (let (f, t, sgn) = (if gt_ns to < gt_ns from then (to, from, - 1) else (from, to, 1))
            in count_loop (Cal cal) (gt_day (startOfDay t)) (gt_day (startOfDay f)) 0 * sgn))"

definition SpotDateCal :: "gotime \<Rightarrow> int \<Rightarrow> Calendar option \<Rightarrow> gotime option" where
  "SpotDateCal now spotDays cal =
     map_option utc_day (AddBusinessDaysCal (gt_day (startOfDay now)) (if spotDays < 0 then 0 else spotDays) cal)"

section \<open>The search for a business day ends\<close>

lemma Weekday_add: "Weekday (d + k) = (Weekday d + k) mod 7"
  by (simp add: Weekday_def mod_simps add.assoc add.commute [of k])

lemma Weekday_cases: "Weekday d \<in> {0, 1, 2, 3, 4, 5, 6}"
proof -
  have "0 \<le> Weekday d" "Weekday d < 7" by (simp_all add: Weekday_def)
  then show ?thesis by auto
qed

lemma weekday_in_three: "s = 1 \<or> s = - 1 \<Longrightarrow> \<exists>j \<in> {0, 1, 2 :: nat}. \<not> weekend (d + int j * s)"
  using Weekday_cases [of d] by (auto simp: weekend_def Weekday_add)

lemma weekend_period: "weekend (d + 7 * k) = weekend d"
  by (simp add: weekend_def Weekday_def add.commute [of d] add.assoc)

lemma holidays_bounded: "\<exists>B \<ge> 0. \<forall>h \<in> set hs. \<bar>h\<bar> < (B :: int)"
proof (intro exI conjI ballI)
  show "0 \<le> (\<Sum>h \<leftarrow> hs. \<bar>h\<bar>) + 1" by (induction hs) auto
  fix h assume "h \<in> set hs"
  then have "\<bar>h\<bar> \<le> (\<Sum>h \<leftarrow> hs. \<bar>h\<bar>)" by (intro member_le_sum_list) auto
  then show "\<bar>h\<bar> < (\<Sum>h \<leftarrow> hs. \<bar>h\<bar>) + 1" by simp
qed

lemma open_day_ahead:
  assumes s: "s = 1 \<or> s = - 1"
  shows "\<exists>k :: nat. IsBusinessDay cal (d + int k * s)"
proof -
  obtain j where j: "j \<in> {0, 1, 2 :: nat}" "\<not> weekend (d + int j * s)" using weekday_in_three [OF s] by blast
  show ?thesis
  proof (cases cal)
    case WeekendCalendar
    then show ?thesis using j by auto
  next
    case (HolidayCalendar hs)
    obtain B where B: "B \<ge> 0" "\<forall>h \<in> set hs. \<bar>h\<bar> < B" using holidays_bounded by blast
    define m where "m = nat (\<bar>d\<bar> + B)"
    define e where "e = d + int (j + 7 * m) * s"
    have "e = (d + int j * s) + 7 * (int m * s)" by (simp add: e_def algebra_simps)
    then have "\<not> weekend e" using j(2) by (simp only: weekend_period) simp
    moreover have "int (j + 7 * m) \<ge> \<bar>d\<bar> + B" using B(1) by (simp add: m_def)
    then have "\<bar>e\<bar> \<ge> B" using s unfolding e_def by (elim disjE) simp_all
    then have "e \<notin> set hs" using B(2) by auto
    ultimately have "IsBusinessDay cal e" using HolidayCalendar by simp
    then show ?thesis unfolding e_def by blast
  qed
qed

lemma skip_closed_steps:
  "IsBusinessDay cal (cur + int k * s) \<Longrightarrow> \<forall>i < k. \<not> IsBusinessDay cal (cur + int i * s) \<Longrightarrow>
     skip_closed cal s cur = Some (cur + int k * s)"
proof (induction k arbitrary: cur)
  case 0
  then show ?case by (simp add: skip_closed.simps [of cal s cur])
next
  case (Suc k)
  have "\<not> IsBusinessDay cal cur" using Suc.prems(2) by (auto dest: spec [of _ 0])
  moreover have "skip_closed cal s (cur + s) = Some (cur + s + int k * s)"
  proof (rule Suc.IH)
    show "IsBusinessDay cal (cur + s + int k * s)" using Suc.prems(1) by (simp add: algebra_simps)
    show "\<forall>i < k. \<not> IsBusinessDay cal (cur + s + int i * s)"
    proof (intro allI impI)
      fix i assume "i < k"
      then have "\<not> IsBusinessDay cal (cur + int (Suc i) * s)" using Suc.prems(2) by blast
      then show "\<not> IsBusinessDay cal (cur + s + int i * s)" by (simp add: algebra_simps)
    qed
  qed
  ultimately show ?case by (simp add: skip_closed.simps [of cal s cur] algebra_simps)
qed

lemma skip_closed_finds:
  assumes "s = 1 \<or> s = - 1"
  shows "\<exists>k. skip_closed cal s cur = Some (cur + int k * s) \<and> IsBusinessDay cal (cur + int k * s) \<and>
     (\<forall>i < k. \<not> IsBusinessDay cal (cur + int i * s))"
proof -
  define k where "k = (LEAST k. IsBusinessDay cal (cur + int k * s))"
  have k: "IsBusinessDay cal (cur + int k * s)" using open_day_ahead [OF assms] unfolding k_def by (rule LeastI_ex)
  have "\<forall>i < k. \<not> IsBusinessDay cal (cur + int i * s)" unfolding k_def using not_less_Least by blast
  with k skip_closed_steps show ?thesis by blast
qed

section \<open>Adding and counting agree\<close>

definition opens :: "Calendar \<Rightarrow> int set \<Rightarrow> int set" where
  "opens cal A = {e \<in> A. IsBusinessDay cal e}"

lemma opens_empty [simp]: "opens cal {} = {}"
  by (simp add: opens_def)

lemma opens_finite [simp]: "finite A \<Longrightarrow> finite (opens cal A)"
  by (simp add: opens_def)

lemma count_loop_card: "count_loop cal to cur n = n + int (card (opens cal {cur <.. to}))"
proof (induction cal to cur n rule: count_loop.induct)
  case (1 cal to cur n)
  show ?case
  proof (cases "cur < to")
    case True
    then have split: "opens cal {cur <.. to} = opens cal {cur + 1 <.. to} \<union> opens cal {cur + 1}"
      by (auto simp: opens_def)
    have "opens cal {cur + 1 <.. to} \<inter> opens cal {cur + 1} = {}" by (auto simp: opens_def)
    then have "card (opens cal {cur <.. to}) = card (opens cal {cur + 1 <.. to}) + card (opens cal {cur + 1})"
      unfolding split by (intro card_Un_disjoint) simp_all
    moreover have "card (opens cal {cur + 1}) = (if IsBusinessDay cal (cur + 1) then 1 else 0)"
      by (cases "IsBusinessDay cal (cur + 1)") (simp_all add: opens_def conj_commute cong: conj_cong)
    ultimately show ?thesis using "1.IH" [OF True] True by (simp add: count_loop.simps [of cal to cur n])
  next
    case False
    then show ?thesis by (simp add: count_loop.simps [of cal to cur n] opens_def)
  qed
qed

lemma add_loop_forward:
  "\<exists>d'. add_loop cal 1 n d = Some d' \<and> d \<le> d' \<and> card (opens cal {d <.. d'}) = n \<and> (0 < n \<longrightarrow> IsBusinessDay cal d')"
proof (induction n arbitrary: d)
  case 0
  then show ?case by simp
next
  case (Suc n)
  obtain k where k: "skip_closed cal 1 (d + 1) = Some (d + 1 + int k)" "IsBusinessDay cal (d + 1 + int k)"
      "\<forall>i < k. \<not> IsBusinessDay cal (d + 1 + int i)"
    using skip_closed_finds [of 1 cal "d + 1"] by auto
  define c where "c = d + 1 + int k"
  have closed: "\<not> IsBusinessDay cal e" if "d < e" "e < c" for e
    using k(3) [rule_format, of "nat (e - d - 1)"] that by (simp add: c_def)
  obtain d' where d': "add_loop cal 1 n c = Some d'" "c \<le> d'" "card (opens cal {c <.. d'}) = n"
      "0 < n \<longrightarrow> IsBusinessDay cal d'"
    using Suc.IH by blast
  have "opens cal {d <.. d'} = insert c (opens cal {c <.. d'})"
    using closed d'(2) k(2) unfolding c_def [symmetric] opens_def by (auto simp: c_def) (meson linorder_neqE)
  moreover have "c \<notin> opens cal {c <.. d'}" by (simp add: opens_def)
  ultimately have "card (opens cal {d <.. d'}) = Suc n" using d'(3) by simp
  moreover have "IsBusinessDay cal d'" using d' k(2) unfolding c_def [symmetric] by (cases n) auto
  ultimately show ?case using k(1) d'(1,2) unfolding c_def [symmetric] by (auto simp: c_def)
qed

lemma add_loop_backward:
  "\<exists>d'. add_loop cal (- 1) n d = Some d' \<and> d' \<le> d \<and> card (opens cal {d' ..< d}) = n \<and> (0 < n \<longrightarrow> IsBusinessDay cal d')"
proof (induction n arbitrary: d)
  case 0
  then show ?case by simp
next
  case (Suc n)
  obtain k where k: "skip_closed cal (- 1) (d - 1) = Some (d - 1 - int k)" "IsBusinessDay cal (d - 1 - int k)"
      "\<forall>i < k. \<not> IsBusinessDay cal (d - 1 - int i)"
    using skip_closed_finds [of "- 1" cal "d - 1"] by auto
  define c where "c = d - 1 - int k"
  have closed: "\<not> IsBusinessDay cal e" if "c < e" "e < d" for e
    using k(3) [rule_format, of "nat (d - 1 - e)"] that by (simp add: c_def)
  obtain d' where d': "add_loop cal (- 1) n c = Some d'" "d' \<le> c" "card (opens cal {d' ..< c}) = n"
      "0 < n \<longrightarrow> IsBusinessDay cal d'"
    using Suc.IH by blast
  have "opens cal {d' ..< d} = insert c (opens cal {d' ..< c})"
    using closed d'(2) k(2) unfolding c_def [symmetric] opens_def by (auto simp: c_def) (meson linorder_neqE)
  moreover have "c \<notin> opens cal {d' ..< c}" by (simp add: opens_def)
  ultimately have "card (opens cal {d' ..< d}) = Suc n" using d'(3) by simp
  moreover have "IsBusinessDay cal d'" using d' k(2) unfolding c_def [symmetric] by (cases n) auto
  ultimately show ?case using k(1) d'(1,2) unfolding c_def [symmetric] by (auto simp: c_def)
qed

lemma between_forward:
  "d \<le> d' \<Longrightarrow> BusinessDaysBetweenCal (utc_day d) (utc_day d') cal = int (card (opens (Cal cal) {d <.. d'}))"
  by (auto simp: BusinessDaysBetweenCal_def utc_day_def startOfDay_def count_loop_card)

lemma between_backward:
  "d' \<le> d \<Longrightarrow> BusinessDaysBetweenCal (utc_day d) (utc_day d') cal = - int (card (opens (Cal cal) {d' <.. d}))"
  by (auto simp: BusinessDaysBetweenCal_def utc_day_def startOfDay_def count_loop_card)

text \<open>Adding business days ends for every calendar, whatever holidays it has, and lands on a business day.
  Counting the business days from the start to the result gives back the number added, forwards from any day and
  backwards from a business day.\<close>

theorem business_days_roundtrip:
  "\<exists>d'. AddBusinessDaysCal d n cal = Some d' \<and> (n \<noteq> 0 \<longrightarrow> IsBusinessDayCal d' cal) \<and>
     (0 \<le> n \<or> IsBusinessDayCal d cal \<longrightarrow> BusinessDaysBetweenCal (utc_day d) (utc_day d') cal = n)"
proof (cases "n \<ge> 0")
  case True
  then obtain d' where "add_loop (Cal cal) 1 (nat n) d = Some d'" "d \<le> d'" "card (opens (Cal cal) {d <.. d'}) = nat n"
      "0 < nat n \<longrightarrow> IsBusinessDay (Cal cal) d'"
    using add_loop_forward by blast
  then show ?thesis using True
    by (cases "n = 0") (auto simp: AddBusinessDaysCal_def IsBusinessDayCal_def between_forward)
next
  case False
  then obtain d' where d': "add_loop (Cal cal) (- 1) (nat (- n)) d = Some d'" "d' \<le> d"
      "card (opens (Cal cal) {d' ..< d}) = nat (- n)" "IsBusinessDay (Cal cal) d'"
    using add_loop_backward [of "Cal cal" "nat (- n)" d] by auto
  have "card (opens (Cal cal) {d' <.. d}) = nat (- n)" if "IsBusinessDay (Cal cal) d"
  proof (cases "d' = d")
    case True
    then show ?thesis using d'(3) by simp
  next
    case ne: False
    have "insert d' (opens (Cal cal) {d' <.. d}) = insert d (opens (Cal cal) {d' ..< d})"
      using that d'(2,4) ne by (auto simp: opens_def)
    moreover have "d' \<notin> opens (Cal cal) {d' <.. d}" "d \<notin> opens (Cal cal) {d' ..< d}" by (simp_all add: opens_def)
    ultimately show ?thesis using d'(3) by (metis card_insert_disjoint finite_atLeastLessThan_int finite_greaterThanAtMost_int nat.inject opens_finite)
  qed
  then show ?thesis using False d' by (auto simp: AddBusinessDaysCal_def IsBusinessDayCal_def between_backward)
qed

text \<open>The witness: a Friday before a holiday on Monday.\<close>

theorem business_days_roundtrip_witness:
  "\<exists>d'. AddBusinessDaysCal 20602 2 (Some (HolidayCalendar [20605])) = Some d' \<and>
     IsBusinessDayCal d' (Some (HolidayCalendar [20605])) \<and>
     BusinessDaysBetweenCal (utc_day 20602) (utc_day d') (Some (HolidayCalendar [20605])) = 2"
  using business_days_roundtrip [of 20602 2 "Some (HolidayCalendar [20605])"] by simp

end
