(* ===== verification/Pricing_Table.thy ===== *)
theory Pricing_Table
  imports Go_Float_Int Go_Sort Go_Strings Session_Types Quote_Data Pricing_Calendar
begin

text \<open>
  The pricing table of src/pkg/pricing: margins, keys and rules (types.go, table.go), the lookups with
  their fallback chains, and the time windows.  An instant is in nanoseconds of Unix time; the time zone
  database is the argument \<open>zone\<close>, the offset in nanoseconds of a named zone at an instant.  Go iterates
  over the windows in an unspecified order, the argument \<open>iter\<close>.
\<close>

section \<open>Data\<close>

record Margin =
  mg_BidAmount :: float64
  mg_AskAmount :: float64
  mg_SkewAmount :: float64
  mg_SpreadAmount :: float64

definition zero_Margin :: Margin where
  "zero_Margin = \<lparr>mg_BidAmount = f_zero, mg_AskAmount = f_zero, mg_SkewAmount = f_zero, mg_SpreadAmount = f_zero\<rparr>"

record CustomerQuote =
  cq_Pair :: string
  cq_Profile :: Profile
  cq_Tenor :: string
  cq_Bid :: float64
  cq_Ask :: float64
  cq_TS :: int
  cq_RawBid :: float64
  cq_RawAsk :: float64
  cq_BidSize :: float64
  cq_AskSize :: float64
  cq_TableVersion :: int
  cq_Source :: string
  cq_QuoteID :: string
  cq_ValidUntil :: int

record CustomerRule =
  cr_CustomerID :: string
  cr_Pair :: string
  cr_BidDelta :: float64
  cr_AskDelta :: float64
  cr_SkewDelta :: float64
  cr_SpreadDelta :: float64
  cr_Mode :: string
  cr_Priority :: int
  cr_Window :: string

record TimeWindowRule =
  tw_Name :: string
  tw_StartMin :: int
  tw_EndMin :: int
  tw_TZ :: string
  tw_DaysMask :: byte
  tw_ComplementOf :: string

type_synonym SwapKey = "string \<times> string"
type_synonym HQKey = "string \<times> string \<times> string"
type_synonym SiteKey = "string \<times> string \<times> string \<times> string"

record PricingTable =
  pt_Version :: int
  pt_SwapPoint :: "(SwapKey \<times> Margin) list"
  pt_HQMargin :: "(HQKey \<times> Margin) list"
  pt_SiteMargin :: "(SiteKey \<times> Margin) list"
  pt_CustomerMargin :: "CustomerRule list"
  pt_TimeWindows :: "(string \<times> TimeWindowRule) list"
  pt_Calendar :: "Calendar option"

definition NewStore :: PricingTable where
  "NewStore = \<lparr>pt_Version = 0, pt_SwapPoint = [], pt_HQMargin = [], pt_SiteMargin = [], pt_CustomerMargin = [],
     pt_TimeWindows = [], pt_Calendar = None\<rparr>"

section \<open>Lookups\<close>

definition lookupSwap :: "string \<Rightarrow> string \<Rightarrow> PricingTable \<Rightarrow> Margin" where
  "lookupSwap pair tenor t = (case map_of (pt_SwapPoint t) (pair, tenor) of Some m \<Rightarrow> m | None \<Rightarrow> zero_Margin)"

text \<open>The loop over the active windows: the first one with an entry.\<close>

fun first_window :: "(string \<Rightarrow> Margin option) \<Rightarrow> string list \<Rightarrow> Margin option" where
  "first_window look [] = None"
| "first_window look (w # ws) = (case look w of Some m \<Rightarrow> Some m | None \<Rightarrow> first_window look ws)"

definition lookupHQ :: "string \<Rightarrow> string \<Rightarrow> string list \<Rightarrow> PricingTable \<Rightarrow> Margin" where
  "lookupHQ pair tier activeWindows t =
     (case first_window (\<lambda>w. map_of (pt_HQMargin t) (pair, tier, w)) activeWindows of
        Some m \<Rightarrow> m
      | None \<Rightarrow>
     (case map_of (pt_HQMargin t) (pair, tier, []) of
        Some m \<Rightarrow> m
      | None \<Rightarrow>
     (case first_window (\<lambda>w. map_of (pt_HQMargin t) (pair, [], w)) activeWindows of
        Some m \<Rightarrow> m
      | None \<Rightarrow>
     (case map_of (pt_HQMargin t) (pair, [], []) of
        Some m \<Rightarrow> m
      | None \<Rightarrow> zero_Margin))))"

fun site_chain :: "string \<Rightarrow> string list \<Rightarrow> PricingTable \<Rightarrow> (string \<times> string) list \<Rightarrow> Margin" where
  "site_chain pair activeWindows t [] = zero_Margin"
| "site_chain pair activeWindows t ((c, s) # ks) =
     (case first_window (\<lambda>w. map_of (pt_SiteMargin t) (pair, c, s, w)) activeWindows of
        Some m \<Rightarrow> m
      | None \<Rightarrow>
     (case map_of (pt_SiteMargin t) (pair, c, s, []) of
        Some m \<Rightarrow> m
      | None \<Rightarrow> site_chain pair activeWindows t ks))"

definition lookupSite :: "string \<Rightarrow> string \<Rightarrow> string \<Rightarrow> string list \<Rightarrow> PricingTable \<Rightarrow> Margin" where
  "lookupSite pair channel site activeWindows t =
     site_chain pair activeWindows t [(channel, site), ([], site), (channel, [])]"

section \<open>Time windows\<close>

abbreviation (input) day_ns :: int where "day_ns \<equiv> 86400000000000"

definition window_open :: "(string \<Rightarrow> (int \<Rightarrow> int) option) \<Rightarrow> int \<Rightarrow> TimeWindowRule \<Rightarrow> bool" where
  "window_open zone now w =
     (let off = (if tw_TZ w = [] then 0 else (case zone (tw_TZ w) of Some f \<Rightarrow> f now | None \<Rightarrow> 0));
          t = now + off;
          wd = nat (Weekday (t div day_ns));
          mn = (t mod day_ns) div 60000000000
      in if tw_DaysMask w \<noteq> 0 \<and> tw_DaysMask w \<noteq> 255 \<and> \<not> bit (tw_DaysMask w) wd then False
         else if tw_StartMin w < 0 \<or> tw_EndMin w \<le> tw_StartMin w then True
         else mn \<ge> tw_StartMin w \<and> mn < tw_EndMin w)"

text \<open>A complement asks the other window, and so on; None is a chain that does not end.\<close>

partial_function (option) IsActive ::
  "(string \<Rightarrow> (int \<Rightarrow> int) option) \<Rightarrow> int \<Rightarrow> (string \<times> TimeWindowRule) list \<Rightarrow> TimeWindowRule \<Rightarrow> bool option" where
  "IsActive zone now allWindows w =
     (if tw_ComplementOf w \<noteq> []
      then (case map_of allWindows (ToLower (tw_ComplementOf w)) of
          Some other \<Rightarrow> Option.bind (IsActive zone now allWindows other) (\<lambda>b. Some (\<not> b))
        | None \<Rightarrow> Some False)
      else Some (window_open zone now w))"

fun active_loop ::
  "(string \<Rightarrow> (int \<Rightarrow> int) option) \<Rightarrow> int \<Rightarrow> (string \<times> TimeWindowRule) list \<Rightarrow> (string \<times> TimeWindowRule) list \<Rightarrow> string list option" where
  "active_loop zone now allWindows [] = Some []"
| "active_loop zone now allWindows ((name, w) # ws) =
     (case IsActive zone now allWindows w of
        None \<Rightarrow> None
      | Some a \<Rightarrow>
          (case active_loop zone now allWindows ws of
             None \<Rightarrow> None
           | Some out \<Rightarrow> Some (if a then name # out else out)))"

definition ActiveWindows ::
  "(string \<Rightarrow> (int \<Rightarrow> int) option) \<Rightarrow> ((string \<times> TimeWindowRule) list \<Rightarrow> (string \<times> TimeWindowRule) list) \<Rightarrow>
     int \<Rightarrow> PricingTable \<Rightarrow> string list option" where
  "ActiveWindows zone iter now t =
     (if pt_TimeWindows t = [] then Some []
      else active_loop zone now (pt_TimeWindows t) (iter (pt_TimeWindows t)))"

section \<open>When the question whether a window is active has an answer\<close>

inductive chain_ends :: "(string \<times> TimeWindowRule) list \<Rightarrow> TimeWindowRule \<Rightarrow> bool" for allWindows where
  plain: "tw_ComplementOf w = [] \<Longrightarrow> chain_ends allWindows w"
| missing: "map_of allWindows (ToLower (tw_ComplementOf w)) = None \<Longrightarrow> chain_ends allWindows w"
| other: "map_of allWindows (ToLower (tw_ComplementOf w)) = Some v \<Longrightarrow> chain_ends allWindows v \<Longrightarrow> chain_ends allWindows w"

lemma chain_ends_returns: "chain_ends allWindows w \<Longrightarrow> \<exists>b. IsActive zone now allWindows w = Some b"
proof (induction rule: chain_ends.induct)
  case (plain w)
  then show ?case by (simp add: IsActive.simps)
next
  case (missing w)
  then show ?case by (cases "tw_ComplementOf w = []") (auto simp: IsActive.simps [of zone now allWindows w])
next
  case (other w v)
  then show ?case by (auto simp: IsActive.simps [of zone now allWindows w])
qed

lemma returns_chain_ends: "IsActive zone now allWindows w = Some b \<Longrightarrow> chain_ends allWindows w"
proof (rule IsActive.raw_induct [where P = "\<lambda>zone now allWindows w b. chain_ends allWindows w"])
  fix f :: "(string \<Rightarrow> (int \<Rightarrow> int) option) \<Rightarrow> int \<Rightarrow> (string \<times> TimeWindowRule) list \<Rightarrow> TimeWindowRule \<Rightarrow> bool option"
    and zone now allWindows w b
  assume IH: "\<And>zone now allWindows w b. f zone now allWindows w = Some b \<Longrightarrow> chain_ends allWindows w"
    and eq: "(if tw_ComplementOf w \<noteq> []
      then (case map_of allWindows (ToLower (tw_ComplementOf w)) of
          Some other \<Rightarrow> Option.bind (f zone now allWindows other) (\<lambda>b. Some (\<not> b))
        | None \<Rightarrow> Some False)
      else Some (window_open zone now w)) = Some b"
  show "chain_ends allWindows w"
  proof (cases "tw_ComplementOf w = []")
    case True
    then show ?thesis by (rule chain_ends.plain)
  next
    case False
    then show ?thesis using eq IH
      by (auto split: option.splits simp: bind_eq_Some_conv intro: chain_ends.intros)
  qed
qed

lemma IsActive_complement:
  assumes "tw_ComplementOf w \<noteq> []" "map_of allWindows (ToLower (tw_ComplementOf w)) = Some v"
  shows "IsActive zone now allWindows w = map_option Not (IsActive zone now allWindows v)"
  using assms by (cases "IsActive zone now allWindows v") (simp_all add: IsActive.simps [of zone now allWindows w])

text \<open>Whether a window is active is decided exactly when its chain of complements ends, in a window with
  times of its own or in a name that is not registered; on a cycle of complements the question is never answered.
  A complement is active exactly when the window it names is not.\<close>

theorem window_activity_decided:
  "((\<exists>b. IsActive zone now allWindows w = Some b) \<longleftrightarrow> chain_ends allWindows w) \<and>
   (tw_ComplementOf w \<noteq> [] \<and> map_of allWindows (ToLower (tw_ComplementOf w)) = Some v \<longrightarrow>
     IsActive zone now allWindows w = map_option Not (IsActive zone now allWindows v))"
  using chain_ends_returns returns_chain_ends IsActive_complement by blast

definition sample_regular :: TimeWindowRule where
  "sample_regular = \<lparr>tw_Name = ''Regular'', tw_StartMin = 540, tw_EndMin = 930, tw_TZ = ''Asia/Seoul'', tw_DaysMask = 62,
     tw_ComplementOf = []\<rparr>"

definition sample_off :: TimeWindowRule where
  "sample_off = \<lparr>tw_Name = ''off'', tw_StartMin = - 1, tw_EndMin = - 1, tw_TZ = [], tw_DaysMask = 255,
     tw_ComplementOf = ''Regular''\<rparr>"

lemma sample_open: "window_open (\<lambda>z. Some (\<lambda>_. 32400000000000)) 0 sample_regular" "tw_ComplementOf sample_regular = []"
  by (simp_all add: sample_regular_def window_open_def Weekday_def bit_numeral_rec)

lemma sample_windows:
  "tw_ComplementOf sample_off = ''Regular''" "ToLower ''Regular'' = ''regular''"
  "IsActive (\<lambda>z. Some (\<lambda>_. 32400000000000)) 0 ws sample_regular = Some True"
  by (simp add: sample_off_def, code_simp, simp add: IsActive.simps [of _ _ _ sample_regular] sample_open)

theorem window_activity_decided_witness:
  "IsActive (\<lambda>z. Some (\<lambda>_. 32400000000000)) 0 [(''regular'', sample_regular), (''off'', sample_off)] sample_off = Some False"
  using window_activity_decided [of "\<lambda>z. Some (\<lambda>_. 32400000000000)" 0 "[(''regular'', sample_regular), (''off'', sample_off)]"
      sample_off sample_regular]
  by (simp add: sample_windows)

end
