(* ===== verification/Pricing_Doc.thy ===== *)
theory Pricing_Doc
  imports Pricing_Table
begin

text \<open>
  The stored form of the pricing table: the documents of src/pkg/pricing/codec.go and the table built
  from them, the checks of validate.go and the update of swap points of swapapply.go.  The JSON package and
  the parser of dates are arguments.
\<close>

unbundle bit_operations_syntax

section \<open>Documents\<close>

record TimeWindowDoc =
  wd_Name :: string
  wd_Start :: string
  wd_End :: string
  wd_TZ :: string
  wd_Days :: string
  wd_ComplementOf :: string

record SwapEntryDoc =
  se_Pair :: string
  se_Tenor :: string
  se_Margin :: Margin

record HQEntryDoc =
  he_Pair :: string
  he_Tier :: string
  he_Margin :: Margin
  he_Window :: string

record SiteEntryDoc =
  ie_Pair :: string
  ie_Channel :: string
  ie_Site :: string
  ie_Margin :: Margin
  ie_Window :: string

record CustomerEntryDoc =
  ce_CustomerID :: string
  ce_Pair :: string
  ce_BidDelta :: float64
  ce_AskDelta :: float64
  ce_SkewDelta :: float64
  ce_SpreadDelta :: float64
  ce_Mode :: string
  ce_Priority :: int
  ce_Window :: string

record PricingTableDoc =
  doc_Version :: int
  doc_TimeWindows :: "TimeWindowDoc list"
  doc_SwapPoint :: "SwapEntryDoc list"
  doc_HQMargin :: "HQEntryDoc list"
  doc_SiteMargin :: "SiteEntryDoc list"
  doc_CustomerMargin :: "CustomerEntryDoc list"
  doc_Holidays :: "string list"

section \<open>Parsing times and days\<close>

definition normalizeName :: "string \<Rightarrow> string" where
  "normalizeName s = ToLower (TrimSpace s)"

text \<open>The accumulator is a 64-bit integer that wraps.\<close>

fun atoi_loop :: "u64 \<Rightarrow> string \<Rightarrow> u64 option" where
  "atoi_loop n [] = Some n"
| "atoi_loop n (c # s) =
     (let k = of_char c :: nat in if k < 48 \<or> k > 57 then None else atoi_loop (n * 10 + word_of_nat (k - 48)) s)"

definition strconvAtoi :: "string \<Rightarrow> int option" where
  "strconvAtoi s = (if s = [] then None else map_option sint (atoi_loop 0 s))"

definition parseHHMM :: "string \<Rightarrow> int" where
  "parseHHMM s0 =
     (let s = TrimSpace s0
      in if s = [] then - 1
         else (case SplitN2 CHR '':'' s of
             [a, b] \<Rightarrow>
               (case (strconvAtoi a, strconvAtoi b) of
                  (Some h, Some m) \<Rightarrow>
                    if h < 0 \<or> h > 24 \<or> m < 0 \<or> m \<ge> 60 then - 1
                    else if h = 24 \<and> m = 0 then 1440
                    else h * 60 + m
                | _ \<Rightarrow> - 1)
           | _ \<Rightarrow> - 1))"

definition dayIdx :: "(string \<times> nat) list" where
  "dayIdx = [(''SUN'', 0), (''MON'', 1), (''TUE'', 2), (''WED'', 3), (''THU'', 4), (''FRI'', 5), (''SAT'', 6)]"

function days_loop :: "nat \<Rightarrow> nat \<Rightarrow> nat \<Rightarrow> byte \<Rightarrow> byte" where
  "days_loop fromI toI d days =
     (if d \<noteq> (toI + 1) mod 7 \<and> (d + 7 - fromI) mod 7 < 7
      then (let days' = days OR push_bit d 1
            in if d = toI then days' else days_loop fromI toI ((d + 1) mod 7) days')
      else days)"
  by pat_completeness auto
termination
proof (relation "measure (\<lambda>(fromI, toI, d, days). if d < 7 then ((toI + 1) mod 7 + 7 - d) mod 7 else 8)")
  fix fromI toI d :: nat and days days' :: byte
  assume g: "d \<noteq> (toI + 1) mod 7 \<and> (d + 7 - fromI) mod 7 < 7" and "days' = days OR push_bit d 1" and "d \<noteq> toI"
  define t where "t = (toI + 1) mod 7"
  have t: "t < 7" "d \<noteq> t" using g by (auto simp: t_def)
  show "((fromI, toI, (d + 1) mod 7, days'), fromI, toI, d, days)
      \<in> measure (\<lambda>(fromI, toI, d, days). if d < 7 then ((toI + 1) mod 7 + 7 - d) mod 7 else 8)"
  proof (cases "d < 7")
    case True
    then have "d \<in> {0, 1, 2, 3, 4, 5, 6}" "t \<in> {0, 1, 2, 3, 4, 5, 6}" using t by auto
    then show ?thesis using True t(2) unfolding in_measure prod.case t_def [symmetric] by (elim insertE) simp_all
  next
    case False
    then show ?thesis by (simp add: mod_less_divisor [THEN less_trans])
  qed
qed simp

declare days_loop.simps [simp del]

definition parseDays :: "string \<Rightarrow> byte" where
  "parseDays s0 =
     (let s = ToUpper (TrimSpace s0)
      in if s = [] \<or> s = ''*'' then 255
         else if CHR ''-'' \<in> set s \<and> CHR '','' \<notin> set s then
           (case SplitN2 CHR ''-'' s of
              [a, b] \<Rightarrow>
                (case (map_of dayIdx a, map_of dayIdx b) of
                   (Some fromI, Some toI) \<Rightarrow> days_loop fromI toI fromI 0
                 | _ \<Rightarrow> 0)
            | _ \<Rightarrow> 0)
         else fold (\<lambda>tok days. case map_of dayIdx (TrimSpace tok) of Some d \<Rightarrow> days OR push_bit d 1 | None \<Rightarrow> days)
                (Split CHR '','' s) 0)"

section \<open>Building the table\<close>

definition window_rule :: "TimeWindowDoc \<Rightarrow> TimeWindowRule" where
  "window_rule w = \<lparr>tw_Name = wd_Name w, tw_StartMin = parseHHMM (wd_Start w), tw_EndMin = parseHHMM (wd_End w),
     tw_TZ = wd_TZ w, tw_DaysMask = parseDays (wd_Days w), tw_ComplementOf = wd_ComplementOf w\<rparr>"

definition customer_rule :: "CustomerEntryDoc \<Rightarrow> CustomerRule" where
  "customer_rule e = \<lparr>cr_CustomerID = ce_CustomerID e, cr_Pair = ce_Pair e, cr_BidDelta = ce_BidDelta e,
     cr_AskDelta = ce_AskDelta e, cr_SkewDelta = ce_SkewDelta e, cr_SpreadDelta = ce_SpreadDelta e,
     cr_Mode = (if ce_Mode e = [] then ''add'' else ce_Mode e), cr_Priority = ce_Priority e,
     cr_Window = normalizeName (ce_Window e)\<rparr>"

definition build_calendar :: "(string \<Rightarrow> int option) \<Rightarrow> string list \<Rightarrow> Calendar option" where
  "build_calendar ParseHolidayDate hs =
     (if hs \<noteq> [] then
        (let dates = List.map_filter ParseHolidayDate hs
         in if dates \<noteq> [] then Some (NewHolidayCalendar dates) else None)
      else None)"

definition BuildPricingTable :: "(string \<Rightarrow> int option) \<Rightarrow> PricingTableDoc \<Rightarrow> PricingTable" where
  "BuildPricingTable ParseHolidayDate doc =
     \<lparr>pt_Version = doc_Version doc,
      pt_SwapPoint = fold (\<lambda>e. AList.update (se_Pair e, se_Tenor e) (se_Margin e)) (doc_SwapPoint doc) [],
      pt_HQMargin = fold (\<lambda>e. AList.update (he_Pair e, he_Tier e, normalizeName (he_Window e)) (he_Margin e)) (doc_HQMargin doc) [],
      pt_SiteMargin = fold (\<lambda>e. AList.update (ie_Pair e, ie_Channel e, ie_Site e, normalizeName (ie_Window e)) (ie_Margin e))
        (doc_SiteMargin doc) [],
      pt_CustomerMargin = insertion_sort (\<lambda>r. - cr_Priority r) (map customer_rule (doc_CustomerMargin doc)),
      pt_TimeWindows = fold (\<lambda>w. AList.update (normalizeName (wd_Name w)) (window_rule w)) (doc_TimeWindows doc) [],
      pt_Calendar = build_calendar ParseHolidayDate (doc_Holidays doc)\<rparr>"

definition ParsePricingTable ::
  "(bytes \<Rightarrow> PricingTableDoc option) \<Rightarrow> (string \<Rightarrow> int option) \<Rightarrow> bytes \<Rightarrow> PricingTable option" where
  "ParsePricingTable unmarshal ParseHolidayDate body = map_option (BuildPricingTable ParseHolidayDate) (unmarshal body)"

section \<open>Checks\<close>

datatype violation =
    SwapPair nat | SwapTenor nat
  | HQPair nat | HQBid nat | HQAsk nat
  | SitePair nat | SiteBid nat | SiteAsk nat | SiteWild nat

definition swap_violations :: "nat \<times> SwapEntryDoc \<Rightarrow> violation list" where
  "swap_violations = (\<lambda>(i, e).
     (if se_Pair e = [] then [SwapPair i] else []) @ (if se_Tenor e = [] then [SwapTenor i] else []))"

definition hq_violations :: "nat \<times> HQEntryDoc \<Rightarrow> violation list" where
  "hq_violations = (\<lambda>(i, e).
     (if he_Pair e = [] then [HQPair i] else []) @
     (if f_lt (mg_BidAmount (he_Margin e)) f_zero then [HQBid i] else []) @
     (if f_lt (mg_AskAmount (he_Margin e)) f_zero then [HQAsk i] else []))"

definition site_violations :: "nat \<times> SiteEntryDoc \<Rightarrow> violation list" where
  "site_violations = (\<lambda>(i, e).
     (if ie_Pair e = [] then [SitePair i] else []) @
     (if f_lt (mg_BidAmount (ie_Margin e)) f_zero then [SiteBid i] else []) @
     (if f_lt (mg_AskAmount (ie_Margin e)) f_zero then [SiteAsk i] else []) @
     (if ie_Channel e = [] \<and> ie_Site e = [] then [SiteWild i] else []))"

definition Doc_Validate :: "PricingTableDoc \<Rightarrow> violation list" where
  "Doc_Validate doc =
     concat (map swap_violations (List.enumerate 0 (doc_SwapPoint doc))) @
     concat (map hq_violations (List.enumerate 0 (doc_HQMargin doc))) @
     concat (map site_violations (List.enumerate 0 (doc_SiteMargin doc)))"

section \<open>Updating swap points\<close>

record SwapUpdate =
  su_Tenor :: string
  su_Bid :: float64
  su_Ask :: float64

definition set_swap :: "SwapUpdate \<Rightarrow> SwapEntryDoc \<Rightarrow> SwapEntryDoc" where
  "set_swap up e = e\<lparr>se_Margin := (se_Margin e)\<lparr>mg_BidAmount := su_Bid up, mg_AskAmount := su_Ask up\<rparr>\<rparr>"

fun upsert_swap :: "string \<Rightarrow> SwapUpdate \<Rightarrow> SwapEntryDoc list \<Rightarrow> SwapEntryDoc list" where
  "upsert_swap p up [] =
     [\<lparr>se_Pair = p, se_Tenor = su_Tenor up,
       se_Margin = zero_Margin\<lparr>mg_BidAmount := su_Bid up, mg_AskAmount := su_Ask up\<rparr>\<rparr>]"
| "upsert_swap p up (e # es) =
     (if se_Pair e = p \<and> se_Tenor e = su_Tenor up then set_swap up e # es else e # upsert_swap p up es)"

definition swap_update :: "string \<Rightarrow> SwapUpdate list \<Rightarrow> bool \<Rightarrow> PricingTableDoc \<Rightarrow> PricingTableDoc" where
  "swap_update p ups clear doc =
     (let doc1 = (if clear then doc\<lparr>doc_SwapPoint := filter (\<lambda>e. se_Pair e \<noteq> p) (doc_SwapPoint doc)\<rparr>
                  else doc\<lparr>doc_SwapPoint := fold (upsert_swap p) ups (doc_SwapPoint doc)\<rparr>)
      in doc1\<lparr>doc_Version := doc_Version doc1 + 1\<rparr>)"

definition empty_doc :: PricingTableDoc where
  "empty_doc = \<lparr>doc_Version = 0, doc_TimeWindows = [], doc_SwapPoint = [], doc_HQMargin = [], doc_SiteMargin = [],
     doc_CustomerMargin = [], doc_Holidays = []\<rparr>"

definition ApplySwapToDoc ::
  "(bytes \<Rightarrow> PricingTableDoc option) \<Rightarrow> (PricingTableDoc \<Rightarrow> bytes option) \<Rightarrow> bytes \<Rightarrow> string \<Rightarrow> SwapUpdate list \<Rightarrow> bool \<Rightarrow>
     bytes option" where
  "ApplySwapToDoc unmarshal marshal docJSON pair ups clear =
     (case (if docJSON = [] then Some empty_doc else unmarshal docJSON) of
        None \<Rightarrow> None
      | Some doc \<Rightarrow> marshal (swap_update pair ups clear doc))"

section \<open>What a swap update does to the table\<close>

definition swap_kv :: "SwapEntryDoc \<Rightarrow> SwapKey \<times> Margin" where
  "swap_kv e = ((se_Pair e, se_Tenor e), se_Margin e)"

definition swap_keys :: "PricingTableDoc \<Rightarrow> SwapKey list" where
  "swap_keys doc = map (fst \<circ> swap_kv) (doc_SwapPoint doc)"

lemma map_of_fold_update:
  "map_of (fold (\<lambda>e. AList.update (fst (kv e)) (snd (kv e))) es m) = map_of m ++ map_of (rev (map kv es))"
proof (induction es arbitrary: m)
  case (Cons e es)
  then show ?case by (cases "kv e") (auto simp: map_add_def fun_eq_iff split: option.splits)
qed simp

lemma built_swap: "map_of (pt_SwapPoint (BuildPricingTable pd doc)) = map_of (rev (map swap_kv (doc_SwapPoint doc)))"
  using map_of_fold_update [of swap_kv "doc_SwapPoint doc" "[]"] by (simp add: BuildPricingTable_def swap_kv_def)

lemma map_of_rev_distinct: "distinct (map fst xs) \<Longrightarrow> map_of (rev xs) = map_of xs"
proof (induction xs)
  case (Cons x xs)
  then have "fst x \<notin> dom (map_of xs)" by (simp add: dom_map_of_conv_image_fst)
  with Cons show ?case by (cases x) (auto simp: fun_eq_iff map_add_def split: option.splits)
qed simp

lemma built_swap_distinct:
  "distinct (swap_keys doc) \<Longrightarrow> map_of (pt_SwapPoint (BuildPricingTable pd doc)) = map_of (map swap_kv (doc_SwapPoint doc))"
  by (simp add: built_swap swap_keys_def map_of_rev_distinct)

definition set_amounts :: "SwapUpdate \<Rightarrow> Margin \<Rightarrow> Margin" where
  "set_amounts up m = m\<lparr>mg_BidAmount := su_Bid up, mg_AskAmount := su_Ask up\<rparr>"

lemma upsert_map:
  "map_of (map swap_kv (upsert_swap p up es)) =
     (map_of (map swap_kv es))((p, su_Tenor up) \<mapsto>
        set_amounts up (case map_of (map swap_kv es) (p, su_Tenor up) of None \<Rightarrow> zero_Margin | Some m \<Rightarrow> m))"
  by (induction es) (auto simp: swap_kv_def set_swap_def set_amounts_def fun_eq_iff split: option.splits)

lemma upsert_keys:
  "set (map (fst \<circ> swap_kv) (upsert_swap p up es)) = insert (p, su_Tenor up) (set (map (fst \<circ> swap_kv) es))"
  by (induction es) (auto simp: swap_kv_def set_swap_def)

lemma upsert_distinct:
  "distinct (map (fst \<circ> swap_kv) es) \<Longrightarrow> distinct (map (fst \<circ> swap_kv) (upsert_swap p up es))"
proof (induction es)
  case (Cons e es)
  then show ?case using upsert_keys [of p up es] by (auto simp: swap_kv_def set_swap_def comp_def)
qed simp

lemma upserts_distinct:
  "distinct (map (fst \<circ> swap_kv) es) \<Longrightarrow> distinct (map (fst \<circ> swap_kv) (fold (upsert_swap p) ups es))"
  by (induction ups arbitrary: es) (simp_all add: upsert_distinct)

text \<open>The last update of a list that names a tenor.\<close>

definition last_update :: "SwapUpdate list \<Rightarrow> string \<Rightarrow> SwapUpdate option" where
  "last_update ups tenor = find (\<lambda>u. su_Tenor u = tenor) (rev ups)"

definition swap_get :: "SwapEntryDoc list \<Rightarrow> SwapKey \<Rightarrow> Margin" where
  "swap_get es k = (case map_of (map swap_kv es) k of None \<Rightarrow> zero_Margin | Some m \<Rightarrow> m)"

lemma upserts_get:
  "swap_get (fold (upsert_swap p) ups es) (q, tenor) =
     (case last_update ups tenor of
        Some up \<Rightarrow> if q = p then set_amounts up (swap_get es (q, tenor)) else swap_get es (q, tenor)
      | None \<Rightarrow> swap_get es (q, tenor))"
proof (induction ups rule: rev_induct)
  case Nil
  then show ?case by (simp add: last_update_def)
next
  case (snoc up ups)
  let ?es = "fold (upsert_swap p) ups es"
  have g: "swap_get (upsert_swap p up ?es) k = (if k = (p, su_Tenor up) then set_amounts up (swap_get ?es k) else swap_get ?es k)" for k
    by (simp add: swap_get_def upsert_map)
  have twice: "set_amounts up (set_amounts up' m) = set_amounts up m" for up' m by (simp add: set_amounts_def)
  show ?case using snoc.IH by (auto simp: g last_update_def twice split: option.splits)
qed

text \<open>On a document with one entry per pair and tenor, an update of swap points sets bid and ask of exactly the
  named tenors of the pair to the last values given, keeps their skew and spread and every other point, and a clearing
  removes exactly the points of the pair; margins, windows and customer rules stay, the version grows by one, and there is
  still one entry per pair and tenor.\<close>

theorem swap_update_effective:
  assumes "distinct (swap_keys doc)"
  shows "let doc' = swap_update p ups clear doc; t = BuildPricingTable pd doc; t' = BuildPricingTable pd doc'
     in distinct (swap_keys doc') \<and>
        (\<forall>q tenor. lookupSwap q tenor t' =
           (if clear then (if q = p then zero_Margin else lookupSwap q tenor t)
            else (case last_update ups tenor of
                Some up \<Rightarrow> if q = p then set_amounts up (lookupSwap q tenor t) else lookupSwap q tenor t
              | None \<Rightarrow> lookupSwap q tenor t))) \<and>
        t' = t\<lparr>pt_Version := pt_Version t + 1, pt_SwapPoint := pt_SwapPoint t'\<rparr>"
proof -
  let ?doc' = "swap_update p ups clear doc"
  have d: "distinct (swap_keys ?doc')"
    using assms upserts_distinct [of "doc_SwapPoint doc" p ups]
    by (auto simp: swap_keys_def swap_update_def distinct_map_filter)
  have get: "lookupSwap q tenor (BuildPricingTable pd dc) = swap_get (doc_SwapPoint dc) (q, tenor)" if "distinct (swap_keys dc)" for dc q tenor
    by (simp add: lookupSwap_def built_swap_distinct [OF that] swap_get_def)
  have cleared: "swap_get (filter (\<lambda>e. se_Pair e \<noteq> p) es) (q, tenor) = (if q = p then zero_Margin else swap_get es (q, tenor))" for es q tenor
  proof -
    have "map_of (map swap_kv (filter (\<lambda>e. se_Pair e \<noteq> p) es)) (q, tenor) = (if q = p then None else map_of (map swap_kv es) (q, tenor))"
      by (induction es) (auto simp: swap_kv_def [abs_def])
    then show ?thesis by (simp add: swap_get_def)
  qed
  have "lookupSwap q tenor (BuildPricingTable pd ?doc') =
      (if clear then (if q = p then zero_Margin else lookupSwap q tenor (BuildPricingTable pd doc))
       else (case last_update ups tenor of
           Some up \<Rightarrow> if q = p then set_amounts up (lookupSwap q tenor (BuildPricingTable pd doc)) else lookupSwap q tenor (BuildPricingTable pd doc)
         | None \<Rightarrow> lookupSwap q tenor (BuildPricingTable pd doc)))" for q tenor
    unfolding get [OF d] get [OF assms] by (simp add: swap_update_def cleared upserts_get)
  moreover have "BuildPricingTable pd ?doc' = (BuildPricingTable pd doc)
      \<lparr>pt_Version := pt_Version (BuildPricingTable pd doc) + 1, pt_SwapPoint := pt_SwapPoint (BuildPricingTable pd ?doc')\<rparr>"
    by (simp add: BuildPricingTable_def swap_update_def Let_def)
  ultimately show ?thesis using d unfolding Let_def by blast
qed

definition twice_doc :: "Margin \<Rightarrow> Margin \<Rightarrow> PricingTableDoc" where
  "twice_doc a b = empty_doc\<lparr>doc_SwapPoint := [\<lparr>se_Pair = ''USD/KRW'', se_Tenor = ''1M'', se_Margin = a\<rparr>,
     \<lparr>se_Pair = ''USD/KRW'', se_Tenor = ''1M'', se_Margin = b\<rparr>]\<rparr>"

text \<open>With two entries for one pair and tenor, which the checks accept, an update changes the first one while the
  table is built from the last one: the update is stored and has no effect.\<close>

theorem swap_update_lost:
  "Doc_Validate (twice_doc a b) = [] \<and>
   lookupSwap ''USD/KRW'' ''1M'' (BuildPricingTable pd (swap_update ''USD/KRW'' [\<lparr>su_Tenor = ''1M'', su_Bid = x, su_Ask = y\<rparr>] False
     (twice_doc a b))) = b"
  by (simp add: Doc_Validate_def twice_doc_def empty_doc_def swap_violations_def swap_update_def lookupSwap_def set_swap_def
      BuildPricingTable_def)

definition sample_swap_doc :: PricingTableDoc where
  "sample_swap_doc = empty_doc\<lparr>doc_SwapPoint := [\<lparr>se_Pair = ''USD/KRW'', se_Tenor = ''1M'', se_Margin = zero_Margin\<rparr>]\<rparr>"

theorem swap_update_effective_witness:
  "lookupSwap ''USD/KRW'' ''1M'' (BuildPricingTable (\<lambda>_. None) (swap_update ''USD/KRW''
      [\<lparr>su_Tenor = ''1M'', su_Bid = f_of_int 3, su_Ask = f_of_int 4\<rparr>] False sample_swap_doc)) =
    set_amounts \<lparr>su_Tenor = ''1M'', su_Bid = f_of_int 3, su_Ask = f_of_int 4\<rparr>
      (lookupSwap ''USD/KRW'' ''1M'' (BuildPricingTable (\<lambda>_. None) sample_swap_doc))"
proof -
  have "distinct (swap_keys sample_swap_doc)" by (simp add: swap_keys_def sample_swap_doc_def)
  from swap_update_effective [OF this, of "''USD/KRW''" "[\<lparr>su_Tenor = ''1M'', su_Bid = f_of_int 3, su_Ask = f_of_int 4\<rparr>]" False "\<lambda>_. None"]
  show ?thesis by (simp add: Let_def last_update_def)
qed

section \<open>Ranges of days\<close>

text \<open>A range of days such as FRI-MON stands for the days from the first to the second, around the end of the
  week; the whole week leaves the mask zero, which the window check takes for every day.\<close>

definition day_passes :: "byte \<Rightarrow> nat \<Rightarrow> bool" where
  "day_passes m wd \<longleftrightarrow> \<not> (m \<noteq> 0 \<and> m \<noteq> 255 \<and> \<not> bit m wd)"

lemma day_ranges_table:
  "list_all (\<lambda>(a, b, wd). day_passes (days_loop a b a 0) wd = ((wd + 7 - a) mod 7 \<le> (b + 7 - a) mod 7))
     (List.product [0..<7] (List.product [0..<7] [0..<7]))"
  by code_simp

lemma day_range_cyclic:
  "a < 7 \<Longrightarrow> b < 7 \<Longrightarrow> wd < 7 \<Longrightarrow> day_passes (days_loop a b a 0) wd \<longleftrightarrow> (wd + 7 - a) mod 7 \<le> (b + 7 - a) mod 7"
  using day_ranges_table unfolding list_all_iff by (auto simp: split_beta)

end
