(* ===== verification/Pricing_Engine.thy ===== *)
theory Pricing_Engine
  imports Pricing_Doc
begin

text \<open>
  The engine of src/pkg/pricing (engine.go and the interpolation of valuedate.go): the margins of a
  customer quote for a standard tenor or for a settlement date.  None stands for a call that does not
  return, because a chain of complement windows is cyclic.
\<close>

section \<open>Interpolating swap points\<close>

definition DefaultTenorDays :: "(string \<times> int) list" where
  "DefaultTenorDays = [(''TOD'', - 2), (''TOM'', - 1), (''SPOT'', 0), (''1W'', 7), (''2W'', 14), (''1M'', 30), (''2M'', 61),
     (''3M'', 91), (''6M'', 183), (''9M'', 274), (''1Y'', 365)]"

record SwapInterpolation =
  si_Margin :: Margin
  si_From :: string
  si_To :: string
  si_FromDays :: int
  si_ToDays :: int
  si_OffsetDays :: int
  si_Weight :: float64
  si_Exact :: bool

datatype swap_error = ErrOutOfRange | ErrNoSwap

record swap_item =
  it_tenor :: string
  it_days :: int
  it_m :: Margin

text \<open>The entries of a pair with a known tenor, in the order of the iteration.\<close>

definition swap_items :: "string \<Rightarrow> (SwapKey \<times> Margin) list \<Rightarrow> swap_item list" where
  "swap_items pair points =
     List.map_filter (\<lambda>((p, tenor), m).
       if p \<noteq> pair then None
       else (case map_of DefaultTenorDays tenor of
           None \<Rightarrow> None
         | Some days \<Rightarrow> Some \<lparr>it_tenor = tenor, it_days = days, it_m = m\<rparr>)) points"

text \<open>The search for the neighbours: the last item before the offset and the first one after it.\<close>

fun neighbours :: "int \<Rightarrow> swap_item option \<Rightarrow> swap_item list \<Rightarrow> swap_item option \<times> swap_item option" where
  "neighbours off prev [] = (prev, None)"
| "neighbours off prev (i # is) =
     (let prev' = (if it_days i < off then Some i else prev)
      in if it_days i > off then (prev', Some i) else neighbours off prev' is)"

definition lerp :: "float64 \<Rightarrow> float64 \<Rightarrow> float64 \<Rightarrow> float64" where
  "lerp a b w = f_add a (f_mul (f_sub b a) w)"

definition lerp_margin :: "Margin \<Rightarrow> Margin \<Rightarrow> float64 \<Rightarrow> Margin" where
  "lerp_margin a b w = \<lparr>mg_BidAmount = lerp (mg_BidAmount a) (mg_BidAmount b) w, mg_AskAmount = lerp (mg_AskAmount a) (mg_AskAmount b) w,
     mg_SkewAmount = lerp (mg_SkewAmount a) (mg_SkewAmount b) w, mg_SpreadAmount = lerp (mg_SpreadAmount a) (mg_SpreadAmount b) w\<rparr>"

definition InterpolateSwap ::
  "((SwapKey \<times> Margin) list \<Rightarrow> (SwapKey \<times> Margin) list) \<Rightarrow> string \<Rightarrow> int \<Rightarrow> PricingTable \<Rightarrow> swap_error + SwapInterpolation" where
  "InterpolateSwap iter pair offsetDays t =
     (let items0 = swap_items pair (iter (pt_SwapPoint t))
      in if items0 = [] then Inl ErrNoSwap
         else (let items = insertion_sort it_days items0
               in case find (\<lambda>i. it_days i = offsetDays) items of
                    Some i \<Rightarrow> Inr \<lparr>si_Margin = it_m i, si_From = it_tenor i, si_To = it_tenor i, si_FromDays = it_days i,
                        si_ToDays = it_days i, si_OffsetDays = offsetDays, si_Weight = f_zero, si_Exact = True\<rparr>
                  | None \<Rightarrow>
                      (case neighbours offsetDays None items of
                         (Some p, Some n) \<Rightarrow>
                           (let w = f_div (f_of_int (offsetDays - it_days p)) (f_of_int (it_days n - it_days p))
                            in Inr \<lparr>si_Margin = lerp_margin (it_m p) (it_m n) w, si_From = it_tenor p, si_To = it_tenor n,
                                 si_FromDays = it_days p, si_ToDays = it_days n, si_OffsetDays = offsetDays, si_Weight = w,
                                 si_Exact = False\<rparr>)
                       | _ \<Rightarrow> Inl ErrOutOfRange)))"

section \<open>Applying margins\<close>

definition rule_matches :: "string \<Rightarrow> string \<Rightarrow> string list \<Rightarrow> CustomerRule \<Rightarrow> bool" where
  "rule_matches customerID pair activeWindows r \<longleftrightarrow>
     cr_CustomerID r = customerID \<and> (cr_Pair r = [] \<or> cr_Pair r = pair) \<and>
     (cr_Window r = [] \<or> cr_Window r \<in> set activeWindows)"

definition matchCustomerRule :: "string \<Rightarrow> string \<Rightarrow> string list \<Rightarrow> PricingTable \<Rightarrow> CustomerRule option" where
  "matchCustomerRule customerID pair activeWindows t =
     (if customerID = [] then None else find (rule_matches customerID pair activeWindows) (pt_CustomerMargin t))"

text \<open>The sums for one side, the skew or the spread: override leaves out the margins of the head office and the site.\<close>

definition total_margin :: "float64 \<Rightarrow> float64 \<Rightarrow> float64 \<Rightarrow> (CustomerRule \<Rightarrow> float64) \<Rightarrow> CustomerRule option \<Rightarrow> float64" where
  "total_margin swap hq site delta rule =
     (case rule of
        Some r \<Rightarrow> if cr_Mode r = ''override'' then f_add swap (delta r)
                  else f_add (f_add (f_add swap hq) site) (delta r)
      | None \<Rightarrow> f_add (f_add swap hq) site)"

definition priced ::
  "Quote \<Rightarrow> Profile \<Rightarrow> string \<Rightarrow> int \<Rightarrow> Margin \<Rightarrow> Margin \<Rightarrow> Margin \<Rightarrow> CustomerRule option \<Rightarrow> CustomerQuote" where
  "priced raw profile tenor version swap hq site rule =
     (let totalBid = total_margin (mg_BidAmount swap) (mg_BidAmount hq) (mg_BidAmount site) cr_BidDelta rule;
          totalAsk = total_margin (mg_AskAmount swap) (mg_AskAmount hq) (mg_AskAmount site) cr_AskDelta rule;
          totalSkew = total_margin (mg_SkewAmount swap) (mg_SkewAmount hq) (mg_SkewAmount site) cr_SkewDelta rule;
          totalSpread = total_margin (mg_SpreadAmount swap) (mg_SpreadAmount hq) (mg_SpreadAmount site) cr_SpreadDelta rule;
          spreadHalf = f_div totalSpread (f_of_int 2)
      in \<lparr>cq_Pair = qt_Pair raw, cq_Profile = profile, cq_Tenor = tenor,
          cq_Bid = f_sub (f_sub (f_add (qt_Bid raw) totalSkew) totalBid) spreadHalf,
          cq_Ask = f_add (f_add (f_add (qt_Ask raw) totalSkew) totalAsk) spreadHalf,
          cq_TS = qt_TS raw, cq_RawBid = qt_Bid raw, cq_RawAsk = qt_Ask raw, cq_BidSize = qt_BidSize raw,
          cq_AskSize = qt_AskSize raw, cq_TableVersion = version, cq_Source = [], cq_QuoteID = [], cq_ValidUntil = go_zero_time\<rparr>)"

text \<open>\<open>clock\<close> is read when the caller passes the zero time.\<close>

definition ApplyForCustomer ::
  "(string \<Rightarrow> (int \<Rightarrow> int) option) \<Rightarrow> ((string \<times> TimeWindowRule) list \<Rightarrow> (string \<times> TimeWindowRule) list) \<Rightarrow> int \<Rightarrow>
     Quote \<Rightarrow> Profile \<Rightarrow> string \<Rightarrow> int \<Rightarrow> string \<Rightarrow> PricingTable \<Rightarrow> CustomerQuote option" where
  "ApplyForCustomer zone iter clock raw profile tenor now0 customerID t =
     (let now = (if now0 = go_zero_time then clock else now0)
      in case ActiveWindows zone iter now t of
           None \<Rightarrow> None
         | Some ws \<Rightarrow>
             Some (priced raw profile tenor (pt_Version t) (lookupSwap (qt_Pair raw) tenor t)
               (lookupHQ (qt_Pair raw) (pf_Tier profile) ws t)
               (lookupSite (qt_Pair raw) (pf_Channel profile) (pf_Site profile) ws t)
               (matchCustomerRule customerID (qt_Pair raw) ws t)))"

definition ApplyAt ::
  "(string \<Rightarrow> (int \<Rightarrow> int) option) \<Rightarrow> ((string \<times> TimeWindowRule) list \<Rightarrow> (string \<times> TimeWindowRule) list) \<Rightarrow> int \<Rightarrow>
     Quote \<Rightarrow> Profile \<Rightarrow> string \<Rightarrow> int \<Rightarrow> PricingTable \<Rightarrow> CustomerQuote option" where
  "ApplyAt zone iter clock raw profile tenor now t = ApplyForCustomer zone iter clock raw profile tenor now [] t"

definition Apply ::
  "(string \<Rightarrow> (int \<Rightarrow> int) option) \<Rightarrow> ((string \<times> TimeWindowRule) list \<Rightarrow> (string \<times> TimeWindowRule) list) \<Rightarrow> int \<Rightarrow>
     Quote \<Rightarrow> Profile \<Rightarrow> string \<Rightarrow> PricingTable \<Rightarrow> CustomerQuote option" where
  "Apply zone iter clock raw profile tenor t = ApplyAt zone iter clock raw profile tenor clock t"

definition ApplyForValueDate ::
  "(string \<Rightarrow> (int \<Rightarrow> int) option) \<Rightarrow> ((string \<times> TimeWindowRule) list \<Rightarrow> (string \<times> TimeWindowRule) list) \<Rightarrow>
     ((SwapKey \<times> Margin) list \<Rightarrow> (SwapKey \<times> Margin) list) \<Rightarrow> gotime \<Rightarrow>
     Quote \<Rightarrow> Profile \<Rightarrow> gotime \<Rightarrow> gotime \<Rightarrow> int \<Rightarrow> string \<Rightarrow> PricingTable \<Rightarrow>
     (swap_error + CustomerQuote \<times> SwapInterpolation) option" where
  "ApplyForValueDate zone iter iterSwap clock raw profile valueDate now0 spotDays customerID t =
     (let now = (if gt_ns now0 = go_zero_time then clock else now0); cal = Some (Cal (pt_Calendar t))
      in case SpotDateCal now spotDays cal of
           None \<Rightarrow> None
         | Some spotDate \<Rightarrow>
             (let offsetDays = BusinessDaysBetweenCal spotDate valueDate cal
              in case InterpolateSwap iterSwap (qt_Pair raw) offsetDays t of
                   Inl e \<Rightarrow> Some (Inl e)
                 | Inr interp \<Rightarrow>
                     (case ActiveWindows zone iter (gt_ns now) t of
                        None \<Rightarrow> None
                      | Some ws \<Rightarrow>
                          Some (Inr (priced raw profile (if si_Exact interp then si_From interp else []) (pt_Version t)
                            (si_Margin interp) (lookupHQ (qt_Pair raw) (pf_Tier profile) ws t)
                            (lookupSite (qt_Pair raw) (pf_Channel profile) (pf_Site profile) ws t)
                            (matchCustomerRule customerID (qt_Pair raw) ws t), interp)))))"

section \<open>Margins do not cross a quote\<close>

definition nonneg_margin :: "Margin \<Rightarrow> bool" where
  "nonneg_margin m \<longleftrightarrow> f_le f_zero (mg_BidAmount m) \<and> f_le f_zero (mg_AskAmount m) \<and> f_le f_zero (mg_SpreadAmount m)"

definition nonneg_rule :: "CustomerRule \<Rightarrow> bool" where
  "nonneg_rule r \<longleftrightarrow> f_le f_zero (cr_BidDelta r) \<and> f_le f_zero (cr_AskDelta r) \<and> f_le f_zero (cr_SpreadDelta r)"

lemma f_sub_nan: "\<not> f_isnan (f_sub x y) \<Longrightarrow> \<not> f_isnan x \<and> \<not> f_isnan y"
  unfolding f_sub_def using f_add_nan [of x "f_neg y"] by simp

lemma sum3_nonneg:
  assumes "f_le f_zero a" "f_le f_zero b" "f_le f_zero c" "\<not> f_isnan (f_add (f_add a b) c)"
  shows "f_le f_zero (f_add (f_add a b) c)"
proof -
  have "\<not> f_isnan (f_add a b)" using f_add_nan [OF assms(4)] by simp
  from f_add_nonneg [OF f_add_nonneg [OF assms(1,2) this] assms(3,4)] show ?thesis .
qed

lemma total_nonneg:
  assumes "f_le f_zero a" "f_le f_zero b" "f_le f_zero c" "\<And>r. rule = Some r \<Longrightarrow> f_le f_zero (delta r)"
    and num: "\<not> f_isnan (total_margin a b c delta rule)"
  shows "f_le f_zero (total_margin a b c delta rule)"
proof (cases rule)
  case None
  then show ?thesis using sum3_nonneg [OF assms(1-3)] num by (simp add: total_margin_def)
next
  case (Some r)
  have d: "f_le f_zero (delta r)" using assms(4) Some by simp
  show ?thesis
  proof (cases "cr_Mode r = ''override''")
    case True
    then show ?thesis using f_add_nonneg [OF assms(1) d] num Some by (simp add: total_margin_def)
  next
    case False
    then have e: "total_margin a b c delta rule = f_add (f_add (f_add a b) c) (delta r)"
      using Some by (simp add: total_margin_def)
    have "\<not> f_isnan (f_add (f_add a b) c)" using f_add_nan [OF num [unfolded e]] by simp
    from f_add_nonneg [OF sum3_nonneg [OF assms(1-3) this] d] show ?thesis using num by (simp add: e)
  qed
qed

lemma f_div_nan: "\<not> f_isnan (f_div x y) \<Longrightarrow> \<not> f_isnan x"
proof (rule notI)
  assume "\<not> f_isnan (f_div x y)" "f_isnan x"
  then show False unfolding f_div_def Let_def by (simp only: simp_thms if_True f_nan_isnan)
qed

lemma priced_not_crossed:
  assumes raw: "f_le (qt_Bid raw) (qt_Ask raw)"
    and m: "nonneg_margin swap" "nonneg_margin hq" "nonneg_margin site" "\<And>r. rule = Some r \<Longrightarrow> nonneg_rule r"
    and num: "\<not> f_isnan (cq_Bid q)" "\<not> f_isnan (cq_Ask q)"
    and q: "q = priced raw profile tenor v swap hq site rule"
  shows "f_le (cq_Bid q) (cq_Ask q)"
proof -
  define b a k s where defs:
    "b = total_margin (mg_BidAmount swap) (mg_BidAmount hq) (mg_BidAmount site) cr_BidDelta rule"
    "a = total_margin (mg_AskAmount swap) (mg_AskAmount hq) (mg_AskAmount site) cr_AskDelta rule"
    "k = total_margin (mg_SkewAmount swap) (mg_SkewAmount hq) (mg_SkewAmount site) cr_SkewDelta rule"
    "s = total_margin (mg_SpreadAmount swap) (mg_SpreadAmount hq) (mg_SpreadAmount site) cr_SpreadDelta rule"
  define h where "h = f_div s (f_of_int 2)"
  have bid: "cq_Bid q = f_sub (f_sub (f_add (qt_Bid raw) k) b) h" and ask: "cq_Ask q = f_add (f_add (f_add (qt_Ask raw) k) a) h"
    by (simp_all add: q priced_def defs h_def Let_def)
  note nb = f_sub_nan [OF num(1) [unfolded bid]]
  note na = f_add_nan [OF num(2) [unfolded ask]]
  note nb' = f_sub_nan [OF conjunct1 [OF nb]] and na' = f_add_nan [OF conjunct1 [OF na]]
  have n: "\<not> f_isnan (f_sub (f_add (qt_Bid raw) k) b)" "\<not> f_isnan (f_add (qt_Bid raw) k)" "\<not> f_isnan b" "\<not> f_isnan h"
      "\<not> f_isnan (f_add (f_add (qt_Ask raw) k) a)" "\<not> f_isnan (f_add (qt_Ask raw) k)" "\<not> f_isnan a"
    using nb na nb' na' by simp_all
  have k: "\<not> f_isnan k" using f_add_nan [OF n(2)] by simp
  have s: "\<not> f_isnan s" using f_div_nan n(4) unfolding h_def by simp
  have mb: "f_le f_zero (mg_BidAmount swap)" "f_le f_zero (mg_BidAmount hq)" "f_le f_zero (mg_BidAmount site)"
    and ma: "f_le f_zero (mg_AskAmount swap)" "f_le f_zero (mg_AskAmount hq)" "f_le f_zero (mg_AskAmount site)"
    and ms: "f_le f_zero (mg_SpreadAmount swap)" "f_le f_zero (mg_SpreadAmount hq)" "f_le f_zero (mg_SpreadAmount site)"
    and mr: "\<And>r. rule = Some r \<Longrightarrow> f_le f_zero (cr_BidDelta r)" "\<And>r. rule = Some r \<Longrightarrow> f_le f_zero (cr_AskDelta r)"
      "\<And>r. rule = Some r \<Longrightarrow> f_le f_zero (cr_SpreadDelta r)"
    using m by (simp_all add: nonneg_margin_def nonneg_rule_def)
  have pos: "f_le f_zero b" "f_le f_zero a" "f_le f_zero s"
    using total_nonneg [OF mb mr(1) n(3) [unfolded defs]] total_nonneg [OF ma mr(2) n(7) [unfolded defs]]
      total_nonneg [OF ms mr(3) s [unfolded defs]] by (simp_all add: defs)
  have h: "f_le f_zero h" using pos(3) f_div_two_nonneg h_def by simp
  have "f_le (cq_Bid q) (f_sub (f_add (qt_Bid raw) k) b)" using f_sub_le [OF h] num(1) bid by simp
  moreover have "f_le (f_sub (f_add (qt_Bid raw) k) b) (f_add (qt_Bid raw) k)" using f_sub_le [OF pos(1)] n by simp
  ultimately have 1: "f_le (cq_Bid q) (f_add (qt_Bid raw) k)" by (rule f_le_trans)
  have 2: "f_le (f_add (qt_Bid raw) k) (f_add (qt_Ask raw) k)"
    using f_add_mono [OF raw f_le_refl [OF k]] n by simp
  have "f_le (f_add (qt_Ask raw) k) (f_add (f_add (qt_Ask raw) k) a)" using f_add_ge [OF pos(2)] n by simp
  moreover have "f_le (f_add (f_add (qt_Ask raw) k) a) (cq_Ask q)" using f_add_ge [OF h] num(2) ask by simp
  ultimately have 3: "f_le (f_add (qt_Ask raw) k) (cq_Ask q)" by (rule f_le_trans)
  show ?thesis by (rule f_le_trans [OF f_le_trans [OF 1 2] 3])
qed

lemma first_window_range: "first_window look ws = Some m \<Longrightarrow> \<exists>w \<in> set ws. look w = Some m"
  by (induction ws) (auto split: option.splits)

lemma lookupHQ_range: "P zero_Margin \<Longrightarrow> \<forall>k m. (k, m) \<in> set (pt_HQMargin t) \<longrightarrow> P m \<Longrightarrow> P (lookupHQ pair tier ws t)"
  unfolding lookupHQ_def by (auto split: option.splits dest!: first_window_range map_of_SomeD)

lemma site_chain_range: "P zero_Margin \<Longrightarrow> \<forall>k m. (k, m) \<in> set (pt_SiteMargin t) \<longrightarrow> P m \<Longrightarrow> P (site_chain pair ws t ks)"
  by (induction ks) (auto split: option.splits dest!: first_window_range map_of_SomeD)

lemma update_range: "(k', v) \<in> set (AList.update k x m) \<Longrightarrow> v = x \<or> (k', v) \<in> set m"
  by (induction m) (auto split: if_splits)

lemma fold_update_range:
  "(k', v) \<in> set (fold (\<lambda>e. AList.update (kf e) (vf e)) es m) \<Longrightarrow> (k', v) \<in> set m \<or> (\<exists>e \<in> set es. v = vf e)"
proof (induction es arbitrary: m)
  case (Cons e es)
  from Cons.prems have "(k', v) \<in> set (fold (\<lambda>e. AList.update (kf e) (vf e)) es (AList.update (kf e) (vf e) m))" by simp
  from Cons.IH [OF this] show ?case using update_range [of k' v "kf e" "vf e" m] by auto
qed simp

text \<open>What the checks of a document leave to its author: amounts are numbers, and spreads and customer deltas
  are not negative.\<close>

definition amounts_ok :: "PricingTableDoc \<Rightarrow> bool" where
  "amounts_ok doc \<longleftrightarrow>
     (\<forall>m \<in> set (map he_Margin (doc_HQMargin doc) @ map ie_Margin (doc_SiteMargin doc)).
        \<not> f_isnan (mg_BidAmount m) \<and> \<not> f_isnan (mg_AskAmount m) \<and> f_le f_zero (mg_SpreadAmount m)) \<and>
     (\<forall>e \<in> set (doc_CustomerMargin doc). nonneg_rule (customer_rule e))"

lemma concat_enumerate_Nil: "concat (map f (List.enumerate n xs)) = [] \<Longrightarrow> x \<in> set xs \<Longrightarrow> \<exists>i. f (i, x) = []"
proof -
  assume c: "concat (map f (List.enumerate n xs)) = []" and "x \<in> set xs"
  then have "x \<in> snd ` set (List.enumerate n xs)" by (metis list.set_map map_snd_enumerate)
  then obtain i where "(i, x) \<in> set (List.enumerate n xs)" by auto
  with c show ?thesis by auto
qed

lemma not_lt_zero: "\<not> f_isnan x \<Longrightarrow> \<not> f_lt x f_zero \<Longrightarrow> f_le f_zero x"
  using f_lt_not_le [of x f_zero] by simp

lemma valid_hq:
  assumes "Doc_Validate doc = []" "amounts_ok doc" "e \<in> set (doc_HQMargin doc)"
  shows "nonneg_margin (he_Margin e)"
proof -
  have "concat (map hq_violations (List.enumerate 0 (doc_HQMargin doc))) = []" using assms(1) by (simp add: Doc_Validate_def)
  from concat_enumerate_Nil [OF this assms(3)] obtain i where "hq_violations (i, e) = []" by blast
  then have "\<not> f_lt (mg_BidAmount (he_Margin e)) f_zero" "\<not> f_lt (mg_AskAmount (he_Margin e)) f_zero"
    by (simp_all add: hq_violations_def split: if_split_asm)
  moreover have "\<not> f_isnan (mg_BidAmount (he_Margin e))" "\<not> f_isnan (mg_AskAmount (he_Margin e))"
      "f_le f_zero (mg_SpreadAmount (he_Margin e))" using assms(2,3) by (simp_all add: amounts_ok_def)
  ultimately show ?thesis unfolding nonneg_margin_def by (simp add: not_lt_zero)
qed

lemma valid_site:
  assumes "Doc_Validate doc = []" "amounts_ok doc" "e \<in> set (doc_SiteMargin doc)"
  shows "nonneg_margin (ie_Margin e)"
proof -
  have "concat (map site_violations (List.enumerate 0 (doc_SiteMargin doc))) = []" using assms(1) by (simp add: Doc_Validate_def)
  from concat_enumerate_Nil [OF this assms(3)] obtain i where "site_violations (i, e) = []" by blast
  then have "\<not> f_lt (mg_BidAmount (ie_Margin e)) f_zero" "\<not> f_lt (mg_AskAmount (ie_Margin e)) f_zero"
    by (simp_all add: site_violations_def split: if_split_asm)
  moreover have "\<not> f_isnan (mg_BidAmount (ie_Margin e))" "\<not> f_isnan (mg_AskAmount (ie_Margin e))"
      "f_le f_zero (mg_SpreadAmount (ie_Margin e))" using assms(2,3) by (simp_all add: amounts_ok_def)
  ultimately show ?thesis unfolding nonneg_margin_def by (simp add: not_lt_zero)
qed

lemma nonneg_zero: "nonneg_margin zero_Margin"
  by (simp add: nonneg_margin_def zero_Margin_def f_le_refl)

lemma built_hq:
  assumes "Doc_Validate doc = []" "amounts_ok doc"
  shows "nonneg_margin (lookupHQ pair tier ws (BuildPricingTable pd doc))"
proof (rule lookupHQ_range [where P = nonneg_margin, OF nonneg_zero], intro allI impI)
  fix k m assume "(k, m) \<in> set (pt_HQMargin (BuildPricingTable pd doc))"
  then have "\<exists>e \<in> set (doc_HQMargin doc). m = he_Margin e"
    using fold_update_range [of k m "\<lambda>e. (he_Pair e, he_Tier e, normalizeName (he_Window e))" he_Margin "doc_HQMargin doc" "[]"]
    by (simp add: BuildPricingTable_def)
  then show "nonneg_margin m" using valid_hq [OF assms] by blast
qed

lemma built_site:
  assumes "Doc_Validate doc = []" "amounts_ok doc"
  shows "nonneg_margin (lookupSite pair c s ws (BuildPricingTable pd doc))"
  unfolding lookupSite_def
proof (rule site_chain_range [where P = nonneg_margin, OF nonneg_zero], intro allI impI)
  fix k m assume "(k, m) \<in> set (pt_SiteMargin (BuildPricingTable pd doc))"
  then have "\<exists>e \<in> set (doc_SiteMargin doc). m = ie_Margin e"
    using fold_update_range [of k m "\<lambda>e. (ie_Pair e, ie_Channel e, ie_Site e, normalizeName (ie_Window e))" ie_Margin "doc_SiteMargin doc" "[]"]
    by (simp add: BuildPricingTable_def)
  then show "nonneg_margin m" using valid_site [OF assms] by blast
qed

lemma built_rule:
  assumes "amounts_ok doc" "matchCustomerRule cid pair ws (BuildPricingTable pd doc) = Some r"
  shows "nonneg_rule r"
proof -
  have "r \<in> set (pt_CustomerMargin (BuildPricingTable pd doc))"
    using assms(2) by (auto simp: matchCustomerRule_def find_Some_iff split: if_splits)
  then obtain e where "e \<in> set (doc_CustomerMargin doc)" "r = customer_rule e"
    by (auto simp: BuildPricingTable_def insertion_sort_stable)
  then show ?thesis using assms(1) by (simp add: amounts_ok_def)
qed


definition sample_margin :: "int \<Rightarrow> int \<Rightarrow> Margin" where
  "sample_margin amount spread = \<lparr>mg_BidAmount = f_of_int amount, mg_AskAmount = f_of_int amount, mg_SkewAmount = f_of_int 0,
     mg_SpreadAmount = f_of_int spread\<rparr>"

definition sample_doc :: "int \<Rightarrow> PricingTableDoc" where
  "sample_doc spread = empty_doc\<lparr>doc_HQMargin := [\<lparr>he_Pair = ''USD/KRW'', he_Tier = ''VIP'', he_Margin = sample_margin 1 spread,
     he_Window = []\<rparr>]\<rparr>"

definition sample_raw :: Quote where
  "sample_raw = \<lparr>qt_Pair = ''USD/KRW'', qt_Bid = f_of_int 1300, qt_Ask = f_of_int 1301, qt_TS = 5, qt_BidSize = f_zero, qt_AskSize = f_zero\<rparr>"

definition sample_profile :: Profile where
  "sample_profile = \<lparr>pf_Channel = ''WEB'', pf_Site = ''HQ'', pf_Tier = ''VIP''\<rparr>"

lemma zero_Margin_int: "zero_Margin = \<lparr>mg_BidAmount = f_of_int 0, mg_AskAmount = f_of_int 0, mg_SkewAmount = f_of_int 0,
    mg_SpreadAmount = f_of_int 0\<rparr>"
  by (simp add: zero_Margin_def f_of_int_0)

lemma sample_table:
  "BuildPricingTable pd (sample_doc s) = NewStore\<lparr>pt_HQMargin := [((''USD/KRW'', ''VIP'', []), sample_margin 1 s)]\<rparr>"
  by (simp add: BuildPricingTable_def sample_doc_def empty_doc_def NewStore_def normalizeName_def TrimSpace_def ToLower_def
      insertion_sort_def build_calendar_def)

lemma sample_priced:
  assumes "s = 2 * h" "small s" "small h" "small (1299 - h)" "small (1302 + h)"
  shows "\<exists>q. ApplyForCustomer zone iter clock sample_raw sample_profile ''SPOT'' 7 [] (BuildPricingTable pd (sample_doc s)) = Some q \<and>
     cq_Bid q = f_of_int (1299 - h) \<and> cq_Ask q = f_of_int (1302 + h)"
proof -
  have d: "f_div (f_of_int s) (f_of_int 2) = f_of_int h" using f_div_of_int [of h 2] assms by (simp add: mult.commute)
  show ?thesis unfolding sample_table using assms(2-) d
    by (simp add: ApplyForCustomer_def NewStore_def ActiveWindows_def lookupSwap_def lookupHQ_def lookupSite_def
        matchCustomerRule_def sample_raw_def sample_profile_def priced_def total_margin_def zero_Margin_int sample_margin_def
        go_zero_time_def Let_def)
qed


text \<open>The checks of a document do not look at the spreads: a negative spread is accepted, and every raw quote
  narrower than it is then sold crossed.\<close>

theorem negative_spread_crosses:
  "Doc_Validate (sample_doc (- 8)) = [] \<and>
   (\<exists>q. ApplyForCustomer zone iter clock sample_raw sample_profile ''SPOT'' 7 [] (BuildPricingTable pd (sample_doc (- 8))) = Some q \<and>
      f_lt (cq_Ask q) (cq_Bid q))"
proof
  show "Doc_Validate (sample_doc (- 8)) = []"
    by (simp add: Doc_Validate_def sample_doc_def empty_doc_def hq_violations_def sample_margin_def)
  obtain q where "ApplyForCustomer zone iter clock sample_raw sample_profile ''SPOT'' 7 [] (BuildPricingTable pd (sample_doc (- 8))) = Some q"
      "cq_Bid q = f_of_int 1303" "cq_Ask q = f_of_int 1298"
    using sample_priced [of "- 8" "- 4" zone iter clock pd] by auto
  then show "\<exists>q. ApplyForCustomer zone iter clock sample_raw sample_profile ''SPOT'' 7 [] (BuildPricingTable pd (sample_doc (- 8))) = Some q \<and>
      f_lt (cq_Ask q) (cq_Bid q)" by auto
qed

section \<open>Interpolation\<close>

lemma DefaultTenorDays_inj: "map_of DefaultTenorDays a = Some d \<Longrightarrow> map_of DefaultTenorDays b = Some d \<Longrightarrow> a = b"
  by (auto simp: DefaultTenorDays_def split: if_splits)

lemma swap_items_mset: "mset xs = mset ys \<Longrightarrow> mset (swap_items pair xs) = mset (swap_items pair ys)"
  by (simp only: swap_items_def List.map_filter_def mset_map mset_filter)

lemma swap_items_mem:
  "i \<in> set (swap_items pair points) \<longleftrightarrow> ((pair, it_tenor i), it_m i) \<in> set points \<and> map_of DefaultTenorDays (it_tenor i) = Some (it_days i)"
  by (force simp: swap_items_def map_filter_def split: if_splits option.splits)

lemma neighbours_split:
  "\<forall>i \<in> set A. it_days i < off \<Longrightarrow> \<forall>i \<in> set B. off < it_days i \<Longrightarrow>
     neighbours off prev (A @ B) = (if A = [] then prev else Some (last A), if B = [] then None else Some (hd B))"
proof (induction A arbitrary: prev)
  case Nil
  then show ?case by (cases B) (simp_all add: Let_def)
next
  case (Cons i A)
  then show ?case by (auto simp: Let_def)
qed

lemma sorted_split:
  assumes "sorted (map it_days is)" "\<forall>i \<in> set is. it_days i \<noteq> off"
  shows "\<exists>A B. is = A @ B \<and> (\<forall>i \<in> set A. it_days i < off) \<and> (\<forall>i \<in> set B. off < it_days i)"
proof (intro exI conjI)
  let ?P = "\<lambda>i. it_days i < off"
  show "is = takeWhile ?P is @ dropWhile ?P is" by simp
  show "\<forall>i \<in> set (takeWhile ?P is). it_days i < off" by (auto dest: set_takeWhileD)
  show "\<forall>i \<in> set (dropWhile ?P is). off < it_days i"
  proof
    fix i assume i: "i \<in> set (dropWhile ?P is)"
    then obtain x xs where d: "dropWhile ?P is = x # xs" by (cases "dropWhile ?P is") auto
    have "sorted (map it_days (dropWhile ?P is))" using assms(1) by (metis dropWhile_eq_drop drop_map sorted_wrt_drop)
    moreover have "\<not> it_days x < off" using hd_dropWhile [of ?P "is"] d by simp
    moreover have "it_days x \<noteq> off" using assms(2) d by (metis list.set_intros(1) set_dropWhileD)
    ultimately show "off < it_days i" using i unfolding d by auto
  qed
qed

definition registered :: "PricingTable \<Rightarrow> string \<Rightarrow> string \<Rightarrow> int \<Rightarrow> Margin \<Rightarrow> bool" where
  "registered t pair tenor d m \<longleftrightarrow>
     map_of (pt_SwapPoint t) (pair, tenor) = Some m \<and> map_of DefaultTenorDays tenor = Some d"

lemma swap_items_registered:
  assumes "gomap (pt_SwapPoint t)" "mset (iter (pt_SwapPoint t)) = mset (pt_SwapPoint t)"
  shows "i \<in> set (insertion_sort it_days (swap_items pair (iter (pt_SwapPoint t)))) \<longleftrightarrow>
     registered t pair (it_tenor i) (it_days i) (it_m i)"
proof -
  have s: "set (iter (pt_SwapPoint t)) = set (pt_SwapPoint t)" using assms(2) by (rule mset_eq_setD)
  show ?thesis unfolding insertion_sort_stable set_sort swap_items_mem s registered_def gomap_set_iff [OF assms(1)] ..
qed

text \<open>What an interpolation must be, said about the registered swap points only.\<close>

definition interpolation_spec :: "PricingTable \<Rightarrow> string \<Rightarrow> int \<Rightarrow> swap_error + SwapInterpolation \<Rightarrow> bool" where
  "interpolation_spec t pair off res = (case res of
      Inl ErrNoSwap \<Rightarrow> \<forall>tenor d m. \<not> registered t pair tenor d m
    | Inl ErrOutOfRange \<Rightarrow> (\<forall>tenor d m. registered t pair tenor d m \<longrightarrow> d < off) \<or> (\<forall>tenor d m. registered t pair tenor d m \<longrightarrow> off < d)
    | Inr r \<Rightarrow> si_OffsetDays r = off \<and> (\<exists>a b. registered t pair (si_From r) (si_FromDays r) a \<and> registered t pair (si_To r) (si_ToDays r) b \<and>
        (if si_Exact r then si_FromDays r = off \<and> si_ToDays r = off \<and> si_Margin r = a
         else si_FromDays r < off \<and> off < si_ToDays r \<and>
           (\<forall>tenor d m. registered t pair tenor d m \<longrightarrow> d \<le> si_FromDays r \<or> si_ToDays r \<le> d) \<and>
           si_Weight r = f_div (f_of_int (off - si_FromDays r)) (f_of_int (si_ToDays r - si_FromDays r)) \<and>
           si_Margin r = lerp_margin a b (si_Weight r))))"

lemma sorted_last_hd:
  assumes "sorted (map it_days (A @ B))" "i \<in> set (A @ B)" "A \<noteq> []" "B \<noteq> []"
  shows "it_days i \<le> it_days (last A) \<or> it_days (hd B) \<le> it_days i"
proof (cases "i \<in> set A")
  case True
  have "sorted (map it_days A)" using assms(1) by (simp add: sorted_append)
  then have "sorted (map it_days (butlast A @ [last A]))" using assms(3) by simp
  then have "\<forall>x \<in> set (butlast A). it_days x \<le> it_days (last A)" by (simp only: map_append sorted_append) auto
  moreover have "set A = insert (last A) (set (butlast A))" using assms(3) by (metis append_butlast_last_id list.set(1,2) set_append Un_insert_right sup_bot_right)
  ultimately show ?thesis using True by auto
next
  case False
  then have "i \<in> set B" using assms(2) by simp
  moreover have "sorted (map it_days (hd B # tl B))" using assms(1,4) by (simp add: sorted_append)
  ultimately show ?thesis using assms(4) by (cases B) auto
qed

lemma find_None_days: "find (\<lambda>i. it_days i = off) is = None \<Longrightarrow> \<forall>i \<in> set is. it_days i \<noteq> off"
  by (simp add: find_None_iff)

lemma interpolate_sorted:
  assumes reg: "\<And>i. i \<in> set is \<longleftrightarrow> registered t pair (it_tenor i) (it_days i) (it_m i)"
    and srt: "sorted (map it_days is)" and ne: "is \<noteq> []"
  shows "interpolation_spec t pair off (case find (\<lambda>i. it_days i = off) is of
      Some i \<Rightarrow> Inr \<lparr>si_Margin = it_m i, si_From = it_tenor i, si_To = it_tenor i, si_FromDays = it_days i,
          si_ToDays = it_days i, si_OffsetDays = off, si_Weight = f_zero, si_Exact = True\<rparr>
    | None \<Rightarrow> (case neighbours off None is of
        (Some p, Some n) \<Rightarrow>
          (let w = f_div (f_of_int (off - it_days p)) (f_of_int (it_days n - it_days p))
           in Inr \<lparr>si_Margin = lerp_margin (it_m p) (it_m n) w, si_From = it_tenor p, si_To = it_tenor n,
                si_FromDays = it_days p, si_ToDays = it_days n, si_OffsetDays = off, si_Weight = w, si_Exact = False\<rparr>)
      | _ \<Rightarrow> Inl ErrOutOfRange))"
proof (cases "find (\<lambda>i. it_days i = off) is")
  case (Some i)
  then have "i \<in> set is" "it_days i = off" by (auto simp: find_Some_iff)
  then show ?thesis using Some reg by (auto simp: interpolation_spec_def)
next
  case None
  obtain A B where ab: "is = A @ B" "\<forall>i \<in> set A. it_days i < off" "\<forall>i \<in> set B. off < it_days i"
    using sorted_split [OF srt find_None_days [OF None]] by blast
  have nb: "neighbours off None is = (if A = [] then None else Some (last A), if B = [] then None else Some (hd B))"
    using neighbours_split [OF ab(2,3)] ab(1) by simp
  have all: "\<exists>i \<in> set (A @ B). it_tenor i = tenor \<and> it_days i = d" if "registered t pair tenor d m" for tenor d m
    using reg [of "\<lparr>it_tenor = tenor, it_days = d, it_m = m\<rparr>"] that ab(1)
    by (intro bexI [of _ "\<lparr>it_tenor = tenor, it_days = d, it_m = m\<rparr>"]) simp_all
  show ?thesis
  proof (cases "A = [] \<or> B = []")
    case True
    then have "(\<forall>tenor d m. registered t pair tenor d m \<longrightarrow> d < off) \<or> (\<forall>tenor d m. registered t pair tenor d m \<longrightarrow> off < d)"
      using all ab(2,3) by fastforce
    then show ?thesis using True None nb by (auto simp: interpolation_spec_def)
  next
    case False
    have "last A \<in> set is" "hd B \<in> set is" using False ab(1) by simp_all
    then have r: "registered t pair (it_tenor (last A)) (it_days (last A)) (it_m (last A))"
        "registered t pair (it_tenor (hd B)) (it_days (hd B)) (it_m (hd B))" "it_days (last A) < off" "off < it_days (hd B)"
      using reg ab(2,3) False by simp_all
    have "\<forall>tenor d m. registered t pair tenor d m \<longrightarrow> d \<le> it_days (last A) \<or> it_days (hd B) \<le> d"
      using all sorted_last_hd [OF srt [unfolded ab(1)]] False by metis
    with r show ?thesis using False None nb by (auto simp: interpolation_spec_def Let_def)
  qed
qed

lemma interpolate_spec:
  assumes "gomap (pt_SwapPoint t)" "mset (iter (pt_SwapPoint t)) = mset (pt_SwapPoint t)"
  shows "interpolation_spec t pair off (InterpolateSwap iter pair off t)"
proof -
  let ?is = "insertion_sort it_days (swap_items pair (iter (pt_SwapPoint t)))"
  have reg: "\<And>i. i \<in> set ?is \<longleftrightarrow> registered t pair (it_tenor i) (it_days i) (it_m i)"
    by (rule swap_items_registered [where iter = iter and t = t, OF assms])
  show ?thesis
  proof (cases "swap_items pair (iter (pt_SwapPoint t)) = []")
    case True
    then have "\<not> registered t pair tenor d m" for tenor d m
      using reg [of "\<lparr>it_tenor = tenor, it_days = d, it_m = m\<rparr>"] by (simp add: insertion_sort_def)
    then show ?thesis using True by (simp add: InterpolateSwap_def interpolation_spec_def)
  next
    case False
    then have "?is \<noteq> []" by (metis insertion_sort_stable set_empty set_sort)
    moreover have "sorted (map it_days ?is)" by (simp add: insertion_sort_stable)
    ultimately show ?thesis using interpolate_sorted [OF reg, of off] False by (simp add: InterpolateSwap_def Let_def)
  qed
qed

text \<open>C35: The interpolation of swap points depends on the registered points alone, not on the order in which Go
  iterates over the map: it is refused exactly when no point with a standard tenor is registered for the pair or when
  all of them lie on one side of the offset; an offset with a registered tenor gives that point unchanged, and any other
  one is interpolated between its two nearest neighbours with the weight of the days.\<close>

theorem interpolation_determined:
  assumes "gomap (pt_SwapPoint t)" "mset (iter (pt_SwapPoint t)) = mset (pt_SwapPoint t)"
  shows "interpolation_spec t pair off (InterpolateSwap iter pair off t)"
  by (rule interpolate_spec [where iter = iter and t = t, OF assms])

definition sample_swaps :: PricingTable where
  "sample_swaps = NewStore\<lparr>pt_SwapPoint := [((''USD/KRW'', ''1W''), sample_margin 7 0), ((''USD/KRW'', ''SPOT''), sample_margin 0 0)]\<rparr>"

theorem interpolation_determined_witness:
  "interpolation_spec sample_swaps ''USD/KRW'' 5 (InterpolateSwap rev ''USD/KRW'' 5 sample_swaps)"
  by (rule interpolation_determined) (simp_all add: sample_swaps_def gomap_def NewStore_def)

section \<open>A week after spot\<close>

lemma week_has_five: "count_loop WeekendCalendar (d + 7) d 0 = 5"
proof -
  have u: "count_loop WeekendCalendar (d + 7) (d + k) n =
      (if k < 7 then count_loop WeekendCalendar (d + 7) (d + (k + 1)) (if IsBusinessDay WeekendCalendar (d + (k + 1)) then n + 1 else n)
       else n)" for k n
    by (subst count_loop.simps) (simp add: add.assoc)
  have "count_loop WeekendCalendar (d + 7) (d + 0) 0 = 5"
    using Weekday_cases [of d]
    by (elim insertE) (simp_all only: u [of 0] u [of 1] u [of 2] u [of 3] u [of 4] u [of 5] u [of 6] u [of 7]
        u [of "0 + 1"] one_add_one, simp_all add: u weekend_def Weekday_add)
  then show ?thesis by simp
qed

lemma week_offset: "BusinessDaysBetweenCal (utc_day d) (utc_day (d + 7)) (Some WeekendCalendar) = 5"
  using between_forward [of d "d + 7" "Some WeekendCalendar"] week_has_five [of d] count_loop_card [of WeekendCalendar "d + 7" d 0]
  by (simp add: Cal_def)

lemma no_tenor_of_five: "\<not> registered t pair tenor 5 m"
  by (auto simp: registered_def DefaultTenorDays_def split: if_splits)

text \<open>The tenors of DefaultTenorDays are calendar days while the offset is counted in business days: without
  holidays a value date one week after the spot date has the offset 5, which no tenor has, so such a quote never gets
  the one-week points that are registered for it but an interpolation, and no tenor.\<close>

theorem one_week_interpolated:
  assumes cal: "pt_Calendar t = None" and map: "gomap (pt_SwapPoint t)" "mset (iterSwap (pt_SwapPoint t)) = mset (pt_SwapPoint t)"
    and now: "gt_ns now \<noteq> go_zero_time" and spot: "SpotDateCal now spotDays (Some WeekendCalendar) = Some spot"
    and res: "ApplyForValueDate zone iter iterSwap clock raw profile (utc_day (gt_day spot + 7)) now spotDays cid t = Some (Inr (q, interp))"
  shows "si_OffsetDays interp = 5 \<and> \<not> si_Exact interp \<and> cq_Tenor q = []"
proof -
  obtain d where d: "spot = utc_day d" using spot unfolding SpotDateCal_def by (auto simp only: map_option_eq_Some)
  have "gt_day spot = d" by (simp add: d utc_day_def)
  then have off: "BusinessDaysBetweenCal spot (utc_day (gt_day spot + 7)) (Some (Cal (pt_Calendar t))) = 5"
    using week_offset [of d] d cal by (simp add: Cal_def)
  have i: "InterpolateSwap iterSwap (qt_Pair raw) 5 t = Inr interp" and q: "cq_Tenor q = (if si_Exact interp then si_From interp else [])"
    using res now spot off cal unfolding ApplyForValueDate_def Let_def
    by (auto simp: Cal_def priced_def Let_def split: sum.splits option.splits)
  have "interpolation_spec t (qt_Pair raw) 5 (Inr interp)" using interpolate_spec [where iter = iterSwap and t = t, OF map, of "qt_Pair raw" 5] i by simp
  then show ?thesis using no_tenor_of_five q by (auto simp: interpolation_spec_def)
qed

lemma sample_spot: "SpotDateCal (utc_day 20602) 0 (Some WeekendCalendar) = Some (utc_day 20602)"
  by (simp add: SpotDateCal_def AddBusinessDaysCal_def startOfDay_def utc_day_def)

lemma sample_week:
  "\<exists>q interp. ApplyForValueDate (\<lambda>_. None) (\<lambda>m. m) rev (utc_day 0) sample_raw sample_profile (utc_day 20609) (utc_day 20602) 0 [] sample_swaps =
     Some (Inr (q, interp))"
proof -
  have s: "pt_Calendar sample_swaps = None" "pt_TimeWindows sample_swaps = []" by (simp_all add: sample_swaps_def NewStore_def)
  have n: "gt_ns (utc_day 20602) \<noteq> go_zero_time" by (simp add: utc_day_def go_zero_time_def)
  have off: "BusinessDaysBetweenCal (utc_day 20602) (utc_day 20609) (Some WeekendCalendar) = 5" using week_offset [of 20602] by simp
  have "\<exists>r. InterpolateSwap rev ''USD/KRW'' 5 sample_swaps = Inr r"
    by (simp add: InterpolateSwap_def sample_swaps_def NewStore_def swap_items_def List.map_filter_simps DefaultTenorDays_def insertion_sort_def Let_def)
  then show ?thesis using n sample_spot off
    by (auto simp: ApplyForValueDate_def s Cal_def Let_def ActiveWindows_def sample_raw_def)
qed

theorem one_week_interpolated_witness:
  "\<exists>q interp. ApplyForValueDate (\<lambda>_. None) (\<lambda>m. m) rev (utc_day 0) sample_raw sample_profile (utc_day 20609) (utc_day 20602) 0 [] sample_swaps =
     Some (Inr (q, interp)) \<and> \<not> si_Exact interp"
proof -
  obtain q interp where r: "ApplyForValueDate (\<lambda>_. None) (\<lambda>m. m) rev (utc_day 0) sample_raw sample_profile (utc_day (gt_day (utc_day 20602) + 7))
      (utc_day 20602) 0 [] sample_swaps = Some (Inr (q, interp))"
    using sample_week by (auto simp: utc_day_def [of 20602])
  have "\<not> si_Exact interp"
    using one_week_interpolated [OF _ _ _ _ sample_spot r]
    by (simp add: sample_swaps_def NewStore_def gomap_def utc_day_def go_zero_time_def)
  with r show ?thesis by (auto simp: utc_day_def [of 20602])
qed

section \<open>Customer rules\<close>

text \<open>A customer gets the rule of the highest priority among the rules that name the customer, cover the pair
  and are in force, and among equal priorities the one that comes first in the document; without a matching rule, or
  without a customer, there is none.\<close>

theorem customer_rule_priority:
  "matchCustomerRule cid pair ws (BuildPricingTable pd doc) =
     (if cid = [] then None
      else find (\<lambda>r. rule_matches cid pair ws r \<and>
          (\<forall>r' \<in> set (map customer_rule (doc_CustomerMargin doc)). rule_matches cid pair ws r' \<longrightarrow> cr_Priority r' \<le> cr_Priority r))
        (map customer_rule (doc_CustomerMargin doc)))"
  by (simp add: matchCustomerRule_def BuildPricingTable_def insertion_sort_stable find_sort_key)

definition sample_entry :: "string \<Rightarrow> int \<Rightarrow> int \<Rightarrow> CustomerEntryDoc" where
  "sample_entry cid prio delta = \<lparr>ce_CustomerID = cid, ce_Pair = [], ce_BidDelta = f_of_int delta, ce_AskDelta = f_of_int delta,
     ce_SkewDelta = f_of_int 0, ce_SpreadDelta = f_of_int 0, ce_Mode = [], ce_Priority = prio, ce_Window = []\<rparr>"

theorem customer_rule_priority_witness:
  "matchCustomerRule ''C1'' ''USD/KRW'' [] (BuildPricingTable (\<lambda>_. None)
      (empty_doc\<lparr>doc_CustomerMargin := [sample_entry ''C1'' 1 5, sample_entry ''C2'' 9 6, sample_entry ''C1'' 3 7]\<rparr>)) =
    Some (customer_rule (sample_entry ''C1'' 3 7))"
  unfolding customer_rule_priority
  by (simp add: empty_doc_def sample_entry_def customer_rule_def rule_matches_def normalizeName_def TrimSpace_def ToLower_def)

end
