(* ===== verification/Price_Best.thy ===== *)
theory Price_Best
  imports Price_Ticks "HOL-Library.List_Lexorder" "HOL-Library.Char_ord" "HOL-Library.Multiset"
begin

text \<open>
  The best quote over several markets, src/internal/price/best.go: the latest quote per symbol and
  source, the best bid and ask over the sources that are not stale, the fallback to the newest source
  when they cross, and the filter of unchanged quotes.  Go iterates over a map in an unspecified order:
  \<open>iter\<close> is that order, of which only that it visits every entry once is assumed.
\<close>

section \<open>State\<close>

record sourceQuote =
  sq_bid :: float64
  sq_ask :: float64
  sq_bidSize :: float64
  sq_askSize :: float64
  sq_ts :: int

record DedupOptions =
  do_Enabled :: bool
  do_TickSizeMultiplier :: float64
  do_TickSizeOverride :: "(string \<times> float64) list"

record BestConsumer =
  bc_maxStaleness :: int
  bc_cache :: "(string \<times> (string \<times> sourceQuote) list) list"
  bc_rejectedQuotes :: u64
  bc_dedup :: DedupOptions
  bc_lastEmitted :: "(string \<times> (float64 \<times> float64)) list"
  bc_droppedSame :: u64
  bc_droppedBelowTick :: u64
  bc_emittedTotal :: u64
  bc_lastTrade :: "(string \<times> (float64 \<times> float64)) list"

definition NewBestConsumer :: "int \<Rightarrow> DedupOptions \<Rightarrow> BestConsumer" where
  "NewBestConsumer maxStaleness d =
     \<lparr>bc_maxStaleness = (if maxStaleness = 0 then 30000000000 else maxStaleness), bc_cache = [], bc_rejectedQuotes = 0,
      bc_dedup = (if f_lt (do_TickSizeMultiplier d) f_zero then d\<lparr>do_TickSizeMultiplier := f_zero\<rparr> else d),
      bc_lastEmitted = [], bc_droppedSame = 0, bc_droppedBelowTick = 0, bc_emittedTotal = 0, bc_lastTrade = []\<rparr>"

section \<open>The filter of unchanged quotes\<close>

text \<open>Byte by byte as in the code: the last three characters in upper case.\<close>

definition symbolQuoteTickSize :: "string \<Rightarrow> float64" where
  "symbolQuoteTickSize symbol =
     (if length symbol < 6 then f_zero
      else (let q = map upper_char (drop (length symbol - 3) symbol)
            in if q \<in> {''JPY'', ''KRW'', ''CNY'', ''TWD'', ''IDR'', ''VND''} then f_lit 1 2 else f_lit 1 4))"

definition tickSizeFor :: "DedupOptions \<Rightarrow> string \<Rightarrow> float64" where
  "tickSizeFor d symbol =
     (case map_of (do_TickSizeOverride d) symbol of
        Some v \<Rightarrow> if f_lt f_zero v then v else symbolQuoteTickSize symbol
      | None \<Rightarrow> symbolQuoteTickSize symbol)"

definition absDiff :: "float64 \<Rightarrow> float64 \<Rightarrow> float64" where
  "absDiff a b = (if f_lt b a then f_sub a b else f_sub b a)"

text \<open>The results skip and same price.\<close>

definition shouldDedupLocked :: "string \<Rightarrow> float64 \<Rightarrow> float64 \<Rightarrow> BestConsumer \<Rightarrow> bool \<times> bool" where
  "shouldDedupLocked symbol bid ask b =
     (if \<not> do_Enabled (bc_dedup b) then (False, False)
      else (case map_of (bc_lastEmitted b) symbol of
          None \<Rightarrow> (False, False)
        | Some (pbid, pask) \<Rightarrow>
            if f_eq pbid bid \<and> f_eq pask ask then (True, True)
            else if f_lt f_zero (do_TickSizeMultiplier (bc_dedup b)) then
              (let ts = tickSizeFor (bc_dedup b) symbol
               in if f_lt f_zero ts then
                    (let threshold = f_mul ts (do_TickSizeMultiplier (bc_dedup b))
                     in if f_lt (absDiff pbid bid) threshold \<and> f_lt (absDiff pask ask) threshold
                        then (True, False) else (False, False))
                  else (False, False))
            else (False, False)))"

section \<open>Recomputation\<close>

record best_acc =
  ba_bid :: float64
  ba_ask :: float64
  ba_bidSize :: float64
  ba_askSize :: float64
  ba_first :: bool
  ba_count :: nat
  ba_newest :: "sourceQuote option"

definition stale :: "int \<Rightarrow> int \<Rightarrow> sourceQuote \<Rightarrow> bool" where
  "stale maxStaleness now sq \<longleftrightarrow> maxStaleness \<ge> 0 \<and> now - sq_ts sq > maxStaleness"

definition best_step :: "int \<Rightarrow> int \<Rightarrow> sourceQuote \<Rightarrow> best_acc \<Rightarrow> best_acc" where
  "best_step maxStaleness now sq a =
     (if stale maxStaleness now sq then a
      else (let a1 = (if ba_first a
                 then a\<lparr>ba_bid := sq_bid sq, ba_ask := sq_ask sq, ba_bidSize := sq_bidSize sq,
                        ba_askSize := sq_askSize sq, ba_first := False\<rparr>
                 else (let a' = (if f_lt (ba_bid a) (sq_bid sq)
                          then a\<lparr>ba_bid := sq_bid sq, ba_bidSize := sq_bidSize sq\<rparr> else a)
                       in if f_lt (sq_ask sq) (ba_ask a')
                          then a'\<lparr>ba_ask := sq_ask sq, ba_askSize := sq_askSize sq\<rparr> else a'))
            in a1\<lparr>ba_count := ba_count a1 + 1,
                  ba_newest := (case ba_newest a1 of
                      None \<Rightarrow> Some sq
                    | Some n \<Rightarrow> if sq_ts sq > sq_ts n then Some sq else Some n)\<rparr>))"

definition best_init :: best_acc where
  "best_init = \<lparr>ba_bid = f_zero, ba_ask = f_zero, ba_bidSize = f_zero, ba_askSize = f_zero, ba_first = True,
     ba_count = 0, ba_newest = None\<rparr>"

text \<open>The results bid, ask, their sizes, and the number of sources, negated after a fallback.\<close>

definition recomputeLocked :: "int \<Rightarrow> int \<Rightarrow> sourceQuote list \<Rightarrow> float64 \<times> float64 \<times> float64 \<times> float64 \<times> int" where
  "recomputeLocked maxStaleness now sqs =
     (let a = fold (best_step maxStaleness now) sqs best_init
      in case ba_newest a of
           Some n \<Rightarrow>
             if ba_count a > 1 \<and> f_lt (ba_ask a) (ba_bid a)
             then (sq_bid n, sq_ask n, sq_bidSize n, sq_askSize n, - int (ba_count a))
             else (ba_bid a, ba_ask a, ba_bidSize a, ba_askSize a, int (ba_count a))
         | None \<Rightarrow> (ba_bid a, ba_ask a, ba_bidSize a, ba_askSize a, int (ba_count a)))"

section \<open>A tick\<close>

abbreviation (input) SourceBest :: string where "SourceBest \<equiv> ''BEST''"

definition best_envelope :: "int \<Rightarrow> Tick \<Rightarrow> float64 \<times> float64 \<times> float64 \<times> float64 \<Rightarrow> float64 \<times> float64 \<Rightarrow> JSONEnvelope" where
  "best_envelope now t = (\<lambda>(bid, ask, bidSize, askSize) (px, qty).
     \<lparr>je_Sym = tk_Symbol t, je_Bid = bid, je_Ask = ask, je_TS = now, je_Src = SourceBest,
      je_Seq = ucast (tk_SeqNum t), je_Last = px, je_LastQty = qty, je_BidSize = bidSize, je_AskSize = askSize\<rparr>)"

definition best_tick :: "int \<Rightarrow> Tick \<Rightarrow> bytes \<Rightarrow> Tick" where
  "best_tick now t body =
     \<lparr>tk_MarketID = tk_MarketID t, tk_Symbol = tk_Symbol t, tk_SeqNum = tk_SeqNum t, tk_Mask = tk_Mask t, tk_Type = tk_Type t,
      tk_Flag = tk_Flag t, tk_Body = body, tk_Received = now, tk_Source = SourceBest\<rparr>"

text \<open>The locked part: store the quote and the last trade, recompute.\<close>

definition best_store :: "int \<Rightarrow> Tick \<Rightarrow> JSONEnvelope \<Rightarrow> BestConsumer \<Rightarrow> BestConsumer" where
  "best_store now t env b =
     (let bySource = (case map_of (bc_cache b) (tk_Symbol t) of None \<Rightarrow> [] | Some m \<Rightarrow> m);
          sq = \<lparr>sq_bid = je_Bid env, sq_ask = je_Ask env, sq_bidSize = je_BidSize env, sq_askSize = je_AskSize env, sq_ts = now\<rparr>
      in b\<lparr>bc_cache := AList.update (tk_Symbol t) (AList.update (tk_Source t) sq bySource) (bc_cache b),
           bc_lastTrade := (if f_lt f_zero (je_Last env)
             then AList.update (tk_Symbol t) (je_Last env, je_LastQty env) (bc_lastTrade b) else bc_lastTrade b)\<rparr>)"

text \<open>The four readings of the clock, in the order of the code: the one stored with the quote, that of
  the recomputation, and the two of the emission.  The result holds the envelope that is encoded and the tick handed on.\<close>

definition Best_OnTick ::
  "(bytes \<Rightarrow> JSONEnvelope option) \<Rightarrow> (JSONEnvelope \<Rightarrow> bytes option) \<Rightarrow>
     ((string \<times> sourceQuote) list \<Rightarrow> (string \<times> sourceQuote) list) \<Rightarrow> int \<times> int \<times> int \<times> int \<Rightarrow>
     Tick \<Rightarrow> BestConsumer \<Rightarrow> (JSONEnvelope \<times> Tick) option \<times> BestConsumer" where
  "Best_OnTick unmarshal marshal iter = (\<lambda>(now, now', nowTS, nowRecv) t b.
     (if tk_Symbol t = [] then (None, b)
      else if tk_Source t = [] then (None, b)
      else if tk_Source t = SourceBest then (None, b)
      else (case DecodeJSONEnvelope unmarshal (tk_Body t) of
          Inl _ \<Rightarrow> (None, b\<lparr>bc_rejectedQuotes := bc_rejectedQuotes b + 1\<rparr>)
        | Inr env \<Rightarrow>
            (let b1 = best_store now t env b;
                 lt = (case map_of (bc_lastTrade b1) (tk_Symbol t) of None \<Rightarrow> (f_zero, f_zero) | Some v \<Rightarrow> v);
                 bySource = (case map_of (bc_cache b1) (tk_Symbol t) of None \<Rightarrow> [] | Some m \<Rightarrow> m);
                 (bid, ask, bidSize, askSize, srcCount) =
                   recomputeLocked (bc_maxStaleness b1) now' (map snd (iter bySource));
                 (skip, same) = shouldDedupLocked (tk_Symbol t) bid ask b1;
                 b2 = (if skip then b1
                       else b1\<lparr>bc_lastEmitted := AList.update (tk_Symbol t) (bid, ask) (bc_lastEmitted b1)\<rparr>)
             in if skip then
                  (None, if same then b2\<lparr>bc_droppedSame := bc_droppedSame b2 + 1\<rparr>
                         else b2\<lparr>bc_droppedBelowTick := bc_droppedBelowTick b2 + 1\<rparr>)
                else if srcCount = 0 then (None, b2)
                else (let best = best_envelope nowTS t (bid, ask, bidSize, askSize) lt
                      in case marshal best of
                           None \<Rightarrow> (None, b2)
                         | Some body \<Rightarrow>
                             (Some (best, best_tick nowRecv t body), b2\<lparr>bc_emittedTotal := bc_emittedTotal b2 + 1\<rparr>))))))"

section \<open>Statistics\<close>

record BestSymbolStat =
  bs_ActiveSources :: int
  bs_Sources :: "string list"
  bs_SourceQuotes :: "(string \<times> (float64 \<times> float64 \<times> int)) list"
  bs_BestBid :: float64
  bs_BestAsk :: float64
  bs_CrossedFallbck :: bool

text \<open>The entry of one symbol: \<open>now\<close> is the reading of Stats, \<open>now'\<close> that of the recomputation.\<close>

definition best_symbol_stat :: "int \<Rightarrow> int \<Rightarrow> int \<Rightarrow> (string \<times> sourceQuote) list \<Rightarrow> BestSymbolStat" where
  "best_symbol_stat maxStaleness now now' bySource =
     (let (bid, ask, _, _, n) = recomputeLocked maxStaleness now' (map snd bySource);
          active = filter (\<lambda>(src, sq). \<not> stale maxStaleness now sq) bySource
      in \<lparr>bs_ActiveSources = (if n < 0 then - n else n), bs_Sources = sort (map fst active),
          bs_SourceQuotes = map (\<lambda>(src, sq). (src, sq_bid sq, sq_ask sq, sq_ts sq)) active,
          bs_BestBid = bid, bs_BestAsk = ask, bs_CrossedFallbck = (n < 0)\<rparr>)"

definition Best_Stats :: "int \<Rightarrow> (string \<Rightarrow> int) \<Rightarrow> BestConsumer \<Rightarrow> (string \<times> BestSymbolStat) list" where
  "Best_Stats now now' b =
     map (\<lambda>(s, bySource). (s, best_symbol_stat (bc_maxStaleness b) now (now' s) bySource)) (bc_cache b)"

section \<open>The best quote\<close>

text \<open>A quote that the decoder accepts, and the sources that count at a time.\<close>

definition sq_ok :: "sourceQuote \<Rightarrow> bool" where
  "sq_ok q \<longleftrightarrow> f_lt f_zero (sq_bid q) \<and> f_le (sq_bid q) (sq_ask q)"

definition active :: "int \<Rightarrow> int \<Rightarrow> sourceQuote list \<Rightarrow> sourceQuote list" where
  "active maxStaleness now sqs = filter (\<lambda>q. \<not> stale maxStaleness now q) sqs"

text \<open>What the loop knows after the quotes \<open>qs\<close> that counted.\<close>

definition best_of :: "sourceQuote list \<Rightarrow> best_acc \<Rightarrow> bool" where
  "best_of qs a \<longleftrightarrow> ba_count a = length qs \<and> (ba_first a \<longleftrightarrow> qs = []) \<and>
     (if qs = [] then ba_newest a = None
      else (\<exists>n \<in> set qs. ba_newest a = Some n \<and> (\<forall>q \<in> set qs. sq_ts q \<le> sq_ts n)) \<and>
        (\<exists>q \<in> set qs. ba_bid a = sq_bid q \<and> ba_bidSize a = sq_bidSize q) \<and> (\<forall>q \<in> set qs. f_le (sq_bid q) (ba_bid a)) \<and>
        (\<exists>q \<in> set qs. ba_ask a = sq_ask q \<and> ba_askSize a = sq_askSize q) \<and> (\<forall>q \<in> set qs. f_le (ba_ask a) (sq_ask q)))"

lemma sq_ok_num: "sq_ok q \<Longrightarrow> \<not> f_isnan (sq_bid q) \<and> \<not> f_isnan (sq_ask q)"
  by (auto simp: sq_ok_def f_le_def)

lemma best_of_first:
  assumes "best_of [] a" "\<not> stale m now q" "sq_ok q"
  shows "best_of [q] (best_step m now q a)"
  using assms sq_ok_num [OF assms(3)] by (simp add: best_of_def best_step_def Let_def f_le_refl)

lemma best_of_next:
  assumes a: "best_of qs a" and ne: "qs \<noteq> []" and fresh: "\<not> stale m now q" and ok: "\<forall>x \<in> set (qs @ [q]). sq_ok x"
  shows "best_of (qs @ [q]) (best_step m now q a)"
proof -
  have num: "\<not> f_isnan (sq_bid x) \<and> \<not> f_isnan (sq_ask x)" if "x \<in> set (qs @ [q])" for x
    using ok that sq_ok_num by blast
  obtain n qb qa where w: "n \<in> set qs" "ba_newest a = Some n" "\<forall>x \<in> set qs. sq_ts x \<le> sq_ts n"
      "qb \<in> set qs" "ba_bid a = sq_bid qb" "ba_bidSize a = sq_bidSize qb" "\<forall>x \<in> set qs. f_le (sq_bid x) (ba_bid a)"
      "qa \<in> set qs" "ba_ask a = sq_ask qa" "ba_askSize a = sq_askSize qa" "\<forall>x \<in> set qs. f_le (ba_ask a) (sq_ask x)"
      "\<not> ba_first a" "ba_count a = length qs"
    using a ne by (auto simp: best_of_def)
  define b where "b = best_step m now q a"
  have b: "ba_count b = length qs + 1" "\<not> ba_first b"
      "ba_newest b = Some (if sq_ts q > sq_ts n then q else n)"
      "ba_bid b = (if f_lt (ba_bid a) (sq_bid q) then sq_bid q else ba_bid a)"
      "ba_bidSize b = (if f_lt (ba_bid a) (sq_bid q) then sq_bidSize q else ba_bidSize a)"
      "ba_ask b = (if f_lt (sq_ask q) (ba_ask a) then sq_ask q else ba_ask a)"
      "ba_askSize b = (if f_lt (sq_ask q) (ba_ask a) then sq_askSize q else ba_askSize a)"
    using fresh w(2,12,13) by (auto simp: b_def best_step_def Let_def)
  have newest: "\<exists>n' \<in> set (qs @ [q]). ba_newest b = Some n' \<and> (\<forall>x \<in> set (qs @ [q]). sq_ts x \<le> sq_ts n')"
    using w(1,3) by (auto simp: b(3) intro: order_trans less_imp_le)
  have bid: "\<forall>x \<in> set (qs @ [q]). f_le (sq_bid x) (ba_bid b)"
    using w(4,5,7) num f_lt_not_le [of "ba_bid a" "sq_bid q"]
    by (auto simp: b(4) f_le_refl intro: f_le_trans f_lt_imp_le)
  have ask: "\<forall>x \<in> set (qs @ [q]). f_le (ba_ask b) (sq_ask x)"
    using w(8,9,11) num f_lt_not_le [of "sq_ask q" "ba_ask a"]
    by (auto simp: b(6) f_le_refl intro: f_le_trans f_lt_imp_le)
  have "\<exists>x \<in> set (qs @ [q]). ba_bid b = sq_bid x \<and> ba_bidSize b = sq_bidSize x"
       "\<exists>x \<in> set (qs @ [q]). ba_ask b = sq_ask x \<and> ba_askSize b = sq_askSize x"
    using w(4,5,6,8,9,10) by (auto simp: b(4-7))
  then show ?thesis using newest bid ask b(1,2) by (simp add: best_of_def b_def [symmetric])
qed

lemma best_of_fold:
  "best_of qs a \<Longrightarrow> \<forall>x \<in> set (qs @ sqs). sq_ok x \<Longrightarrow>
     best_of (qs @ active m now sqs) (fold (best_step m now) sqs a)"
proof (induction sqs arbitrary: qs a)
  case Nil
  then show ?case by (simp add: active_def)
next
  case (Cons q sqs)
  show ?case
  proof (cases "stale m now q")
    case True
    then show ?thesis using Cons.IH [of qs a] Cons.prems by (simp add: active_def best_step_def)
  next
    case False
    have "best_of (qs @ [q]) (best_step m now q a)"
      using best_of_first [of a m now q] best_of_next [of qs a m now q] Cons.prems False
      by (cases "qs = []") auto
    then show ?thesis using Cons.IH [of "qs @ [q]" "best_step m now q a"] Cons.prems False
      by (simp add: active_def)
  qed
qed

lemma best_of_init: "best_of [] best_init"
  by (simp add: best_of_def best_init_def)

text \<open>The result of a recomputation as a specification over the sources that count.\<close>

definition best_spec :: "sourceQuote list \<Rightarrow> float64 \<times> float64 \<times> float64 \<times> float64 \<times> int \<Rightarrow> bool" where
  "best_spec qs = (\<lambda>(bid, ask, bidSize, askSize, n).
     \<bar>n\<bar> = int (length qs) \<and> (n < 0 \<longleftrightarrow> (\<exists>x \<in> set qs. \<exists>y \<in> set qs. f_lt (sq_ask y) (sq_bid x))) \<and>
     (0 < n \<longrightarrow>
        (\<exists>q \<in> set qs. bid = sq_bid q \<and> bidSize = sq_bidSize q) \<and> (\<forall>q \<in> set qs. f_le (sq_bid q) bid) \<and>
        (\<exists>q \<in> set qs. ask = sq_ask q \<and> askSize = sq_askSize q) \<and> (\<forall>q \<in> set qs. f_le ask (sq_ask q))) \<and>
     (n < 0 \<longrightarrow> (\<exists>q \<in> set qs. bid = sq_bid q \<and> ask = sq_ask q \<and> bidSize = sq_bidSize q \<and> askSize = sq_askSize q \<and>
        (\<forall>x \<in> set qs. sq_ts x \<le> sq_ts q))))"

lemma best_crossed_iff:
  assumes "best_of qs a" "qs \<noteq> []" "\<forall>x \<in> set qs. sq_ok x"
  shows "f_lt (ba_ask a) (ba_bid a) \<longleftrightarrow> (\<exists>x \<in> set qs. \<exists>y \<in> set qs. f_lt (sq_ask y) (sq_bid x))"
proof
  show "f_lt (ba_ask a) (ba_bid a) \<Longrightarrow> \<exists>x \<in> set qs. \<exists>y \<in> set qs. f_lt (sq_ask y) (sq_bid x)"
    using assms(1,2) unfolding best_of_def by metis
  assume "\<exists>x \<in> set qs. \<exists>y \<in> set qs. f_lt (sq_ask y) (sq_bid x)"
  then obtain x y where "x \<in> set qs" "y \<in> set qs" "f_lt (sq_ask y) (sq_bid x)" by blast
  moreover have "f_le (ba_ask a) (sq_ask y)" "f_le (sq_bid x) (ba_bid a)"
    using assms(1,2) calculation(1,2) by (auto simp: best_of_def)
  ultimately show "f_lt (ba_ask a) (ba_bid a)" by (auto simp: f_le_def f_lt_def)
qed

lemma single_uncrossed: "best_of [q] a \<Longrightarrow> sq_ok q \<Longrightarrow> \<not> f_lt (ba_ask a) (ba_bid a)"
  by (auto simp: best_of_def sq_ok_def f_le_def f_lt_def)

lemma recompute_spec:
  assumes ok: "\<forall>q \<in> set sqs. sq_ok q"
  shows "best_spec (active m now sqs) (recomputeLocked m now sqs)"
proof -
  define qs where "qs = active m now sqs"
  define a where "a = fold (best_step m now) sqs best_init"
  have a: "best_of qs a" using best_of_fold [OF best_of_init, of sqs m now] ok by (simp add: a_def qs_def)
  have oks: "\<forall>x \<in> set qs. sq_ok x" using ok by (simp add: qs_def active_def)
  show ?thesis
  proof (cases "qs = []")
    case True
    then show ?thesis using a
      by (simp add: recomputeLocked_def a_def [symmetric] qs_def [symmetric] best_of_def best_spec_def)
  next
    case False
    then obtain n where n: "ba_newest a = Some n" "n \<in> set qs" "\<forall>x \<in> set qs. sq_ts x \<le> sq_ts n" "ba_count a = length qs"
      using a by (auto simp: best_of_def)
    have multi: "f_lt (ba_ask a) (ba_bid a) \<Longrightarrow> 1 < length qs"
      using single_uncrossed [of "hd qs" a] a oks False by (cases qs; cases "tl qs") auto
    show ?thesis
    proof (cases "f_lt (ba_ask a) (ba_bid a)")
      case True
      then show ?thesis using n multi best_crossed_iff [OF a False oks] False
        by (auto simp: recomputeLocked_def a_def [symmetric] qs_def [symmetric] best_spec_def)
    next
      case no: False
      have "recomputeLocked m now sqs = (ba_bid a, ba_ask a, ba_bidSize a, ba_askSize a, int (length qs))"
        using n no by (simp add: recomputeLocked_def a_def [symmetric])
      then show ?thesis using no best_crossed_iff [OF a False oks] a False
        by (simp add: qs_def [symmetric] best_spec_def best_of_def)
    qed
  qed
qed

lemma best_spec_uncrossed:
  assumes "best_spec qs (bid, ask, bs, as, n)" "n \<noteq> 0" "\<forall>q \<in> set qs. sq_ok q"
  shows "f_lt f_zero bid \<and> f_le bid ask"
proof (cases "n < 0")
  case True
  then show ?thesis using assms by (auto simp: best_spec_def sq_ok_def)
next
  case False
  then obtain x y where xy: "x \<in> set qs" "bid = sq_bid x" "y \<in> set qs" "ask = sq_ask y"
      "\<not> f_lt (sq_ask y) (sq_bid x)"
    using assms(1,2) by (auto simp: best_spec_def)
  then have "\<not> f_isnan bid" "\<not> f_isnan ask" "f_lt f_zero bid" using assms(3) sq_ok_num by (auto simp: sq_ok_def)
  then show ?thesis using xy f_lt_not_le [of ask bid] by auto
qed

section \<open>Histories of ticks\<close>

type_synonym best_event =
  "((string \<times> sourceQuote) list \<Rightarrow> (string \<times> sourceQuote) list) \<times> (int \<times> int \<times> int \<times> int) \<times> Tick"

definition best_run ::
  "(bytes \<Rightarrow> JSONEnvelope option) \<Rightarrow> (JSONEnvelope \<Rightarrow> bytes option) \<Rightarrow> best_event list \<Rightarrow> BestConsumer \<Rightarrow> BestConsumer" where
  "best_run unmarshal marshal evs b =
     fold (\<lambda>(iter, clk, t) b. snd (Best_OnTick unmarshal marshal iter clk t b)) evs b"

text \<open>The quotes of a symbol that the ticks of a history carry, by source, in order.\<close>

definition quotes_symbol :: "string \<Rightarrow> Tick \<Rightarrow> bool" where
  "quotes_symbol s t \<longleftrightarrow> tk_Symbol t = s \<and> s \<noteq> [] \<and> tk_Source t \<noteq> [] \<and> tk_Source t \<noteq> SourceBest"

definition quotes_of :: "(bytes \<Rightarrow> JSONEnvelope option) \<Rightarrow> string \<Rightarrow> best_event \<Rightarrow> (string \<times> sourceQuote) list" where
  "quotes_of unmarshal s = (\<lambda>(_, (now, _), t).
     if quotes_symbol s t
     then (case DecodeJSONEnvelope unmarshal (tk_Body t) of
         Inl _ \<Rightarrow> []
       | Inr env \<Rightarrow> [(tk_Source t, \<lparr>sq_bid = je_Bid env, sq_ask = je_Ask env, sq_bidSize = je_BidSize env,
                                 sq_askSize = je_AskSize env, sq_ts = now\<rparr>)])
     else [])"

definition history_quotes :: "(bytes \<Rightarrow> JSONEnvelope option) \<Rightarrow> string \<Rightarrow> best_event list \<Rightarrow> (string \<times> sourceQuote) list" where
  "history_quotes unmarshal s evs = concat (map (quotes_of unmarshal s) evs)"

definition by_source :: "BestConsumer \<Rightarrow> string \<Rightarrow> (string \<times> sourceQuote) list" where
  "by_source b s = (case map_of (bc_cache b) s of None \<Rightarrow> [] | Some m \<Rightarrow> m)"

definition best_inv :: "(bytes \<Rightarrow> JSONEnvelope option) \<Rightarrow> best_event list \<Rightarrow> BestConsumer \<Rightarrow> bool" where
  "best_inv unmarshal evs b \<longleftrightarrow> (\<forall>s. distinct (map fst (by_source b s)) \<and>
     map_of (by_source b s) = map_of (rev (history_quotes unmarshal s evs)))"

lemma by_source_store:
  "by_source (best_store now t env b) s =
     (if s = tk_Symbol t
      then AList.update (tk_Source t) \<lparr>sq_bid = je_Bid env, sq_ask = je_Ask env, sq_bidSize = je_BidSize env,
             sq_askSize = je_AskSize env, sq_ts = now\<rparr> (by_source b s)
      else by_source b s)"
  by (simp add: by_source_def best_store_def Let_def update_conv')

text \<open>What a tick does to the cache, whatever it does to the counters.\<close>

lemma OnTick_cache:
  "by_source (snd (Best_OnTick unmarshal marshal iter clk t b)) s =
     (if tk_Symbol t \<noteq> [] \<and> tk_Source t \<noteq> [] \<and> tk_Source t \<noteq> SourceBest
      then (case DecodeJSONEnvelope unmarshal (tk_Body t) of
          Inl _ \<Rightarrow> by_source b s
        | Inr env \<Rightarrow> by_source (best_store (fst clk) t env b) s)
      else by_source b s)"
proof -
  obtain now now' nowTS nowRecv where clk: "clk = (now, now', nowTS, nowRecv)" by (cases clk)
  show ?thesis unfolding clk
    by (auto simp: Best_OnTick_def by_source_def Let_def split: sum.splits prod.splits option.splits)
qed

lemma best_inv_step:
  assumes "best_inv unmarshal evs b"
  shows "best_inv unmarshal (evs @ [(iter, clk, t)]) (snd (Best_OnTick unmarshal marshal iter clk t b))"
proof -
  obtain now rest where clk: "clk = (now, rest)" by (cases clk)
  have "distinct (map fst (by_source b s))" "map_of (by_source b s) = map_of (rev (history_quotes unmarshal s evs))" for s
    using assms by (auto simp: best_inv_def)
  then show ?thesis
    by (auto simp: best_inv_def OnTick_cache history_quotes_def quotes_of_def quotes_symbol_def clk by_source_store distinct_update update_conv'
             split: sum.splits)
qed

lemma best_run_snoc:
  "best_run unmarshal marshal (evs @ [(iter, clk, t)]) b =
     snd (Best_OnTick unmarshal marshal iter clk t (best_run unmarshal marshal evs b))"
  by (simp add: best_run_def)

lemma best_inv_new: "best_inv unmarshal [] (NewBestConsumer ms d)"
  by (simp add: best_inv_def by_source_def NewBestConsumer_def history_quotes_def)

lemma best_inv_run: "best_inv unmarshal evs (best_run unmarshal marshal evs (NewBestConsumer ms d))"
proof (induction evs rule: rev_induct)
  case Nil
  then show ?case by (simp add: best_run_def best_inv_new)
next
  case (snoc e evs)
  then show ?case by (cases e) (simp add: best_run_snoc best_inv_step)
qed

lemma maxStaleness_OnTick:
  "bc_maxStaleness (snd (Best_OnTick unmarshal marshal iter clk t b)) = bc_maxStaleness b"
  by (auto simp: Best_OnTick_def best_store_def Let_def split: sum.splits prod.splits option.splits)

lemma maxStaleness_run: "bc_maxStaleness (best_run unmarshal marshal evs b) = bc_maxStaleness b"
  by (induction evs rule: rev_induct) (auto simp: best_run_def maxStaleness_OnTick)

lemma quotes_of_cases:
  "quotes_of unmarshal s (iter, (now, rest), t) \<noteq> [] \<Longrightarrow> \<exists>env. DecodeJSONEnvelope unmarshal (tk_Body t) = Inr env \<and>
     quotes_of unmarshal s (iter, (now, rest), t) =
       [(tk_Source t, \<lparr>sq_bid = je_Bid env, sq_ask = je_Ask env, sq_bidSize = je_BidSize env,
                       sq_askSize = je_AskSize env, sq_ts = now\<rparr>)]"
  unfolding quotes_of_def prod.case
  by (cases "quotes_symbol s t";
      cases "DecodeJSONEnvelope unmarshal (tk_Body t)") simp_all

lemma quotes_of_ok:
  assumes "json_finite unmarshal" "(src, q) \<in> set (quotes_of unmarshal s ev)"
  shows "sq_ok q"
proof -
  obtain iter clk t where ev: "ev = (iter, clk, t)" by (cases ev)
  obtain now rest where clk: "clk = (now, rest)" by (cases clk)
  have "quotes_of unmarshal s (iter, (now, rest), t) \<noteq> []" using assms(2) unfolding ev clk by force
  then obtain env where env: "DecodeJSONEnvelope unmarshal (tk_Body t) = Inr env"
      "quotes_of unmarshal s (iter, (now, rest), t) =
         [(tk_Source t, \<lparr>sq_bid = je_Bid env, sq_ask = je_Ask env, sq_bidSize = je_BidSize env,
                         sq_askSize = je_AskSize env, sq_ts = now\<rparr>)]"
    using quotes_of_cases by blast
  have "sq_bid q = je_Bid env \<and> sq_ask q = je_Ask env" using assms(2) unfolding ev clk env(2) by simp
  then show ?thesis using decoded_ok [OF assms(1) env(1)] by (simp add: sq_ok_def)
qed

lemma history_quotes_ok: "json_finite unmarshal \<Longrightarrow> (src, q) \<in> set (history_quotes unmarshal s evs) \<Longrightarrow> sq_ok q"
  using quotes_of_ok unfolding history_quotes_def by fastforce

lemma perm_map_of:
  assumes "mset ys = mset xs" "distinct (map fst xs)"
  shows "distinct (map fst ys)" "map_of ys = map_of xs"
proof -
  have "mset (map fst ys) = mset (map fst xs)" using assms(1) by simp
  then show d: "distinct (map fst ys)" using assms(2) using mset_eq_imp_distinct_iff by blast
  show "map_of ys = map_of xs" using map_of_inject_set [OF d assms(2)] mset_eq_setD [OF assms(1)] by simp
qed

lemma OnTick_emits:
  assumes "fst (Best_OnTick unmarshal marshal iter (now, now', nowTS, nowRecv) t b) = Some (e, out)"
  shows "\<exists>n. n \<noteq> 0 \<and> recomputeLocked (bc_maxStaleness b) now' (map snd (iter (by_source (snd
              (Best_OnTick unmarshal marshal iter (now, now', nowTS, nowRecv) t b)) (tk_Symbol t)))) =
            (je_Bid e, je_Ask e, je_BidSize e, je_AskSize e, n) \<and>
          marshal e = Some (tk_Body out) \<and> out = best_tick nowRecv t (tk_Body out) \<and> je_Sym e = tk_Symbol t"
proof -
  let ?s = "tk_Symbol t"
  obtain env where g: "?s \<noteq> []" "tk_Source t \<noteq> []" "tk_Source t \<noteq> SourceBest"
      "DecodeJSONEnvelope unmarshal (tk_Body t) = Inr env"
    using assms by (auto simp: Best_OnTick_def split: if_splits sum.splits)
  define b1 where "b1 = best_store now t env b"
  have src: "(case map_of (bc_cache b1) ?s of None \<Rightarrow> [] | Some m \<Rightarrow> m) = by_source b1 ?s" by (simp add: by_source_def)
  obtain bid ask bs as n where r: "recomputeLocked (bc_maxStaleness b1) now' (map snd (iter (by_source b1 ?s))) = (bid, ask, bs, as, n)"
    by (metis prod_cases5)
  have m: "bc_maxStaleness b1 = bc_maxStaleness b" by (simp add: b1_def best_store_def Let_def)
  have after: "by_source (snd (Best_OnTick unmarshal marshal iter (now, now', nowTS, nowRecv) t b)) ?s = by_source b1 ?s"
    using g by (simp add: OnTick_cache b1_def)
  show ?thesis using assms g r m unfolding after
    by (auto simp: Best_OnTick_def b1_def [symmetric] src Let_def best_envelope_def best_tick_def
             split: if_splits option.splits prod.splits)
qed

definition best_result :: "JSONEnvelope \<Rightarrow> int \<Rightarrow> float64 \<times> float64 \<times> float64 \<times> float64 \<times> int" where
  "best_result e n = (je_Bid e, je_Ask e, je_BidSize e, je_AskSize e, n)"

text \<open>C10: Whatever the history of ticks and whatever order Go iterates over its maps in, a quote that
  BestConsumer hands downstream is the best quote over the latest accepted quote of every source of that
  symbol that is not stale: the highest bid and the lowest ask, each with the size of a source that quotes it,
  when no two sources cross, and otherwise the whole quote of a newest source.  It is positive and never
  crossed, and it is marked BEST.\<close>

theorem best_quote_of_history:
  assumes json: "json_finite unmarshal" and iter: "\<And>m. mset (iter m) = mset m"
    and emit: "fst (Best_OnTick unmarshal marshal iter (now, now', nowTS, nowRecv) t
        (best_run unmarshal marshal evs (NewBestConsumer ms d))) = Some (e, out)"
  shows "\<exists>qs n. distinct (map fst qs) \<and>
      map_of qs = map_of (rev (history_quotes unmarshal (tk_Symbol t) (evs @ [(iter, (now, now', nowTS, nowRecv), t)]))) \<and>
      n \<noteq> 0 \<and> best_spec (active (if ms = 0 then 30000000000 else ms) now' (map snd qs)) (best_result e n) \<and>
      f_lt f_zero (je_Bid e) \<and> f_le (je_Bid e) (je_Ask e) \<and>
      marshal e = Some (tk_Body out) \<and> tk_Source out = ''BEST'' \<and> tk_Symbol out = tk_Symbol t"
proof -
  let ?b = "best_run unmarshal marshal evs (NewBestConsumer ms d)" and ?clk = "(now, now', nowTS, nowRecv)"
  define m where "m = by_source (snd (Best_OnTick unmarshal marshal iter ?clk t ?b)) (tk_Symbol t)"
  have inv: "distinct (map fst m)"
      "map_of m = map_of (rev (history_quotes unmarshal (tk_Symbol t) (evs @ [(iter, ?clk, t)])))"
    using best_inv_step [OF best_inv_run, where iter = iter and clk = ?clk and t = t] by (auto simp: m_def best_inv_def)
  note perm = perm_map_of [OF iter inv(1)]
  have ok: "\<forall>q \<in> set (map snd (iter m)). sq_ok q"
  proof
    fix q assume "q \<in> set (map snd (iter m))"
    then obtain src where "(src, q) \<in> set (iter m)" by auto
    then have "map_of (iter m) src = Some q" using perm(1) by simp
    then show "sq_ok q" using perm(2) inv(2) history_quotes_ok [OF json] by (metis map_of_SomeD set_rev)
  qed
  have ms: "bc_maxStaleness ?b = (if ms = 0 then 30000000000 else ms)"
    by (simp add: maxStaleness_run NewBestConsumer_def)
  obtain n where n: "n \<noteq> 0" "recomputeLocked (if ms = 0 then 30000000000 else ms) now' (map snd (iter m)) = best_result e n"
      "marshal e = Some (tk_Body out)" "out = best_tick nowRecv t (tk_Body out)"
    using OnTick_emits [OF emit] unfolding m_def [symmetric] ms best_result_def by blast
  have spec: "best_spec (active (if ms = 0 then 30000000000 else ms) now' (map snd (iter m))) (best_result e n)"
    using recompute_spec [OF ok] n(2) by metis
  have "f_lt f_zero (je_Bid e) \<and> f_le (je_Bid e) (je_Ask e)"
    using best_spec_uncrossed [OF spec [unfolded best_result_def] n(1)] ok by (auto simp: active_def)
  moreover have "tk_Source out = ''BEST''" "tk_Symbol out = tk_Symbol t"
    by (subst n(4), simp add: best_tick_def)+
  ultimately show ?thesis using perm inv(2) n(1,3) spec by metis
qed

definition best_sample_unmarshal :: "bytes \<Rightarrow> JSONEnvelope option" where
  "best_sample_unmarshal b =
     Some \<lparr>je_Sym = ''USD/KRW'', je_Bid = (if b = [65] then 4607182418800017408 else 4613937818241073152),
           je_Ask = (if b = [65] then 4611686018427387904 else 4616189618054758400), je_TS = 0, je_Src = ''SMB'', je_Seq = 1,
           je_Last = f_zero, je_LastQty = f_zero, je_BidSize = f_zero, je_AskSize = f_zero\<rparr>"

definition best_sample_tick :: "string \<Rightarrow> bytes \<Rightarrow> Tick" where
  "best_sample_tick src body = \<lparr>tk_MarketID = 1, tk_Symbol = ''USD/KRW'', tk_SeqNum = 1, tk_Mask = 0, tk_Type = 0, tk_Flag = 0,
     tk_Body = body, tk_Received = 0, tk_Source = src\<rparr>"

definition best_sample_best :: JSONEnvelope where
  "best_sample_best = \<lparr>je_Sym = ''USD/KRW'', je_Bid = 4613937818241073152, je_Ask = 4616189618054758400, je_TS = 5, je_Src = ''BEST'',
     je_Seq = 1, je_Last = f_zero, je_LastQty = f_zero, je_BidSize = f_zero, je_AskSize = f_zero\<rparr>"

definition best_sample_consumer :: BestConsumer where
  "best_sample_consumer = NewBestConsumer 0 \<lparr>do_Enabled = False, do_TickSizeMultiplier = f_zero, do_TickSizeOverride = []\<rparr>"

lemma best_sample_decode:
  "DecodeJSONEnvelope best_sample_unmarshal [65] = Inr (the (best_sample_unmarshal [65]))"
  "DecodeJSONEnvelope best_sample_unmarshal [66] = Inr (the (best_sample_unmarshal [66]))"
  by (simp_all add: DecodeJSONEnvelope_def best_sample_unmarshal_def check_envelope_def trim_nuls_def trim_spaces_def byte_space_def
      f_cmp_eval f_zero_def f_make_def)

definition best_sample_after :: BestConsumer where
  "best_sample_after =
     best_run best_sample_unmarshal (\<lambda>e. Some [7]) [(rev, (1, 2, 3, 4), best_sample_tick ''SMB'' [65])] best_sample_consumer"

lemmas best_sample_eval = Best_OnTick_def best_store_def best_sample_tick_def best_sample_decode best_sample_unmarshal_def Let_def
  recomputeLocked_def best_step_def best_init_def stale_def shouldDedupLocked_def best_envelope_def best_tick_def
  f_cmp_eval f_zero_def f_make_def

lemma best_sample_run:
  "bc_cache best_sample_after =
     [(''USD/KRW'', [(''SMB'', \<lparr>sq_bid = 4607182418800017408, sq_ask = 4611686018427387904, sq_bidSize = f_zero,
                                sq_askSize = f_zero, sq_ts = 1\<rparr>)])]"
  "bc_maxStaleness best_sample_after = 30000000000" "bc_lastTrade best_sample_after = []" "do_Enabled (bc_dedup best_sample_after) = False"
  by (simp_all add: best_sample_after_def best_run_def best_sample_consumer_def NewBestConsumer_def best_sample_eval)

lemma best_sample_emits:
  "fst (Best_OnTick best_sample_unmarshal (\<lambda>e. Some [7]) rev (5, 5, 5, 6) (best_sample_tick ''KMB'' [66]) best_sample_after) =
    Some (best_sample_best, best_sample_tick ''BEST'' [7]\<lparr>tk_Received := 6\<rparr>)"
  by (simp add: best_sample_eval best_sample_run best_sample_best_def)

theorem best_quote_of_history_witness:
  "\<exists>qs n. map_of qs = map_of (rev (history_quotes best_sample_unmarshal ''USD/KRW''
       [(rev, (1, 2, 3, 4), best_sample_tick ''SMB'' [65]), (rev, (5, 5, 5, 6), best_sample_tick ''KMB'' [66])])) \<and>
     n \<noteq> 0 \<and> best_spec (active 30000000000 5 (map snd qs)) (best_result best_sample_best n)"
proof -
  have j: "json_finite best_sample_unmarshal" by (simp add: json_finite_def best_sample_unmarshal_def f_cmp_eval)
  have s: "tk_Symbol (best_sample_tick ''KMB'' [66]) = ''USD/KRW''" by (simp add: best_sample_tick_def)
  show ?thesis using best_quote_of_history [OF j _ best_sample_emits [unfolded best_sample_after_def best_sample_consumer_def]] unfolding s by auto
qed

end
