(* ===== verification/Pricing_Cross.thy ===== *)
theory Pricing_Cross
  imports Go_Float_Int Go_Strings Quote_Data "HOL-Library.Product_Lexorder"
begin

text \<open>
  Cross rates and the masters of src/pkg/pricing: the worse-side formula of crossrate.go, and the
  currency and pair masters of currency.go and pair.go, whose snapshots are replaced as a whole.
\<close>

section \<open>Cross rates\<close>

record CrossFormula =
  cf_LegA :: string
  cf_OpA :: string
  cf_LegB :: string
  cf_OpB :: string
  cf_Scale :: float64

type_synonym CrossInput = "float64 \<times> float64"

datatype cross_error = ErrCrossInvalidOp | ErrCrossInvalidInput | ErrCrossDivByZero

abbreviation (input) CrossOpMul :: string where "CrossOpMul \<equiv> ''mul''"
abbreviation (input) CrossOpDiv :: string where "CrossOpDiv \<equiv> ''div''"

definition crossBidContrib :: "CrossInput \<Rightarrow> string \<Rightarrow> cross_error + float64" where
  "crossBidContrib leg opr =
     (if opr = CrossOpMul then Inr (fst leg)
      else if f_eq (snd leg) f_zero then Inl ErrCrossDivByZero
      else Inr (f_div (f_of_int 1) (snd leg)))"

definition crossAskContrib :: "CrossInput \<Rightarrow> string \<Rightarrow> cross_error + float64" where
  "crossAskContrib leg opr =
     (if opr = CrossOpMul then Inr (snd leg)
      else if f_eq (fst leg) f_zero then Inl ErrCrossDivByZero
      else Inr (f_div (f_of_int 1) (fst leg)))"

definition ComputeCross :: "CrossFormula \<Rightarrow> CrossInput \<Rightarrow> CrossInput \<Rightarrow> cross_error + float64 \<times> float64" where
  "ComputeCross f a b =
     (if cf_OpA f \<noteq> CrossOpMul \<and> cf_OpA f \<noteq> CrossOpDiv then Inl ErrCrossInvalidOp
      else if cf_OpB f \<noteq> CrossOpMul \<and> cf_OpB f \<noteq> CrossOpDiv then Inl ErrCrossInvalidOp
      else if f_le (fst a) f_zero \<or> f_le (snd a) f_zero \<or> f_le (fst b) f_zero \<or> f_le (snd b) f_zero
        then Inl ErrCrossInvalidInput
      else (let scale = (if f_le (cf_Scale f) f_zero then f_of_int 1 else cf_Scale f)
            in case crossBidContrib a (cf_OpA f) of Inl e \<Rightarrow> Inl e | Inr bidA \<Rightarrow>
               (case crossAskContrib a (cf_OpA f) of Inl e \<Rightarrow> Inl e | Inr askA \<Rightarrow>
               (case crossBidContrib b (cf_OpB f) of Inl e \<Rightarrow> Inl e | Inr bidB \<Rightarrow>
               (case crossAskContrib b (cf_OpB f) of Inl e \<Rightarrow> Inl e | Inr askB \<Rightarrow>
                 Inr (f_mul (f_mul scale bidA) bidB, f_mul (f_mul scale askA) askB))))))"

section \<open>Currencies\<close>

record Currency =
  cu_Code :: string
  cu_Name :: string
  cu_RefCode :: string
  cu_DecimalPlaces :: int
  cu_PrecisionKind :: string
  cu_SortOrder :: int
  cu_Active :: bool

record CurrencyMaster =
  cm_byCode :: "(string \<times> Currency) list"
  cm_sorted :: "Currency list"

definition Currency_Replace :: "Currency list \<Rightarrow> CurrencyMaster" where
  "Currency_Replace currencies =
     (let cs = filter (\<lambda>c. cu_Code c \<noteq> []) currencies
      in \<lparr>cm_byCode = fold (\<lambda>c. AList.update (cu_Code c) c) cs [],
          cm_sorted = sort_key (\<lambda>c. (cu_SortOrder c, cu_Code c)) cs\<rparr>)"

definition NewCurrencyMaster :: CurrencyMaster where
  "NewCurrencyMaster = Currency_Replace []"

definition Currency_Get :: "string \<Rightarrow> CurrencyMaster \<Rightarrow> Currency option" where
  "Currency_Get code m = map_of (cm_byCode m) code"

definition Currency_List :: "CurrencyMaster \<Rightarrow> Currency list" where
  "Currency_List m = cm_sorted m"

definition Currency_Size :: "CurrencyMaster \<Rightarrow> nat" where
  "Currency_Size m = length (cm_byCode m)"

section \<open>Pairs\<close>

record Cross =
  cx_LegA :: string
  cx_OpA :: string
  cx_LegB :: string
  cx_OpB :: string
  cx_Scale :: float64

record Pair =
  pa_ID :: string
  pa_Base :: string
  pa_Quote :: string
  pa_Kind :: string
  pa_Symbol :: string
  pa_Cross :: "Cross option"
  pa_SpotDays :: int
  pa_ScaleUnit :: int
  pa_QuoteDecimals :: int
  pa_EmpDecimals :: int
  pa_PLPair :: string
  pa_SortOrder :: int
  pa_Active :: bool

definition ToFormula :: "Cross option \<Rightarrow> CrossFormula" where
  "ToFormula c = (case c of
      None \<Rightarrow> \<lparr>cf_LegA = [], cf_OpA = [], cf_LegB = [], cf_OpB = [], cf_Scale = f_zero\<rparr>
    | Some x \<Rightarrow> \<lparr>cf_LegA = cx_LegA x, cf_OpA = cx_OpA x, cf_LegB = cx_LegB x, cf_OpB = cx_OpB x, cf_Scale = cx_Scale x\<rparr>)"

record PairMaster =
  pm_byID :: "(string \<times> Pair) list"
  pm_sorted :: "Pair list"

definition Pair_Replace :: "Pair list \<Rightarrow> PairMaster" where
  "Pair_Replace pairs =
     (let ps = filter (\<lambda>p. pa_ID p \<noteq> []) pairs
      in \<lparr>pm_byID = fold (\<lambda>p. AList.update (pa_ID p) p) ps [],
          pm_sorted = sort_key (\<lambda>p. (pa_SortOrder p, pa_ID p)) ps\<rparr>)"

definition NewPairMaster :: PairMaster where
  "NewPairMaster = Pair_Replace []"

definition Pair_Get :: "string \<Rightarrow> PairMaster \<Rightarrow> Pair option" where
  "Pair_Get i m = map_of (pm_byID m) i"

definition Pair_List :: "PairMaster \<Rightarrow> Pair list" where
  "Pair_List m = pm_sorted m"

definition Pair_Size :: "PairMaster \<Rightarrow> nat" where
  "Pair_Size m = length (pm_byID m)"

definition pair_name :: "Pair \<Rightarrow> string" where
  "pair_name p = pa_Base p @ ''/'' @ pa_Quote p"

definition CrossFormulas :: "PairMaster \<Rightarrow> (string \<times> CrossFormula) list" where
  "CrossFormulas m =
     fold (\<lambda>p out. if \<not> pa_Active p \<or> pa_Kind p \<noteq> ''cross'' \<or> pa_Cross p = None then out
                   else AList.update (pair_name p) (ToFormula (pa_Cross p)) out) (pm_sorted m) []"

definition LookupBySymbol :: "string \<Rightarrow> PairMaster \<Rightarrow> string option" where
  "LookupBySymbol s m =
     (if s = [] then None
      else (case map_of (pm_byID m) s of
          Some p \<Rightarrow> if pa_Active p then Some (pair_name p)
                    else map_option pair_name (find (\<lambda>p. pa_Active p \<and> pa_Symbol p = s) (pm_sorted m))
        | None \<Rightarrow> map_option pair_name (find (\<lambda>p. pa_Active p \<and> pa_Symbol p = s) (pm_sorted m))))"

definition splitPair :: "string \<Rightarrow> string list" where
  "splitPair s = SplitN2 CHR ''/'' s"

definition ReverseSymbol :: "string \<Rightarrow> PairMaster \<Rightarrow> string option" where
  "ReverseSymbol pair m =
     (case splitPair pair of
        [b, q] \<Rightarrow> map_option (\<lambda>p. if pa_Symbol p \<noteq> [] then pa_Symbol p else pa_ID p)
          (find (\<lambda>p. pa_Active p \<and> pa_Base p = b \<and> pa_Quote p = q) (pm_sorted m))
      | _ \<Rightarrow> None)"

definition ToSymbolEntries :: "PairMaster \<Rightarrow> SymbolEntry list" where
  "ToSymbolEntries m =
     map (\<lambda>p. \<lparr>sy_Symbol = (if pa_Symbol p = [] then pa_ID p else pa_Symbol p), sy_Pair = pair_name p, sy_Active = pa_Active p\<rparr>) (pm_sorted m)"

section \<open>A cross rate is not crossed\<close>

lemma one_pos: "f_lt f_zero (f_of_int 1)" "f_finite (f_of_int 1)" "f_le (f_of_int 1) (f_of_int 1)"
  by simp_all

definition leg_ok :: "CrossInput \<Rightarrow> bool" where
  "leg_ok l \<longleftrightarrow> f_lt f_zero (fst l) \<and> f_le (fst l) (snd l) \<and> f_finite (snd l)"

lemma leg_finite: "leg_ok l \<Longrightarrow> f_finite (fst l) \<and> f_lt f_zero (snd l)"
proof -
  assume l: "leg_ok l"
  then have p: "f_le f_zero (fst l)" "f_le (fst l) (snd l)" "f_finite (snd l)" "f_lt f_zero (fst l)"
    by (simp_all add: leg_ok_def f_lt_imp_le)
  have "f_mag (fst l) \<le> f_mag (snd l)" using f_le_mag [OF p(1,2)] by simp
  then have "f_finite (fst l)" using p(3) by (simp only: f_finite_def)
  moreover have "f_lt f_zero (snd l)" using p(2,4) by (auto simp: f_lt_def f_le_def)
  ultimately show ?thesis by simp
qed

lemma contrib_le:
  assumes "leg_ok l" "crossBidContrib l opr = Inr x" "crossAskContrib l opr = Inr y"
  shows "f_le f_zero x \<and> f_le x y"
proof (cases "opr = CrossOpMul")
  case True
  then show ?thesis using assms by (simp add: crossBidContrib_def crossAskContrib_def leg_ok_def f_lt_imp_le)
next
  case False
  have l: "f_lt f_zero (fst l)" "f_le (fst l) (snd l)" "f_finite (snd l)" using assms(1) by (simp_all add: leg_ok_def)
  have xy: "x = f_div (f_of_int 1) (snd l)" "y = f_div (f_of_int 1) (fst l)"
    using assms(2,3) False by (simp_all add: crossBidContrib_def crossAskContrib_def split: if_split_asm)
  have "f_le x y" unfolding xy by (rule f_div_mono [OF one_pos(1) one_pos(3) one_pos(2) l(1,2,3)])
  moreover have "f_le f_zero x" unfolding xy
    using f_div_pos [OF one_pos(1,2) _ l(3)] leg_finite [OF assms(1)] calculation xy by (simp add: f_le_def)
  ultimately show ?thesis by simp
qed

lemma contrib_defined:
  assumes "leg_ok l"
  shows "\<exists>x y. crossBidContrib l opr = Inr x \<and> crossAskContrib l opr = Inr y"
proof -
  have "f_lt f_zero (fst l)" "f_lt f_zero (snd l)" using assms leg_finite by (auto simp: leg_ok_def)
  then have "\<not> f_eq (fst l) f_zero" "\<not> f_eq (snd l) f_zero" by (auto simp: f_eq_def f_lt_def)
  then show ?thesis by (simp add: crossBidContrib_def crossAskContrib_def)
qed

lemma f_mul_nan: "\<not> f_isnan (f_mul x y) \<Longrightarrow> \<not> f_isnan x \<and> \<not> f_isnan y"
proof (rule ccontr)
  assume "\<not> f_isnan (f_mul x y)" "\<not> (\<not> f_isnan x \<and> \<not> f_isnan y)"
  then have "f_isnan x \<or> f_isnan y" "\<not> f_isnan (f_mul x y)" by simp_all
  then show False unfolding f_mul_def Let_def by (elim disjE) (simp_all only: simp_thms if_True f_nan_isnan)
qed

lemma scaled_product_le:
  assumes "f_le f_zero s" "f_le f_zero x" "f_le x x'" "f_le f_zero y" "f_le y y'"
    and num: "\<not> f_isnan (f_mul (f_mul s x) y)" "\<not> f_isnan (f_mul (f_mul s x') y')"
  shows "f_le f_zero (f_mul (f_mul s x) y) \<and> f_le (f_mul (f_mul s x) y) (f_mul (f_mul s x') y')"
proof -
  have n: "\<not> f_isnan (f_mul s x)" "\<not> f_isnan (f_mul s x')" using f_mul_nan [OF num(1)] f_mul_nan [OF num(2)] by simp_all
  have s: "f_le s s" using f_mul_nan [OF n(1)] by (simp add: f_le_refl)
  have p: "f_le f_zero (f_mul s x)" by (rule f_mul_nonneg(2) [OF assms(1,2) n(1)])
  have q: "f_le (f_mul s x) (f_mul s x')" by (rule f_mul_mono [OF assms(1) s assms(2,3) n])
  show ?thesis using f_mul_nonneg(2) [OF p assms(4) num(1)] f_mul_mono [OF p q assms(4,5) num] by simp
qed

lemma cross_le:
  assumes a: "leg_ok a" and b: "leg_ok b"
  shows "case ComputeCross f a b of
      Inl e \<Rightarrow> e = ErrCrossInvalidOp \<and> (cf_OpA f \<notin> {''mul'', ''div''} \<or> cf_OpB f \<notin> {''mul'', ''div''})
    | Inr (bid, ask) \<Rightarrow> cf_OpA f \<in> {''mul'', ''div''} \<and> cf_OpB f \<in> {''mul'', ''div''} \<and>
        (\<not> f_isnan bid \<and> \<not> f_isnan ask \<longrightarrow> f_le f_zero bid \<and> f_le bid ask)"
proof (cases "cf_OpA f \<in> {''mul'', ''div''} \<and> cf_OpB f \<in> {''mul'', ''div''}")
  case False
  then show ?thesis by (auto simp: ComputeCross_def)
next
  case True
  obtain xa ya xb yb where c: "crossBidContrib a (cf_OpA f) = Inr xa" "crossAskContrib a (cf_OpA f) = Inr ya"
      "crossBidContrib b (cf_OpB f) = Inr xb" "crossAskContrib b (cf_OpB f) = Inr yb"
    using contrib_defined [OF a] contrib_defined [OF b] by blast
  define s where "s = (if f_le (cf_Scale f) f_zero then f_of_int 1 else cf_Scale f)"
  have pos: "\<not> f_le (fst a) f_zero" "\<not> f_le (snd a) f_zero" "\<not> f_le (fst b) f_zero" "\<not> f_le (snd b) f_zero"
    using a b leg_finite [OF a] leg_finite [OF b] by (auto simp: leg_ok_def f_lt_def f_le_def)
  have r: "ComputeCross f a b = Inr (f_mul (f_mul s xa) xb, f_mul (f_mul s ya) yb)"
    using True pos c unfolding ComputeCross_def s_def by (auto simp: Let_def)
  have "f_le f_zero (f_mul (f_mul s xa) xb) \<and> f_le (f_mul (f_mul s xa) xb) (f_mul (f_mul s ya) yb)"
    if num: "\<not> f_isnan (f_mul (f_mul s xa) xb)" "\<not> f_isnan (f_mul (f_mul s ya) yb)"
  proof -
    have "\<not> f_isnan s" using f_mul_nan f_mul_nan [OF num(1)] by blast
    then have "f_le f_zero s" using f_lt_not_le [of f_zero "cf_Scale f"] one_pos(1)
      by (cases "f_le (cf_Scale f) f_zero") (simp_all add: s_def f_lt_imp_le)
    then show ?thesis using contrib_le [OF a c(1,2)] contrib_le [OF b c(3,4)] num by (intro scaled_product_le) simp_all
  qed
  then show ?thesis using True unfolding r by simp
qed

text \<open>From two quoted legs (positive, not crossed, finite) a cross rate is refused only for an operator other than
  mul and div; otherwise its bid is not negative and at most its ask, whatever the operators, the scale and the rounding,
  when the results are numbers.\<close>

theorem cross_rate_not_crossed:
  assumes a: "leg_ok a" and b: "leg_ok b"
  shows "case ComputeCross f a b of
      Inl e \<Rightarrow> e = ErrCrossInvalidOp \<and> (cf_OpA f \<notin> {''mul'', ''div''} \<or> cf_OpB f \<notin> {''mul'', ''div''})
    | Inr (bid, ask) \<Rightarrow> cf_OpA f \<in> {''mul'', ''div''} \<and> cf_OpB f \<in> {''mul'', ''div''} \<and>
        (\<not> f_isnan bid \<and> \<not> f_isnan ask \<longrightarrow> f_le f_zero bid \<and> f_le bid ask)"
  by (rule cross_le [OF a b])

theorem cross_rate_not_crossed_witness:
  "case ComputeCross \<lparr>cf_LegA = ''EUR/USD'', cf_OpA = ''mul'', cf_LegB = ''USD/KRW'', cf_OpB = ''mul'', cf_Scale = f_zero\<rparr>
      (f_of_int 2, f_of_int 3) (f_of_int 1300, f_of_int 1301) of
    Inl e \<Rightarrow> False | Inr (bid, ask) \<Rightarrow> bid = f_of_int 2600 \<and> ask = f_of_int 3903 \<and> f_le bid ask"
proof -
  have l: "leg_ok (f_of_int 2, f_of_int 3)" "leg_ok (f_of_int 1300, f_of_int 1301)" by (simp_all add: leg_ok_def)
  have "f_le f_zero f_zero" by (simp add: f_le_refl)
  then have "ComputeCross \<lparr>cf_LegA = ''EUR/USD'', cf_OpA = ''mul'', cf_LegB = ''USD/KRW'', cf_OpB = ''mul'', cf_Scale = f_zero\<rparr>
      (f_of_int 2, f_of_int 3) (f_of_int 1300, f_of_int 1301) = Inr (f_of_int 2600, f_of_int 3903)"
    by (simp add: ComputeCross_def crossBidContrib_def crossAskContrib_def)
  then show ?thesis
    using cross_rate_not_crossed [OF l, of "\<lparr>cf_LegA = ''EUR/USD'', cf_OpA = ''mul'', cf_LegB = ''USD/KRW'', cf_OpB = ''mul'', cf_Scale = f_zero\<rparr>"]
    by simp
qed

end
