(* ===== verification/Price_Cross.thy ===== *)
theory Price_Cross
  imports Pricing_Cross Price_Ticks
begin

text \<open>
  The cross-rate consumer, src/internal/price/crossrate_consumer.go: the cache of leg quotes, the index
  from a leg to the crosses that use it, and the emission of a cross tick when both legs are fresh and the
  last emission is not too recent.  A tick is handled as a whole; the readings of the clock are arguments.
\<close>

section \<open>State\<close>

record CrossRateConsumer =
  xr_symbols :: "SymbolMap option"
  xr_pairs :: "PairMaster option"
  xr_formulas :: "(string \<times> CrossFormula) list"
  xr_leg2cross :: "(string \<times> string list) list"
  xr_legCache :: "(string \<times> (float64 \<times> float64 \<times> int)) list"
  xr_debounce :: "(string \<times> int) list"
  xr_debounceWindow :: int
  xr_maxStaleness :: int
  xr_lastEmits :: "(string \<times> (float64 \<times> float64 \<times> int)) list"
  xr_emitsTotal :: u64
  xr_skippedDebounce :: u64
  xr_skippedStale :: u64
  xr_skippedMissingLeg :: u64
  xr_skippedUnknownPair :: u64
  xr_errors :: u64

definition NewCrossRateConsumer :: "SymbolMap option \<Rightarrow> PairMaster option \<Rightarrow> int \<Rightarrow> int \<Rightarrow> CrossRateConsumer" where
  "NewCrossRateConsumer symbols pairs dw ms =
     \<lparr>xr_symbols = symbols, xr_pairs = pairs, xr_formulas = [], xr_leg2cross = [], xr_legCache = [], xr_debounce = [],
      xr_debounceWindow = (if dw \<le> 0 then 10000000 else dw), xr_maxStaleness = (if ms \<le> 0 then 30000000000 else ms),
      xr_lastEmits = [], xr_emitsTotal = 0, xr_skippedDebounce = 0, xr_skippedStale = 0, xr_skippedMissingLeg = 0,
      xr_skippedUnknownPair = 0, xr_errors = 0\<rparr>"

definition push_cross :: "string \<Rightarrow> string \<Rightarrow> (string \<times> string list) list \<Rightarrow> (string \<times> string list) list" where
  "push_cross leg x m = AList.update leg ((case map_of m leg of None \<Rightarrow> [] | Some xs \<Rightarrow> xs) @ [x]) m"

text \<open>\<open>iter\<close> is the order of the iteration over the formulas.\<close>

definition ReplaceFormulas ::
  "((string \<times> CrossFormula) list \<Rightarrow> (string \<times> CrossFormula) list) \<Rightarrow> (string \<times> CrossFormula) list \<Rightarrow>
     CrossRateConsumer \<Rightarrow> CrossRateConsumer" where
  "ReplaceFormulas iter formulas c =
     c\<lparr>xr_formulas := formulas,
       xr_leg2cross := fold (\<lambda>(x, f) m. push_cross (cf_LegB f) x (push_cross (cf_LegA f) x m)) (iter formulas) []\<rparr>"

definition lookupPair :: "string \<Rightarrow> CrossRateConsumer \<Rightarrow> string option" where
  "lookupPair s c =
     (case (case xr_pairs c of Some m \<Rightarrow> LookupBySymbol s m | None \<Rightarrow> None) of
        Some p \<Rightarrow> Some p
      | None \<Rightarrow>
          (case xr_symbols c of
             Some sm \<Rightarrow> (case Symbol_Lookup sm s of (pair, active, found) \<Rightarrow> if \<not> found \<or> \<not> active then None else Some pair)
           | None \<Rightarrow> if xr_pairs c = None then Some s else None))"

definition reverseSymbol :: "string \<Rightarrow> CrossRateConsumer \<Rightarrow> string" where
  "reverseSymbol pair c =
     (case (case xr_pairs c of Some m \<Rightarrow> ReverseSymbol pair m | None \<Rightarrow> None) of
        Some s \<Rightarrow> s
      | None \<Rightarrow>
          (case (case xr_symbols c of Some sm \<Rightarrow> Symbol_Reverse sm pair | None \<Rightarrow> None) of
             Some s \<Rightarrow> s
           | None \<Rightarrow> filter (\<lambda>ch. ch \<noteq> CHR ''/'') pair))"

section \<open>Emission\<close>

abbreviation (input) SourceCross :: string where "SourceCross \<equiv> ''CROSS''"

definition cross_envelope :: "string \<Rightarrow> float64 \<Rightarrow> float64 \<Rightarrow> int \<Rightarrow> JSONEnvelope" where
  "cross_envelope s bid ask now = \<lparr>je_Sym = s, je_Bid = bid, je_Ask = ask, je_TS = now, je_Src = SourceCross, je_Seq = 0,
     je_Last = f_zero, je_LastQty = f_zero, je_BidSize = f_zero, je_AskSize = f_zero\<rparr>"

definition cross_tick :: "Tick \<Rightarrow> string \<Rightarrow> bytes \<Rightarrow> int \<Rightarrow> Tick" where
  "cross_tick src s body now = \<lparr>tk_MarketID = tk_MarketID src, tk_Symbol = s, tk_SeqNum = tk_SeqNum src, tk_Mask = 0, tk_Type = 0,
     tk_Flag = 0, tk_Body = body, tk_Received = now, tk_Source = SourceCross\<rparr>"

record emission =
  em_pair :: string
  em_bid :: float64
  em_ask :: float64
  em_now :: int
  em_tick :: Tick

text \<open>The first reading is that of the debounce check, the second the one of the freshness check.\<close>

definition maybeEmitCross ::
  "(JSONEnvelope \<Rightarrow> bytes option) \<Rightarrow> int \<times> int \<Rightarrow> string \<Rightarrow> Tick \<Rightarrow> CrossRateConsumer \<Rightarrow> emission list \<times> CrossRateConsumer" where
  "maybeEmitCross marshal = (\<lambda>(since, now) crossPair srcTick c.
     (if (case map_of (xr_debounce c) crossPair of Some v \<Rightarrow> since - v < xr_debounceWindow c | None \<Rightarrow> False)
      then ([], c\<lparr>xr_skippedDebounce := xr_skippedDebounce c + 1\<rparr>)
      else (case map_of (xr_formulas c) crossPair of
          None \<Rightarrow> ([], c)
        | Some f \<Rightarrow>
            (case (map_of (xr_legCache c) (cf_LegA f), map_of (xr_legCache c) (cf_LegB f)) of
               (Some (bidA, askA, tsA), Some (bidB, askB, tsB)) \<Rightarrow>
                 if now - tsA > xr_maxStaleness c \<or> now - tsB > xr_maxStaleness c
                 then ([], c\<lparr>xr_skippedStale := xr_skippedStale c + 1\<rparr>)
                 else (case ComputeCross f (bidA, askA) (bidB, askB) of
                     Inl _ \<Rightarrow> ([], c\<lparr>xr_errors := xr_errors c + 1\<rparr>)
                   | Inr (bid, ask) \<Rightarrow>
                       (let crossSym = reverseSymbol crossPair c;
                            body = (case marshal (cross_envelope crossSym bid ask now) of Some b \<Rightarrow> b | None \<Rightarrow> [])
                        in ([\<lparr>em_pair = crossPair, em_bid = bid, em_ask = ask, em_now = now, em_tick = cross_tick srcTick crossSym body now\<rparr>],
                            c\<lparr>xr_debounce := AList.update crossPair now (xr_debounce c),
                              xr_lastEmits := AList.update crossPair (bid, ask, now) (xr_lastEmits c),
                              xr_emitsTotal := xr_emitsTotal c + 1\<rparr>)))
             | _ \<Rightarrow> ([], c\<lparr>xr_skippedMissingLeg := xr_skippedMissingLeg c + 1\<rparr>)))))"

fun emit_loop ::
  "(JSONEnvelope \<Rightarrow> bytes option) \<Rightarrow> (nat \<Rightarrow> int \<times> int) \<Rightarrow> nat \<Rightarrow> string list \<Rightarrow> Tick \<Rightarrow> CrossRateConsumer \<Rightarrow>
     emission list \<times> CrossRateConsumer" where
  "emit_loop marshal clk k [] t c = ([], c)"
| "emit_loop marshal clk k (x # xs) t c =
     (let (out, c1) = maybeEmitCross marshal (clk k) x t c; (outs, c2) = emit_loop marshal clk (Suc k) xs t c1
      in (out @ outs, c2))"

definition Cross_OnTick ::
  "(bytes \<Rightarrow> JSONEnvelope option) \<Rightarrow> (JSONEnvelope \<Rightarrow> bytes option) \<Rightarrow> int \<Rightarrow> (nat \<Rightarrow> int \<times> int) \<Rightarrow> Tick \<Rightarrow>
     CrossRateConsumer \<Rightarrow> emission list \<times> CrossRateConsumer" where
  "Cross_OnTick unmarshal marshal ts clk t c =
     (if tk_Symbol t = [] then ([], c)
      else if tk_Source t = SourceCross then ([], c)
      else (case lookupPair (tk_Symbol t) c of
          None \<Rightarrow> ([], c\<lparr>xr_skippedUnknownPair := xr_skippedUnknownPair c + 1\<rparr>)
        | Some pair \<Rightarrow>
            (case DecodeJSONEnvelope unmarshal (tk_Body t) of
               Inl _ \<Rightarrow> ([], c)
             | Inr env \<Rightarrow>
                 (let c1 = c\<lparr>xr_legCache := AList.update pair (je_Bid env, je_Ask env, ts) (xr_legCache c)\<rparr>;
                      crosses = (case map_of (xr_leg2cross c1) pair of None \<Rightarrow> [] | Some xs \<Rightarrow> xs)
                  in emit_loop marshal clk 0 crosses t c1))))"

definition LatestCross :: "int \<Rightarrow> string \<Rightarrow> CrossRateConsumer \<Rightarrow> (float64 \<times> float64 \<times> int \<times> bool) option" where
  "LatestCross now pair c =
     (case map_of (xr_lastEmits c) pair of
        None \<Rightarrow> None
      | Some (bid, ask, ts) \<Rightarrow> Some (bid, ask, ts, now - ts > xr_maxStaleness c))"

definition Cross_Stats :: "int \<Rightarrow> CrossRateConsumer \<Rightarrow> nat \<times> nat \<times> nat \<times> nat" where
  "Cross_Stats now c = (length (xr_formulas c), length (xr_leg2cross c), length (xr_lastEmits c),
     length (filter (\<lambda>(_, _, _, ts). now - ts > xr_maxStaleness c) (xr_lastEmits c)))"

section \<open>What is emitted\<close>

inductive xr_reach :: "(bytes \<Rightarrow> JSONEnvelope option) \<Rightarrow> (JSONEnvelope \<Rightarrow> bytes option) \<Rightarrow> CrossRateConsumer \<Rightarrow> bool"
  for unmarshal marshal where
  start: "xr_reach unmarshal marshal (NewCrossRateConsumer symbols pairs dw ms)"
| tick: "xr_reach unmarshal marshal c \<Longrightarrow> xr_reach unmarshal marshal (snd (Cross_OnTick unmarshal marshal ts clk t c))"
| formulas: "xr_reach unmarshal marshal c \<Longrightarrow> xr_reach unmarshal marshal (ReplaceFormulas iter fs c)"
| masters: "xr_reach unmarshal marshal c \<Longrightarrow> xr_reach unmarshal marshal (c\<lparr>xr_symbols := symbols, xr_pairs := pairs\<rparr>)"

text \<open>Every cached leg is a quote that the decoder accepted.\<close>

definition legs_ok :: "CrossRateConsumer \<Rightarrow> bool" where
  "legs_ok c \<longleftrightarrow> (\<forall>p bid ask ts. map_of (xr_legCache c) p = Some (bid, ask, ts) \<longrightarrow> leg_ok (bid, ask))"

lemma decoded_leg:
  assumes "json_finite unmarshal" "DecodeJSONEnvelope unmarshal body = Inr env"
  shows "leg_ok (je_Bid env, je_Ask env)"
proof -
  have "f_finite (je_Ask env)"
    using assms by (auto simp: DecodeJSONEnvelope_def check_envelope_def json_finite_def Let_def split: if_splits option.splits)
  then show ?thesis using decoded_ok [OF assms] by (simp add: leg_ok_def)
qed

lemma maybeEmit_keeps:
  "xr_legCache (snd (maybeEmitCross marshal r x t c)) = xr_legCache c"
  "xr_formulas (snd (maybeEmitCross marshal r x t c)) = xr_formulas c"
  "xr_maxStaleness (snd (maybeEmitCross marshal r x t c)) = xr_maxStaleness c"
  "xr_debounceWindow (snd (maybeEmitCross marshal r x t c)) = xr_debounceWindow c"
  by (auto simp: maybeEmitCross_def Let_def split: prod.splits option.splits sum.splits if_splits)

lemma emit_loop_keeps:
  "xr_legCache (snd (emit_loop marshal clk k xs t c)) = xr_legCache c"
  "xr_formulas (snd (emit_loop marshal clk k xs t c)) = xr_formulas c"
  "xr_maxStaleness (snd (emit_loop marshal clk k xs t c)) = xr_maxStaleness c"
  "xr_debounceWindow (snd (emit_loop marshal clk k xs t c)) = xr_debounceWindow c"
  by (induction xs arbitrary: k c) (auto simp: maybeEmit_keeps split_beta Let_def)

lemma OnTick_legs:
  "xr_legCache (snd (Cross_OnTick unmarshal marshal ts clk t c)) = xr_legCache c \<or>
   (\<exists>p env. DecodeJSONEnvelope unmarshal (tk_Body t) = Inr env \<and>
      xr_legCache (snd (Cross_OnTick unmarshal marshal ts clk t c)) = AList.update p (je_Bid env, je_Ask env, ts) (xr_legCache c))"
  by (auto simp: Cross_OnTick_def emit_loop_keeps Let_def split: option.splits sum.splits)

lemma reach_legs:
  assumes "json_finite unmarshal"
  shows "xr_reach unmarshal marshal c \<Longrightarrow> legs_ok c"
proof (induction rule: xr_reach.induct)
  case (start symbols pairs dw ms)
  then show ?case by (simp add: legs_ok_def NewCrossRateConsumer_def)
next
  case (tick c ts clk t)
  show ?case using OnTick_legs [of unmarshal marshal ts clk t c]
  proof (elim disjE exE conjE)
    assume "xr_legCache (snd (Cross_OnTick unmarshal marshal ts clk t c)) = xr_legCache c"
    then show ?thesis using tick.IH by (simp add: legs_ok_def)
  next
    fix p env
    assume "DecodeJSONEnvelope unmarshal (tk_Body t) = Inr env"
      and u: "xr_legCache (snd (Cross_OnTick unmarshal marshal ts clk t c)) = AList.update p (je_Bid env, je_Ask env, ts) (xr_legCache c)"
    then show ?thesis using tick.IH decoded_leg [OF assms] unfolding legs_ok_def u by simp
  qed
qed (simp_all add: legs_ok_def ReplaceFormulas_def)

text \<open>What an emission rests on: a registered formula and two cached legs that are fresh at its time.\<close>

definition emission_ok :: "CrossRateConsumer \<Rightarrow> emission \<Rightarrow> bool" where
  "emission_ok c e \<longleftrightarrow> tk_Source (em_tick e) = SourceCross \<and>
     (\<exists>f bidA askA tsA bidB askB tsB. map_of (xr_formulas c) (em_pair e) = Some f \<and>
        map_of (xr_legCache c) (cf_LegA f) = Some (bidA, askA, tsA) \<and> map_of (xr_legCache c) (cf_LegB f) = Some (bidB, askB, tsB) \<and>
        em_now e - tsA \<le> xr_maxStaleness c \<and> em_now e - tsB \<le> xr_maxStaleness c \<and>
        ComputeCross f (bidA, askA) (bidB, askB) = Inr (em_bid e, em_ask e))"

lemma maybeEmit_sound:
  assumes "e \<in> set (fst (maybeEmitCross marshal (since, now) x t c))"
  shows "emission_ok c e"
proof -
  obtain f where f: "map_of (xr_formulas c) x = Some f"
    using assms by (auto simp: maybeEmitCross_def split: option.splits if_splits)
  obtain bidA askA tsA bidB askB tsB where l: "map_of (xr_legCache c) (cf_LegA f) = Some (bidA, askA, tsA)"
      "map_of (xr_legCache c) (cf_LegB f) = Some (bidB, askB, tsB)"
    using assms f by (auto simp: maybeEmitCross_def split: option.splits if_splits)
  obtain bid ask where r: "ComputeCross f (bidA, askA) (bidB, askB) = Inr (bid, ask)"
      "\<not> (now - tsA > xr_maxStaleness c \<or> now - tsB > xr_maxStaleness c)"
    using assms f l by (auto simp: maybeEmitCross_def split: option.splits if_splits sum.splits)
  have "em_pair e = x" "em_bid e = bid" "em_ask e = ask" "em_now e = now" "tk_Source (em_tick e) = SourceCross"
    using assms f l r by (auto simp: maybeEmitCross_def cross_tick_def Let_def split: option.splits if_splits)
  then show ?thesis using f l r by (auto simp: emission_ok_def)
qed

lemma emission_ok_cong:
  "xr_formulas c' = xr_formulas c \<Longrightarrow> xr_legCache c' = xr_legCache c \<Longrightarrow> xr_maxStaleness c' = xr_maxStaleness c \<Longrightarrow>
     emission_ok c' e = emission_ok c e"
  by (simp add: emission_ok_def)

lemma emit_loop_sound: "e \<in> set (fst (emit_loop marshal clk k xs t c)) \<Longrightarrow> emission_ok c e"
proof (induction xs arbitrary: k c)
  case (Cons x xs)
  let ?c1 = "snd (maybeEmitCross marshal (clk k) x t c)"
  have "e \<in> set (fst (maybeEmitCross marshal (clk k) x t c)) \<or> e \<in> set (fst (emit_loop marshal clk (Suc k) xs t ?c1))"
    using Cons.prems by (auto simp: split_beta Let_def)
  then show ?case
  proof
    assume "e \<in> set (fst (maybeEmitCross marshal (clk k) x t c))"
    then show ?thesis using maybeEmit_sound by (metis prod.collapse)
  next
    assume "e \<in> set (fst (emit_loop marshal clk (Suc k) xs t ?c1))"
    from Cons.IH [OF this] show ?thesis using emission_ok_cong [of ?c1 c e] maybeEmit_keeps by simp
  qed
qed simp

lemma OnTick_sound:
  "e \<in> set (fst (Cross_OnTick unmarshal marshal ts clk t c)) \<Longrightarrow> emission_ok (snd (Cross_OnTick unmarshal marshal ts clk t c)) e"
proof -
  assume e: "e \<in> set (fst (Cross_OnTick unmarshal marshal ts clk t c))"
  then obtain c1 xs where o: "Cross_OnTick unmarshal marshal ts clk t c = emit_loop marshal clk 0 xs t c1"
    by (auto simp: Cross_OnTick_def Let_def split: if_splits option.splits sum.splits)
  show ?thesis using emit_loop_sound [of e marshal clk 0 xs t c1] e emission_ok_cong [of "snd (emit_loop marshal clk 0 xs t c1)" c1 e]
    unfolding o by (simp add: emit_loop_keeps)
qed

text \<open>C28: After every history of ticks and of replaced formulas and masters, a cross tick rests on a registered formula and
  on the latest accepted quotes of both legs, neither of them older than the limit at that time; its bid is not negative
  and at most its ask, when both are numbers, and it carries the source CROSS, which the consumer itself ignores.\<close>

theorem cross_emissions_sound:
  assumes "json_finite unmarshal" "xr_reach unmarshal marshal c" "e \<in> set (fst (Cross_OnTick unmarshal marshal ts clk t c))"
  shows "emission_ok (snd (Cross_OnTick unmarshal marshal ts clk t c)) e \<and>
     (\<not> f_isnan (em_bid e) \<and> \<not> f_isnan (em_ask e) \<longrightarrow> f_le f_zero (em_bid e) \<and> f_le (em_bid e) (em_ask e)) \<and>
     (\<forall>ts' clk' d. Cross_OnTick unmarshal marshal ts' clk' (em_tick e) d = ([], d))"
proof -
  let ?c = "snd (Cross_OnTick unmarshal marshal ts clk t c)"
  have ok: "emission_ok ?c e" using OnTick_sound [OF assms(3)] .
  then obtain f bidA askA tsA bidB askB tsB where l: "map_of (xr_legCache ?c) (cf_LegA f) = Some (bidA, askA, tsA)"
      "map_of (xr_legCache ?c) (cf_LegB f) = Some (bidB, askB, tsB)"
      "ComputeCross f (bidA, askA) (bidB, askB) = Inr (em_bid e, em_ask e)"
    by (auto simp: emission_ok_def)
  have "legs_ok ?c" using reach_legs [OF assms(1) xr_reach.tick [OF assms(2)]] .
  then have "leg_ok (bidA, askA)" "leg_ok (bidB, askB)" using l by (auto simp: legs_ok_def)
  from cross_le [OF this, of f] have "\<not> f_isnan (em_bid e) \<and> \<not> f_isnan (em_ask e) \<longrightarrow> f_le f_zero (em_bid e) \<and> f_le (em_bid e) (em_ask e)"
    using l(3) by simp
  moreover have "tk_Source (em_tick e) = SourceCross" using ok by (simp add: emission_ok_def)
  then have "\<forall>ts' clk' d. Cross_OnTick unmarshal marshal ts' clk' (em_tick e) d = ([], d)" by (simp add: Cross_OnTick_def)
  ultimately show ?thesis using ok by simp
qed

definition cross_unmarshal :: "bytes \<Rightarrow> JSONEnvelope option" where
  "cross_unmarshal b = Some (if b = [65] then cross_envelope ''EUR/USD'' (f_of_int 2) (f_of_int 3) 0
     else cross_envelope ''USD/KRW'' (f_of_int 1300) (f_of_int 1301) 0)"

definition leg_tick :: "string \<Rightarrow> bytes \<Rightarrow> Tick" where
  "leg_tick s body = \<lparr>tk_MarketID = 1, tk_Symbol = s, tk_SeqNum = 1, tk_Mask = 0, tk_Type = 0, tk_Flag = 0, tk_Body = body,
     tk_Received = 0, tk_Source = ''BEST''\<rparr>"

definition eur_krw :: CrossFormula where
  "eur_krw = \<lparr>cf_LegA = ''EUR/USD'', cf_OpA = ''mul'', cf_LegB = ''USD/KRW'', cf_OpB = ''mul'', cf_Scale = f_of_int 1\<rparr>"

definition cross_start :: CrossRateConsumer where
  "cross_start = ReplaceFormulas (\<lambda>m. m) [(''EUR/KRW'', eur_krw)] (NewCrossRateConsumer None None 0 0)"

definition cross_mid :: CrossRateConsumer where
  "cross_mid = snd (Cross_OnTick cross_unmarshal (\<lambda>e. Some [7]) 1 (\<lambda>k. (2, 2)) (leg_tick ''EUR/USD'' [65]) cross_start)"

lemma cross_decode:
  "DecodeJSONEnvelope cross_unmarshal [65] = Inr (cross_envelope ''EUR/USD'' (f_of_int 2) (f_of_int 3) 0)"
  "DecodeJSONEnvelope cross_unmarshal [66] = Inr (cross_envelope ''USD/KRW'' (f_of_int 1300) (f_of_int 1301) 0)"
  by (simp_all add: DecodeJSONEnvelope_def cross_unmarshal_def check_envelope_def trim_nuls_def trim_spaces_def byte_space_def
      cross_envelope_def)

lemma cross_mid_state:
  "xr_legCache cross_mid = [(''EUR/USD'', (f_of_int 2, f_of_int 3, 1))]" "xr_formulas cross_mid = [(''EUR/KRW'', eur_krw)]"
  "xr_leg2cross cross_mid = [(''EUR/USD'', [''EUR/KRW'']), (''USD/KRW'', [''EUR/KRW''])]" "xr_debounce cross_mid = []"
  "xr_maxStaleness cross_mid = 30000000000" "xr_pairs cross_mid = None" "xr_symbols cross_mid = None"
  by (simp_all add: cross_mid_def Cross_OnTick_def leg_tick_def cross_start_def ReplaceFormulas_def NewCrossRateConsumer_def
      lookupPair_def cross_decode push_cross_def eur_krw_def cross_envelope_def maybeEmitCross_def)

lemma cross_mid_emits:
  "\<exists>e. fst (Cross_OnTick cross_unmarshal (\<lambda>e. Some [7]) 4 (\<lambda>k. (5, 6)) (leg_tick ''USD/KRW'' [66]) cross_mid) = [e] \<and>
     em_bid e = f_of_int 2600 \<and> em_ask e = f_of_int 3903"
proof -
  have c: "ComputeCross eur_krw (f_of_int 2, f_of_int 3) (f_of_int 1300, f_of_int 1301) = Inr (f_of_int 2600, f_of_int 3903)"
    by (simp add: ComputeCross_def crossBidContrib_def crossAskContrib_def eur_krw_def)
  have l: "cf_LegA eur_krw = ''EUR/USD''" "cf_LegB eur_krw = ''USD/KRW''" by (simp_all add: eur_krw_def)
  show ?thesis
    by (simp add: Cross_OnTick_def leg_tick_def lookupPair_def cross_mid_state cross_decode cross_envelope_def maybeEmitCross_def c l Let_def)
qed

theorem cross_emissions_sound_witness:
  "\<exists>e. fst (Cross_OnTick cross_unmarshal (\<lambda>e. Some [7]) 4 (\<lambda>k. (5, 6)) (leg_tick ''USD/KRW'' [66]) cross_mid) = [e] \<and>
     emission_ok (snd (Cross_OnTick cross_unmarshal (\<lambda>e. Some [7]) 4 (\<lambda>k. (5, 6)) (leg_tick ''USD/KRW'' [66]) cross_mid)) e"
proof -
  have j: "json_finite cross_unmarshal" by (simp add: json_finite_def cross_unmarshal_def cross_envelope_def)
  have r: "xr_reach cross_unmarshal (\<lambda>e. Some [7]) cross_mid"
    unfolding cross_mid_def cross_start_def by (intro xr_reach.intros)
  obtain e where e: "fst (Cross_OnTick cross_unmarshal (\<lambda>e. Some [7]) 4 (\<lambda>k. (5, 6)) (leg_tick ''USD/KRW'' [66]) cross_mid) = [e]"
    using cross_mid_emits by blast
  then have "e \<in> set (fst (Cross_OnTick cross_unmarshal (\<lambda>e. Some [7]) 4 (\<lambda>k. (5, 6)) (leg_tick ''USD/KRW'' [66]) cross_mid))" by simp
  from cross_emissions_sound [OF j r this] e show ?thesis by blast
qed

end
