(* ===== verification/Quote_Lock.thy ===== *)
theory Quote_Lock
  imports Quote_Validation Pricing_Engine Price_Best Price_Cross
begin

text \<open>
  Locking a price for a deal, src/internal/price/forward_lock.go and swap_lock.go: the current best
  quote is priced for the customer, a quote identifier is issued and the record goes to the registry;
  for a swap both legs and the index entry are registered, and revoked when a later step fails.
  A request is given after the JSON decoding; None as a result stands for a call that does not return
  because of a cyclic chain of complement windows.  The handler runs on its own generator: other
  users of the generator change the sequence numbers only.  The amount of a request, which no step reads,
  is left out.
\<close>

section \<open>Requests and answers\<close>

record SwapLeg =
  sg_Tenor :: string
  sg_ValueDate :: string

record SwapLockRequest =
  sq_Pair :: string
  sq_Near :: SwapLeg
  sq_Far :: SwapLeg
  sq_Profile :: string
  sq_CustomerID :: string
  sq_Side :: string

record ForwardLockRequest =
  fq_Pair :: string
  fq_Tenor :: string
  fq_ValueDate :: string
  fq_Profile :: string
  fq_CustomerID :: string
  fq_Side :: string

record ForwardLockInterpolation =
  fi_OffsetDays :: int
  fi_From :: string
  fi_To :: string
  fi_Weight :: float64
  fi_SwapBid :: float64
  fi_SwapAsk :: float64
  fi_Exact :: bool

record SwapLegResult =
  lr_QuoteID :: string
  lr_Tenor :: string
  lr_ValueDate :: string
  lr_Bid :: float64
  lr_Ask :: float64
  lr_RawBid :: float64
  lr_RawAsk :: float64
  lr_SwapBid :: float64
  lr_SwapAsk :: float64
  lr_Interpolation :: "ForwardLockInterpolation option"

record SwapLockResponse =
  sp_SwapID :: string
  sp_Pair :: string
  sp_Profile :: string
  sp_CustomerID :: string
  sp_Side :: string
  sp_IssuedUnixNano :: int
  sp_ValidUntilUnixNano :: int
  sp_TableVersion :: int
  sp_Near :: SwapLegResult
  sp_Far :: SwapLegResult
  sp_BidDiff :: float64
  sp_AskDiff :: float64

record ForwardLockResponse =
  fp_QuoteID :: string
  fp_Pair :: string
  fp_Tenor :: string
  fp_ValueDate :: string
  fp_Profile :: string
  fp_CustomerID :: string
  fp_Side :: string
  fp_Bid :: float64
  fp_Ask :: float64
  fp_RawBid :: float64
  fp_RawAsk :: float64
  fp_IssuedUnixNano :: int
  fp_ValidUntilUnixNano :: int
  fp_TableVersion :: int
  fp_Interpolation :: "ForwardLockInterpolation option"

datatype leg_error = SwapSameLeg | SwapLegInvert | SwapLegMissing | BadValueDate | BadInterpolation swap_error

datatype lock_error =
    PostRequired | BadJSON | PairProfileRequired | BadLegs leg_error | BadProfile | NoBest | NoSnapshot string | NoTable
  | LegFailed leg_error | NotWired | PutFailed string reg_error

datatype 'a http_answer = NoContent | HttpError nat lock_error | HttpReply 'a

text \<open>What a handler reads: \<open>ld_Best\<close> is the statistics of the BEST consumer, \<open>ld_Table\<close> the loaded table,
  \<open>ld_wired\<close> says that generator, registry and (for swaps) index are present.\<close>

record LockDeps =
  ld_Best :: "(string \<times> BestSymbolStat) list option"
  ld_Cross :: "CrossRateConsumer option"
  ld_Table :: "PricingTable option"
  ld_wired :: bool
  ld_Validity :: int
  ld_SpotDays :: int

section \<open>The parts of the handlers\<close>

text \<open>parseValueDate: \<open>date\<close> reads the layout 2006-01-02 and \<open>rfc\<close> RFC3339, each as the day of the time.\<close>

definition parseValueDate :: "(string \<Rightarrow> int option) \<Rightarrow> (string \<Rightarrow> int option) \<Rightarrow> string \<Rightarrow> gotime option" where
  "parseValueDate date rfc s =
     (case date s of
        Some d \<Rightarrow> Some (utc_day d)
      | None \<Rightarrow> (case rfc s of Some d \<Rightarrow> Some (utc_day d) | None \<Rightarrow> None))"

datatype legKindEnum = legKindMissing | legKindTenor | legKindValueDate

definition legKind :: "SwapLeg \<Rightarrow> legKindEnum" where
  "legKind l = (if sg_ValueDate l \<noteq> [] then legKindValueDate else if sg_Tenor l \<noteq> [] then legKindTenor else legKindMissing)"

definition validateSwapLegs :: "(string \<Rightarrow> gotime option) \<Rightarrow> SwapLeg \<Rightarrow> SwapLeg \<Rightarrow> leg_error option" where
  "validateSwapLegs parse near far =
     (let nk = legKind near; fk = legKind far
      in if nk = legKindMissing \<or> fk = legKindMissing then Some SwapLegMissing
         else if nk = legKindTenor \<and> fk = legKindTenor \<and> sg_Tenor near = sg_Tenor far then Some SwapSameLeg
         else if nk = legKindValueDate \<and> fk = legKindValueDate \<and> sg_ValueDate near = sg_ValueDate far then Some SwapSameLeg
         else if nk = legKindValueDate \<and> fk = legKindValueDate then
           (case parse (sg_ValueDate near) of
              None \<Rightarrow> Some BadValueDate
            | Some nv \<Rightarrow>
                (case parse (sg_ValueDate far) of
                   None \<Rightarrow> Some BadValueDate
                 | Some fv \<Rightarrow> if \<not> gt_ns nv < gt_ns fv then Some SwapLegInvert else None))
         else None)"

definition zero_interp :: SwapInterpolation where
  "zero_interp = \<lparr>si_Margin = zero_Margin, si_From = [], si_To = [], si_FromDays = 0, si_ToDays = 0, si_OffsetDays = 0,
     si_Weight = f_zero, si_Exact = False\<rparr>"

text \<open>\<open>zone\<close>, \<open>iw\<close> and \<open>is\<close> are the time zone database and the orders in which windows and swap points are
  visited.\<close>

definition applyLeg ::
  "(string \<Rightarrow> (int \<Rightarrow> int) option) \<Rightarrow> ((string \<times> TimeWindowRule) list \<Rightarrow> (string \<times> TimeWindowRule) list) \<Rightarrow>
     ((SwapKey \<times> Margin) list \<Rightarrow> (SwapKey \<times> Margin) list) \<Rightarrow> (string \<Rightarrow> gotime option) \<Rightarrow>
     PricingTable \<Rightarrow> Quote \<Rightarrow> Profile \<Rightarrow> SwapLeg \<Rightarrow> int \<Rightarrow> gotime \<Rightarrow> string \<Rightarrow>
     (leg_error + CustomerQuote \<times> SwapInterpolation \<times> bool) option" where
  "applyLeg zone iw is parse tbl raw profile leg spotDays now customerID =
     (if sg_ValueDate leg \<noteq> [] then
        (case parse (sg_ValueDate leg) of
           None \<Rightarrow> Some (Inl BadValueDate)
         | Some vd \<Rightarrow>
             (let days = (if spotDays \<le> 0 then 2 else spotDays)
              in case ApplyForValueDate zone iw is now raw profile vd now days customerID tbl of
                   None \<Rightarrow> None
                 | Some (Inl e) \<Rightarrow> Some (Inl (BadInterpolation e))
                 | Some (Inr (cq, interp)) \<Rightarrow> Some (Inr (cq, interp, True))))
      else (case ApplyForCustomer zone iw (gt_ns now) raw profile (sg_Tenor leg) (gt_ns now) customerID tbl of
          None \<Rightarrow> None
        | Some cq \<Rightarrow> Some (Inr (cq, zero_interp, False))))"

definition buildLegRecord ::
  "(string \<Rightarrow> gotime option) \<Rightarrow> QuoteID \<Rightarrow> CustomerQuote \<Rightarrow> Profile \<Rightarrow> u64 \<Rightarrow> string \<Rightarrow> int \<Rightarrow> int \<Rightarrow> bool \<Rightarrow>
     SwapInterpolation \<Rightarrow> string \<Rightarrow> QuoteRecord" where
  "buildLegRecord parse i cq profile seq issuer issued validUntil broken interp valueDateStr =
     (let rec = zero_QuoteRecord\<lparr>q_QuoteID := i, q_Pair := cq_Pair cq, q_Profile := profile, q_Tenor := cq_Tenor cq,
          q_Bid := cq_Bid cq, q_Ask := cq_Ask cq, q_IssuedAt := issued, q_ValidUntil := validUntil, q_Sequence := seq,
          q_Issuer := issuer\<rparr>
      in if broken then
           rec\<lparr>q_ValueDate := (case parse valueDateStr of None \<Rightarrow> 0 | Some vd \<Rightarrow> gt_ns vd), q_OffsetDays := si_OffsetDays interp,
             q_InterpolatedFrom := si_From interp, q_InterpolatedTo := si_To interp,
             q_InterpolationWeight := si_Weight interp, q_SwapBid := mg_BidAmount (si_Margin interp),
             q_SwapAsk := mg_AskAmount (si_Margin interp)\<rparr>
         else rec)"

definition interpolation_of :: "bool \<Rightarrow> SwapInterpolation \<Rightarrow> ForwardLockInterpolation option" where
  "interpolation_of broken interp =
     (if broken then Some \<lparr>fi_OffsetDays = si_OffsetDays interp, fi_From = si_From interp, fi_To = si_To interp,
        fi_Weight = si_Weight interp, fi_SwapBid = mg_BidAmount (si_Margin interp),
        fi_SwapAsk = mg_AskAmount (si_Margin interp), fi_Exact = si_Exact interp\<rparr>
      else None)"

definition buildLegResult ::
  "string \<Rightarrow> CustomerQuote \<Rightarrow> float64 \<Rightarrow> float64 \<Rightarrow> string \<Rightarrow> bool \<Rightarrow> SwapInterpolation \<Rightarrow> bool \<Rightarrow> SwapLegResult" where
  "buildLegResult i cq rawBid rawAsk valueDate broken interp isFar =
     \<lparr>lr_QuoteID = i, lr_Tenor = cq_Tenor cq, lr_ValueDate = valueDate, lr_Bid = cq_Bid cq, lr_Ask = cq_Ask cq,
      lr_RawBid = rawBid, lr_RawAsk = rawAsk,
      lr_SwapBid = (if isFar then mg_BidAmount (si_Margin interp) else f_zero),
      lr_SwapAsk = (if isFar then mg_AskAmount (si_Margin interp) else f_zero),
      lr_Interpolation = interpolation_of broken interp\<rparr>"

definition pair_symbol :: "string \<Rightarrow> string" where
  "pair_symbol pair = filter (\<lambda>c. c \<noteq> CHR ''/'') pair"

definition lookupSpotRawForSwap ::
  "int \<Rightarrow> CrossRateConsumer option \<Rightarrow> (string \<times> BestSymbolStat) list \<Rightarrow> string \<Rightarrow> (float64 \<times> float64) option" where
  "lookupSpotRawForSwap now cross best pair =
     (case map_of best (pair_symbol pair) of
        Some s \<Rightarrow> Some (bs_BestBid s, bs_BestAsk s)
      | None \<Rightarrow>
          (case cross of
             None \<Rightarrow> None
           | Some c \<Rightarrow>
               (case LatestCross now pair c of
                  Some (b, a, _, isStale) \<Rightarrow> if isStale then None else Some (b, a)
                | None \<Rightarrow> None)))"

section \<open>Registering both legs\<close>

record AtomicSwapLockMetrics =
  sm_requests :: u64
  sm_successes :: u64
  sm_failNear :: u64
  sm_failFar :: u64
  sm_failSwapIndex :: u64
  sm_revokeOK :: u64
  sm_revokeFail :: u64

definition OnRequest :: "AtomicSwapLockMetrics \<Rightarrow> AtomicSwapLockMetrics" where
  "OnRequest k = k\<lparr>sm_requests := sm_requests k + 1\<rparr>"

definition OnSuccess :: "AtomicSwapLockMetrics \<Rightarrow> AtomicSwapLockMetrics" where
  "OnSuccess k = k\<lparr>sm_successes := sm_successes k + 1\<rparr>"

definition OnPartialFailure :: "string \<Rightarrow> AtomicSwapLockMetrics \<Rightarrow> AtomicSwapLockMetrics" where
  "OnPartialFailure stage k =
     (if stage = ''near'' then k\<lparr>sm_failNear := sm_failNear k + 1\<rparr>
      else if stage = ''far'' then k\<lparr>sm_failFar := sm_failFar k + 1\<rparr>
      else if stage = ''swap_index'' then k\<lparr>sm_failSwapIndex := sm_failSwapIndex k + 1\<rparr>
      else k)"

definition OnRevoke :: "string \<Rightarrow> AtomicSwapLockMetrics \<Rightarrow> AtomicSwapLockMetrics" where
  "OnRevoke outcome k =
     (if outcome = ''ok'' then k\<lparr>sm_revokeOK := sm_revokeOK k + 1\<rparr> else k\<lparr>sm_revokeFail := sm_revokeFail k + 1\<rparr>)"

definition revokeLeg ::
  "'r SwapIndex \<Rightarrow> clock \<Rightarrow> QuoteID \<Rightarrow> AtomicSwapLockMetrics \<times> 'r \<Rightarrow> AtomicSwapLockMetrics \<times> 'r" where
  "revokeLeg idx clk i = (\<lambda>(k, r).
     case idx_Delete idx clk i r of
       (Some e, r') \<Rightarrow> (OnRevoke ''fail'' k, r')
     | (None, r') \<Rightarrow> (OnRevoke ''ok'' k, r'))"

definition putSwapAtomic ::
  "'r Registry \<Rightarrow> 'r SwapIndex \<Rightarrow> (nat \<Rightarrow> clock) \<Rightarrow> QuoteRecord \<Rightarrow> QuoteRecord \<Rightarrow> SwapRecord \<Rightarrow> AtomicSwapLockMetrics \<times> 'r \<Rightarrow>
     lock_error option \<times> AtomicSwapLockMetrics \<times> 'r" where
  "putSwapAtomic reg idx rc near far sw = (\<lambda>(k, r).
     case reg_Put reg (rc 0) near r of
       (Some e, r1) \<Rightarrow> (Some (PutFailed ''near'' e), OnPartialFailure ''near'' k, r1)
     | (None, r1) \<Rightarrow>
         (case reg_Put reg (rc 1) far r1 of
            (Some e, r2) \<Rightarrow>
              (Some (PutFailed ''far'' e), revokeLeg idx (rc 2) (q_QuoteID near) (OnPartialFailure ''far'' k, r2))
          | (None, r2) \<Rightarrow>
              (case idx_PutSwap idx (rc 2) sw r2 of
                 (Some e, r3) \<Rightarrow>
                   (Some (PutFailed ''swap_index'' e),
                    revokeLeg idx (rc 4) (q_QuoteID far)
                      (revokeLeg idx (rc 3) (q_QuoteID near) (OnPartialFailure ''swap_index'' k, r3)))
               | (None, r3) \<Rightarrow> (None, k, r3))))"

section \<open>The handlers\<close>

text \<open>The identifiers of a swap: three calls of Next at the millisecond readings \<open>ms\<close>.\<close>

definition swap_ids :: "clock \<Rightarrow> Generator \<Rightarrow> (QuoteID \<times> u64) \<times> (QuoteID \<times> u64) \<times> string \<times> Generator" where
  "swap_ids ms g =
     (let (nearID, g1) = Generator_Next (ms 0) g; nearSeq = NextSequence g1;
          (farID, g2) = Generator_Next (ms 1) g1; farSeq = NextSequence g2;
          (sid, g3) = Generator_Next (ms 2) g2
      in ((nearID, nearSeq), (farID, farSeq), ''SW-'' @ sid, g3))"

definition validity_of :: "int \<Rightarrow> int" where
  "validity_of v = (if v \<le> 0 then 500000000 else v)"

text \<open>The end of the swap handler: identifiers, records, registration and the answer.\<close>

definition swap_issue ::
  "'r Registry \<Rightarrow> 'r SwapIndex \<Rightarrow> (string \<Rightarrow> gotime option) \<Rightarrow> clock \<Rightarrow> (nat \<Rightarrow> clock) \<Rightarrow> LockDeps \<Rightarrow> SwapLockRequest \<Rightarrow>
     PricingTable \<Rightarrow> Profile \<Rightarrow> float64 \<Rightarrow> float64 \<Rightarrow> gotime \<Rightarrow> CustomerQuote \<times> SwapInterpolation \<times> bool \<Rightarrow>
     CustomerQuote \<times> SwapInterpolation \<times> bool \<Rightarrow> Generator \<times> AtomicSwapLockMetrics \<times> 'r \<Rightarrow>
     SwapLockResponse http_answer \<times> Generator \<times> AtomicSwapLockMetrics \<times> 'r" where
  "swap_issue reg idx parse ms rc deps req tbl profile rawBid rawAsk now =
     (\<lambda>(nearCQ, nearInterp, nearBroken) (farCQ, farInterp, farBroken) (g, k, r).
       let validUntil = gt_ns now + validity_of (ld_Validity deps)
       in if \<not> ld_wired deps then (HttpError 503 NotWired, g, k, r)
          else let ((nearID, nearSeq), (farID, farSeq), swapID, g') = swap_ids ms g;
                   nearRec = buildLegRecord parse nearID nearCQ profile nearSeq (g_instance g) (gt_ns now) validUntil
                     nearBroken nearInterp (sg_ValueDate (sq_Near req));
                   farRec = buildLegRecord parse farID farCQ profile farSeq (g_instance g) (gt_ns now) validUntil
                     farBroken farInterp (sg_ValueDate (sq_Far req));
                   swapRec = \<lparr>w_SwapID = swapID, w_NearID = nearID, w_FarID = farID, w_IssuedAt = gt_ns now,
                     w_ValidUntil = validUntil, w_Issuer = g_instance g\<rparr>
               in case putSwapAtomic reg idx rc nearRec farRec swapRec (k, r) of
                    (Some e, k', r') \<Rightarrow> (HttpError 503 e, g', k', r')
                  | (None, k', r') \<Rightarrow>
                      (HttpReply \<lparr>sp_SwapID = swapID, sp_Pair = sq_Pair req, sp_Profile = sq_Profile req,
                         sp_CustomerID = sq_CustomerID req, sp_Side = sq_Side req, sp_IssuedUnixNano = gt_ns now,
                         sp_ValidUntilUnixNano = validUntil, sp_TableVersion = pt_Version tbl,
                         sp_Near = buildLegResult nearID nearCQ rawBid rawAsk (sg_ValueDate (sq_Near req)) nearBroken nearInterp False,
                         sp_Far = buildLegResult farID farCQ rawBid rawAsk (sg_ValueDate (sq_Far req)) farBroken farInterp True,
                         sp_BidDiff = f_sub (cq_Bid farCQ) (cq_Bid nearCQ), sp_AskDiff = f_sub (cq_Ask farCQ) (cq_Ask nearCQ)\<rparr>,
                       g', OnSuccess k', r'))"

definition trim_leg :: "SwapLeg \<Rightarrow> SwapLeg" where
  "trim_leg l = \<lparr>sg_Tenor = TrimSpace (sg_Tenor l), sg_ValueDate = TrimSpace (sg_ValueDate l)\<rparr>"

definition trim_swap :: "SwapLockRequest \<Rightarrow> SwapLockRequest" where
  "trim_swap r = r\<lparr>sq_Pair := TrimSpace (sq_Pair r), sq_Profile := TrimSpace (sq_Profile r), sq_Near := trim_leg (sq_Near r),
     sq_Far := trim_leg (sq_Far r)\<rparr>"

text \<open>\<open>req\<close> is None when the body is no JSON; \<open>nowC\<close> is the reading of the cross-rate cache.\<close>

definition SwapLockHandler ::
  "'r Registry \<Rightarrow> 'r SwapIndex \<Rightarrow> (string \<Rightarrow> (int \<Rightarrow> int) option) \<Rightarrow>
     ((string \<times> TimeWindowRule) list \<Rightarrow> (string \<times> TimeWindowRule) list) \<Rightarrow>
     ((SwapKey \<times> Margin) list \<Rightarrow> (SwapKey \<times> Margin) list) \<Rightarrow> (string \<Rightarrow> gotime option) \<Rightarrow> int \<Rightarrow> gotime \<Rightarrow> clock \<Rightarrow>
     (nat \<Rightarrow> clock) \<Rightarrow> LockDeps \<Rightarrow> bool \<Rightarrow> string \<Rightarrow> SwapLockRequest option \<Rightarrow> Generator \<times> AtomicSwapLockMetrics \<times> 'r \<Rightarrow>
     (SwapLockResponse http_answer \<times> Generator \<times> AtomicSwapLockMetrics \<times> 'r) option" where
  "SwapLockHandler reg idx zone iw is parse nowC now ms rc deps devMode verb req = (\<lambda>(g, k0, r).
     if devMode \<and> verb = ''OPTIONS'' then Some (NoContent, g, k0, r)
     else if verb \<noteq> ''POST'' then Some (HttpError 405 PostRequired, g, k0, r)
     else let k = OnRequest k0
          in case req of
               None \<Rightarrow> Some (HttpError 400 BadJSON, g, k, r)
             | Some req0 \<Rightarrow>
                 (let q = trim_swap req0
                  in if sq_Pair q = [] \<or> sq_Profile q = [] then Some (HttpError 400 PairProfileRequired, g, k, r)
                     else (case validateSwapLegs parse (sq_Near q) (sq_Far q) of
                         Some e \<Rightarrow> Some (HttpError 400 (BadLegs e), g, k, r)
                       | None \<Rightarrow>
                           (case ParseProfileKey (sq_Profile q) of
                              None \<Rightarrow> Some (HttpError 400 BadProfile, g, k, r)
                            | Some profile \<Rightarrow>
                                (case ld_Best deps of
                                   None \<Rightarrow> Some (HttpError 503 NoBest, g, k, r)
                                 | Some best \<Rightarrow>
                                     (case lookupSpotRawForSwap nowC (ld_Cross deps) best (sq_Pair q) of
                                        None \<Rightarrow> Some (HttpError 404 (NoSnapshot (sq_Pair q)), g, k, r)
                                      | Some (rawBid, rawAsk) \<Rightarrow>
                                          (case ld_Table deps of
                                             None \<Rightarrow> Some (HttpError 503 NoTable, g, k, r)
                                           | Some tbl \<Rightarrow>
                                               (let raw = \<lparr>qt_Pair = sq_Pair q, qt_Bid = rawBid, qt_Ask = rawAsk, qt_TS = gt_ns now,
                                                      qt_BidSize = f_zero, qt_AskSize = f_zero\<rparr>
                                                in case applyLeg zone iw is parse tbl raw profile (sq_Near q) (ld_SpotDays deps) now
                                                       (sq_CustomerID q) of
                                                     None \<Rightarrow> None
                                                   | Some (Inl e) \<Rightarrow> Some (HttpError 400 (LegFailed e), g, k, r)
                                                   | Some (Inr near) \<Rightarrow>
                                                       (case applyLeg zone iw is parse tbl raw profile (sq_Far q) (ld_SpotDays deps) now
                                                            (sq_CustomerID q) of
                                                          None \<Rightarrow> None
                                                        | Some (Inl e) \<Rightarrow> Some (HttpError 400 (LegFailed e), g, k, r)
                                                        | Some (Inr far) \<Rightarrow>
                                                            Some (swap_issue reg idx parse ms rc deps q tbl profile rawBid rawAsk now
                                                              near far (g, k, r)))))))))))"

text \<open>UnixNano of the zero time, which a lock without a generator reports, does not fit 64 bits and wraps.\<close>

definition zero_UnixNano :: int where
  "zero_UnixNano = sint (word_of_int go_zero_time :: u64)"

definition trim_forward :: "ForwardLockRequest \<Rightarrow> ForwardLockRequest" where
  "trim_forward r = r\<lparr>fq_Pair := TrimSpace (fq_Pair r), fq_Tenor := TrimSpace (fq_Tenor r),
     fq_ValueDate := TrimSpace (fq_ValueDate r), fq_Profile := TrimSpace (fq_Profile r)\<rparr>"

definition forward_leg :: "ForwardLockRequest \<Rightarrow> SwapLeg" where
  "forward_leg q = \<lparr>sg_Tenor = (if fq_Tenor q = [] \<and> fq_ValueDate q = [] then ''SPOT'' else fq_Tenor q), sg_ValueDate = fq_ValueDate q\<rparr>"

text \<open>The end of the forward handler.  A record that the registry refuses is not reported.\<close>

definition forward_issue ::
  "'r Registry \<Rightarrow> (string \<Rightarrow> gotime option) \<Rightarrow> clock \<Rightarrow> clock \<Rightarrow> LockDeps \<Rightarrow> ForwardLockRequest \<Rightarrow> PricingTable \<Rightarrow> Profile \<Rightarrow>
     BestSymbolStat \<Rightarrow> gotime \<Rightarrow> CustomerQuote \<times> SwapInterpolation \<times> bool \<Rightarrow> Generator \<times> 'r \<Rightarrow>
     ForwardLockResponse \<times> Generator \<times> 'r" where
  "forward_issue reg parse ms rc deps q tbl profile spot now = (\<lambda>(cq, interp, broken) (g, r).
     let reply = \<lparr>fp_QuoteID = [], fp_Pair = fq_Pair q, fp_Tenor = cq_Tenor cq, fp_ValueDate = fq_ValueDate q,
           fp_Profile = fq_Profile q, fp_CustomerID = fq_CustomerID q, fp_Side = fq_Side q, fp_Bid = cq_Bid cq, fp_Ask = cq_Ask cq,
           fp_RawBid = bs_BestBid spot, fp_RawAsk = bs_BestAsk spot, fp_IssuedUnixNano = gt_ns now,
           fp_ValidUntilUnixNano = zero_UnixNano, fp_TableVersion = pt_Version tbl,
           fp_Interpolation = interpolation_of broken interp\<rparr>
     in if \<not> ld_wired deps then (reply, g, r)
        else let (i, g') = Generator_Next (ms 0) g; validUntil = gt_ns now + validity_of (ld_Validity deps);
                 rec = buildLegRecord parse i cq profile (NextSequence g') (g_instance g) (gt_ns now) validUntil broken interp
                   (fq_ValueDate q);
                 (_, r') = reg_Put reg rc rec r
             in (reply\<lparr>fp_QuoteID := i, fp_ValidUntilUnixNano := validUntil\<rparr>, g', r'))"

text \<open>The pricing branches of the handler are those of applyLeg with two spot days.\<close>

definition ForwardLockHandler ::
  "'r Registry \<Rightarrow> (string \<Rightarrow> (int \<Rightarrow> int) option) \<Rightarrow>
     ((string \<times> TimeWindowRule) list \<Rightarrow> (string \<times> TimeWindowRule) list) \<Rightarrow>
     ((SwapKey \<times> Margin) list \<Rightarrow> (SwapKey \<times> Margin) list) \<Rightarrow> (string \<Rightarrow> gotime option) \<Rightarrow> gotime \<Rightarrow> clock \<Rightarrow> clock \<Rightarrow>
     LockDeps \<Rightarrow> bool \<Rightarrow> string \<Rightarrow> ForwardLockRequest option \<Rightarrow> Generator \<times> 'r \<Rightarrow>
     (ForwardLockResponse http_answer \<times> Generator \<times> 'r) option" where
  "ForwardLockHandler reg zone iw is parse now ms rc deps devMode verb req = (\<lambda>(g, r).
     if devMode \<and> verb = ''OPTIONS'' then Some (NoContent, g, r)
     else if verb \<noteq> ''POST'' then Some (HttpError 405 PostRequired, g, r)
     else case req of
            None \<Rightarrow> Some (HttpError 400 BadJSON, g, r)
          | Some req0 \<Rightarrow>
              (let q = trim_forward req0
               in if fq_Pair q = [] \<or> fq_Profile q = [] then Some (HttpError 400 PairProfileRequired, g, r)
                  else (case ParseProfileKey (fq_Profile q) of
                      None \<Rightarrow> Some (HttpError 400 BadProfile, g, r)
                    | Some profile \<Rightarrow>
                        (case ld_Best deps of
                           None \<Rightarrow> Some (HttpError 503 NoBest, g, r)
                         | Some best \<Rightarrow>
                             (case map_of best (pair_symbol (fq_Pair q)) of
                                None \<Rightarrow> Some (HttpError 404 (NoSnapshot (pair_symbol (fq_Pair q))), g, r)
                              | Some spot \<Rightarrow>
                                  (case ld_Table deps of
                                     None \<Rightarrow> Some (HttpError 503 NoTable, g, r)
                                   | Some tbl \<Rightarrow>
                                       (let raw = \<lparr>qt_Pair = fq_Pair q, qt_Bid = bs_BestBid spot, qt_Ask = bs_BestAsk spot,
                                              qt_TS = gt_ns now, qt_BidSize = f_zero, qt_AskSize = f_zero\<rparr>
                                        in case applyLeg zone iw is parse tbl raw profile (forward_leg q) 2 now (fq_CustomerID q) of
                                             None \<Rightarrow> None
                                           | Some (Inl e) \<Rightarrow> Some (HttpError 400 (LegFailed e), g, r)
                                           | Some (Inr priced_leg) \<Rightarrow>
                                               (let (reply, g', r') = forward_issue reg parse ms rc deps q tbl profile spot now priced_leg (g, r)
                                                in Some (HttpReply reply, g', r')))))))))"

section \<open>All or nothing\<close>

text \<open>What the registration of a swap relies on: a refused record changes nothing, an accepted one is found
  under its identifier, and a deletion removes one identifier.\<close>

locale swap_store =
  fixes put :: "QuoteRecord \<Rightarrow> 'r \<Rightarrow> reg_error option \<times> 'r"
    and putSwap :: "SwapRecord \<Rightarrow> 'r \<Rightarrow> reg_error option \<times> 'r"
    and del :: "QuoteID \<Rightarrow> 'r \<Rightarrow> reg_error option \<times> 'r"
    and has :: "'r \<Rightarrow> QuoteID \<Rightarrow> QuoteRecord option"
    and hasSwap :: "'r \<Rightarrow> string \<Rightarrow> SwapRecord option"
  assumes put_ok: "put x r = (None, r') \<Longrightarrow> has r' = (has r)(q_QuoteID x \<mapsto> x) \<and> hasSwap r' = hasSwap r \<and> q_QuoteID x \<noteq> []"
    and put_err: "put x r = (Some e, r') \<Longrightarrow> has r' = has r \<and> hasSwap r' = hasSwap r"
    and putSwap_ok: "putSwap w r = (None, r') \<Longrightarrow> has r' = has r \<and> hasSwap r' = (hasSwap r)(w_SwapID w \<mapsto> w)"
    and putSwap_err: "putSwap w r = (Some e, r') \<Longrightarrow> has r' = has r \<and> hasSwap r' = hasSwap r"
    and del_ok: "i \<noteq> [] \<Longrightarrow> del i r = (d, r') \<Longrightarrow> d = None \<and> has r' = (has r)(i := None) \<and> hasSwap r' = hasSwap r"
begin

definition reg_of :: "'r Registry \<Rightarrow> bool" where
  "reg_of reg \<longleftrightarrow> (\<forall>clk. reg_Put reg clk = put)"

definition idx_of :: "'r SwapIndex \<Rightarrow> bool" where
  "idx_of idx \<longleftrightarrow> (\<forall>clk. idx_PutSwap idx clk = putSwap \<and> idx_Delete idx clk = del)"

lemma revoke_gone:
  assumes "idx_of idx" "i \<noteq> []" "revokeLeg idx clk i (k, r) = (k', r')"
  shows "has r' = (has r)(i := None) \<and> hasSwap r' = hasSwap r \<and> k' = OnRevoke ''ok'' k"
  using assms del_ok [OF assms(2), of r] by (auto simp: idx_of_def revokeLeg_def split: prod.splits option.splits)

lemma atomic:
  assumes "reg_of reg" "idx_of idx" "q_QuoteID near \<noteq> q_QuoteID far"
    and run: "putSwapAtomic reg idx rc near far sw (k, r) = (res, k', r')"
  shows "case res of
      None \<Rightarrow> has r' = (has r)(q_QuoteID near \<mapsto> near, q_QuoteID far \<mapsto> far) \<and> hasSwap r' = (hasSwap r)(w_SwapID sw \<mapsto> sw) \<and> k' = k
    | Some e \<Rightarrow> hasSwap r' = hasSwap r \<and>
        (has r (q_QuoteID near) = None \<and> has r (q_QuoteID far) = None \<longrightarrow> has r' = has r)"
proof -
  note laws = assms(1) [unfolded reg_of_def] assms(2) [unfolded idx_of_def]
  obtain e1 r1 where p1: "put near r = (e1, r1)" by fastforce
  obtain e2 r2 where p2: "put far r1 = (e2, r2)" by fastforce
  obtain e3 r3 where p3: "putSwap sw r2 = (e3, r3)" by fastforce
  show ?thesis
  proof (cases e1)
    case (Some e)
    with run p1 put_err [of near r e r1] show ?thesis by (auto simp: putSwapAtomic_def laws)
  next
    case n1: None
    note h1 = put_ok [OF p1 [unfolded n1]]
    show ?thesis
    proof (cases e2)
      case (Some e)
      with run p1 p2 n1 have "revokeLeg idx (rc 2) (q_QuoteID near) (OnPartialFailure ''far'' k, r2) = (k', r')" "res \<noteq> None"
        by (auto simp: putSwapAtomic_def laws)
      with revoke_gone [OF assms(2)] h1 put_err [OF p2 [unfolded Some]] show ?thesis
        by (auto simp: fun_eq_iff split: option.splits)
    next
      case n2: None
      note h2 = put_ok [OF p2 [unfolded n2]]
      show ?thesis
      proof (cases e3)
        case None
        with run p1 p2 p3 n1 n2 h1 h2 putSwap_ok [of sw r2 r3] show ?thesis by (auto simp: putSwapAtomic_def laws)
      next
        case (Some e)
        obtain ka ra where ra: "revokeLeg idx (rc 3) (q_QuoteID near) (OnPartialFailure ''swap_index'' k, r3) = (ka, ra)" by fastforce
        from run p1 p2 p3 n1 n2 Some ra have rb: "revokeLeg idx (rc 4) (q_QuoteID far) (ka, ra) = (k', r')" "res \<noteq> None"
          by (auto simp: putSwapAtomic_def laws)
        have "has ra = (has r3)(q_QuoteID near := None) \<and> hasSwap ra = hasSwap r3"
          using revoke_gone [OF assms(2) _ ra] h1 by simp
        moreover have "has r' = (has ra)(q_QuoteID far := None) \<and> hasSwap r' = hasSwap ra"
          using revoke_gone [OF assms(2) _ rb(1)] h2 by simp
        moreover note putSwap_err [OF p3 [unfolded Some]]
        ultimately show ?thesis using rb(2) h1 h2 by (auto simp: fun_eq_iff split: option.splits)
      qed
    qed
  qed
qed

end

interpretation lock_mem: swap_store "reg_Put mem_registry (\<lambda>_. 0)" "idx_PutSwap mem_index (\<lambda>_. 0)" "idx_Delete mem_index (\<lambda>_. 0)"
    "\<lambda>m. map_of (m_records m)" "\<lambda>m. map_of (m_swaps m)"
  by unfold_locales
    (auto simp: Registry_Put_def PutSwap_def Registry_Delete_def drop_id_def put_rec_def invalid_rec_def split: if_splits)

lemma mem_laws: "lock_mem.reg_of mem_registry" "lock_mem.idx_of mem_index"
  by (simp_all add: lock_mem.reg_of_def lock_mem.idx_of_def fun_eq_iff)

text \<open>C19: Registering a swap is all or nothing on the in-process registry: on success both leg records are
  found under their identifiers and the index holds the swap, everything else being unchanged; after an
  error at any stage neither the new identifiers nor the swap are left behind.\<close>

theorem swap_registration_atomic:
  assumes "q_QuoteID near \<noteq> q_QuoteID far"
    and "putSwapAtomic mem_registry mem_index rc near far sw (k, m) = (res, k', m')"
  shows "case res of
      None \<Rightarrow> map_of (m_records m') = (map_of (m_records m))(q_QuoteID near \<mapsto> near, q_QuoteID far \<mapsto> far) \<and>
        map_of (m_swaps m') = (map_of (m_swaps m))(w_SwapID sw \<mapsto> sw) \<and> k' = k
    | Some e \<Rightarrow> map_of (m_swaps m') = map_of (m_swaps m) \<and>
        (map_of (m_records m) (q_QuoteID near) = None \<and> map_of (m_records m) (q_QuoteID far) = None \<longrightarrow>
           map_of (m_records m') = map_of (m_records m))"
  using lock_mem.atomic [OF mem_laws assms] .

theorem swap_registration_atomic_witness:
  "(case fst (putSwapAtomic mem_registry mem_index (\<lambda>_ _. 0) sample_rec sample_far
       (sample_swap\<lparr>w_ValidUntil := 100\<rparr>) (\<lparr>sm_requests = 0, sm_successes = 0, sm_failNear = 0, sm_failFar = 0,
         sm_failSwapIndex = 0, sm_revokeOK = 0, sm_revokeFail = 0\<rparr>, NewMemoryRegistry 50)) of None \<Rightarrow> False | Some e \<Rightarrow> True) \<and>
   map_of (m_records (snd (snd (putSwapAtomic mem_registry mem_index (\<lambda>_ _. 0) sample_rec sample_far
       (sample_swap\<lparr>w_ValidUntil := 100\<rparr>) (\<lparr>sm_requests = 0, sm_successes = 0, sm_failNear = 0, sm_failFar = 0,
         sm_failSwapIndex = 0, sm_revokeOK = 0, sm_revokeFail = 0\<rparr>, NewMemoryRegistry 50))))) = Map.empty"
proof -
  let ?k = "\<lparr>sm_requests = 0, sm_successes = 0, sm_failNear = 0, sm_failFar = 0, sm_failSwapIndex = 0, sm_revokeOK = 0, sm_revokeFail = 0\<rparr>"
  let ?run = "putSwapAtomic mem_registry mem_index (\<lambda>_ _. 0) sample_rec sample_far (sample_swap\<lparr>w_ValidUntil := 100\<rparr>) (?k, NewMemoryRegistry 50)"
  have ne: "q_QuoteID sample_rec \<noteq> q_QuoteID sample_far" by (simp add: sample_far_def sample_rec_def)
  have fail: "case fst ?run of None \<Rightarrow> False | Some e \<Rightarrow> True"
    by (simp add: putSwapAtomic_def Registry_Put_def PutSwap_def invalid_rec_def sample_far_def sample_rec_def sample_swap_def)
  have run: "?run = (fst ?run, fst (snd ?run), snd (snd ?run))" by simp
  show ?thesis
    using swap_registration_atomic [OF ne run] fail by (auto simp: NewMemoryRegistry_def split: option.splits)
qed

section \<open>A locked price is honoured\<close>

lemma put_mem_ok:
  "putSwapAtomic mem_registry mem_index rc near far sw (k, m) = (None, k', m') \<Longrightarrow>
     m' = m\<lparr>m_records := AList.update (q_QuoteID far) far (AList.update (q_QuoteID near) near (m_records m)),
       m_swaps := AList.update (w_SwapID sw) sw (m_swaps m)\<rparr>"
  by (auto simp: putSwapAtomic_def Registry_Put_def PutSwap_def put_rec_def split: if_splits prod.splits)

lemma validity_of_pos: "validity_of v > 0"
  by (simp add: validity_of_def)

lemma buildLegRecord_simps [simp]:
  "q_QuoteID (buildLegRecord p i cq pr sq iss a b br ip vd) = i" "q_Bid (buildLegRecord p i cq pr sq iss a b br ip vd) = cq_Bid cq"
  "q_Ask (buildLegRecord p i cq pr sq iss a b br ip vd) = cq_Ask cq" "q_Pair (buildLegRecord p i cq pr sq iss a b br ip vd) = cq_Pair cq"
  "q_Profile (buildLegRecord p i cq pr sq iss a b br ip vd) = pr" "q_IssuedAt (buildLegRecord p i cq pr sq iss a b br ip vd) = a"
  "q_ValidUntil (buildLegRecord p i cq pr sq iss a b br ip vd) = b" "q_Tenor (buildLegRecord p i cq pr sq iss a b br ip vd) = cq_Tenor cq"
  by (simp_all add: buildLegRecord_def Let_def)

lemma swap_ids_distinct:
  assumes "swap_ids ms g = ((nearID, a), (farID, b), swapID, g')"
  shows "nearID \<noteq> farID" "nearID \<noteq> []" "farID \<noteq> []" "swapID \<noteq> []"
proof -
  have "distinct (Next_series [ms 0, ms 1] g)" by (rule Next_series_distinct) simp
  with assms show "nearID \<noteq> farID" by (auto simp: swap_ids_def case_prod_beta Let_def)
  show "nearID \<noteq> []" "farID \<noteq> []" "swapID \<noteq> []" using assms by (auto simp: swap_ids_def case_prod_beta Let_def)
qed

lemma SwapLockHandler_reply:
  assumes "SwapLockHandler reg idx zone iw is parse nowC now ms rc deps devMode verb req (g, k, r) = Some (HttpReply resp, g', k', r')"
  obtains q tbl profile rawBid rawAsk near far where
    "swap_issue reg idx parse ms rc deps q tbl profile rawBid rawAsk now near far (g, OnRequest k, r) = (HttpReply resp, g', k', r')"
  using assms unfolding SwapLockHandler_def
  by (simp add: Let_def split: if_splits option.splits sum.splits prod.splits)

text \<open>What a reply of the swap handler leaves in the in-process registry.\<close>

lemma swap_issue_mem:
  assumes "swap_issue mem_registry mem_index parse ms rc deps q tbl profile rawBid rawAsk now near far (g, k, m) = (HttpReply resp, g', k', m')"
  obtains nr fr sw where
    "m' = m\<lparr>m_records := AList.update (q_QuoteID fr) fr (AList.update (q_QuoteID nr) nr (m_records m)),
       m_swaps := AList.update (w_SwapID sw) sw (m_swaps m)\<rparr>"
    "w_SwapID sw = sp_SwapID resp" "w_SwapID sw \<noteq> []" "w_NearID sw = q_QuoteID nr" "w_FarID sw = q_QuoteID fr" "q_QuoteID nr \<noteq> q_QuoteID fr"
    "w_ValidUntil sw = sp_ValidUntilUnixNano resp"
    "q_QuoteID nr = lr_QuoteID (sp_Near resp)" "q_Bid nr = lr_Bid (sp_Near resp)" "q_Ask nr = lr_Ask (sp_Near resp)"
    "q_QuoteID fr = lr_QuoteID (sp_Far resp)" "q_Bid fr = lr_Bid (sp_Far resp)" "q_Ask fr = lr_Ask (sp_Far resp)"
    "\<And>t. ValidAt nr t \<longleftrightarrow> sp_IssuedUnixNano resp \<le> t \<and> t < sp_ValidUntilUnixNano resp"
    "\<And>t. ValidAt fr t \<longleftrightarrow> sp_IssuedUnixNano resp \<le> t \<and> t < sp_ValidUntilUnixNano resp"
proof -
  obtain nearCQ nearInterp nearBroken where near: "near = (nearCQ, nearInterp, nearBroken)" by (cases near)
  obtain farCQ farInterp farBroken where far: "far = (farCQ, farInterp, farBroken)" by (cases far)
  obtain nearID a farID b swapID g1 where ids: "swap_ids ms g = ((nearID, a), (farID, b), swapID, g1)" by (metis prod.exhaust)
  define v where "v = gt_ns now + validity_of (ld_Validity deps)"
  define nr where "nr = buildLegRecord parse nearID nearCQ profile a (g_instance g) (gt_ns now) v nearBroken nearInterp (sg_ValueDate (sq_Near q))"
  define fr where "fr = buildLegRecord parse farID farCQ profile b (g_instance g) (gt_ns now) v farBroken farInterp (sg_ValueDate (sq_Far q))"
  define sw where "sw = \<lparr>w_SwapID = swapID, w_NearID = nearID, w_FarID = farID, w_IssuedAt = gt_ns now, w_ValidUntil = v, w_Issuer = g_instance g\<rparr>"
  obtain e k1 m1 where put: "putSwapAtomic mem_registry mem_index rc nr fr sw (k, m) = (e, k1, m1)" by (metis prod.exhaust)
  have e: "e = None" and m': "m' = m1"
    and resp: "sp_SwapID resp = swapID" "sp_IssuedUnixNano resp = gt_ns now" "sp_ValidUntilUnixNano resp = v"
      "sp_Near resp = buildLegResult nearID nearCQ rawBid rawAsk (sg_ValueDate (sq_Near q)) nearBroken nearInterp False"
      "sp_Far resp = buildLegResult farID farCQ rawBid rawAsk (sg_ValueDate (sq_Far q)) farBroken farInterp True"
    using assms put
    by (auto simp: swap_issue_def near far ids Let_def v_def [symmetric] nr_def [symmetric] fr_def [symmetric] sw_def [symmetric]
        split: if_splits option.splits)
  note mem = put_mem_ok [OF put [unfolded e]]
  show thesis
    by (rule that [of sw fr nr]) (use mem m' resp swap_ids_distinct [OF ids] in
        \<open>simp_all add: nr_def fr_def sw_def buildLegResult_def ValidAt_def\<close>)
qed

text \<open>C4: A price that a swap lock reports is honoured: until the reported expiry, an engine that may consume
  gets OK for the reported swap identifier, and the answer repeats bid and ask of both legs exactly as
  they were reported.  The hypotheses ask that the new identifiers carry no marker of an earlier
  consumption and that nothing else was consumed in between.\<close>

theorem locked_swap_honoured:
  assumes lock: "SwapLockHandler mem_registry mem_index zone iw is parse nowC now ms rc deps devMode verb req (g, k, m) =
      Some (HttpReply resp, g', k', m')"
    and unspent: "map_of (m_consumed m) (lr_QuoteID (sp_Near resp)) = None" "map_of (m_consumed m) (lr_QuoteID (sp_Far resp)) = None"
    and grace: "m_grace m \<ge> 0"
    and t: "sp_IssuedUnixNano resp \<le> t" "t < sp_ValidUntilUnixNano resp"
    and engine: "permitted rfc t e PermMarkConsumed s" "qv_swapIdx s"
  shows "\<exists>ans s' m'' nr fr. ConsumeSwap mem_registry mem_index rfc (\<lambda>_. t) (\<lambda>_ _. t) (\<lambda>_ m. m) e (sp_SwapID resp) c (s, m') =
      (Inr ans, s', m'') \<and> sr_SwapStatus ans = OK \<and>
    map_option mr_Record (sr_Near ans) = Some (Some nr) \<and> map_option mr_Record (sr_Far ans) = Some (Some fr) \<and>
    pb_QuoteId nr = lr_QuoteID (sp_Near resp) \<and> pb_Bid nr = lr_Bid (sp_Near resp) \<and> pb_Ask nr = lr_Ask (sp_Near resp) \<and>
    pb_QuoteId fr = lr_QuoteID (sp_Far resp) \<and> pb_Bid fr = lr_Bid (sp_Far resp) \<and> pb_Ask fr = lr_Ask (sp_Far resp)"
proof -
  obtain q tbl profile rawBid rawAsk near far where issue:
      "swap_issue mem_registry mem_index parse ms rc deps q tbl profile rawBid rawAsk now near far (g, OnRequest k, m) = (HttpReply resp, g', k', m')"
    by (rule SwapLockHandler_reply [OF lock])
  obtain nr fr sw where m': "m' = m\<lparr>m_records := AList.update (q_QuoteID fr) fr (AList.update (q_QuoteID nr) nr (m_records m)),
       m_swaps := AList.update (w_SwapID sw) sw (m_swaps m)\<rparr>"
    and sw: "w_SwapID sw = sp_SwapID resp" "w_SwapID sw \<noteq> []" "w_NearID sw = q_QuoteID nr" "w_FarID sw = q_QuoteID fr"
      "q_QuoteID nr \<noteq> q_QuoteID fr" "w_ValidUntil sw = sp_ValidUntilUnixNano resp"
    and price: "q_QuoteID nr = lr_QuoteID (sp_Near resp)" "q_Bid nr = lr_Bid (sp_Near resp)" "q_Ask nr = lr_Ask (sp_Near resp)"
      "q_QuoteID fr = lr_QuoteID (sp_Far resp)" "q_Bid fr = lr_Bid (sp_Far resp)" "q_Ask fr = lr_Ask (sp_Far resp)"
    and valid: "\<And>t. ValidAt nr t \<longleftrightarrow> sp_IssuedUnixNano resp \<le> t \<and> t < sp_ValidUntilUnixNano resp"
      "\<And>t. ValidAt fr t \<longleftrightarrow> sp_IssuedUnixNano resp \<le> t \<and> t < sp_ValidUntilUnixNano resp"
    by (rule swap_issue_mem [OF issue]) (rule that)
  have pre: "sp_SwapID resp \<noteq> []" "map_of (m_swaps m') (sp_SwapID resp) = Some sw" "t < w_ValidUntil sw" "m_grace m' \<ge> 0"
      "map_of (m_records m') (w_NearID sw) = Some nr" "map_of (m_records m') (w_FarID sw) = Some fr"
      "map_of (m_consumed m') (w_NearID sw) = None" "map_of (m_consumed m') (w_FarID sw) = None" "w_NearID sw \<noteq> w_FarID sw"
      "ValidAt nr t" "ValidAt fr t"
    using sw price unspent grace t by (simp_all add: m' valid)
  obtain ans s' m'' where run:
      "ConsumeSwap mem_registry mem_index rfc (\<lambda>_. t) (\<lambda>_ _. t) (\<lambda>_ m. m) e (sp_SwapID resp) c (s, m') = (Inr ans, s', m'')"
      "sr_SwapStatus ans = OK"
      "sr_Near ans = Some \<lparr>mr_Status = OK, mr_Record = Some (recordToProto nr), mr_ConsumedBy = [], mr_OrdRejReason = 0, mr_RejectText = []\<rparr>"
      "sr_Far ans = Some \<lparr>mr_Status = OK, mr_Record = Some (recordToProto fr), mr_ConsumedBy = [], mr_OrdRejReason = 0, mr_RejectText = []\<rparr>"
    by (rule ConsumeSwap_grants [OF engine pre(1,2,3,4) pre(5,10,7) pre(6,11,8) pre(9), of c])
  show ?thesis
    by (rule exI [of _ ans], rule exI [of _ s'], rule exI [of _ m''], rule exI [of _ "recordToProto nr"], rule exI [of _ "recordToProto fr"])
      (simp add: run recordToProto_def price)
qed

definition sample_deps :: "float64 \<Rightarrow> float64 \<Rightarrow> LockDeps" where
  "sample_deps bid ask = \<lparr>ld_Best = Some [(''USDKRW'', \<lparr>bs_ActiveSources = 1, bs_Sources = [''SMB''], bs_SourceQuotes = [], bs_BestBid = bid,
     bs_BestAsk = ask, bs_CrossedFallbck = False\<rparr>)], ld_Cross = None, ld_Table = Some NewStore, ld_wired = True, ld_Validity = 0, ld_SpotDays = 2\<rparr>"

definition sample_swap_request :: "string \<Rightarrow> string \<Rightarrow> SwapLockRequest" where
  "sample_swap_request near far = \<lparr>sq_Pair = ''USD/KRW'', sq_Near = \<lparr>sg_Tenor = near, sg_ValueDate = []\<rparr>,
     sq_Far = \<lparr>sg_Tenor = far, sg_ValueDate = []\<rparr>, sq_Profile = ''WEB.HQ.VIP'', sq_CustomerID = [], sq_Side = ''buy_sell''\<rparr>"

definition no_metrics :: AtomicSwapLockMetrics where
  "no_metrics = \<lparr>sm_requests = 0, sm_successes = 0, sm_failNear = 0, sm_failFar = 0, sm_failSwapIndex = 0, sm_revokeOK = 0, sm_revokeFail = 0\<rparr>"

definition sample_lock ::
  "string \<Rightarrow> string \<Rightarrow> (SwapLockResponse http_answer \<times> Generator \<times> AtomicSwapLockMetrics \<times> MemoryRegistry) option" where
  "sample_lock near far = SwapLockHandler mem_registry mem_index (\<lambda>_. None) (\<lambda>x. x) (\<lambda>x. x) (\<lambda>_. None) 0 \<lparr>gt_ns = 1000, gt_day = 0\<rparr> (\<lambda>_. 7)
     (\<lambda>_ _. 0) (sample_deps 5 6) False ''POST'' (Some (sample_swap_request near far)) (NewGenerator ''A'', no_metrics, NewMemoryRegistry 50)"

lemma sample_trim: "trim_swap (sample_swap_request ''SPOT'' ''1M'') = sample_swap_request ''SPOT'' ''1M''"
  "trim_swap (sample_swap_request ''1Y'' ''1W'') = sample_swap_request ''1Y'' ''1W''"
  by (simp_all add: trim_swap_def trim_leg_def sample_swap_request_def TrimSpace_def is_space_def)

lemma sample_profile_key: "ParseProfileKey ''WEB.HQ.VIP'' = Some \<lparr>pf_Channel = ''WEB'', pf_Site = ''HQ'', pf_Tier = ''VIP''\<rparr>"
  by (simp add: ParseProfileKey_def profileKeySplit_def)

lemma sample_leg: "\<exists>cq. applyLeg z iw is p NewStore raw profile \<lparr>sg_Tenor = tn, sg_ValueDate = []\<rparr> d now c = Some (Inr (cq, zero_interp, False))"
  by (simp add: applyLeg_def ApplyForCustomer_def ActiveWindows_def NewStore_def)

lemma sample_put:
  assumes "swap_ids ms g = ((i, a), (j, b), w, g')" "x < v"
  shows "\<exists>m'. putSwapAtomic mem_registry mem_index rc (buildLegRecord p i cq pr a ins x v br ip vd) (buildLegRecord p j cq' pr b ins x v br' ip' vd')
     \<lparr>w_SwapID = w, w_NearID = i, w_FarID = j, w_IssuedAt = x, w_ValidUntil = v, w_Issuer = ins\<rparr> (k, m) = (None, k, m') \<and> m_consumed m' = m_consumed m"
  using swap_ids_distinct [OF assms(1)] assms(2)
  by (simp add: putSwapAtomic_def Registry_Put_def invalid_rec_def PutSwap_def put_rec_def)

lemma sample_lock_reply:
  assumes "trim_swap (sample_swap_request near far) = sample_swap_request near far" "near \<noteq> far" "near \<noteq> []" "far \<noteq> []"
  shows "\<exists>resp g' k' m'. sample_lock near far = Some (HttpReply resp, g', k', m') \<and> sp_IssuedUnixNano resp = 1000 \<and>
     sp_ValidUntilUnixNano resp = 500001000"
proof -
  obtain i a j b w g' where ids: "swap_ids (\<lambda>_. 7) (NewGenerator ''A'') = ((i, a), (j, b), w, g')" by (metis prod.exhaust)
  let ?raw = "\<lparr>qt_Pair = ''USD/KRW'', qt_Bid = 5, qt_Ask = 6, qt_TS = 1000, qt_BidSize = f_zero, qt_AskSize = f_zero\<rparr>"
  let ?pr = "\<lparr>pf_Channel = ''WEB'', pf_Site = ''HQ'', pf_Tier = ''VIP''\<rparr>"
  obtain cn where cn: "applyLeg (\<lambda>_. None) (\<lambda>x. x) (\<lambda>x. x) (\<lambda>_. None) NewStore ?raw ?pr \<lparr>sg_Tenor = near, sg_ValueDate = []\<rparr> 2
      \<lparr>gt_ns = 1000, gt_day = 0\<rparr> [] = Some (Inr (cn, zero_interp, False))" using sample_leg by blast
  obtain cf where cf: "applyLeg (\<lambda>_. None) (\<lambda>x. x) (\<lambda>x. x) (\<lambda>_. None) NewStore ?raw ?pr \<lparr>sg_Tenor = far, sg_ValueDate = []\<rparr> 2
      \<lparr>gt_ns = 1000, gt_day = 0\<rparr> [] = Some (Inr (cf, zero_interp, False))" using sample_leg by blast
  have lt: "(1000 :: int) < 500001000" by simp
  note put = sample_put [OF ids lt, of "\<lambda>_ _. 0" "\<lambda>_. None" cn ?pr "''A''" False zero_interp "[]" cf False zero_interp "[]" "OnRequest no_metrics"
      "NewMemoryRegistry 50"]
  from put obtain m' where put: "putSwapAtomic mem_registry mem_index (\<lambda>_ _. 0) (buildLegRecord (\<lambda>_. None) i cn ?pr a ''A'' 1000 500001000 False zero_interp [])
      (buildLegRecord (\<lambda>_. None) j cf ?pr b ''A'' 1000 500001000 False zero_interp [])
      \<lparr>w_SwapID = w, w_NearID = i, w_FarID = j, w_IssuedAt = 1000, w_ValidUntil = 500001000, w_Issuer = ''A''\<rparr> (OnRequest no_metrics, NewMemoryRegistry 50) =
      (None, OnRequest no_metrics, m')" by blast
  have legs: "validateSwapLegs (\<lambda>_. None) \<lparr>sg_Tenor = near, sg_ValueDate = []\<rparr> \<lparr>sg_Tenor = far, sg_ValueDate = []\<rparr> = None"
    using assms by (simp add: validateSwapLegs_def legKind_def)
  have g: "g_instance (NewGenerator ''A'') = ''A''" by (simp add: NewGenerator_def)
  have spot: "lookupSpotRawForSwap 0 None [(''USDKRW'', s)] ''USD/KRW'' = Some (bs_BestBid s, bs_BestAsk s)" for s
    by (simp add: lookupSpotRawForSwap_def pair_symbol_def)
  show ?thesis
    unfolding sample_lock_def SwapLockHandler_def
    by (simp add: assms(1)) (simp add: sample_swap_request_def legs sample_profile_key sample_deps_def spot cn cf swap_issue_def ids validity_of_def g put)
qed

theorem locked_swap_honoured_witness:
  "\<exists>resp g' k' m' ans s' m''. sample_lock ''SPOT'' ''1M'' = Some (HttpReply resp, g', k', m') \<and>
     ConsumeSwap mem_registry mem_index (\<lambda>_. None) (\<lambda>_. 2000) (\<lambda>_ _. 2000) (\<lambda>_ m. m) ''E'' (sp_SwapID resp) ''x'' (sample_server, m') =
       (Inr ans, s', m'') \<and> sr_SwapStatus ans = OK"
proof -
  obtain resp g' k' m' where lock: "sample_lock ''SPOT'' ''1M'' = Some (HttpReply resp, g', k', m')"
    and t: "sp_IssuedUnixNano resp = 1000" "sp_ValidUntilUnixNano resp = 500001000"
    using sample_lock_reply [OF sample_trim(1)] by auto
  have "\<exists>ans s' m'' nr fr. ConsumeSwap mem_registry mem_index (\<lambda>_. None) (\<lambda>_. 2000) (\<lambda>_ _. 2000) (\<lambda>_ m. m) ''E'' (sp_SwapID resp) ''x''
      (sample_server, m') = (Inr ans, s', m'') \<and> sr_SwapStatus ans = OK \<and>
    map_option mr_Record (sr_Near ans) = Some (Some nr) \<and> map_option mr_Record (sr_Far ans) = Some (Some fr) \<and>
    pb_QuoteId nr = lr_QuoteID (sp_Near resp) \<and> pb_Bid nr = lr_Bid (sp_Near resp) \<and> pb_Ask nr = lr_Ask (sp_Near resp) \<and>
    pb_QuoteId fr = lr_QuoteID (sp_Far resp) \<and> pb_Bid fr = lr_Bid (sp_Far resp) \<and> pb_Ask fr = lr_Ask (sp_Far resp)"
    by (rule locked_swap_honoured [OF lock [unfolded sample_lock_def]])
      (simp_all add: t NewMemoryRegistry_def permitted_def sample_server_def SetSwapIndex_def NewQuoteValidationServer_def)
  with lock show ?thesis by blast
qed

lemma RPC_Validate_grants:
  assumes "permitted parse t e PermValidate s" "i \<noteq> []" "map_of (m_records m) i = Some r" "ValidAt r t"
    "map_of (m_consumed m) i = None" "m_grace m \<ge> 0"
  obtains s' where "RPC_Validate mem_registry parse (\<lambda>_. t) (\<lambda>_. t) e i (s, m) =
    (Inr \<lparr>vr_Status = OK, vr_Record = Some (recordToProto r), vr_OrdRejReason = 0, vr_RejectText = []\<rparr>, s', m)"
proof -
  have chk: "checkEngine parse t e PermValidate s = (True, [])"
    using checkEngine_permitted [of parse t e PermValidate s] assms(1)
    by (auto simp: checkEngine_def split: option.splits if_splits)
  have live: "\<not> lapsed t (q_ValidUntil r) m" using assms by (simp add: lapsed_def ValidAt_def)
  show thesis
    by (rule that [of "add_count CallsOK 1 (add_count CallsTotal 1 s)"])
      (simp add: RPC_Validate_def chk assms lookupLocked_def live lookupToValidateResponse_def filled_def)
qed

lemma ForwardLockHandler_reply:
  assumes "ForwardLockHandler reg zone iw is parse now ms rc deps devMode verb req (g, r) = Some (HttpReply resp, g', r')"
  obtains q tbl profile best spot leg where
    "ld_Best deps = Some best" "map_of best (pair_symbol (fq_Pair q)) = Some spot"
    "forward_issue reg parse ms rc deps q tbl profile spot now leg (g, r) = (resp, g', r')"
  using assms unfolding ForwardLockHandler_def
  by (simp add: Let_def split: if_splits option.splits sum.splits prod.splits)

lemma forward_issue_raw:
  "forward_issue reg parse ms rc deps q tbl profile spot now leg (g, r) = (resp, g', r') \<Longrightarrow>
     fp_Pair resp = fq_Pair q \<and> fp_RawBid resp = bs_BestBid spot \<and> fp_RawAsk resp = bs_BestAsk spot"
  by (cases leg) (auto simp: forward_issue_def Let_def split: if_splits prod.splits)

lemma forward_issue_mem:
  assumes "forward_issue mem_registry parse ms rc deps q tbl profile spot now leg (g, m) = (resp, g', m')" "ld_wired deps"
  obtains rec where "m' = put_rec rec m" "q_QuoteID rec = fp_QuoteID resp" "q_QuoteID rec \<noteq> []" "q_Bid rec = fp_Bid resp" "q_Ask rec = fp_Ask resp"
    "\<And>t. ValidAt rec t \<longleftrightarrow> fp_IssuedUnixNano resp \<le> t \<and> t < fp_ValidUntilUnixNano resp"
proof -
  obtain cq interp broken where leg: "leg = (cq, interp, broken)" by (cases leg)
  define v where "v = gt_ns now + validity_of (ld_Validity deps)"
  define rec where "rec = buildLegRecord parse (fst (Generator_Next (ms 0) g)) cq profile (NextSequence (snd (Generator_Next (ms 0) g)))
      (g_instance g) (gt_ns now) v broken interp (fq_ValueDate q)"
  have "\<not> invalid_rec rec" using validity_of_pos [of "ld_Validity deps"] by (simp add: rec_def invalid_rec_def v_def)
  then have "reg_Put mem_registry rc rec m = (None, put_rec rec m)" by (simp add: Registry_Put_def)
  with assms have "m' = put_rec rec m" "fp_QuoteID resp = fst (Generator_Next (ms 0) g)" "fp_Bid resp = cq_Bid cq" "fp_Ask resp = cq_Ask cq"
      "fp_IssuedUnixNano resp = gt_ns now" "fp_ValidUntilUnixNano resp = v"
    by (auto simp: forward_issue_def leg case_prod_beta Let_def v_def [symmetric] rec_def [symmetric])
  then show thesis by (intro that [of rec]) (simp_all add: rec_def ValidAt_def)
qed

text \<open>C20: A forward price that a lock reports is honoured: until the reported expiry, Validate answers OK for the
  reported quote identifier with exactly the reported bid and ask, unless it was consumed meanwhile.\<close>

theorem locked_forward_honoured:
  assumes lock: "ForwardLockHandler mem_registry zone iw is parse now ms rc deps devMode verb req (g, m) = Some (HttpReply resp, g', m')"
    and wired: "ld_wired deps" and unspent: "map_of (m_consumed m) (fp_QuoteID resp) = None" and grace: "m_grace m \<ge> 0"
    and t: "fp_IssuedUnixNano resp \<le> t" "t < fp_ValidUntilUnixNano resp" and engine: "permitted rfc t e PermValidate s"
  shows "\<exists>rec s'. RPC_Validate mem_registry rfc (\<lambda>_. t) (\<lambda>_. t) e (fp_QuoteID resp) (s, m') =
      (Inr \<lparr>vr_Status = OK, vr_Record = Some rec, vr_OrdRejReason = 0, vr_RejectText = []\<rparr>, s', m') \<and>
    pb_QuoteId rec = fp_QuoteID resp \<and> pb_Bid rec = fp_Bid resp \<and> pb_Ask rec = fp_Ask resp"
proof -
  obtain q tbl profile best spot leg where
      issue: "forward_issue mem_registry parse ms rc deps q tbl profile spot now leg (g, m) = (resp, g', m')"
    by (rule ForwardLockHandler_reply [OF lock])
  obtain rec where rec: "m' = put_rec rec m" "q_QuoteID rec = fp_QuoteID resp" "q_QuoteID rec \<noteq> []" "q_Bid rec = fp_Bid resp"
      "q_Ask rec = fp_Ask resp" "\<And>t. ValidAt rec t \<longleftrightarrow> fp_IssuedUnixNano resp \<le> t \<and> t < fp_ValidUntilUnixNano resp"
    by (rule forward_issue_mem [OF issue wired]) (rule that)
  have pre: "fp_QuoteID resp \<noteq> []" "map_of (m_records m') (fp_QuoteID resp) = Some rec" "ValidAt rec t"
      "map_of (m_consumed m') (fp_QuoteID resp) = None" "m_grace m' \<ge> 0"
    using rec unspent grace t by (simp_all add: put_rec_def)
  obtain s' where "RPC_Validate mem_registry rfc (\<lambda>_. t) (\<lambda>_. t) e (fp_QuoteID resp) (s, m') =
    (Inr \<lparr>vr_Status = OK, vr_Record = Some (recordToProto rec), vr_OrdRejReason = 0, vr_RejectText = []\<rparr>, s', m')"
    by (rule RPC_Validate_grants [OF engine pre])
  then show ?thesis using rec by (intro exI [of _ "recordToProto rec"] exI [of _ s']) (simp add: recordToProto_def)
qed

definition sample_forward :: "(string \<times> BestSymbolStat) list \<Rightarrow> (ForwardLockResponse http_answer \<times> Generator \<times> MemoryRegistry) option" where
  "sample_forward best = ForwardLockHandler mem_registry (\<lambda>_. None) (\<lambda>x. x) (\<lambda>x. x) (\<lambda>_. None) \<lparr>gt_ns = 1000, gt_day = 0\<rparr> (\<lambda>_. 7) (\<lambda>_. 0)
     ((sample_deps 5 6)\<lparr>ld_Best := Some best\<rparr>) False ''POST''
     (Some \<lparr>fq_Pair = ''USD/KRW'', fq_Tenor = [], fq_ValueDate = [], fq_Profile = ''WEB.HQ.VIP'', fq_CustomerID = [], fq_Side = ''buy''\<rparr>)
     (NewGenerator ''A'', NewMemoryRegistry 50)"

lemma sample_forward_reply:
  assumes "map_of best ''USDKRW'' = Some spot"
  shows "\<exists>resp g' m'. sample_forward best = Some (HttpReply resp, g', m') \<and> fp_IssuedUnixNano resp = 1000 \<and>
     fp_ValidUntilUnixNano resp = 500001000 \<and> fp_Pair resp = ''USD/KRW''"
proof -
  let ?raw = "\<lparr>qt_Pair = ''USD/KRW'', qt_Bid = bs_BestBid spot, qt_Ask = bs_BestAsk spot, qt_TS = 1000, qt_BidSize = f_zero, qt_AskSize = f_zero\<rparr>"
  let ?pr = "\<lparr>pf_Channel = ''WEB'', pf_Site = ''HQ'', pf_Tier = ''VIP''\<rparr>"
  obtain cq where cq: "applyLeg (\<lambda>_. None) (\<lambda>x. x) (\<lambda>x. x) (\<lambda>_. None) NewStore ?raw ?pr \<lparr>sg_Tenor = ''SPOT'', sg_ValueDate = []\<rparr> 2
      \<lparr>gt_ns = 1000, gt_day = 0\<rparr> [] = Some (Inr (cq, zero_interp, False))" using sample_leg by blast
  show ?thesis unfolding sample_forward_def ForwardLockHandler_def
    by (simp add: trim_forward_def TrimSpace_def is_space_def)
      (simp add: sample_profile_key sample_deps_def pair_symbol_def assms forward_leg_def cq forward_issue_def validity_of_def case_prod_beta Let_def)
qed

definition sample_best :: BestSymbolStat where
  "sample_best = \<lparr>bs_ActiveSources = 1, bs_Sources = [''SMB''], bs_SourceQuotes = [], bs_BestBid = 5, bs_BestAsk = 6, bs_CrossedFallbck = False\<rparr>"

theorem locked_forward_honoured_witness:
  "\<exists>resp g' m' rec s'. sample_forward [(''USDKRW'', sample_best)] = Some (HttpReply resp, g', m') \<and>
     RPC_Validate mem_registry (\<lambda>_. None) (\<lambda>_. 2000) (\<lambda>_. 2000) ''E'' (fp_QuoteID resp) (sample_server, m') =
      (Inr \<lparr>vr_Status = OK, vr_Record = Some rec, vr_OrdRejReason = 0, vr_RejectText = []\<rparr>, s', m') \<and> pb_Bid rec = fp_Bid resp"
proof -
  obtain resp g' m' where lock: "sample_forward [(''USDKRW'', sample_best)] = Some (HttpReply resp, g', m')"
    and t: "fp_IssuedUnixNano resp = 1000" "fp_ValidUntilUnixNano resp = 500001000"
    using sample_forward_reply [of "[(''USDKRW'', sample_best)]" sample_best] by auto
  have "\<exists>rec s'. RPC_Validate mem_registry (\<lambda>_. None) (\<lambda>_. 2000) (\<lambda>_. 2000) ''E'' (fp_QuoteID resp) (sample_server, m') =
      (Inr \<lparr>vr_Status = OK, vr_Record = Some rec, vr_OrdRejReason = 0, vr_RejectText = []\<rparr>, s', m') \<and>
    pb_QuoteId rec = fp_QuoteID resp \<and> pb_Bid rec = fp_Bid resp \<and> pb_Ask rec = fp_Ask resp"
    by (rule locked_forward_honoured [OF lock [unfolded sample_forward_def]])
      (simp_all add: t NewMemoryRegistry_def permitted_def sample_server_def SetSwapIndex_def NewQuoteValidationServer_def sample_deps_def)
  with lock show ?thesis by blast
qed

section \<open>What the handlers do not check\<close>

lemma fold_all_stale: "\<forall>q \<in> set qs. stale mx now q \<Longrightarrow> fold (best_step mx now) qs a = a"
  by (induction qs) (simp_all add: best_step_def)

lemma stat_all_stale:
  assumes "\<forall>(src, q) \<in> set bySource. stale mx now' q"
  shows "bs_BestBid (best_symbol_stat mx now now' bySource) = f_zero" "bs_BestAsk (best_symbol_stat mx now now' bySource) = f_zero"
proof -
  have "\<forall>q \<in> set (map snd bySource). stale mx now' q" using assms by auto
  then have "recomputeLocked mx now' (map snd bySource) = (f_zero, f_zero, f_zero, f_zero, 0)"
    by (simp only: recomputeLocked_def fold_all_stale best_init_def Let_def) simp
  then show "bs_BestBid (best_symbol_stat mx now now' bySource) = f_zero" "bs_BestAsk (best_symbol_stat mx now now' bySource) = f_zero"
    by (simp_all add: best_symbol_stat_def Let_def)
qed

lemma Best_Stats_lookup:
  "map_of (Best_Stats now now' b) s = map_option (best_symbol_stat (bc_maxStaleness b) now (now' s)) (map_of (bc_cache b) s)"
proof -
  have "map_of (map (\<lambda>(s, bySource). (s, best_symbol_stat m now (now' s) bySource)) c) s =
      map_option (best_symbol_stat m now (now' s)) (map_of c s)" for m c
    by (induction c) auto
  then show ?thesis by (simp add: Best_Stats_def)
qed

text \<open>When every source of a symbol has gone stale, the statistics keep the symbol with bid and ask zero, and
  neither the lock of a forward nor that of a swap looks at the number of active sources: whenever they
  reply, the raw price of the deal is zero.\<close>

theorem stale_market_locked_at_zero:
  assumes stats: "ld_Best deps = Some (Best_Stats n n' b)"
    and cached: "map_of (bc_cache b) (pair_symbol pair) = Some bySource"
    and gone: "\<forall>(src, q) \<in> set bySource. stale (bc_maxStaleness b) (n' (pair_symbol pair)) q"
  shows "lookupSpotRawForSwap nowC cross (Best_Stats n n' b) pair = Some (f_zero, f_zero) \<and>
    (ForwardLockHandler reg zone iw is parse now ms rc deps devMode verb req (g, r) = Some (HttpReply resp, g', r') \<and>
     fp_Pair resp = pair \<longrightarrow> fp_RawBid resp = f_zero \<and> fp_RawAsk resp = f_zero)"
proof -
  let ?st = "best_symbol_stat (bc_maxStaleness b) n (n' (pair_symbol pair)) bySource"
  have look: "map_of (Best_Stats n n' b) (pair_symbol pair) = Some ?st" by (simp add: Best_Stats_lookup cached)
  note zero = stat_all_stale [OF gone, of n]
  have "fp_RawBid resp = f_zero \<and> fp_RawAsk resp = f_zero"
    if reply: "ForwardLockHandler reg zone iw is parse now ms rc deps devMode verb req (g, r) = Some (HttpReply resp, g', r')" "fp_Pair resp = pair"
  proof -
    obtain q tbl profile best spot leg where "ld_Best deps = Some best" "map_of best (pair_symbol (fq_Pair q)) = Some spot"
        and issue: "forward_issue reg parse ms rc deps q tbl profile spot now leg (g, r) = (resp, g', r')"
      by (rule ForwardLockHandler_reply [OF reply(1)])
    with forward_issue_raw [OF issue] reply(2) stats look zero show ?thesis by simp
  qed
  then show ?thesis using look zero by (simp add: lookupSpotRawForSwap_def)
qed

definition sample_stale :: BestConsumer where
  "sample_stale = best_sample_consumer\<lparr>bc_cache := [(''USDKRW'', [(''SMB'', \<lparr>sq_bid = 5, sq_ask = 6, sq_bidSize = 0, sq_askSize = 0, sq_ts = 0\<rparr>)])]\<rparr>"

theorem stale_market_locked_at_zero_witness:
  "\<exists>resp g' m'. sample_forward (Best_Stats 40000000000 (\<lambda>_. 40000000000) sample_stale) = Some (HttpReply resp, g', m') \<and>
     fp_RawBid resp = f_zero \<and> fp_RawAsk resp = f_zero"
proof -
  let ?best = "Best_Stats 40000000000 (\<lambda>_. 40000000000) sample_stale"
  have pair: "pair_symbol ''USD/KRW'' = ''USDKRW''" by (simp add: pair_symbol_def)
  have "map_of ?best ''USDKRW'' \<noteq> None" by (simp add: Best_Stats_lookup sample_stale_def)
  then obtain resp g' m' where lock: "sample_forward ?best = Some (HttpReply resp, g', m')" and p: "fp_Pair resp = ''USD/KRW''"
    using sample_forward_reply [of ?best] by blast
  have stats: "ld_Best ((sample_deps 5 6)\<lparr>ld_Best := Some ?best\<rparr>) = Some ?best" by simp
  have cached: "map_of (bc_cache sample_stale) (pair_symbol ''USD/KRW'') =
      Some [(''SMB'', \<lparr>sq_bid = 5, sq_ask = 6, sq_bidSize = 0, sq_askSize = 0, sq_ts = 0\<rparr>)]"
    by (simp add: pair sample_stale_def)
  have "fp_RawBid resp = f_zero \<and> fp_RawAsk resp = f_zero"
    using stale_market_locked_at_zero [OF stats cached, of 0 None mem_registry "\<lambda>_. None" "\<lambda>x. x" "\<lambda>x. x" "\<lambda>_. None"
        "\<lparr>gt_ns = 1000, gt_day = 0\<rparr>" "\<lambda>_. 7" "\<lambda>_. 0" False "''POST''"] lock [unfolded sample_forward_def] p
    by (simp add: stale_def sample_stale_def best_sample_consumer_def NewBestConsumer_def)
  with lock show ?thesis by blast
qed

text \<open>The legs of a swap are compared only when both are dates or both tenors are equal: a swap whose near leg
  is the later tenor is accepted and locked.\<close>

theorem inverted_tenors_locked:
  "\<exists>resp g' k' m'. sample_lock ''1Y'' ''1W'' = Some (HttpReply resp, g', k', m') \<and>
     map_of DefaultTenorDays ''1Y'' = Some 365 \<and> map_of DefaultTenorDays ''1W'' = Some 7"
  using sample_lock_reply [OF sample_trim(2)] by (auto simp: DefaultTenorDays_def)

end
