(* ===== verification/Price_Consumer.thy ===== *)
theory Price_Consumer
  imports Quote_Lock
begin

text \<open>
  The pricing consumer of src/internal/price (customer_registry.go, pricing_consumer.go): a market tick
  is priced for every active profile and for every registered customer, each quote gets an identifier
  and a record in the quote registry, and is handed to a publisher.  The publisher and the decoder are
  arguments: \<open>pubok k\<close> says whether the k-th publication of the tick succeeds, \<open>ms k\<close> and \<open>rc k\<close> are the clock
  readings of the generator and of the registry for it.  The visiting order of the registry is the
  argument \<open>iter\<close>.
\<close>

section \<open>The customer registry\<close>

record customerReg =
  cg_profile :: Profile
  cg_sources :: "string list"

record CustomerRegistry =
  cy_entries :: "(string \<times> customerReg) list"
  cy_count :: int
  cy_srcCount :: int

definition NewCustomerRegistry :: CustomerRegistry where
  "NewCustomerRegistry = \<lparr>cy_entries = [], cy_count = 0, cy_srcCount = 0\<rparr>"

text \<open>The set of wanted sources: no duplicates and no empty name.\<close>

definition source_set :: "string list \<Rightarrow> string list" where
  "source_set sources = remdups (filter (\<lambda>s. s \<noteq> []) sources)"

text \<open>
  An operation is one access to the map, which decides what is added to the two counters afterwards.
  The additions are separate atomic operations, so other calls can run in between.
\<close>

datatype addition = AddCount int | AddSrc int

definition had_sources :: "customerReg \<Rightarrow> bool" where
  "had_sources g \<longleftrightarrow> cg_sources g \<noteq> []"

definition Register_swap :: "string \<Rightarrow> Profile \<Rightarrow> string list \<Rightarrow> CustomerRegistry \<Rightarrow> addition list \<times> CustomerRegistry" where
  "Register_swap customerID profile sources r =
     (let reg = \<lparr>cg_profile = profile, cg_sources = source_set sources\<rparr>;
          r' = r\<lparr>cy_entries := AList.update customerID reg (cy_entries r)\<rparr>
      in (case map_of (cy_entries r) customerID of
            None \<Rightarrow> (AddCount 1 # (if had_sources reg then [AddSrc 1] else []), r')
          | Some prev \<Rightarrow>
              ((if had_sources prev \<and> \<not> had_sources reg then [AddSrc (- 1)]
                else if \<not> had_sources prev \<and> had_sources reg then [AddSrc 1] else []), r')))"

definition Unregister_delete :: "string \<Rightarrow> CustomerRegistry \<Rightarrow> addition list \<times> CustomerRegistry" where
  "Unregister_delete customerID r =
     (case map_of (cy_entries r) customerID of
        None \<Rightarrow> ([], r)
      | Some prev \<Rightarrow>
          (AddCount (- 1) # (if had_sources prev then [AddSrc (- 1)] else []),
           r\<lparr>cy_entries := AList.delete customerID (cy_entries r)\<rparr>))"

fun add_now :: "addition \<Rightarrow> CustomerRegistry \<Rightarrow> CustomerRegistry" where
  "add_now (AddCount d) r = r\<lparr>cy_count := cy_count r + d\<rparr>"
| "add_now (AddSrc d) r = r\<lparr>cy_srcCount := cy_srcCount r + d\<rparr>"

definition RegisterWithSources :: "string \<Rightarrow> Profile \<Rightarrow> string list \<Rightarrow> CustomerRegistry \<Rightarrow> CustomerRegistry" where
  "RegisterWithSources customerID profile sources r =
     (if customerID = [] then r else let (adds, r') = Register_swap customerID profile sources r in fold add_now adds r')"

definition Register :: "string \<Rightarrow> Profile \<Rightarrow> CustomerRegistry \<Rightarrow> CustomerRegistry" where
  "Register customerID profile r = RegisterWithSources customerID profile [] r"

definition Unregister :: "string \<Rightarrow> CustomerRegistry \<Rightarrow> CustomerRegistry" where
  "Unregister customerID r =
     (if customerID = [] then r else let (adds, r') = Unregister_delete customerID r in fold add_now adds r')"

definition Count :: "CustomerRegistry \<Rightarrow> int" where
  "Count r = cy_count r"

definition SourceSubscriberCount :: "CustomerRegistry \<Rightarrow> int" where
  "SourceSubscriberCount r = cy_srcCount r"

definition Customer_Lookup :: "string \<Rightarrow> CustomerRegistry \<Rightarrow> Profile option" where
  "Customer_Lookup customerID r =
     (if customerID = [] then None else map_option cg_profile (map_of (cy_entries r) customerID))"

definition Customer_Snapshot ::
  "((string \<times> customerReg) list \<Rightarrow> (string \<times> customerReg) list) \<Rightarrow> CustomerRegistry \<Rightarrow> (string \<times> Profile) list" where
  "Customer_Snapshot iter r = map (\<lambda>(i, g). (i, cg_profile g)) (iter (cy_entries r))"

text \<open>Range and RangeForSource give the customers that the callback sees; the callbacks of this package never
  stop the iteration.\<close>

definition Customer_Range ::
  "((string \<times> customerReg) list \<Rightarrow> (string \<times> customerReg) list) \<Rightarrow> CustomerRegistry \<Rightarrow> (string \<times> Profile) list" where
  "Customer_Range iter r = map (\<lambda>(i, g). (i, cg_profile g)) (iter (cy_entries r))"

definition RangeForSource ::
  "((string \<times> customerReg) list \<Rightarrow> (string \<times> customerReg) list) \<Rightarrow> string \<Rightarrow> CustomerRegistry \<Rightarrow> (string \<times> Profile) list" where
  "RangeForSource iter source r =
     (if source = [] then []
      else map (\<lambda>(i, g). (i, cg_profile g)) (filter (\<lambda>(i, g). source \<in> set (cg_sources g)) (iter (cy_entries r))))"

section \<open>The counters of the registry\<close>

text \<open>Calls of any number of goroutines: the access to the map is one step, every addition a later one.\<close>

inductive registry_steps :: "CustomerRegistry \<Rightarrow> addition list \<Rightarrow> bool" where
  start: "registry_steps NewCustomerRegistry []"
| register: "registry_steps r pend \<Longrightarrow> i \<noteq> [] \<Longrightarrow> Register_swap i p src r = (adds, r') \<Longrightarrow> registry_steps r' (adds @ pend)"
| unregister: "registry_steps r pend \<Longrightarrow> i \<noteq> [] \<Longrightarrow> Unregister_delete i r = (adds, r') \<Longrightarrow> registry_steps r' (adds @ pend)"
| add: "registry_steps r (xs @ a # ys) \<Longrightarrow> registry_steps (add_now a r) (xs @ ys)"

fun count_of :: "addition \<Rightarrow> int" where
  "count_of (AddCount d) = d"
| "count_of (AddSrc d) = 0"

fun src_of :: "addition \<Rightarrow> int" where
  "src_of (AddCount d) = 0"
| "src_of (AddSrc d) = d"

definition source_entries :: "CustomerRegistry \<Rightarrow> nat" where
  "source_entries r = length (filter (\<lambda>(i, g). had_sources g) (cy_entries r))"

lemma update_filter_length:
  "gomap m \<Longrightarrow> int (length (filter (\<lambda>(i, g). P g) (AList.update k v m))) =
     int (length (filter (\<lambda>(i, g). P g) m)) + (if P v then 1 else 0) -
     (case map_of m k of None \<Rightarrow> 0 | Some w \<Rightarrow> if P w then 1 else 0)"
  by (induction m) (auto simp: gomap_def map_of_eq_None_iff split: option.splits)

lemma delete_filter_length:
  "gomap m \<Longrightarrow> int (length (filter (\<lambda>(i, g). P g) (AList.delete k m))) =
     int (length (filter (\<lambda>(i, g). P g) m)) - (case map_of m k of None \<Rightarrow> 0 | Some w \<Rightarrow> if P w then 1 else 0)"
proof (induction m)
  case (Cons x m)
  have "map_of m k = None" if "fst x = k" using Cons.prems that by (auto simp: gomap_def map_of_eq_None_iff)
  with Cons show ?case by (cases x) (auto simp: gomap_def)
qed simp

definition counted :: "CustomerRegistry \<Rightarrow> addition list \<Rightarrow> bool" where
  "counted r pend \<longleftrightarrow> gomap (cy_entries r) \<and>
     cy_count r + sum_list (map count_of pend) = int (length (cy_entries r)) \<and>
     cy_srcCount r + sum_list (map src_of pend) = int (source_entries r) \<and>
     (\<forall>(i, g) \<in> set (cy_entries r). [] \<notin> set (cg_sources g))"

lemma update_entries: "(j, w) \<in> set (AList.update k v m) \<Longrightarrow> (j, w) = (k, v) \<or> (j, w) \<in> set m"
  by (induction m) (auto split: if_splits)

lemma delete_entries: "x \<in> set (AList.delete k m) \<Longrightarrow> x \<in> set m"
  by (simp add: AList.delete_eq)

lemma counted_register:
  assumes "counted r pend" "Register_swap i p src r = (adds, r')"
  shows "counted r' (adds @ pend)"
  using assms update_filter_length [of "cy_entries r" "\<lambda>_. True" i "\<lparr>cg_profile = p, cg_sources = source_set src\<rparr>"]
    update_filter_length [of "cy_entries r" had_sources i "\<lparr>cg_profile = p, cg_sources = source_set src\<rparr>"]
  by (auto simp: counted_def Register_swap_def source_entries_def source_set_def Let_def dest!: update_entries
      split: option.splits if_splits)

lemma counted_unregister:
  assumes "counted r pend" "Unregister_delete i r = (adds, r')"
  shows "counted r' (adds @ pend)"
  using assms delete_filter_length [of "cy_entries r" "\<lambda>_. True" i] delete_filter_length [of "cy_entries r" had_sources i]
  by (auto simp: counted_def Unregister_delete_def source_entries_def dest!: delete_entries split: option.splits if_splits)

lemma counted_add: "counted r (xs @ a # ys) \<Longrightarrow> counted (add_now a r) (xs @ ys)"
  by (cases a) (auto simp: counted_def source_entries_def)

lemma registry_counted: "registry_steps r pend \<Longrightarrow> counted r pend"
proof (induction rule: registry_steps.induct)
  case start
  then show ?case by (simp add: counted_def NewCustomerRegistry_def source_entries_def)
qed (simp_all add: counted_register counted_unregister counted_add)

text \<open>The gates of the tick path are exact: whatever registrations and deregistrations of any number of
  connections are interleaved, once no addition is outstanding Count is the number of registered
  customers and SourceSubscriberCount the number of those with sources of their own; so the count is
  zero only when nobody is registered, and no customer is skipped for ever.\<close>

theorem customer_gates_exact:
  assumes "registry_steps r []"
  shows "Count r = int (length (cy_entries r)) \<and> SourceSubscriberCount r = int (source_entries r) \<and>
    (Count r > 0 \<longleftrightarrow> cy_entries r \<noteq> []) \<and>
    (SourceSubscriberCount r = 0 \<longleftrightarrow> (\<forall>s. RangeForSource (\<lambda>x. x) s r = []))"
proof -
  have c: "counted r []" by (rule registry_counted [OF assms])
  have src: "(\<forall>s. RangeForSource (\<lambda>x. x) s r = []) \<longleftrightarrow> filter (\<lambda>(i, g). had_sources g) (cy_entries r) = []" (is "?l \<longleftrightarrow> ?r")
  proof
    assume l: ?l
    show ?r
    proof (rule ccontr)
      assume "\<not> ?r"
      then obtain i g where g: "(i, g) \<in> set (cy_entries r)" "had_sources g" by (auto simp: filter_empty_conv)
      then obtain s where "s \<in> set (cg_sources g)" by (cases "cg_sources g") (auto simp: had_sources_def)
      moreover from this have "s \<noteq> []" using c g by (auto simp: counted_def)
      ultimately have "RangeForSource (\<lambda>x. x) s r \<noteq> []" using g by (auto simp: RangeForSource_def filter_empty_conv)
      with l show False by simp
    qed
  next
    assume ?r
    then show ?l by (auto simp: RangeForSource_def filter_empty_conv had_sources_def)
  qed
  show ?thesis using c src by (auto simp: counted_def Count_def SourceSubscriberCount_def source_entries_def)
qed

definition sample_customers :: CustomerRegistry where
  "sample_customers = RegisterWithSources ''bob'' sample_profile [''SMB''] (Register ''amy'' sample_profile NewCustomerRegistry)"

lemma register_complete:
  assumes "registry_steps r []" "i \<noteq> []"
  shows "registry_steps (RegisterWithSources i p src r) []"
proof -
  obtain adds r' where swap: "Register_swap i p src r = (adds, r')" by fastforce
  have "registry_steps r'' adds \<Longrightarrow> registry_steps (fold add_now adds r'') []" for r''
    by (induction adds arbitrary: r'') (auto dest: registry_steps.add [where xs = "[]", simplified])
  with registry_steps.register [OF assms(1,2) swap] show ?thesis by (simp add: RegisterWithSources_def assms(2) swap)
qed

theorem customer_gates_exact_witness:
  "Count sample_customers = 2 \<and> SourceSubscriberCount sample_customers = 1 \<and> length (cy_entries sample_customers) = 2"
proof -
  have "registry_steps sample_customers []"
    unfolding sample_customers_def Register_def by (intro register_complete registry_steps.start) simp_all
  from customer_gates_exact [OF this] show ?thesis
    by (simp add: sample_customers_def Register_def RegisterWithSources_def Register_swap_def NewCustomerRegistry_def source_set_def
        had_sources_def source_entries_def)
qed

section \<open>The pricing consumer\<close>

datatype pn_counter =
    TicksIn | TicksDropped | QuotesPublished | PublishErrors | QuoteRegErrors | ProfilesSkipped
  | CustomerQuotesPublished | CustomerPublishErrors | BufferDropped

text \<open>
  \<open>pn_table\<close> is the table that the store holds, \<open>pn_gen\<close> is present when both generator and registry are,
  \<open>pn_sink\<close> answers HasQuoteSubscribers, \<open>pn_customers\<close> is present when registry and publisher of customers
  are, and \<open>pn_tickCh\<close> is the queue of the worker when a buffer is configured.
\<close>

record PricingConsumer =
  pn_table :: PricingTable
  pn_symbols :: SymbolMap
  pn_profiles :: "Profile list"
  pn_tenor :: string
  pn_gen :: "Generator option"
  pn_validity :: int
  pn_sink :: "(string \<Rightarrow> bool) option"
  pn_customers :: "CustomerRegistry option"
  pn_tickCh :: "Tick list option"
  pn_bufferCapacity :: nat
  pn_count :: "pn_counter \<Rightarrow> u64"

definition NewPricingConsumer ::
  "PricingTable \<Rightarrow> SymbolMap \<Rightarrow> Profile list \<Rightarrow> string \<Rightarrow> Generator option \<Rightarrow> int \<Rightarrow> (string \<Rightarrow> bool) option \<Rightarrow>
     CustomerRegistry option \<Rightarrow> int \<Rightarrow> PricingConsumer" where
  "NewPricingConsumer tbl symbols profiles tenor gen validity sink customers bufferSize =
     \<lparr>pn_table = tbl, pn_symbols = symbols, pn_profiles = profiles, pn_tenor = (if tenor = [] then ''SPOT'' else tenor),
      pn_gen = gen, pn_validity = validity_of validity, pn_sink = sink, pn_customers = customers,
      pn_tickCh = (if bufferSize > 0 then Some [] else None), pn_bufferCapacity = nat bufferSize, pn_count = (\<lambda>_. 0)\<rparr>"

definition pn_bump :: "pn_counter \<Rightarrow> PricingConsumer \<Rightarrow> PricingConsumer" where
  "pn_bump k c = c\<lparr>pn_count := (pn_count c)(k := pn_count c k + 1)\<rparr>"

text \<open>attachQuoteID: \<open>ms\<close> is the millisecond reading of the generator.  A refused record is counted only.\<close>

definition attachQuoteID ::
  "'r Registry \<Rightarrow> int \<Rightarrow> clock \<Rightarrow> CustomerQuote \<Rightarrow> Profile \<Rightarrow> PricingConsumer \<times> 'r \<Rightarrow> CustomerQuote \<times> PricingConsumer \<times> 'r" where
  "attachQuoteID reg ms rc cq prof = (\<lambda>(c, r).
     case pn_gen c of
       None \<Rightarrow> (cq, c, r)
     | Some g \<Rightarrow>
         (let (i, g') = Generator_Next ms g; validUntil = cq_TS cq + pn_validity c;
              cq' = cq\<lparr>cq_QuoteID := i, cq_ValidUntil := validUntil\<rparr>;
              rec = zero_QuoteRecord\<lparr>q_QuoteID := i, q_Pair := cq_Pair cq, q_Profile := prof, q_Tenor := cq_Tenor cq,
                q_Bid := cq_Bid cq, q_Ask := cq_Ask cq, q_IssuedAt := cq_TS cq, q_ValidUntil := validUntil,
                q_Sequence := NextSequence g', q_Issuer := g_instance g\<rparr>;
              c' = c\<lparr>pn_gen := Some g'\<rparr>
          in case reg_Put reg rc rec r of
               (None, r') \<Rightarrow> (cq', c', r')
             | (Some e, r') \<Rightarrow> (cq', pn_bump QuoteRegErrors c', r')))"

text \<open>A publication: the customer, if it goes to one, the profile and the quote.\<close>

datatype publication = Publication (pub_customer: "string option") (pub_profile: Profile) (pub_quote: CustomerQuote)

text \<open>One quote: priced by the caller, identified, published and counted.\<close>

definition publish_one ::
  "'r Registry \<Rightarrow> bool \<Rightarrow> int \<Rightarrow> clock \<Rightarrow> string option \<Rightarrow> Profile \<Rightarrow> CustomerQuote \<Rightarrow> PricingConsumer \<times> 'r \<Rightarrow>
     publication \<times> PricingConsumer \<times> 'r" where
  "publish_one reg pubok ms rc cust prof cq st =
     (let (cq', c', r') = attachQuoteID reg ms rc cq prof st;
          k = (case cust of
                 None \<Rightarrow> (if pubok then QuotesPublished else PublishErrors)
               | Some _ \<Rightarrow> (if pubok then CustomerQuotesPublished else CustomerPublishErrors))
      in (Publication cust prof cq', pn_bump k c', r'))"

text \<open>What surrounds the consumer: time zones, the order of the windows, the clock of the engine, and per
  publication the clocks and the outcome.\<close>

record pricing_env =
  pe_zone :: "string \<Rightarrow> (int \<Rightarrow> int) option"
  pe_windows :: "(string \<times> TimeWindowRule) list \<Rightarrow> (string \<times> TimeWindowRule) list"
  pe_now :: "nat \<Rightarrow> int"
  pe_ms :: "nat \<Rightarrow> int"
  pe_rc :: "nat \<Rightarrow> clock"
  pe_ok :: "nat \<Rightarrow> bool"

text \<open>The loop over the active profiles.  \<open>k\<close> counts the publications, None is a pricing call that does not return.\<close>

fun profile_loop ::
  "'r Registry \<Rightarrow> pricing_env \<Rightarrow> PricingTable \<Rightarrow> Quote \<Rightarrow> nat \<Rightarrow> Profile list \<Rightarrow> PricingConsumer \<times> 'r \<Rightarrow>
     (publication list \<times> PricingConsumer \<times> 'r) option" where
  "profile_loop reg env tbl raw k [] st = Some ([], st)"
| "profile_loop reg env tbl raw k (prof # ps) st =
     (if (case pn_sink (fst st) of None \<Rightarrow> False | Some has \<Rightarrow> \<not> has (Profile_Key prof))
      then profile_loop reg env tbl raw k ps (pn_bump ProfilesSkipped (fst st), snd st)
      else (case ApplyAt (pe_zone env) (pe_windows env) (pe_now env k) raw prof (pn_tenor (fst st)) (qt_TS raw) tbl of
          None \<Rightarrow> None
        | Some cq \<Rightarrow>
            (let (p, st') = publish_one reg (pe_ok env k) (pe_ms env k) (pe_rc env k) None prof cq st
             in case profile_loop reg env tbl raw (Suc k) ps st' of
                  None \<Rightarrow> None
                | Some (pubs, st'') \<Rightarrow> Some (p # pubs, st''))))"

text \<open>The callback over the customers; \<open>source\<close> is the tag of the per-source path, empty for BEST.\<close>

fun customer_loop ::
  "'r Registry \<Rightarrow> pricing_env \<Rightarrow> string \<Rightarrow> PricingTable \<Rightarrow> Quote \<Rightarrow> nat \<Rightarrow> (string \<times> Profile) list \<Rightarrow> PricingConsumer \<times> 'r \<Rightarrow>
     (publication list \<times> PricingConsumer \<times> 'r) option" where
  "customer_loop reg env source tbl raw k [] st = Some ([], st)"
| "customer_loop reg env source tbl raw k ((customerID, prof) # cs) st =
     (case ApplyForCustomer (pe_zone env) (pe_windows env) (pe_now env k) raw prof (pn_tenor (fst st)) (qt_TS raw) customerID tbl of
        None \<Rightarrow> None
      | Some cq0 \<Rightarrow>
          (let cq = (if source = [] then cq0 else cq0\<lparr>cq_Source := source\<rparr>);
               (p, st') = publish_one reg (pe_ok env k) (pe_ms env k) (pe_rc env k) (Some customerID) prof cq st
           in case customer_loop reg env source tbl raw (Suc k) cs st' of
                None \<Rightarrow> None
              | Some (pubs, st'') \<Rightarrow> Some (p # pubs, st'')))"

definition tick_raw :: "string \<Rightarrow> Tick \<Rightarrow> float64 \<times> float64 \<times> float64 \<times> float64 \<Rightarrow> Quote" where
  "tick_raw pair t = (\<lambda>(bid, ask, bidSize, askSize).
     \<lparr>qt_Pair = pair, qt_Bid = bid, qt_Ask = ask, qt_TS = tk_Received t, qt_BidSize = bidSize, qt_AskSize = askSize\<rparr>)"

definition processTick ::
  "'r Registry \<Rightarrow> pricing_env \<Rightarrow> ((string \<times> customerReg) list \<Rightarrow> (string \<times> customerReg) list) \<Rightarrow>
     (bytes \<Rightarrow> (float64 \<times> float64 \<times> float64 \<times> float64) option) \<Rightarrow> Tick \<Rightarrow> PricingConsumer \<times> 'r \<Rightarrow>
     (publication list \<times> PricingConsumer \<times> 'r) option" where
  "processTick reg env iter decoder t = (\<lambda>(c, r).
     let (pair, active, found) = Symbol_Lookup (pn_symbols c) (tk_Symbol t)
     in if \<not> found \<or> \<not> active then Some ([], pn_bump TicksDropped c, r)
        else (case decoder (tk_Body t) of
            None \<Rightarrow> Some ([], pn_bump TicksDropped c, r)
          | Some prices \<Rightarrow>
              (let raw = tick_raw pair t prices; tbl = pn_table c
               in case profile_loop reg env tbl raw 0 (pn_profiles c) (c, r) of
                    None \<Rightarrow> None
                  | Some (pubs, c1, r1) \<Rightarrow>
                      (case pn_customers c1 of
                         None \<Rightarrow> Some (pubs, c1, r1)
                       | Some reg_customers \<Rightarrow>
                           if Count reg_customers > 0 then
                             (case customer_loop reg env [] tbl raw (length pubs) (Customer_Range iter reg_customers) (c1, r1) of
                                None \<Rightarrow> None
                              | Some (cpubs, st) \<Rightarrow> Some (pubs @ cpubs, st))
                           else Some (pubs, c1, r1)))))"

definition isSynth :: "string \<Rightarrow> bool" where
  "isSynth source \<longleftrightarrow> source = ''BEST'' \<or> source = ''CROSS''"

definition OnRawSourceTick ::
  "'r Registry \<Rightarrow> pricing_env \<Rightarrow> ((string \<times> customerReg) list \<Rightarrow> (string \<times> customerReg) list) \<Rightarrow>
     (bytes \<Rightarrow> (float64 \<times> float64 \<times> float64 \<times> float64) option) \<Rightarrow> Tick \<Rightarrow> PricingConsumer \<times> 'r \<Rightarrow>
     (publication list \<times> PricingConsumer \<times> 'r) option" where
  "OnRawSourceTick reg env iter decoder t = (\<lambda>(c, r).
     case pn_customers c of
       None \<Rightarrow> Some ([], c, r)
     | Some reg_customers \<Rightarrow>
         if SourceSubscriberCount reg_customers = 0 then Some ([], c, r)
         else if isSynth (tk_Source t) \<or> tk_Source t = [] then Some ([], c, r)
         else (let (pair, active, found) = Symbol_Lookup (pn_symbols c) (tk_Symbol t)
               in if \<not> found \<or> \<not> active then Some ([], c, r)
                  else (case decoder (tk_Body t) of
                      None \<Rightarrow> Some ([], c, r)
                    | Some prices \<Rightarrow>
                        customer_loop reg env (tk_Source t) (pn_table c) (tick_raw pair t prices) 0
                          (RangeForSource iter (tk_Source t) reg_customers) (c, r))))"

definition Pricing_OnTick ::
  "'r Registry \<Rightarrow> pricing_env \<Rightarrow> ((string \<times> customerReg) list \<Rightarrow> (string \<times> customerReg) list) \<Rightarrow>
     (bytes \<Rightarrow> (float64 \<times> float64 \<times> float64 \<times> float64) option) \<Rightarrow> Tick \<Rightarrow> PricingConsumer \<times> 'r \<Rightarrow>
     (publication list \<times> PricingConsumer \<times> 'r) option" where
  "Pricing_OnTick reg env iter decoder t = (\<lambda>(c0, r).
     let c = pn_bump TicksIn c0
     in case pn_tickCh c of
          None \<Rightarrow> processTick reg env iter decoder t (c, r)
        | Some q \<Rightarrow>
            if length q < pn_bufferCapacity c then Some ([], c\<lparr>pn_tickCh := Some (q @ [t])\<rparr>, r)
            else Some ([], pn_bump BufferDropped c, r))"

text \<open>One turn of the worker; it waits while the queue is empty.\<close>

definition workerLoop ::
  "'r Registry \<Rightarrow> pricing_env \<Rightarrow> ((string \<times> customerReg) list \<Rightarrow> (string \<times> customerReg) list) \<Rightarrow>
     (bytes \<Rightarrow> (float64 \<times> float64 \<times> float64 \<times> float64) option) \<Rightarrow> PricingConsumer \<times> 'r \<Rightarrow>
     (publication list \<times> PricingConsumer \<times> 'r) option" where
  "workerLoop reg env iter decoder = (\<lambda>(c, r).
     case pn_tickCh c of
       Some (t # q) \<Rightarrow> processTick reg env iter decoder t (c\<lparr>pn_tickCh := Some q\<rparr>, r)
     | _ \<Rightarrow> Some ([], c, r))"

text \<open>MultiQuotePublisher: every publisher is called, the last error is reported.\<close>

fun Multi_PublishQuote :: "(Profile \<Rightarrow> CustomerQuote \<Rightarrow> 'p \<Rightarrow> 'e option \<times> 'p) list \<Rightarrow> Profile \<Rightarrow> CustomerQuote \<Rightarrow> 'p \<Rightarrow> 'e option \<times> 'p" where
  "Multi_PublishQuote [] prof cq p = (None, p)"
| "Multi_PublishQuote (f # fs) prof cq p =
     (let (e, p') = f prof cq p; (last, p'') = Multi_PublishQuote fs prof cq p'
      in (case last of None \<Rightarrow> e | Some _ \<Rightarrow> last, p''))"

section \<open>Every published quote is registered\<close>

definition matches :: "QuoteRecord \<Rightarrow> publication \<Rightarrow> bool" where
  "matches rec p \<longleftrightarrow>
     q_QuoteID rec = cq_QuoteID (pub_quote p) \<and> q_QuoteID rec \<noteq> [] \<and> q_Pair rec = cq_Pair (pub_quote p) \<and> q_Profile rec = pub_profile p \<and>
     q_Tenor rec = cq_Tenor (pub_quote p) \<and> q_Bid rec = cq_Bid (pub_quote p) \<and> q_Ask rec = cq_Ask (pub_quote p) \<and>
     q_IssuedAt rec = cq_TS (pub_quote p) \<and> q_ValidUntil rec = cq_ValidUntil (pub_quote p)"

definition advance :: "int list \<Rightarrow> Generator \<Rightarrow> Generator" where
  "advance mss g = fold (\<lambda>ms g. snd (Generator_Next ms g)) mss g"

lemma Next_series_append: "Next_series (xs @ ys) g = Next_series xs g @ Next_series ys (advance xs g)"
  by (induction xs arbitrary: g) (simp_all add: advance_def)

text \<open>From \<open>(c, m)\<close> to \<open>(c', m')\<close> the publications \<open>pubs\<close> got identifiers of the generator and records.\<close>

definition issued :: "pricing_env \<Rightarrow> nat \<Rightarrow> PricingConsumer \<times> MemoryRegistry \<Rightarrow> publication list \<Rightarrow> PricingConsumer \<times> MemoryRegistry \<Rightarrow> bool" where
  "issued env k st pubs st' \<longleftrightarrow>
     (\<forall>g. pn_gen (fst st) = Some g \<and> pn_validity (fst st) > 0 \<longrightarrow>
       (\<exists>recs. snd st' = fold put_rec recs (snd st) \<and> list_all2 matches recs pubs \<and>
          map q_QuoteID recs = Next_series (map (pe_ms env) [k..<k + length pubs]) g \<and>
          pn_gen (fst st') = Some (advance (map (pe_ms env) [k..<k + length pubs]) g) \<and> pn_validity (fst st') > 0))"

lemma issued_refl: "issued env k st [] st"
  by (auto simp: issued_def advance_def intro!: exI [of _ "[]"])

lemma issued_trans:
  assumes "issued env k st ps st'" "issued env (k + length ps) st' qs st''"
  shows "issued env k st (ps @ qs) st''"
  unfolding issued_def
proof (intro allI impI)
  fix g assume g: "pn_gen (fst st) = Some g \<and> pn_validity (fst st) > 0"
  let ?xs = "map (pe_ms env) [k..<k + length ps]" and ?ys = "map (pe_ms env) [k + length ps..<k + length ps + length qs]"
  from assms(1) g obtain r1 where r1: "snd st' = fold put_rec r1 (snd st)" "list_all2 matches r1 ps"
      "map q_QuoteID r1 = Next_series ?xs g" "pn_gen (fst st') = Some (advance ?xs g)" "pn_validity (fst st') > 0"
    unfolding issued_def by blast
  from assms(2) r1(4,5) obtain r2 where r2: "snd st'' = fold put_rec r2 (snd st')" "list_all2 matches r2 qs"
      "map q_QuoteID r2 = Next_series ?ys (advance ?xs g)" "pn_gen (fst st'') = Some (advance ?ys (advance ?xs g))" "pn_validity (fst st'') > 0"
    unfolding issued_def by blast
  have split: "map (pe_ms env) [k..<k + length (ps @ qs)] = ?xs @ ?ys"
    by (simp add: upt_add_eq_append [of k "k + length ps" "length qs", simplified] add.assoc [symmetric])
  show "\<exists>recs. snd st'' = fold put_rec recs (snd st) \<and> list_all2 matches recs (ps @ qs) \<and>
      map q_QuoteID recs = Next_series (map (pe_ms env) [k..<k + length (ps @ qs)]) g \<and>
      pn_gen (fst st'') = Some (advance (map (pe_ms env) [k..<k + length (ps @ qs)]) g) \<and> pn_validity (fst st'') > 0"
    using r1 r2 unfolding split
    by (intro exI [of _ "r1 @ r2"]) (simp add: list_all2_appendI Next_series_append, simp add: advance_def)
qed

lemma pn_bump_simps [simp]:
  "pn_gen (pn_bump k c) = pn_gen c" "pn_validity (pn_bump k c) = pn_validity c" "pn_customers (pn_bump k c) = pn_customers c"
  "pn_sink (pn_bump k c) = pn_sink c" "pn_tenor (pn_bump k c) = pn_tenor c" "pn_tickCh (pn_bump k c) = pn_tickCh c"
  by (simp_all add: pn_bump_def)

lemma publish_issued:
  assumes "publish_one mem_registry ok (pe_ms env k) rc cust prof cq st = (p, st')"
  shows "issued env k st [p] st' \<and> pub_customer p = cust \<and> pub_profile p = prof \<and> pn_sink (fst st') = pn_sink (fst st) \<and>
    pn_customers (fst st') = pn_customers (fst st)"
proof -
  obtain c m where st: "st = (c, m)" by fastforce
  show ?thesis
  proof (cases "pn_gen c")
    case None
    with assms show ?thesis by (auto simp: st publish_one_def attachQuoteID_def issued_def Let_def)
  next
    case (Some g)
    define i g' v where d: "i = fst (Generator_Next (pe_ms env k) g)" "g' = snd (Generator_Next (pe_ms env k) g)" "v = cq_TS cq + pn_validity c"
    define rec where "rec = zero_QuoteRecord\<lparr>q_QuoteID := i, q_Pair := cq_Pair cq, q_Profile := prof, q_Tenor := cq_Tenor cq,
      q_Bid := cq_Bid cq, q_Ask := cq_Ask cq, q_IssuedAt := cq_TS cq, q_ValidUntil := v, q_Sequence := NextSequence g', q_Issuer := g_instance g\<rparr>"
    have pub: "pub_customer p = cust \<and> pub_profile p = prof \<and> pub_quote p = cq\<lparr>cq_QuoteID := i, cq_ValidUntil := v\<rparr>"
      and st': "snd st' = snd (Registry_Put rec m)" "pn_gen (fst st') = Some g'" "pn_validity (fst st') = pn_validity c"
        "pn_sink (fst st') = pn_sink c" "pn_customers (fst st') = pn_customers c"
      using assms by (auto simp: st Some publish_one_def attachQuoteID_def case_prod_beta Let_def d [symmetric] rec_def [symmetric]
          split: option.splits prod.splits)
    have "matches rec p" by (simp add: matches_def rec_def pub d)
    moreover have "snd (Registry_Put rec m) = put_rec rec m" if "pn_validity c > 0"
      using that by (simp add: Registry_Put_def invalid_rec_def rec_def d)
    ultimately have "issued env k st [p] st'"
      unfolding issued_def using st' by (auto simp: st Some advance_def d rec_def intro!: exI [of _ "[rec]"])
    with pub st' st show ?thesis by simp
  qed
qed

lemma profile_loop_issued:
  "profile_loop mem_registry env tbl raw k ps st = Some (pubs, st') \<Longrightarrow>
     issued env k st pubs st' \<and> pn_customers (fst st') = pn_customers (fst st) \<and>
     map pub_profile pubs = filter (\<lambda>p. case pn_sink (fst st) of None \<Rightarrow> True | Some has \<Rightarrow> has (Profile_Key p)) ps \<and>
     (\<forall>p \<in> set pubs. pub_customer p = None)"
proof (induction ps arbitrary: k st pubs)
  case Nil
  then show ?case by (simp add: issued_refl)
next
  case (Cons prof ps)
  show ?case
  proof (cases "case pn_sink (fst st) of None \<Rightarrow> False | Some has \<Rightarrow> \<not> has (Profile_Key prof)")
    case True
    let ?st = "(pn_bump ProfilesSkipped (fst st), snd st)"
    from True Cons.prems have "profile_loop mem_registry env tbl raw k ps ?st = Some (pubs, st')" by simp
    from Cons.IH [OF this] True show ?thesis by (auto simp: issued_def split: option.splits)
  next
    case False
    with Cons.prems obtain cq where cq: "ApplyAt (pe_zone env) (pe_windows env) (pe_now env k) raw prof (pn_tenor (fst st)) (qt_TS raw) tbl = Some cq"
      by (auto split: option.splits)
    obtain p st1 where p: "publish_one mem_registry (pe_ok env k) (pe_ms env k) (pe_rc env k) None prof cq st = (p, st1)" by (rule prod.exhaust)
    from False Cons.prems cq p obtain ps' where rest: "profile_loop mem_registry env tbl raw (Suc k) ps st1 = Some (ps', st')" "pubs = p # ps'"
      by (auto split: option.splits)
    note one = publish_issued [OF p]
    note more = Cons.IH [OF rest(1)]
    have "issued env k st ([p] @ ps') st'" by (rule issued_trans [where st' = st1]) (use one more in simp_all)
    with one more rest False show ?thesis by (auto split: option.splits)
  qed
qed

lemma customer_loop_issued:
  "customer_loop mem_registry env source tbl raw k cs st = Some (pubs, st') \<Longrightarrow>
     issued env k st pubs st' \<and> map (\<lambda>p. (pub_customer p, pub_profile p)) pubs = map (\<lambda>(i, p). (Some i, p)) cs"
proof (induction cs arbitrary: k st pubs)
  case Nil
  then show ?case by (simp add: issued_refl)
next
  case (Cons ic cs)
  obtain i prof where ic: "ic = (i, prof)" by fastforce
  from Cons.prems obtain cq0 where cq0: "ApplyForCustomer (pe_zone env) (pe_windows env) (pe_now env k) raw prof (pn_tenor (fst st)) (qt_TS raw) i tbl = Some cq0"
    by (auto simp: ic split: option.splits)
  let ?cq = "if source = [] then cq0 else cq0\<lparr>cq_Source := source\<rparr>"
  obtain p st1 where p: "publish_one mem_registry (pe_ok env k) (pe_ms env k) (pe_rc env k) (Some i) prof ?cq st = (p, st1)" by (rule prod.exhaust)
  from Cons.prems cq0 p obtain ps' where rest: "customer_loop mem_registry env source tbl raw (Suc k) cs st1 = Some (ps', st')" "pubs = p # ps'"
    by (auto simp: ic split: option.splits)
  note one = publish_issued [OF p]
  note more = Cons.IH [OF rest(1)]
  have "issued env k st ([p] @ ps') st'" by (rule issued_trans [where st' = st1]) (use one more in simp_all)
  with one more rest show ?case by (simp add: ic)
qed

lemma fold_put_other: "i \<notin> q_QuoteID ` set recs \<Longrightarrow> map_of (m_records (fold put_rec recs m)) i = map_of (m_records m) i"
  by (induction recs arbitrary: m) (auto simp: put_rec_def)

lemma fold_put_found:
  "distinct (map q_QuoteID recs) \<Longrightarrow> rec \<in> set recs \<Longrightarrow> map_of (m_records (fold put_rec recs m)) (q_QuoteID rec) = Some rec"
proof (induction recs arbitrary: m)
  case (Cons r recs)
  show ?case
  proof (cases "rec = r")
    case True
    with Cons.prems have "q_QuoteID rec \<notin> q_QuoteID ` set recs" by auto
    moreover have "map_of (m_records (put_rec r m)) (q_QuoteID r) = Some r" by (simp add: put_rec_def)
    ultimately show ?thesis using fold_put_other [of "q_QuoteID rec" recs "put_rec r m"] True by simp
  next
    case False
    with Cons show ?thesis by simp
  qed
qed simp

lemma issued_found:
  assumes "issued env k (c, m) pubs (c', m')" "pn_gen c = Some g" "pn_validity c > 0" "length pubs \<le> 2 ^ 64"
  shows "distinct (map (cq_QuoteID \<circ> pub_quote) pubs) \<and>
    (\<forall>p \<in> set pubs. \<exists>rec. map_of (m_records m') (cq_QuoteID (pub_quote p)) = Some rec \<and> matches rec p)"
proof -
  obtain recs where m': "m' = fold put_rec recs m" and match: "list_all2 matches recs pubs"
    and ids: "map q_QuoteID recs = Next_series (map (pe_ms env) [k..<k + length pubs]) g"
    using assms unfolding issued_def by auto
  have same: "map q_QuoteID recs = map (cq_QuoteID \<circ> pub_quote) pubs"
    using match by (induction rule: list_all2_induct) (simp_all add: matches_def)
  have dist: "distinct (map q_QuoteID recs)" unfolding ids by (rule Next_series_distinct) (use assms(4) in simp)
  have "\<exists>rec \<in> set recs. matches rec p" if "p \<in> set pubs" for p
    using match that by (metis in_set_conv_nth list_all2_conv_all_nth)
  moreover have "map_of (m_records m') (q_QuoteID rec) = Some rec" if "rec \<in> set recs" for rec
    using fold_put_found [OF dist that] by (simp add: m')
  ultimately have "\<exists>rec. map_of (m_records m') (cq_QuoteID (pub_quote p)) = Some rec \<and> matches rec p" if "p \<in> set pubs" for p
    using that by (metis matches_def)
  with dist same show ?thesis by simp
qed

text \<open>The profiles with a subscriber, and the customers of a tick.\<close>

definition wanted :: "PricingConsumer \<Rightarrow> Profile list" where
  "wanted c = filter (\<lambda>p. case pn_sink c of None \<Rightarrow> True | Some has \<Rightarrow> has (Profile_Key p)) (pn_profiles c)"

definition fanout :: "((string \<times> customerReg) list \<Rightarrow> (string \<times> customerReg) list) \<Rightarrow> PricingConsumer \<Rightarrow> (string option \<times> Profile) list" where
  "fanout iter c = map (\<lambda>p. (None, p)) (wanted c) @
     (case pn_customers c of
        Some r \<Rightarrow> if Count r > 0 then map (\<lambda>(i, p). (Some i, p)) (Customer_Range iter r) else []
      | None \<Rightarrow> [])"

definition quoted :: "(bytes \<Rightarrow> (float64 \<times> float64 \<times> float64 \<times> float64) option) \<Rightarrow> Tick \<Rightarrow> PricingConsumer \<Rightarrow> bool" where
  "quoted decoder t c \<longleftrightarrow> (\<exists>pair. Symbol_Lookup (pn_symbols c) (tk_Symbol t) = (pair, True, True)) \<and> decoder (tk_Body t) \<noteq> None"

lemma processTick_issued:
  assumes "processTick mem_registry env iter decoder t (c, m) = Some (pubs, c', m')"
  shows "issued env 0 (c, m) pubs (c', m') \<and>
    map (\<lambda>p. (pub_customer p, pub_profile p)) pubs = (if quoted decoder t c then fanout iter c else [])"
proof (cases "quoted decoder t c")
  case False
  with assms show ?thesis
    by (auto simp: processTick_def quoted_def issued_def Let_def advance_def split: prod.splits if_splits option.splits intro!: exI [of _ "[]"])
next
  case True
  then obtain pair prices where sym: "Symbol_Lookup (pn_symbols c) (tk_Symbol t) = (pair, True, True)" and dec: "decoder (tk_Body t) = Some prices"
    unfolding quoted_def by blast
  let ?raw = "tick_raw pair t prices"
  from assms obtain pp c1 m1 where loop: "profile_loop mem_registry env (pn_table c) ?raw 0 (pn_profiles c) (c, m) = Some (pp, c1, m1)"
    by (auto simp: processTick_def sym dec Let_def split: option.splits)
  note prof = profile_loop_issued [OF loop]
  have cust: "pn_customers c1 = pn_customers c" using prof by simp
  have none: "map (\<lambda>p. (pub_customer p, pub_profile p)) pp = map (\<lambda>p. (None, p)) (wanted c)"
  proof -
    have "map (\<lambda>p. (pub_customer p, pub_profile p)) pp = map (\<lambda>p. (None, p)) (map pub_profile pp)"
      unfolding map_map comp_def by (rule map_cong) (use prof in auto)
    also have "map pub_profile pp = wanted c" using prof by (simp add: wanted_def)
    finally show ?thesis .
  qed
  show ?thesis
  proof (cases "\<exists>r. pn_customers c = Some r \<and> Count r > 0")
    case False
    with assms have "pubs = pp \<and> c' = c1 \<and> m' = m1"
      by (auto simp: processTick_def sym dec loop cust Let_def split: option.splits if_splits)
    with prof none True False show ?thesis by (auto simp: fanout_def split: option.splits)
  next
    case c: True
    then obtain r where r: "pn_customers c = Some r" "Count r > 0" by blast
    with assms obtain cp where cl: "customer_loop mem_registry env [] (pn_table c) ?raw (length pp) (Customer_Range iter r) (c1, m1) = Some (cp, c', m')"
        and pubs: "pubs = pp @ cp"
      by (auto simp: processTick_def sym dec loop cust Let_def split: option.splits if_splits)
    note cs = customer_loop_issued [OF cl]
    have "issued env 0 (c, m) (pp @ cp) (c', m')" by (rule issued_trans [where st' = "(c1, m1)"]) (use prof cs in simp_all)
    with none cs True r show ?thesis by (simp add: pubs fanout_def)
  qed
qed

text \<open>C9: A tick of an active symbol with a valid body goes to exactly the profiles that have a subscriber and, when
  customers are registered, to every one of them; any other tick goes to nobody.  When quote identifiers
  are configured, the identifiers of the publications are pairwise distinct and each is found in the
  registry with the pair, profile, prices and validity that were published.\<close>

theorem tick_quotes_registered:
  assumes run: "processTick mem_registry env iter decoder t (c, m) = Some (pubs, c', m')"
    and gen: "pn_gen c = Some g" "pn_validity c > 0" and few: "length pubs \<le> 2 ^ 64"
  shows "map (\<lambda>p. (pub_customer p, pub_profile p)) pubs = (if quoted decoder t c then fanout iter c else []) \<and>
    distinct (map (cq_QuoteID \<circ> pub_quote) pubs) \<and>
    (\<forall>p \<in> set pubs. \<exists>rec. map_of (m_records m') (cq_QuoteID (pub_quote p)) = Some rec \<and> matches rec p)"
  using processTick_issued [OF run] issued_found [OF _ gen few] by blast

definition sample_env :: pricing_env where
  "sample_env = \<lparr>pe_zone = (\<lambda>_. None), pe_windows = (\<lambda>x. x), pe_now = (\<lambda>_. 7), pe_ms = (\<lambda>_. 7), pe_rc = (\<lambda>_ _. 7), pe_ok = (\<lambda>_. True)\<rparr>"

definition sample_pricing :: PricingConsumer where
  "sample_pricing = NewPricingConsumer NewStore (SymbolMap_Replace [\<lparr>sy_Symbol = ''USDKRW'', sy_Pair = ''USD/KRW'', sy_Active = True\<rparr>])
     [sample_profile] [] (Some (NewGenerator ''A'')) 0 None (Some sample_customers) 4"

definition sample_market_tick :: Tick where
  "sample_market_tick = \<lparr>tk_MarketID = 0, tk_Symbol = ''USDKRW'', tk_SeqNum = 1, tk_Mask = 0, tk_Type = 0, tk_Flag = 0, tk_Body = [], tk_Received = 5, tk_Source = ''BEST''\<rparr>"

lemma sample_customer_range: "Customer_Range (\<lambda>x. x) sample_customers = [(''amy'', sample_profile), (''bob'', sample_profile)]" "Count sample_customers = 2"
  by (simp_all add: Customer_Range_def sample_customers_def Register_def RegisterWithSources_def Register_swap_def NewCustomerRegistry_def
      source_set_def had_sources_def Count_def)

section \<open>Pricing returns and the queue is drained\<close>

text \<open>The windows of a table whose chains of complements all end, visited in some order.\<close>

definition windows_end :: "pricing_env \<Rightarrow> PricingTable \<Rightarrow> bool" where
  "windows_end env tbl \<longleftrightarrow> set (pe_windows env (pt_TimeWindows tbl)) \<subseteq> set (pt_TimeWindows tbl) \<and>
     (\<forall>(n, w) \<in> set (pt_TimeWindows tbl). chain_ends (pt_TimeWindows tbl) w)"

lemma active_loop_returns:
  "\<forall>(n, w) \<in> set ws. chain_ends allWindows w \<Longrightarrow> \<exists>out. active_loop zone now allWindows ws = Some out"
proof (induction ws)
  case (Cons nw ws)
  obtain n w where nw: "nw = (n, w)" by fastforce
  obtain b where "IsActive zone now allWindows w = Some b" using Cons.prems chain_ends_returns nw by fastforce
  with Cons nw show ?case by auto
qed simp

lemma pricing_returns:
  assumes "windows_end env tbl"
  shows "\<exists>q. ApplyForCustomer (pe_zone env) (pe_windows env) clk raw prof tenor now i tbl = Some q"
proof -
  have "\<forall>(n, w) \<in> set (pe_windows env (pt_TimeWindows tbl)). chain_ends (pt_TimeWindows tbl) w"
    using assms unfolding windows_end_def by (meson subsetD)
  then have "\<exists>ws. ActiveWindows (pe_zone env) (pe_windows env) n tbl = Some ws" for n
    using active_loop_returns by (simp add: ActiveWindows_def)
  then obtain ws where "ActiveWindows (pe_zone env) (pe_windows env) (if now = go_zero_time then clk else now) tbl = Some ws" by blast
  then show ?thesis by (simp add: ApplyForCustomer_def)
qed

text \<open>A tick changes the generator and the counters of the consumer only.\<close>

definition same_setup :: "PricingConsumer \<Rightarrow> PricingConsumer \<Rightarrow> bool" where
  "same_setup c c' \<longleftrightarrow> c' = c\<lparr>pn_gen := pn_gen c', pn_count := pn_count c'\<rparr>"

lemma same_setup_refl [simp]: "same_setup c c"
  by (simp add: same_setup_def)

lemma same_setup_bump [simp]: "same_setup c (pn_bump k d) \<longleftrightarrow> same_setup c d"
  by (cases c; cases d) (auto simp: same_setup_def pn_bump_def)

lemma same_setup_trans: "same_setup c d \<Longrightarrow> same_setup d e \<Longrightarrow> same_setup c e"
  by (cases c; cases d; cases e) (simp add: same_setup_def)

lemma publish_setup: "publish_one reg ok ms rc cust prof cq (c, r) = (p, c', r') \<Longrightarrow> same_setup c c'"
  by (cases c) (auto simp: publish_one_def attachQuoteID_def same_setup_def pn_bump_def case_prod_beta Let_def split: option.splits prod.splits)

lemma profile_loop_returns:
  assumes "windows_end env tbl"
  shows "\<exists>pubs c' r'. profile_loop reg env tbl raw k ps (c, r) = Some (pubs, c', r') \<and> same_setup c c'"
proof (induction ps arbitrary: k c r)
  case (Cons prof ps)
  show ?case
  proof (cases "case pn_sink c of None \<Rightarrow> False | Some has \<Rightarrow> \<not> has (Profile_Key prof)")
    case True
    obtain pubs c' r' where "profile_loop reg env tbl raw k ps (pn_bump ProfilesSkipped c, r) = Some (pubs, c', r')"
        "same_setup (pn_bump ProfilesSkipped c) c'" using Cons.IH by blast
    with True same_setup_trans [of c "pn_bump ProfilesSkipped c" c'] show ?thesis by auto
  next
    case False
    obtain cq where cq: "ApplyAt (pe_zone env) (pe_windows env) (pe_now env k) raw prof (pn_tenor c) (qt_TS raw) tbl = Some cq"
      using pricing_returns [OF assms] unfolding ApplyAt_def by blast
    obtain p c1 r1 where p: "publish_one reg (pe_ok env k) (pe_ms env k) (pe_rc env k) None prof cq (c, r) = (p, c1, r1)"
      by (metis prod.exhaust)
    obtain pubs c' r' where "profile_loop reg env tbl raw (Suc k) ps (c1, r1) = Some (pubs, c', r')" "same_setup c1 c'" using Cons.IH by blast
    with False cq p same_setup_trans [OF publish_setup [OF p], of c'] show ?thesis by simp
  qed
qed simp

lemma customer_loop_returns:
  assumes "windows_end env tbl"
  shows "\<exists>pubs c' r'. customer_loop reg env source tbl raw k cs (c, r) = Some (pubs, c', r') \<and> same_setup c c'"
proof (induction cs arbitrary: k c r)
  case (Cons ip cs)
  obtain i prof where ip: "ip = (i, prof)" by fastforce
  obtain cq where cq: "ApplyForCustomer (pe_zone env) (pe_windows env) (pe_now env k) raw prof (pn_tenor c) (qt_TS raw) i tbl = Some cq"
    using pricing_returns [OF assms] by blast
  obtain p c1 r1 where p: "publish_one reg (pe_ok env k) (pe_ms env k) (pe_rc env k) (Some i) prof
      (if source = [] then cq else cq\<lparr>cq_Source := source\<rparr>) (c, r) = (p, c1, r1)"
    by (metis prod.exhaust)
  obtain pubs c' r' where "customer_loop reg env source tbl raw (Suc k) cs (c1, r1) = Some (pubs, c', r')" "same_setup c1 c'" using Cons.IH by blast
  with cq p ip same_setup_trans [OF publish_setup [OF p], of c'] show ?case by simp
qed simp

lemma processTick_returns:
  assumes "windows_end env (pn_table c)"
  shows "\<exists>pubs c' r'. processTick reg env iter decoder t (c, r) = Some (pubs, c', r') \<and> same_setup c c'"
proof (cases "quoted decoder t c")
  case False
  then show ?thesis by (auto simp: processTick_def quoted_def Let_def split: prod.splits option.splits)
next
  case True
  then obtain pair prices where sym: "Symbol_Lookup (pn_symbols c) (tk_Symbol t) = (pair, True, True)" and dec: "decoder (tk_Body t) = Some prices"
    unfolding quoted_def by blast
  obtain pp c1 r1 where loop: "profile_loop reg env (pn_table c) (tick_raw pair t prices) 0 (pn_profiles c) (c, r) = Some (pp, c1, r1)"
    and s1: "same_setup c c1" using profile_loop_returns [OF assms, of reg] by blast
  obtain cp c2 r2 where cl: "customer_loop reg env [] (pn_table c) (tick_raw pair t prices) (length pp)
      (Customer_Range iter (the (pn_customers c1))) (c1, r1) = Some (cp, c2, r2)" and s2: "same_setup c1 c2"
    using customer_loop_returns [OF assms, of reg] by blast
  show ?thesis using loop cl s1 same_setup_trans [OF s1 s2] by (cases "pn_customers c1") (simp_all add: processTick_def sym dec)
qed

lemma setup_simps:
  "same_setup c c' \<Longrightarrow> pn_tickCh c' = pn_tickCh c" "same_setup c c' \<Longrightarrow> pn_table c' = pn_table c"
  "same_setup c c' \<Longrightarrow> pn_bufferCapacity c' = pn_bufferCapacity c"
  by (cases c; cases c'; simp add: same_setup_def)+

text \<open>A schedule: ticks arrive and the worker takes turns.  The run records the ticks that were accepted and
  those that were processed; \<open>envs k\<close> is what surrounds the k-th event.\<close>

datatype pn_event = Arrive Tick | Work

fun buffered_run ::
  "'r Registry \<Rightarrow> (nat \<Rightarrow> pricing_env) \<Rightarrow> ((string \<times> customerReg) list \<Rightarrow> (string \<times> customerReg) list) \<Rightarrow>
     (bytes \<Rightarrow> (float64 \<times> float64 \<times> float64 \<times> float64) option) \<Rightarrow> nat \<Rightarrow> pn_event list \<Rightarrow> PricingConsumer \<times> 'r \<Rightarrow>
     (Tick list \<times> Tick list \<times> publication list \<times> PricingConsumer \<times> 'r) option" where
  "buffered_run reg envs iter decoder k [] st = Some ([], [], [], st)"
| "buffered_run reg envs iter decoder k (Arrive t # es) st =
     (case Pricing_OnTick reg (envs k) iter decoder t st of
        None \<Rightarrow> None
      | Some (pubs, st') \<Rightarrow>
          (case buffered_run reg envs iter decoder (Suc k) es st' of
             None \<Rightarrow> None
           | Some (acc, dn, pubs', st'') \<Rightarrow>
               Some ((if pn_tickCh (fst st') = pn_tickCh (fst st) then acc else t # acc), dn, pubs @ pubs', st'')))"
| "buffered_run reg envs iter decoder k (Work # es) st =
     (case workerLoop reg (envs k) iter decoder st of
        None \<Rightarrow> None
      | Some (pubs, st') \<Rightarrow>
          (case buffered_run reg envs iter decoder (Suc k) es st' of
             None \<Rightarrow> None
           | Some (acc, dn, pubs', st'') \<Rightarrow>
               Some (acc, (case pn_tickCh (fst st) of Some (t # q) \<Rightarrow> t # dn | _ \<Rightarrow> dn), pubs @ pubs', st'')))"

lemma worker_turn:
  assumes "windows_end env (pn_table c)" "pn_tickCh c = Some q"
  shows "\<exists>pubs c' r'. workerLoop reg env iter decoder (c, r) = Some (pubs, c', r') \<and> pn_tickCh c' = Some (tl q) \<and>
    pn_table c' = pn_table c \<and> pn_bufferCapacity c' = pn_bufferCapacity c"
proof (cases q)
  case Nil
  with assms show ?thesis by (simp add: workerLoop_def)
next
  case (Cons t q')
  have "windows_end env (pn_table (c\<lparr>pn_tickCh := Some q'\<rparr>))" using assms by simp
  from processTick_returns [OF this, of reg iter decoder t r] obtain pubs c' r' where
    "processTick reg env iter decoder t (c\<lparr>pn_tickCh := Some q'\<rparr>, r) = Some (pubs, c', r')" "same_setup (c\<lparr>pn_tickCh := Some q'\<rparr>) c'" by blast
  with assms Cons show ?thesis by (simp add: workerLoop_def setup_simps)
qed

lemma arrival:
  assumes "pn_tickCh c = Some q" "length q \<le> pn_bufferCapacity c"
  shows "\<exists>c'. Pricing_OnTick reg env iter decoder t (c, r) = Some ([], c', r) \<and>
    pn_tickCh c' = Some (if length q < pn_bufferCapacity c then q @ [t] else q) \<and>
    pn_table c' = pn_table c \<and> pn_bufferCapacity c' = pn_bufferCapacity c"
  using assms by (simp add: Pricing_OnTick_def pn_bump_def)

lemma buffered_run_fifo:
  assumes "\<forall>k. windows_end (envs k) (pn_table c)" "pn_tickCh c = Some q" "length q \<le> pn_bufferCapacity c"
  shows "\<exists>acc dn pubs c' r' q'. buffered_run reg envs iter decoder k es (c, r) = Some (acc, dn, pubs, c', r') \<and>
    pn_tickCh c' = Some q' \<and> q @ acc = dn @ q' \<and> length q' \<le> pn_bufferCapacity c \<and>
    (length dn \<ge> min (length q) (count_list es Work))"
  using assms
proof (induction es arbitrary: k c q r)
  case (Cons e es)
  show ?case
  proof (cases e)
    case (Arrive t)
    let ?q = "if length q < pn_bufferCapacity c then q @ [t] else q"
    obtain c1 where c1: "Pricing_OnTick reg (envs k) iter decoder t (c, r) = Some ([], c1, r)" "pn_tickCh c1 = Some ?q"
        "pn_table c1 = pn_table c" "pn_bufferCapacity c1 = pn_bufferCapacity c"
      using arrival [OF Cons.prems(2,3), of reg "envs k" iter decoder t r] by blast
    have w: "\<forall>k. windows_end (envs k) (pn_table c1)" and l: "length ?q \<le> pn_bufferCapacity c1" using Cons.prems c1 by auto
    obtain acc dn pubs c' r' q' where ih: "buffered_run reg envs iter decoder (Suc k) es (c1, r) = Some (acc, dn, pubs, c', r')"
        "pn_tickCh c' = Some q'" "?q @ acc = dn @ q'" "length q' \<le> pn_bufferCapacity c1" "length dn \<ge> min (length ?q) (count_list es Work)"
      using Cons.IH [OF w c1(2) l, of "Suc k" r] by blast
    have "min (length q) (count_list es Work) \<le> min (length ?q) (count_list es Work)" by auto
    with ih(5) have "length dn \<ge> min (length q) (count_list es Work)" by (rule order_trans [rotated])
    with ih c1 Cons.prems Arrive show ?thesis by (cases "length q < pn_bufferCapacity c") simp_all
  next
    case Work
    obtain pubs1 c1 r1 where c1: "workerLoop reg (envs k) iter decoder (c, r) = Some (pubs1, c1, r1)" "pn_tickCh c1 = Some (tl q)"
        "pn_table c1 = pn_table c" "pn_bufferCapacity c1 = pn_bufferCapacity c"
      using worker_turn [OF spec [OF Cons.prems(1), of k] Cons.prems(2), of reg iter decoder r] by blast
    have w: "\<forall>k. windows_end (envs k) (pn_table c1)" and l: "length (tl q) \<le> pn_bufferCapacity c1" using Cons.prems c1 by auto
    obtain acc dn pubs c' r' q' where ih: "buffered_run reg envs iter decoder (Suc k) es (c1, r1) = Some (acc, dn, pubs, c', r')"
        "pn_tickCh c' = Some q'" "tl q @ acc = dn @ q'" "length q' \<le> pn_bufferCapacity c1" "length dn \<ge> min (length (tl q)) (count_list es Work)"
      using Cons.IH [OF w c1(2) l, of "Suc k" r1] by blast
    show ?thesis using ih c1 Cons.prems Work by (cases q) auto
  qed
qed simp


lemma sample_windows_end: "windows_end sample_env (pn_table sample_pricing)" "pn_tickCh sample_pricing = Some []"
    "pn_bufferCapacity sample_pricing = 4"
  by (simp_all add: windows_end_def sample_env_def sample_pricing_def NewPricingConsumer_def NewStore_def)


theorem tick_quotes_registered_witness:
  "\<exists>pubs c' m'. processTick mem_registry sample_env (\<lambda>x. x) (\<lambda>_. Some (5, 6, 0, 0)) sample_market_tick (sample_pricing, NewMemoryRegistry 50) = Some (pubs, c', m') \<and>
     map (\<lambda>p. (pub_customer p, pub_profile p)) pubs =
       [(None, sample_profile), (Some ''amy'', sample_profile), (Some ''bob'', sample_profile)] \<and>
     distinct (map (cq_QuoteID \<circ> pub_quote) pubs) \<and>
     (\<forall>p \<in> set pubs. \<exists>rec. map_of (m_records m') (cq_QuoteID (pub_quote p)) = Some rec \<and> matches rec p)"
proof -
  obtain pubs c' m' where run: "processTick mem_registry sample_env (\<lambda>x. x) (\<lambda>_. Some (5, 6, 0, 0)) sample_market_tick (sample_pricing, NewMemoryRegistry 50) =
      Some (pubs, c', m')"
    using processTick_returns [OF sample_windows_end(1), of mem_registry "\<lambda>x. x" "\<lambda>_. Some (5, 6, 0, 0)" sample_market_tick "NewMemoryRegistry 50"] by blast
  have gen: "pn_gen sample_pricing = Some (NewGenerator ''A'')" "pn_validity sample_pricing > 0"
    by (simp_all add: sample_pricing_def NewPricingConsumer_def validity_of_def)
  have q: "quoted (\<lambda>_. Some (5, 6, 0, 0)) sample_market_tick sample_pricing"
    by (simp add: quoted_def sample_pricing_def NewPricingConsumer_def sample_market_tick_def Symbol_Lookup_def SymbolMap_Replace_def)
  have f: "fanout (\<lambda>x. x) sample_pricing = [(None, sample_profile), (Some ''amy'', sample_profile), (Some ''bob'', sample_profile)]"
    by (simp add: fanout_def wanted_def sample_pricing_def NewPricingConsumer_def sample_customer_range)
  have "length pubs = 3"
    using processTick_issued [OF run] q f by (metis (no_types, lifting) length_map list.size(3,4) One_nat_def Suc_1 add_Suc_right add.right_neutral numeral_3_eq_3)
  then have few: "length pubs \<le> 2 ^ 64" by simp
  show ?thesis using tick_quotes_registered [OF run gen few] run q f by auto
qed

end
