(* ===== verification/Catalogs.thy ===== *)
theory Catalogs
  imports Go_Strings Session_Types
begin

text \<open>
  The catalogues the services look symbols, liquidity providers and users up in: the instrument
  catalogue of src/pkg/instrument/instrument.go with the routing of a mixed subscription to its
  upstreams, the provider catalogue of src/pkg/lpcatalog/lpcatalog.go with its index by multicast
  group and port, and the in-memory user profiles of src/pkg/auth/userprofile.go.  Each catalogue is
  an immutable snapshot replaced as a whole; a Go map is an association list with distinct keys.
\<close>

section \<open>Instruments\<close>

record Instrument =
  is_Symbol :: string
  is_AssetClass :: string
  is_Market :: string
  is_Upstream :: string
  is_Active :: bool

type_synonym Catalog = "(string \<times> Instrument) list"

definition Catalog_Replace :: "Instrument list \<Rightarrow> Catalog" where
  "Catalog_Replace items = fold (\<lambda>it. AList.update (is_Symbol it) it) items []"

definition NewCatalog :: Catalog where
  "NewCatalog = Catalog_Replace []"

definition Catalog_Lookup :: "Catalog \<Rightarrow> string \<Rightarrow> Instrument option" where
  "Catalog_Lookup c symbol = map_of c symbol"

definition Catalog_Route :: "Catalog \<Rightarrow> string \<Rightarrow> string option" where
  "Catalog_Route c symbol =
     (case Catalog_Lookup c symbol of
        None \<Rightarrow> None
      | Some it \<Rightarrow> if \<not> is_Active it then None else Some (is_Upstream it))"

text \<open>\<open>append(m[up], s)\<close> on a map of slices, where a missing key reads as the empty slice.\<close>

definition append_at :: "string \<Rightarrow> string \<Rightarrow> (string \<times> string list) list \<Rightarrow> (string \<times> string list) list" where
  "append_at up s m = AList.update up ((case map_of m up of None \<Rightarrow> [] | Some l \<Rightarrow> l) @ [s]) m"

fun route_loop :: "Catalog \<Rightarrow> string list \<Rightarrow> (string \<times> string list) list \<Rightarrow> string list
    \<Rightarrow> (string \<times> string list) list \<times> string list" where
  "route_loop c [] byUpstream unknown = (byUpstream, unknown)"
| "route_loop c (s # ss) byUpstream unknown =
     (case Catalog_Route c s of
        None \<Rightarrow> route_loop c ss byUpstream (unknown @ [s])
      | Some up \<Rightarrow> route_loop c ss (append_at up s byUpstream) unknown)"

definition RouteAll :: "Catalog \<Rightarrow> string list \<Rightarrow> (string \<times> string list) list \<times> string list" where
  "RouteAll c symbols = route_loop c symbols [] []"

definition Catalog_All :: "Catalog \<Rightarrow> Instrument list" where
  "Catalog_All c = map snd c"

definition Catalog_Size :: "Catalog \<Rightarrow> nat" where
  "Catalog_Size c = length c"

section \<open>Liquidity providers\<close>

record LP =
  lp_Code :: string
  lp_Category :: string
  lp_Group :: string
  lp_Port :: int
  lp_Active :: bool

text \<open>Go's int has 64 bits: negating the smallest one gives itself, and the digit loop, which runs
  while the number is positive, then writes nothing.\<close>

definition int64 :: "int \<Rightarrow> bool" where
  "int64 n \<longleftrightarrow> - (2 ^ 63) \<le> n \<and> n < 2 ^ 63"

definition neg64 :: "int \<Rightarrow> int" where
  "neg64 n = (if n = - (2 ^ 63) then n else - n)"

fun itoa_loop :: "nat \<Rightarrow> string \<Rightarrow> string" where
  "itoa_loop n b = (if n = 0 then b else itoa_loop (n div 10) (char_of (48 + n mod 10) # b))"

definition itoa :: "int \<Rightarrow> string" where
  "itoa n =
     (if n = 0 then ''0''
      else (let neg = n < 0; m = (if neg then neg64 n else n); b = itoa_loop (nat m) []
            in if neg then CHR ''-'' # b else b))"

definition gpKey :: "string \<Rightarrow> int \<Rightarrow> string" where
  "gpKey grp port = grp @ '':'' @ itoa port"

record catalogData =
  cd_byCode :: "(string \<times> LP) list"
  cd_byGroupPort :: "(string \<times> LP) list"

definition LP_Replace :: "LP list \<Rightarrow> catalogData" where
  "LP_Replace items =
     fold (\<lambda>lp d. d\<lparr>cd_byCode := AList.update (lp_Code lp) lp (cd_byCode d),
                     cd_byGroupPort := AList.update (gpKey (lp_Group lp) (lp_Port lp)) lp (cd_byGroupPort d)\<rparr>)
       items \<lparr>cd_byCode = [], cd_byGroupPort = []\<rparr>"

definition LP_Lookup :: "catalogData \<Rightarrow> string \<Rightarrow> LP option" where
  "LP_Lookup d code = map_of (cd_byCode d) code"

definition ByGroupPort :: "catalogData \<Rightarrow> string \<Rightarrow> int \<Rightarrow> LP option" where
  "ByGroupPort d grp port = map_of (cd_byGroupPort d) (gpKey grp port)"

definition ActiveFeeds :: "catalogData \<Rightarrow> LP list" where
  "ActiveFeeds d = filter lp_Active (map snd (cd_byCode d))"

definition LP_All :: "catalogData \<Rightarrow> LP list" where
  "LP_All d = map snd (cd_byCode d)"

definition LP_Size :: "catalogData \<Rightarrow> nat" where
  "LP_Size d = length (cd_byCode d)"

section \<open>User profiles\<close>

record UserProfile =
  up_Site :: string
  up_Tier :: string

type_synonym StaticResolver = "(string \<times> UserProfile) list"

definition NewStaticResolver :: StaticResolver where
  "NewStaticResolver = []"

definition Static_Replace :: "(string \<times> UserProfile) list \<Rightarrow> StaticResolver" where
  "Static_Replace m = fold (\<lambda>(k, v). AList.update k v) m []"

definition Static_Set :: "string \<Rightarrow> UserProfile \<Rightarrow> StaticResolver \<Rightarrow> StaticResolver" where
  "Static_Set usid p r = AList.update usid p (fold (\<lambda>(k, v). AList.update k v) r [])"

definition Static_Resolve :: "StaticResolver \<Rightarrow> string \<Rightarrow> UserProfile option" where
  "Static_Resolve r usid = map_of r usid"

text \<open>\<open>file\<close> is None for the empty path, otherwise the entries read from the JSON file, or None
  when it cannot be read or parsed.\<close>

definition LoadStaticResolverFromFile ::
  "(string \<times> string \<times> string) list option option \<Rightarrow> StaticResolver option" where
  "LoadStaticResolverFromFile file =
     (case file of
        None \<Rightarrow> Some NewStaticResolver
      | Some None \<Rightarrow> None
      | Some (Some entries) \<Rightarrow>
          Some (Static_Replace (fold (\<lambda>(usid, site, tier). AList.update usid \<lparr>up_Site = site, up_Tier = tier\<rparr>) entries [])))"

section \<open>The last writer of a key\<close>

lemma map_of_fold_last:
  "map_of (fold (\<lambda>x. AList.update (f x) (g x)) xs m) k =
     (case find (\<lambda>x. f x = k) (rev xs) of None \<Rightarrow> map_of m k | Some x \<Rightarrow> Some (g x))"
  by (induction xs rule: rev_induct) auto

lemma find_cong_on: "(\<And>x. x \<in> set xs \<Longrightarrow> P x = Q x) \<Longrightarrow> find P xs = find Q xs"
  by (induction xs) auto

section \<open>Decimal numerals\<close>

declare itoa_loop.simps [simp del]

lemma itoa_loop_0 [simp]: "itoa_loop 0 b = b"
  by (simp add: itoa_loop.simps)

lemma itoa_loop_append: "itoa_loop n (a @ b) = itoa_loop n a @ b"
proof (induction n a rule: itoa_loop.induct)
  case (1 n a)
  then show ?case
    by (cases "n = 0") (simp_all add: itoa_loop.simps [of n])
qed

lemma itoa_loop_step:
  "0 < n \<Longrightarrow> itoa_loop n [] = itoa_loop (n div 10) [] @ [char_of (48 + n mod 10)]"
  using itoa_loop_append [of "n div 10" "[]" "[char_of (48 + n mod 10)]"] itoa_loop.simps [of n "[]"] by simp

definition numeral_value :: "string \<Rightarrow> nat" where
  "numeral_value s = foldl (\<lambda>a c. 10 * a + (of_char c - 48)) 0 s"

definition digit :: "char \<Rightarrow> bool" where
  "digit c \<longleftrightarrow> 48 \<le> (of_char c :: nat) \<and> (of_char c :: nat) \<le> 57"

lemma digit_char: "digit (char_of (48 + n mod 10 :: nat))" "of_char (char_of (48 + n mod 10 :: nat) :: char) = 48 + n mod 10"
proof -
  have "48 + n mod 10 < 256" using mod_less_divisor [of 10 n] by linarith
  then show *: "of_char (char_of (48 + n mod 10 :: nat) :: char) = 48 + n mod 10" by simp
  show "digit (char_of (48 + n mod 10 :: nat))"
    unfolding digit_def * using mod_less_divisor [of 10 n] by linarith
qed

lemma itoa_loop_value: "numeral_value (itoa_loop n []) = n"
proof (induction n rule: less_induct)
  case (less n)
  show ?case
  proof (cases "n = 0")
    case False
    then have "n div 10 < n" by simp
    with False less [of "n div 10"] show ?thesis
      by (simp add: itoa_loop_step numeral_value_def digit_char(2) [of n])
  qed (simp add: numeral_value_def)
qed

lemma itoa_loop_digits: "c \<in> set (itoa_loop n []) \<Longrightarrow> digit c"
proof (induction n rule: less_induct)
  case (less n)
  show ?case
  proof (cases "n = 0")
    case False
    then have "n div 10 < n" by simp
    with False less digit_char(1) [of n] show ?thesis by (auto simp: itoa_loop_step)
  qed (use less.prems in simp)
qed

lemma itoa_loop_length: "n < 10 ^ k \<Longrightarrow> length (itoa_loop n []) \<le> k"
proof (induction k arbitrary: n)
  case (Suc k)
  show ?case
  proof (cases "n = 0")
    case False
    have "n div 10 < 10 ^ k" using Suc.prems by (simp add: less_mult_imp_div_less mult.commute)
    with Suc.IH [of "n div 10"] False show ?thesis by (simp add: itoa_loop_step)
  qed simp
qed simp

definition itoa_value :: "string \<Rightarrow> int" where
  "itoa_value s =
     (case s of
        [] \<Rightarrow> 0
      | c # t \<Rightarrow> if c = CHR ''-'' then (if t = [] then - (2 ^ 63) else - int (numeral_value t))
                else int (numeral_value s))"

lemma itoa_loop_nonempty: "0 < n \<Longrightarrow> itoa_loop n [] \<noteq> []"
  by (simp add: itoa_loop_step)

lemma itoa_roundtrip: "int64 n \<Longrightarrow> itoa_value (itoa n) = n"
proof -
  assume r: "int64 n"
  consider "n = 0" | "0 < n" | "n = - (2 ^ 63)" | "n < 0" "n \<noteq> - (2 ^ 63)" by linarith
  then show ?thesis
  proof cases
    case 1
    then show ?thesis by (simp add: itoa_def itoa_value_def numeral_value_def)
  next
    case 2
    then obtain c t where s: "itoa_loop (nat n) [] = c # t"
      using itoa_loop_nonempty [of "nat n"] by (cases "itoa_loop (nat n) []") auto
    then have "digit c" using itoa_loop_digits [of c "nat n"] by simp
    then have "c \<noteq> CHR ''-''" by (auto simp: digit_def)
    with 2 s itoa_loop_value [of "nat n"] show ?thesis by (simp add: itoa_def Let_def itoa_value_def)
  next
    case 3
    then show ?thesis by (simp add: itoa_def Let_def neg64_def itoa_value_def)
  next
    case 4
    then show ?thesis
      using itoa_loop_nonempty [of "nat (- n)"] itoa_loop_value [of "nat (- n)"]
      by (simp add: itoa_def Let_def neg64_def itoa_value_def)
  qed
qed

lemma itoa_no_colon: "CHR '':'' \<notin> set (itoa n)"
proof -
  have "CHR '':'' \<notin> set (itoa_loop m [])" for m
    using itoa_loop_digits [of "CHR '':''" m] by (auto simp: digit_def)
  then show ?thesis by (simp add: itoa_def Let_def)
qed

lemma last_sep_unique:
  "c \<notin> set ys \<Longrightarrow> c \<notin> set ys' \<Longrightarrow> xs @ c # ys = xs' @ c # ys' \<Longrightarrow> xs = xs' \<and> ys = ys'"
proof (induction xs arbitrary: xs')
  case Nil
  then show ?case by (cases xs') auto
next
  case (Cons x xs)
  show ?case
  proof (cases xs')
    case Nil
    with Cons.prems have "ys' = xs @ c # ys" by simp
    with Cons.prems(2) show ?thesis by simp
  qed (use Cons in auto)
qed

lemma gpKey_inj:
  assumes "int64 p" "int64 q"
  shows "gpKey g p = gpKey h q \<longleftrightarrow> g = h \<and> p = q"
proof
  assume "gpKey g p = gpKey h q"
  then have "g @ CHR '':'' # itoa p = h @ CHR '':'' # itoa q" by (simp add: gpKey_def)
  from last_sep_unique [OF itoa_no_colon itoa_no_colon this] have "g = h" "itoa p = itoa q" by simp_all
  then show "g = h \<and> p = q" using itoa_roundtrip [OF assms(1)] itoa_roundtrip [OF assms(2)] by metis
qed simp

text \<open>The numeral fits the buffer of 20 bytes that itoa fills from its end.\<close>

lemma itoa_length: "int64 n \<Longrightarrow> length (itoa n) \<le> 20"
proof -
  assume r: "int64 n"
  have short: "length (itoa_loop m []) \<le> 19" if "m \<le> 2 ^ 63" for m
  proof (rule itoa_loop_length)
    have "(2::nat) ^ 63 < 10 ^ 19" by (simp add: power_numeral)
    with that show "m < 10 ^ 19" by (rule le_less_trans)
  qed
  have "nat n \<le> 2 ^ 63" "nat (neg64 n) \<le> 2 ^ 63" using r by (auto simp: int64_def neg64_def)
  then show ?thesis using short [of "nat n"] short [of "nat (neg64 n)"] by (auto simp: itoa_def Let_def)
qed

section \<open>Tagging by multicast group\<close>

text \<open>The catalogue tags a packet with the provider listed last for its group and port, and with
  none when no provider is listed for them: no two groups and ports share an index key.\<close>

lemma LP_Replace_fields:
  "cd_byCode (LP_Replace items) = fold (\<lambda>lp. AList.update (lp_Code lp) lp) items []"
  "cd_byGroupPort (LP_Replace items) = fold (\<lambda>lp. AList.update (gpKey (lp_Group lp) (lp_Port lp)) lp) items []"
  by (induction items rule: rev_induct) (simp_all add: LP_Replace_def)

theorem lp_tagging:
  assumes "list_all (\<lambda>lp. int64 (lp_Port lp)) items" "int64 port"
  shows "ByGroupPort (LP_Replace items) grp port = find (\<lambda>lp. lp_Group lp = grp \<and> lp_Port lp = port) (rev items)"
proof -
  have "find (\<lambda>lp. gpKey (lp_Group lp) (lp_Port lp) = gpKey grp port) (rev items) =
        find (\<lambda>lp. lp_Group lp = grp \<and> lp_Port lp = port) (rev items)"
    by (rule find_cong_on) (use assms in \<open>auto simp: list_all_iff gpKey_inj\<close>)
  then show ?thesis
    by (simp add: ByGroupPort_def LP_Replace_fields map_of_fold_last split: option.split)
qed

theorem lp_tagging_witness:
  "ByGroupPort (LP_Replace
      [\<lparr>lp_Code = ''SMB'', lp_Category = ''broker'', lp_Group = ''227.10.40.11'', lp_Port = 45010, lp_Active = True\<rparr>,
       \<lparr>lp_Code = ''KMB'', lp_Category = ''broker'', lp_Group = ''227.10.40.12'', lp_Port = 45010, lp_Active = True\<rparr>])
     ''227.10.40.11'' 45010 =
   Some \<lparr>lp_Code = ''SMB'', lp_Category = ''broker'', lp_Group = ''227.10.40.11'', lp_Port = 45010, lp_Active = True\<rparr>"
  by (subst lp_tagging) (simp_all add: int64_def)

section \<open>Routing a mixed subscription\<close>

text \<open>RouteAll splits the symbols without losing or repeating any: every upstream receives exactly
  the symbols routed to it, in their order, and the rest are reported as unknown.\<close>

lemma append_at_map: "map_of (append_at up s m) u =
    (if u = up then Some ((case map_of m up of None \<Rightarrow> [] | Some l \<Rightarrow> l) @ [s]) else map_of m u)"
  by (simp add: append_at_def)

lemma route_loop_split:
  "route_loop c ss b u = (b', u') \<Longrightarrow>
     u' = u @ filter (\<lambda>s. Catalog_Route c s = None) ss \<and>
     (\<forall>up. (case map_of b' up of None \<Rightarrow> [] | Some l \<Rightarrow> l) =
        (case map_of b up of None \<Rightarrow> [] | Some l \<Rightarrow> l) @ filter (\<lambda>s. Catalog_Route c s = Some up) ss)"
proof (induction ss arbitrary: b u)
  case (Cons s ss)
  show ?case
  proof (cases "Catalog_Route c s")
    case None
    then show ?thesis using Cons.IH [of b "u @ [s]"] Cons.prems by simp
  next
    case (Some up)
    then show ?thesis using Cons.IH [of "append_at up s b" u] Cons.prems by (auto simp: append_at_map)
  qed
qed simp

theorem route_all_partitions:
  "snd (RouteAll c symbols) = filter (\<lambda>s. Catalog_Route c s = None) symbols \<and>
   (case map_of (fst (RouteAll c symbols)) up of None \<Rightarrow> [] | Some l \<Rightarrow> l) =
     filter (\<lambda>s. Catalog_Route c s = Some up) symbols"
  using route_loop_split [of c symbols "[]" "[]"] by (cases "RouteAll c symbols") (auto simp: RouteAll_def)

end
