(* ===== verification/Etcd_Watch.thy ===== *)
theory Etcd_Watch
  imports Catalogs Quote_Validation Pricing_Cross
begin

text \<open>
  The watchers that keep the services' tables equal to what etcd holds: the engine allowlist of
  src/pkg/quoteid/etcd_allowlist.go, the symbols of src/pkg/quote/etcd_symbols.go, the currencies and
  pairs of src/pkg/pricing/etcd_currency.go and etcd_pair.go, the instruments and liquidity providers
  of src/pkg/instrument/etcd.go and src/pkg/lpcatalog/etcd.go, the price profiles of
  src/internal/price/etcd_profiles.go and the user profiles of src/pkg/auth/userprofile_etcd.go.

  The eight watchers have one shape, written out once here and instantiated by each: a constructor
  that reads everything below a prefix, a loop that applies the events of the watch channel to a map
  of entries, and a rebuild of the table the service reads.  They differ in the name they file a key
  under, in how a value is read and in the table.  etcd itself is not modelled: the result of the
  first Get and the responses of the watch channel are arguments.  \<open>json\<close> is encoding/json and
  \<open>iter\<close> the order in which Go visits the entries of a map.
\<close>

section \<open>The watch channel\<close>

datatype event = EvPut string string | EvDelete string

fun ev_key :: "event \<Rightarrow> string" where
  "ev_key (EvPut k raw) = k"
| "ev_key (EvDelete k) = k"

text \<open>What the loop receives: the closing of the channel, after which it watches again from then on,
  a response that carries an error, or events.\<close>

datatype watch_response = WatchClosed | WatchError | WatchEvents "event list"

definition watchLoop :: "(event list \<Rightarrow> 'w \<Rightarrow> 'w) \<Rightarrow> watch_response list \<Rightarrow> 'w \<Rightarrow> 'w" where
  "watchLoop handle rs w =
     fold (\<lambda>r w. case r of WatchClosed \<Rightarrow> w | WatchError \<Rightarrow> w | WatchEvents es \<Rightarrow> handle es w) rs w"

section \<open>The common shape\<close>

record ('v, 'm) Watcher =
  wa_prefix :: string
  wa_entries :: "(string \<times> 'v) list"
  wa_target :: 'm

text \<open>One turn of the event loop: \<open>key_of\<close> gives the name a key is filed under, None where the loop
  skips it, and \<open>decode\<close> reads a value, None where the loop logs and skips it.\<close>

fun entry_event :: "(string \<Rightarrow> string option) \<Rightarrow> (string \<Rightarrow> string \<Rightarrow> 'v option) \<Rightarrow> event
    \<Rightarrow> (string \<times> 'v) list \<Rightarrow> (string \<times> 'v) list" where
  "entry_event key_of decode (EvPut k raw) m =
     (case key_of k of
        None \<Rightarrow> m
      | Some i \<Rightarrow> (case decode i raw of None \<Rightarrow> m | Some v \<Rightarrow> AList.update i v m))"
| "entry_event key_of decode (EvDelete k) m =
     (case key_of k of None \<Rightarrow> m | Some i \<Rightarrow> AList.delete i m)"

definition rebuild_with :: "((string \<times> 'v) list \<Rightarrow> 'm \<Rightarrow> 'm) \<Rightarrow> (string \<times> 'v) list \<Rightarrow> ('v, 'm) Watcher \<Rightarrow> ('v, 'm) Watcher" where
  "rebuild_with rebuild es w = w\<lparr>wa_entries := es, wa_target := rebuild es (wa_target w)\<rparr>"

definition initialLoad :: "(string \<Rightarrow> string \<Rightarrow> string option) \<Rightarrow> (string \<Rightarrow> string \<Rightarrow> 'v option)
    \<Rightarrow> ((string \<times> 'v) list \<Rightarrow> 'm \<Rightarrow> 'm) \<Rightarrow> (string \<times> string) list \<Rightarrow> ('v, 'm) Watcher \<Rightarrow> ('v, 'm) Watcher" where
  "initialLoad key_of decode rebuild kvs w =
     rebuild_with rebuild
       (fold (\<lambda>(k, raw). entry_event (key_of (wa_prefix w)) decode (EvPut k raw)) kvs (wa_entries w)) w"

definition applyEvents :: "(string \<Rightarrow> string \<Rightarrow> string option) \<Rightarrow> (string \<Rightarrow> string \<Rightarrow> 'v option)
    \<Rightarrow> ((string \<times> 'v) list \<Rightarrow> 'm \<Rightarrow> 'm) \<Rightarrow> event list \<Rightarrow> ('v, 'm) Watcher \<Rightarrow> ('v, 'm) Watcher" where
  "applyEvents key_of decode rebuild events w =
     (if events = [] then w
      else rebuild_with rebuild (fold (entry_event (key_of (wa_prefix w)) decode) events (wa_entries w)) w)"

datatype watch_error = NoClient | NoTarget | GetFailed

definition watch_prefix :: "string \<Rightarrow> string \<Rightarrow> string" where
  "watch_prefix dflt p =
     (let prefix = (if p = [] then dflt else p) in if \<not> HasSuffix prefix ''/'' then prefix @ ''/'' else prefix)"

text \<open>The constructors: the checks of the options, the prefix, the first Get and the load.\<close>

definition NewWatcher :: "string \<Rightarrow> ((string \<times> string) list \<Rightarrow> ('v, 'm) Watcher \<Rightarrow> ('v, 'm) Watcher)
    \<Rightarrow> bool \<Rightarrow> 'm option \<Rightarrow> string \<Rightarrow> (string \<Rightarrow> (string \<times> string) list option) \<Rightarrow> watch_error + ('v, 'm) Watcher" where
  "NewWatcher dflt load client target p get =
     (if \<not> client then Inl NoClient
      else (case target of
         None \<Rightarrow> Inl NoTarget
       | Some m \<Rightarrow>
           (let prefix = watch_prefix dflt p
            in case get prefix of
                 None \<Rightarrow> Inl GetFailed
               | Some kvs \<Rightarrow> Inr (load kvs \<lparr>wa_prefix = prefix, wa_entries = [], wa_target = m\<rparr>))))"

section \<open>The watchers\<close>

text \<open>How a key is filed: under itself, under the part after the prefix where that is not empty, or
  under the part after the prefix whatever it is.\<close>

definition whole_key :: "string \<Rightarrow> string \<Rightarrow> string option" where
  "whole_key prefix key = Some key"

definition engineFromKey :: "string \<Rightarrow> string \<Rightarrow> string option" where
  "engineFromKey prefix key =
     (if \<not> HasPrefix key prefix then None
      else (let eng = drop (length prefix) key in if eng = [] then None else Some eng))"

definition user_key :: "string \<Rightarrow> string \<Rightarrow> string option" where
  "user_key prefix key = Some (if HasPrefix key prefix then drop (length prefix) key else key)"

text \<open>Engines: a value that cannot be read counts as the default, full permission; the snapshot is
  handed to the callback, SetEngineAllowlistMap of the validation server.\<close>

definition engine_meta :: "(string \<Rightarrow> EngineMeta option) \<Rightarrow> string \<Rightarrow> EngineMeta" where
  "engine_meta json raw = (case parseEngineMeta json raw of None \<Rightarrow> default_EngineMeta | Some m \<Rightarrow> m)"

definition Allow_initialLoad :: "(string \<Rightarrow> EngineMeta option) \<Rightarrow> (string \<times> string) list
    \<Rightarrow> (EngineMeta, QuoteValidationServer) Watcher \<Rightarrow> (EngineMeta, QuoteValidationServer) Watcher" where
  "Allow_initialLoad json = initialLoad engineFromKey (\<lambda>eng raw. Some (engine_meta json raw)) SetEngineAllowlistMap"

definition NewEtcdAllowlistWatcher :: "(string \<Rightarrow> EngineMeta option) \<Rightarrow> bool \<Rightarrow> QuoteValidationServer option \<Rightarrow> string
    \<Rightarrow> (string \<Rightarrow> (string \<times> string) list option) \<Rightarrow> watch_error + (EngineMeta, QuoteValidationServer) Watcher" where
  "NewEtcdAllowlistWatcher json = NewWatcher ''wtg/quoteid/engines/'' (Allow_initialLoad json)"

definition Allow_applyEvents :: "(string \<Rightarrow> EngineMeta option) \<Rightarrow> event list
    \<Rightarrow> (EngineMeta, QuoteValidationServer) Watcher \<Rightarrow> (EngineMeta, QuoteValidationServer) Watcher" where
  "Allow_applyEvents json = applyEvents engineFromKey (\<lambda>eng raw. Some (engine_meta json raw)) SetEngineAllowlistMap"

definition Allow_watchLoop where
  "Allow_watchLoop json = watchLoop (Allow_applyEvents json)"

text \<open>Symbols, currencies, pairs, instruments and providers: the table is replaced by the entries in
  the order of the map.\<close>

definition Symbol_rebuildSnapshot :: "((string \<times> SymbolEntry) list \<Rightarrow> (string \<times> SymbolEntry) list)
    \<Rightarrow> (string \<times> SymbolEntry) list \<Rightarrow> SymbolMap \<Rightarrow> SymbolMap" where
  "Symbol_rebuildSnapshot iter es m = SymbolMap_Replace (map snd (iter es))"

definition Symbol_initialLoad where
  "Symbol_initialLoad json iter = initialLoad whole_key (\<lambda>_. json) (Symbol_rebuildSnapshot iter)"

definition NewEtcdSymbolWatcher where
  "NewEtcdSymbolWatcher json iter = NewWatcher ''wtg/quote/symbols/'' (Symbol_initialLoad json iter)"

definition Symbol_applyEvents where
  "Symbol_applyEvents json iter = applyEvents whole_key (\<lambda>_. json) (Symbol_rebuildSnapshot iter)"

definition Symbol_watchLoop where
  "Symbol_watchLoop json iter = watchLoop (Symbol_applyEvents json iter)"

definition Currency_rebuildSnapshot :: "((string \<times> Currency) list \<Rightarrow> (string \<times> Currency) list)
    \<Rightarrow> (string \<times> Currency) list \<Rightarrow> CurrencyMaster \<Rightarrow> CurrencyMaster" where
  "Currency_rebuildSnapshot iter es m = Currency_Replace (map snd (iter es))"

definition Currency_initialLoad where
  "Currency_initialLoad json iter = initialLoad whole_key (\<lambda>_. json) (Currency_rebuildSnapshot iter)"

definition NewEtcdCurrencyWatcher where
  "NewEtcdCurrencyWatcher json iter = NewWatcher ''wtg/currency/'' (Currency_initialLoad json iter)"

definition Currency_applyEvents where
  "Currency_applyEvents json iter = applyEvents whole_key (\<lambda>_. json) (Currency_rebuildSnapshot iter)"

definition Currency_watchLoop where
  "Currency_watchLoop json iter = watchLoop (Currency_applyEvents json iter)"

text \<open>The pair watcher then calls the OnChange callback with the new master; its target is the master
  with the state \<open>onChange\<close> works on.\<close>

definition Pair_rebuildSnapshot :: "((string \<times> Pair) list \<Rightarrow> (string \<times> Pair) list) \<Rightarrow> (PairMaster \<Rightarrow> 'c \<Rightarrow> 'c) option
    \<Rightarrow> (string \<times> Pair) list \<Rightarrow> PairMaster \<times> 'c \<Rightarrow> PairMaster \<times> 'c" where
  "Pair_rebuildSnapshot iter onChange es mc =
     (let m = Pair_Replace (map snd (iter es))
      in (m, case onChange of None \<Rightarrow> snd mc | Some f \<Rightarrow> f m (snd mc)))"

definition Pair_initialLoad where
  "Pair_initialLoad json iter onChange = initialLoad whole_key (\<lambda>_. json) (Pair_rebuildSnapshot iter onChange)"

definition NewEtcdPairWatcher where
  "NewEtcdPairWatcher json iter onChange = NewWatcher ''wtg/pair/'' (Pair_initialLoad json iter onChange)"

definition Pair_applyEvents where
  "Pair_applyEvents json iter onChange = applyEvents whole_key (\<lambda>_. json) (Pair_rebuildSnapshot iter onChange)"

definition Pair_watchLoop where
  "Pair_watchLoop json iter onChange = watchLoop (Pair_applyEvents json iter onChange)"

definition Instrument_rebuildSnapshot :: "((string \<times> Instrument) list \<Rightarrow> (string \<times> Instrument) list)
    \<Rightarrow> (string \<times> Instrument) list \<Rightarrow> Catalog \<Rightarrow> Catalog" where
  "Instrument_rebuildSnapshot iter es m = Catalog_Replace (map snd (iter es))"

definition Instrument_initialLoad where
  "Instrument_initialLoad json iter = initialLoad whole_key (\<lambda>_. json) (Instrument_rebuildSnapshot iter)"

definition NewEtcdCatalogWatcher where
  "NewEtcdCatalogWatcher json iter = NewWatcher ''wtg/catalog/instruments/'' (Instrument_initialLoad json iter)"

definition Instrument_applyEvents where
  "Instrument_applyEvents json iter = applyEvents whole_key (\<lambda>_. json) (Instrument_rebuildSnapshot iter)"

definition Instrument_watchLoop where
  "Instrument_watchLoop json iter = watchLoop (Instrument_applyEvents json iter)"

definition LP_rebuild :: "((string \<times> LP) list \<Rightarrow> (string \<times> LP) list) \<Rightarrow> (string \<times> LP) list \<Rightarrow> catalogData \<Rightarrow> catalogData" where
  "LP_rebuild iter es m = LP_Replace (map snd (iter es))"

definition LP_initialLoad where
  "LP_initialLoad json iter = initialLoad whole_key (\<lambda>_. json) (LP_rebuild iter)"

definition NewEtcdLPWatcher where
  "NewEtcdLPWatcher json iter = NewWatcher ''wtg/catalog/lp/'' (LP_initialLoad json iter)"

definition LP_applyEvents where
  "LP_applyEvents json iter = applyEvents whole_key (\<lambda>_. json) (LP_rebuild iter)"

definition LP_watchLoop where
  "LP_watchLoop json iter = watchLoop (LP_applyEvents json iter)"

text \<open>Price profiles, of which the snapshot is the list, and user profiles, of which it is the map.\<close>

definition Profile_rebuildSnapshot :: "((string \<times> Profile) list \<Rightarrow> (string \<times> Profile) list)
    \<Rightarrow> (string \<times> Profile) list \<Rightarrow> Profile list \<Rightarrow> Profile list" where
  "Profile_rebuildSnapshot iter es m = map snd (iter es)"

definition Profile_initialLoad where
  "Profile_initialLoad json iter = initialLoad whole_key (\<lambda>_. json) (Profile_rebuildSnapshot iter)"

definition NewEtcdProfileSource where
  "NewEtcdProfileSource json iter client p get = NewWatcher ''wtg/price/profiles/'' (Profile_initialLoad json iter) client (Some []) p get"

definition Profile_applyEvents where
  "Profile_applyEvents json iter = applyEvents whole_key (\<lambda>_. json) (Profile_rebuildSnapshot iter)"

definition Profile_watchLoop where
  "Profile_watchLoop json iter = watchLoop (Profile_applyEvents json iter)"

definition User_rebuild :: "(string \<times> UserProfile) list \<Rightarrow> (string \<times> UserProfile) list \<Rightarrow> (string \<times> UserProfile) list" where
  "User_rebuild es m = es"

definition User_initialLoad where
  "User_initialLoad json = initialLoad user_key (\<lambda>_. json) User_rebuild"

definition NewEtcdUserProfileResolver where
  "NewEtcdUserProfileResolver json client p get = NewWatcher ''wtg/auth/user-profiles/'' (User_initialLoad json) client (Some []) p get"

definition User_applyEvents where
  "User_applyEvents json = applyEvents user_key (\<lambda>_. json) User_rebuild"

definition User_watchLoop where
  "User_watchLoop json = watchLoop (User_applyEvents json)"

definition User_Resolve :: "(UserProfile, (string \<times> UserProfile) list) Watcher \<Rightarrow> string \<Rightarrow> UserProfile option" where
  "User_Resolve w usid = map_of (wa_target w) usid"

section \<open>What a history leaves behind\<close>

text \<open>The events the channel delivered, what the entries then are, and what etcd holds after the same
  history.\<close>

definition delivered :: "watch_response list \<Rightarrow> event list" where
  "delivered rs = concat (map (\<lambda>r. case r of WatchEvents es \<Rightarrow> es | _ \<Rightarrow> []) rs)"

definition puts :: "(string \<times> string) list \<Rightarrow> event list" where
  "puts kvs = map (\<lambda>(k, raw). EvPut k raw) kvs"

fun store_event :: "event \<Rightarrow> (string \<times> string) list \<Rightarrow> (string \<times> string) list" where
  "store_event (EvPut k raw) m = AList.update k raw m"
| "store_event (EvDelete k) m = AList.delete k m"

definition etcd_store :: "(string \<times> string) list \<Rightarrow> watch_response list \<Rightarrow> (string \<times> string) list" where
  "etcd_store kvs rs = fold store_event (puts kvs @ delivered rs) []"

lemma delivered_simps [simp]:
  "delivered [] = []" "delivered (WatchClosed # rs) = delivered rs" "delivered (WatchError # rs) = delivered rs"
  "delivered (WatchEvents es # rs) = es @ delivered rs" "delivered (rs @ rs') = delivered rs @ delivered rs'"
  by (simp_all add: delivered_def)

text \<open>A rebuild whose table depends on the entries alone.\<close>

locale table_of_entries =
  fixes rebuild :: "(string \<times> 'v) list \<Rightarrow> 'm \<Rightarrow> 'm"
  assumes overwrites: "rebuild es (rebuild es' m) = rebuild es m"
begin

lemma load_entries:
  "wa_entries (initialLoad key_of decode rebuild kvs w) =
     fold (entry_event (key_of (wa_prefix w)) decode) (puts kvs) (wa_entries w)"
  "wa_prefix (initialLoad key_of decode rebuild kvs w) = wa_prefix w"
  "wa_target (initialLoad key_of decode rebuild kvs w) =
     rebuild (wa_entries (initialLoad key_of decode rebuild kvs w)) (wa_target w)"
  by (simp_all add: initialLoad_def rebuild_with_def puts_def fold_map comp_def case_prod_unfold)

lemma loop_entries:
  "wa_target w = rebuild (wa_entries w) m \<Longrightarrow>
   wa_entries (watchLoop (applyEvents key_of decode rebuild) rs w) =
     fold (entry_event (key_of (wa_prefix w)) decode) (delivered rs) (wa_entries w) \<and>
   wa_prefix (watchLoop (applyEvents key_of decode rebuild) rs w) = wa_prefix w \<and>
   wa_target (watchLoop (applyEvents key_of decode rebuild) rs w) =
     rebuild (wa_entries (watchLoop (applyEvents key_of decode rebuild) rs w)) m"
proof (induction rs arbitrary: w)
  case (Cons r rs)
  show ?case
  proof (cases r)
    case (WatchEvents es)
    let ?w = "applyEvents key_of decode rebuild es w"
    have "wa_target ?w = rebuild (wa_entries ?w) m" "wa_prefix ?w = wa_prefix w"
      "wa_entries ?w = fold (entry_event (key_of (wa_prefix w)) decode) es (wa_entries w)"
      using Cons.prems by (simp_all add: applyEvents_def rebuild_with_def overwrites)
    with Cons.IH [of ?w] WatchEvents show ?thesis by (simp add: watchLoop_def)
  qed (use Cons in \<open>simp_all add: watchLoop_def\<close>)
qed (simp add: watchLoop_def)

text \<open>After the first load and any responses the entries are those of the whole history, and the
  table is rebuilt from them.\<close>

lemma watched:
  assumes "NewWatcher dflt (initialLoad key_of decode rebuild) client (Some m) p get = Inr w"
  obtains kvs where "get (watch_prefix dflt p) = Some kvs" "wa_prefix w = watch_prefix dflt p"
    "wa_entries (watchLoop (applyEvents key_of decode rebuild) rs w) =
       fold (entry_event (key_of (watch_prefix dflt p)) decode) (puts kvs @ delivered rs) []"
    "wa_target (watchLoop (applyEvents key_of decode rebuild) rs w) =
       rebuild (wa_entries (watchLoop (applyEvents key_of decode rebuild) rs w)) m"
proof -
  obtain kvs where g: "get (watch_prefix dflt p) = Some kvs"
    and w: "w = initialLoad key_of decode rebuild kvs \<lparr>wa_prefix = watch_prefix dflt p, wa_entries = [], wa_target = m\<rparr>"
    using assms by (auto simp: NewWatcher_def Let_def split: if_splits option.splits)
  have "wa_target w = rebuild (wa_entries w) m" unfolding w by (subst load_entries(3)) simp
  from loop_entries [OF this, of key_of decode rs] show ?thesis
    by (intro that [OF g]) (simp_all add: w load_entries)
qed

end

text \<open>A filing of the keys below a prefix under which no two of them share a name.\<close>

locale filing =
  fixes key_of :: "string \<Rightarrow> string \<Rightarrow> string option" and prefix :: string
  assumes one_key: "HasPrefix k prefix \<Longrightarrow> HasPrefix k' prefix \<Longrightarrow> key_of prefix k = Some i \<Longrightarrow>
    key_of prefix k' = Some i \<Longrightarrow> k = k'"
begin

definition readable :: "(string \<Rightarrow> string \<Rightarrow> 'v option) \<Rightarrow> event \<Rightarrow> bool" where
  "readable decode e \<longleftrightarrow> (case e of EvDelete k \<Rightarrow> True
     | EvPut k raw \<Rightarrow> (case key_of prefix k of None \<Rightarrow> True | Some i \<Rightarrow> decode i raw \<noteq> None))"

text \<open>When every value of the history can be read, the entry under a name is what etcd holds under
  its key.\<close>

lemma entries_follow:
  assumes k: "HasPrefix k prefix" "key_of prefix k = Some i"
    and es: "list_all (\<lambda>e. HasPrefix (ev_key e) prefix \<and> readable decode e) es"
  shows "map_of (fold (entry_event (key_of prefix) decode) es []) i =
    Option.bind (map_of (fold store_event es []) k) (decode i)"
  using es
proof (induction es rule: rev_induct)
  case (snoc e es)
  show ?case
  proof (cases e)
    case (EvPut k' raw)
    have same: "k' = k" if "key_of prefix k' = Some i" using one_key [OF _ k(1) that k(2)] snoc.prems EvPut by simp
    show ?thesis using snoc EvPut k same by (auto simp: readable_def split: option.splits)
  next
    case (EvDelete k')
    have same: "k' = k" if "key_of prefix k' = Some i" using one_key [OF _ k(1) that k(2)] snoc.prems EvDelete by simp
    show ?thesis using snoc EvDelete k same by (auto split: option.splits)
  qed
qed simp

text \<open>A name no event of a history is filed under keeps its entry.\<close>

lemma entries_untouched:
  "list_all (\<lambda>e. key_of prefix (ev_key e) \<noteq> Some i) es \<Longrightarrow>
   map_of (fold (entry_event (key_of prefix) decode) es m) i = map_of m i"
proof (induction es arbitrary: m)
  case (Cons e es)
  have "map_of (entry_event (key_of prefix) decode e m) i = map_of m i"
    using Cons.prems by (cases e) (auto split: option.splits)
  with Cons show ?case by simp
qed simp

end

interpretation by_engine: filing engineFromKey prefix for prefix
  by unfold_locales (auto simp: engineFromKey_def HasPrefix_append Let_def split: if_splits)

interpretation by_user: filing user_key prefix for prefix
  by unfold_locales (auto simp: user_key_def HasPrefix_append split: if_splits)

interpretation by_key: filing whole_key prefix for prefix
  by unfold_locales (simp add: whole_key_def)

interpretation allow_table: table_of_entries SetEngineAllowlistMap
  by unfold_locales (simp add: SetEngineAllowlistMap_def)

interpretation symbol_table: table_of_entries "Symbol_rebuildSnapshot iter" for iter
  by unfold_locales (simp add: Symbol_rebuildSnapshot_def)

interpretation currency_table: table_of_entries "Currency_rebuildSnapshot iter" for iter
  by unfold_locales (simp add: Currency_rebuildSnapshot_def)

interpretation instrument_table: table_of_entries "Instrument_rebuildSnapshot iter" for iter
  by unfold_locales (simp add: Instrument_rebuildSnapshot_def)

interpretation lp_table: table_of_entries "LP_rebuild iter" for iter
  by unfold_locales (simp add: LP_rebuild_def)

interpretation profile_table: table_of_entries "Profile_rebuildSnapshot iter" for iter
  by unfold_locales (simp add: Profile_rebuildSnapshot_def)

interpretation user_table: table_of_entries User_rebuild
  by unfold_locales (simp add: User_rebuild_def)

text \<open>The pair watcher's master is such a table when no callback is set.\<close>

interpretation pair_table: table_of_entries "Pair_rebuildSnapshot iter None" for iter
  by unfold_locales (simp add: Pair_rebuildSnapshot_def Let_def)

section \<open>The allowlist in force is the one in etcd\<close>

lemma engine_key: "e \<noteq> [] \<Longrightarrow> engineFromKey prefix (prefix @ e) = Some e"
  by (simp add: engineFromKey_def HasPrefix_append Let_def)

lemma engineFromKey_Some: "engineFromKey prefix k = Some e \<longleftrightarrow> e \<noteq> [] \<and> k = prefix @ e"
  by (auto simp: engineFromKey_def HasPrefix_append Let_def)

lemma AList_empty_iff: "m = [] \<longleftrightarrow> (\<forall>k. map_of m k = None)"
  by (cases m) auto

lemma store_scope:
  "list_all (\<lambda>e. HasPrefix (ev_key e) prefix) es \<Longrightarrow> map_of (fold store_event es []) k \<noteq> None \<Longrightarrow> HasPrefix k prefix"
proof (induction es rule: rev_induct)
  case (snoc e es)
  then show ?case by (cases e) (auto split: if_splits)
qed simp

text \<open>The entries of the allowlist watcher, through the contracts of the filing and the table.\<close>

lemma allow_entries:
  assumes new: "NewEtcdAllowlistWatcher json client (Some s) p get = Inr w"
    and "get (watch_prefix ''wtg/quoteid/engines/'' p) = Some kvs"
    and sc: "list_all (\<lambda>e. HasPrefix (ev_key e) (wa_prefix w)) (puts kvs @ delivered rs)"
  defines "w' \<equiv> Allow_watchLoop json rs w"
  shows "wa_target w' = SetEngineAllowlistMap (wa_entries w') s"
    "e \<noteq> [] \<Longrightarrow> map_of (wa_entries w') e =
       map_option (engine_meta json) (map_of (etcd_store kvs rs) (wa_prefix w @ e))"
    "map_of (wa_entries w') [] = None"
proof -
  let ?d = "\<lambda>(eng :: string) raw. Some (engine_meta json raw)"
  obtain kvs' where "get (watch_prefix ''wtg/quoteid/engines/'' p) = Some kvs'"
    and pre: "wa_prefix w = watch_prefix ''wtg/quoteid/engines/'' p"
    and en: "wa_entries w' = fold (entry_event (engineFromKey (watch_prefix ''wtg/quoteid/engines/'' p)) ?d) (puts kvs' @ delivered rs) []"
    and t: "wa_target w' = SetEngineAllowlistMap (wa_entries w') s"
    using allow_table.watched [OF new [unfolded NewEtcdAllowlistWatcher_def Allow_initialLoad_def], of rs]
    unfolding w'_def Allow_watchLoop_def Allow_applyEvents_def by metis
  with assms(2) have kvs: "kvs' = kvs" by simp
  show "wa_target w' = SetEngineAllowlistMap (wa_entries w') s" by (rule t)
  have all: "list_all (\<lambda>e. HasPrefix (ev_key e) (wa_prefix w) \<and> by_engine.readable (wa_prefix w) ?d e) (puts kvs @ delivered rs)"
    using sc by (auto simp: list_all_iff by_engine.readable_def split: event.splits option.splits)
  show "map_of (wa_entries w') e = map_option (engine_meta json) (map_of (etcd_store kvs rs) (wa_prefix w @ e))" if "e \<noteq> []"
    using by_engine.entries_follow [OF _ engine_key [OF that] all]
    by (simp add: en kvs pre etcd_store_def HasPrefix_append) (simp add: map_option_case Option.bind_eq_None_conv split: option.splits)
  show "map_of (wa_entries w') [] = None"
    using by_engine.entries_untouched [of "wa_prefix w" "[]" "puts kvs @ delivered rs" ?d "[]"]
    by (simp add: en kvs pre list_all_iff engineFromKey_Some)
qed

text \<open>C13: The validation server grants an operation to an engine exactly when etcd lists the engine
  with a value that is not expired and has the permission, or lists no engine at all; here after the
  constructor's load and any responses of the watch channel, for the history they delivered.\<close>

theorem allowlist_follows_etcd:
  assumes "NewEtcdAllowlistWatcher json client (Some s) p get = Inr w"
    and "get (watch_prefix ''wtg/quoteid/engines/'' p) = Some kvs"
    and "list_all (\<lambda>e. HasPrefix (ev_key e) (wa_prefix w)) (puts kvs @ delivered rs)"
    and "engineID \<noteq> []"
  shows "fst (checkEngine parse now engineID op (wa_target (Allow_watchLoop json rs w))) \<longleftrightarrow>
     (\<forall>k. map_of (etcd_store kvs rs) k \<noteq> None \<longrightarrow> k = wa_prefix w) \<or>
     (\<exists>raw. map_of (etcd_store kvs rs) (wa_prefix w @ engineID) = Some raw \<and>
        \<not> ExpiredAt parse (engine_meta json raw) now \<and> HasPermission (engine_meta json raw) op)"
proof -
  let ?w = "Allow_watchLoop json rs w" and ?s = "etcd_store kvs rs"
  note en = allow_entries [OF assms(1-3)]
  have "wa_entries ?w = [] \<longleftrightarrow> (\<forall>e. e \<noteq> [] \<longrightarrow> map_of ?s (wa_prefix w @ e) = None)"
    unfolding AList_empty_iff using en(2,3) by (metis option.map_disc_iff)
  also have "\<dots> \<longleftrightarrow> (\<forall>k. map_of ?s k \<noteq> None \<longrightarrow> k = wa_prefix w)"
    using store_scope [OF assms(3)] unfolding etcd_store_def HasPrefix_append by (metis append_self_conv)
  finally have empty: "wa_entries ?w = [] \<longleftrightarrow> (\<forall>k. map_of ?s k \<noteq> None \<longrightarrow> k = wa_prefix w)" .
  have "fst (checkEngine parse now engineID op (wa_target ?w)) \<longleftrightarrow> wa_entries ?w = [] \<or>
     (\<exists>m. map_of (wa_entries ?w) engineID = Some m \<and> \<not> ExpiredAt parse m now \<and> HasPermission m op)"
    unfolding en(1) by (auto simp: checkEngine_def SetEngineAllowlistMap_def split: option.splits)
  then show ?thesis unfolding empty en(2) [OF assms(4)] by auto
qed

definition sample_engine_json :: "string \<Rightarrow> EngineMeta option" where
  "sample_engine_json raw = (if raw = ''{v}'' then Some \<lparr>em_Permissions = [PermValidate], em_ExpiresAt = [], em_Contact = []\<rparr> else None)"

definition sample_kvs :: "(string \<times> string) list" where
  "sample_kvs = [(''e/a'', ''{v}''), (''e/b'', '''')]"

theorem allowlist_follows_etcd_witness:
  "let w = \<lparr>wa_prefix = ''e/'', wa_entries = [], wa_target = NewQuoteValidationServer\<rparr>;
       rs = [WatchEvents [EvDelete ''e/b''], WatchClosed]
   in fst (checkEngine Map.empty 0 ''a'' PermValidate
        (wa_target (Allow_watchLoop sample_engine_json rs (Allow_initialLoad sample_engine_json sample_kvs w))))"
proof -
  have new: "NewEtcdAllowlistWatcher sample_engine_json True (Some NewQuoteValidationServer) ''e'' (\<lambda>_. Some sample_kvs) =
    Inr (Allow_initialLoad sample_engine_json sample_kvs \<lparr>wa_prefix = ''e/'', wa_entries = [], wa_target = NewQuoteValidationServer\<rparr>)"
    by (simp add: NewEtcdAllowlistWatcher_def NewWatcher_def watch_prefix_def HasSuffix_def)
  have pre: "wa_prefix (Allow_initialLoad sample_engine_json sample_kvs
      \<lparr>wa_prefix = ''e/'', wa_entries = [], wa_target = NewQuoteValidationServer\<rparr>) = ''e/''"
    by (simp add: Allow_initialLoad_def allow_table.load_entries(2))
  show ?thesis
    unfolding Let_def
    by (subst allowlist_follows_etcd [OF new])
      (simp_all only: pre, simp_all add: sample_kvs_def puts_def HasPrefix_def etcd_store_def engine_meta_def
        parseEngineMeta_def sample_engine_json_def ExpiredAt_def HasPermission_def)
qed

text \<open>Deleting the last engine therefore opens the gate to every engine.\<close>

lemma allowlist_emptied_opens:
  assumes "NewEtcdAllowlistWatcher json client (Some s) p get = Inr w"
    and "get (watch_prefix ''wtg/quoteid/engines/'' p) = Some [(wa_prefix w @ e, raw)]"
  shows "checkEngine parse now other op
     (wa_target (Allow_watchLoop json [WatchEvents [EvDelete (wa_prefix w @ e)]] w)) = (True, [])"
proof -
  let ?w = "Allow_watchLoop json [WatchEvents [EvDelete (wa_prefix w @ e)]] w"
  note en = allow_entries [OF assms(1,2), of "[WatchEvents [EvDelete (wa_prefix w @ e)]]"]
  have "map_of (wa_entries ?w) i = None" for i
    using en(2,3) by (cases "i = []") (simp_all add: puts_def HasPrefix_append etcd_store_def)
  then have "wa_entries ?w = []" by (simp add: AList_empty_iff)
  with en(1) show ?thesis by (simp add: puts_def HasPrefix_append SetEngineAllowlistMap_def checkEngine_def)
qed

text \<open>A change that happens while the channel is closed is never made good: an engine whose
  deletion was not delivered keeps its permissions through every later response that has no event
  of its own.\<close>

theorem missed_revocation_stays:
  assumes "map_of (wa_entries w) engineID = Some m"
    and "wa_target w = SetEngineAllowlistMap (wa_entries w) s"
    and "list_all (\<lambda>e. ev_key e \<noteq> wa_prefix w @ engineID) (delivered rs)"
    and "\<not> ExpiredAt parse m now" and "HasPermission m op"
  shows "checkEngine parse now engineID op
    (wa_target (Allow_watchLoop json (WatchClosed # rs) w)) = (True, [])"
proof -
  let ?w = "Allow_watchLoop json (WatchClosed # rs) w"
  have none: "list_all (\<lambda>e. engineFromKey (wa_prefix w) (ev_key e) \<noteq> Some engineID) (delivered rs)"
    using assms(3) by (auto simp: list_all_iff engineFromKey_Some)
  have "map_of (wa_entries ?w) engineID = Some m \<and> wa_target ?w = SetEngineAllowlistMap (wa_entries ?w) s"
    using allow_table.loop_entries [OF assms(2)] assms(1)
    by (simp add: Allow_watchLoop_def Allow_applyEvents_def by_engine.entries_untouched [OF none])
  then show ?thesis using assms(4,5) by (cases "wa_entries ?w") (auto simp: SetEngineAllowlistMap_def checkEngine_def)
qed

theorem missed_revocation_stays_witness:
  "checkEngine Map.empty 0 ''a'' PermValidate
    (wa_target (Allow_watchLoop sample_engine_json (WatchClosed # [WatchEvents [EvPut ''e/c'' '''']])
      (Allow_initialLoad sample_engine_json sample_kvs
         \<lparr>wa_prefix = ''e/'', wa_entries = [], wa_target = NewQuoteValidationServer\<rparr>))) = (True, [])"
  by (rule missed_revocation_stays [where m = "\<lparr>em_Permissions = [PermValidate], em_ExpiresAt = [], em_Contact = []\<rparr>"
        and s = NewQuoteValidationServer])
    (simp_all add: Allow_initialLoad_def initialLoad_def rebuild_with_def sample_kvs_def engineFromKey_def HasPrefix_def
      engine_meta_def parseEngineMeta_def sample_engine_json_def ExpiredAt_def HasPermission_def)

section \<open>User profiles\<close>

text \<open>A user's profile is the one etcd holds, while every stored profile can be read; a name whose
  events are unreadable keeps its last readable one.\<close>

lemma user_key_Some: "HasPrefix k prefix \<Longrightarrow> user_key prefix k = Some i \<longleftrightarrow> k = prefix @ i"
  by (auto simp: user_key_def HasPrefix_append)

theorem user_profile_follows:
  assumes "NewEtcdUserProfileResolver json client p get = Inr w"
    and "get (wa_prefix w) = Some kvs"
    and "list_all (\<lambda>e. HasPrefix (ev_key e) (wa_prefix w) \<and> (case e of EvDelete k \<Rightarrow> True | EvPut k raw \<Rightarrow> json raw \<noteq> None))
       (puts kvs @ delivered rs)"
  shows "User_Resolve (User_watchLoop json rs w) usid =
    Option.bind (map_of (etcd_store kvs rs) (wa_prefix w @ usid)) json"
proof -
  let ?w = "User_watchLoop json rs w" and ?p = "watch_prefix ''wtg/auth/user-profiles/'' p"
  obtain kvs' where "get ?p = Some kvs'" and pre: "wa_prefix w = ?p"
    and en: "wa_entries ?w = fold (entry_event (user_key ?p) (\<lambda>_. json)) (puts kvs' @ delivered rs) []"
    and t: "wa_target ?w = User_rebuild (wa_entries ?w) []"
    using user_table.watched [OF assms(1) [unfolded NewEtcdUserProfileResolver_def User_initialLoad_def], of rs]
    unfolding User_watchLoop_def User_applyEvents_def by metis
  with assms(2) have kvs: "kvs' = kvs" by simp
  have k: "HasPrefix (wa_prefix w @ usid) (wa_prefix w)" by (simp add: HasPrefix_append)
  have all: "list_all (\<lambda>e. HasPrefix (ev_key e) (wa_prefix w) \<and> by_user.readable (wa_prefix w) (\<lambda>_. json) e) (puts kvs @ delivered rs)"
    using assms(3) by (auto simp: list_all_iff by_user.readable_def split: event.splits option.splits)
  show ?thesis
    using by_user.entries_follow [OF k _ all, of usid] user_key_Some [OF k]
    by (simp add: User_Resolve_def t User_rebuild_def en kvs pre etcd_store_def)
qed

end
