(* ===== verification/Etcd_Stores.thy ===== *)
theory Etcd_Stores
  imports Etcd_Watch Policy
begin

text \<open>
  The two stores that also write to etcd: the routing registry of src/pkg/routing/etcd.go, a cache of
  the rules that its own writes update besides the watch, and the policy synchronisation of
  src/pkg/policy/etcd.go, which persists every change of the engine and applies every event.  The
  steps of an instance are interleaved with the writes of other instances and the delivery of the
  events, in which etcd keeps the order of the writes.  \<open>json\<close> and \<open>marshal\<close> are encoding/json.
\<close>

section \<open>The routing registry\<close>

record EtcdRegistry =
  er_prefix :: string
  er_rules :: "(string \<times> Rule) list"

datatype etcd_route_error = RouteError route_error | MarshalFailed | EtcdFailed | RouteNoEndpoints | RouteDialFailed

definition aliasFromKey :: "string \<Rightarrow> string \<Rightarrow> string" where
  "aliasFromKey prefix key = (if \<not> HasPrefix key prefix then [] else drop (length prefix) key)"

definition keyOf :: "string \<Rightarrow> string \<Rightarrow> string" where
  "keyOf prefix alias = prefix @ alias"

text \<open>A key without an alias is skipped; a rule read from etcd takes the alias of its key.\<close>

definition alias_key :: "string \<Rightarrow> string \<Rightarrow> string option" where
  "alias_key prefix key = (if aliasFromKey prefix key = [] then None else Some (aliasFromKey prefix key))"

definition rule_of :: "(string \<Rightarrow> Rule option) \<Rightarrow> string \<Rightarrow> string \<Rightarrow> Rule option" where
  "rule_of json alias raw = map_option (\<lambda>r. r\<lparr>ru_Alias := alias\<rparr>) (json raw)"

definition Registry_initialLoad :: "(string \<Rightarrow> Rule option) \<Rightarrow> (string \<times> string) list option \<Rightarrow> EtcdRegistry
    \<Rightarrow> etcd_route_error + EtcdRegistry" where
  "Registry_initialLoad json got r =
     (case got of
        None \<Rightarrow> Inl EtcdFailed
      | Some kvs \<Rightarrow> Inr (r\<lparr>er_rules :=
          fold (\<lambda>(k, raw). entry_event (alias_key (er_prefix r)) (rule_of json) (EvPut k raw)) kvs (er_rules r)\<rparr>))"

text \<open>The constructor: \<open>tls\<close> tells whether a whole client configuration is given, \<open>dialled\<close> whether the
  client can be made.\<close>

definition NewEtcdRegistry :: "(string \<Rightarrow> Rule option) \<Rightarrow> string list \<Rightarrow> bool \<Rightarrow> bool \<Rightarrow> string
    \<Rightarrow> (string \<Rightarrow> (string \<times> string) list option) \<Rightarrow> etcd_route_error + EtcdRegistry" where
  "NewEtcdRegistry json endpoints tls dialled p get =
     (if endpoints = [] \<and> \<not> tls then Inl RouteNoEndpoints
      else if \<not> dialled then Inl RouteDialFailed
      else (let prefix = watch_prefix ''wtg/routes/'' p
            in Registry_initialLoad json (get prefix) \<lparr>er_prefix = prefix, er_rules = []\<rparr>))"

definition Registry_applyEvents :: "(string \<Rightarrow> Rule option) \<Rightarrow> event list \<Rightarrow> EtcdRegistry \<Rightarrow> EtcdRegistry" where
  "Registry_applyEvents json events r =
     (if events = [] then r
      else r\<lparr>er_rules := fold (entry_event (alias_key (er_prefix r)) (rule_of json)) events (er_rules r)\<rparr>)"

definition Registry_watchLoop :: "(string \<Rightarrow> Rule option) \<Rightarrow> watch_response list \<Rightarrow> EtcdRegistry \<Rightarrow> EtcdRegistry" where
  "Registry_watchLoop json = watchLoop (Registry_applyEvents json)"

text \<open>Put up to its write: the rule with its stamp, and the key and value it is written under; then
  the update of the cache.  \<open>put\<close> tells whether the write succeeds and \<open>env\<close> what other goroutines
  do to the registry during it.\<close>

definition put_record :: "(Rule \<Rightarrow> string option) \<Rightarrow> int \<Rightarrow> Rule option \<Rightarrow> string \<Rightarrow> string
    \<Rightarrow> etcd_route_error + (string \<times> string \<times> Rule)" where
  "put_record marshal now rule who prefix =
     (case rule of
        None \<Rightarrow> Inl (RouteError ErrAliasRequired)
      | Some r \<Rightarrow>
          (case Validate r of
             Inl e \<Rightarrow> Inl (RouteError e)
           | Inr r' \<Rightarrow>
               (let cp = r'\<lparr>ru_UpdatedAt := now, ru_UpdatedBy := who\<rparr>
                in case marshal cp of
                     None \<Rightarrow> Inl MarshalFailed
                   | Some value \<Rightarrow> Inr (keyOf prefix (ru_Alias cp), value, cp))))"

definition Etcd_Put :: "(Rule \<Rightarrow> string option) \<Rightarrow> (string \<Rightarrow> string \<Rightarrow> bool) \<Rightarrow> (EtcdRegistry \<Rightarrow> EtcdRegistry)
    \<Rightarrow> int \<Rightarrow> Rule option \<Rightarrow> string \<Rightarrow> EtcdRegistry \<Rightarrow> etcd_route_error option \<times> EtcdRegistry" where
  "Etcd_Put marshal put env now rule who r =
     (case put_record marshal now rule who (er_prefix r) of
        Inl e \<Rightarrow> (Some e, r)
      | Inr (key, value, cp) \<Rightarrow>
          (if \<not> put key value then (Some EtcdFailed, env r)
           else (let r' = env r in (None, r'\<lparr>er_rules := AList.update (ru_Alias cp) cp (er_rules r')\<rparr>))))"

definition Etcd_Delete :: "(string \<Rightarrow> bool) \<Rightarrow> (EtcdRegistry \<Rightarrow> EtcdRegistry) \<Rightarrow> string \<Rightarrow> EtcdRegistry
    \<Rightarrow> etcd_route_error option \<times> EtcdRegistry" where
  "Etcd_Delete del env alias r =
     (case map_of (er_rules r) alias of
        None \<Rightarrow> (Some (RouteError ErrRouteNotFound), r)
      | Some _ \<Rightarrow>
          (if \<not> del (keyOf (er_prefix r) alias) then (Some EtcdFailed, env r)
           else (let r' = env r in (None, r'\<lparr>er_rules := AList.delete alias (er_rules r')\<rparr>))))"

definition Etcd_SetActive :: "(Rule \<Rightarrow> string option) \<Rightarrow> (string \<Rightarrow> string \<Rightarrow> bool) \<Rightarrow> (EtcdRegistry \<Rightarrow> EtcdRegistry)
    \<Rightarrow> int \<Rightarrow> string \<Rightarrow> bool \<Rightarrow> string \<Rightarrow> EtcdRegistry \<Rightarrow> etcd_route_error option \<times> EtcdRegistry" where
  "Etcd_SetActive marshal put env now alias active who r =
     (case map_of (er_rules r) alias of
        None \<Rightarrow> (Some (RouteError ErrRouteNotFound), r)
      | Some cur \<Rightarrow> Etcd_Put marshal put env now (Some (cur\<lparr>ru_Active := active\<rparr>)) who r)"

text \<open>Get and List read the cache as the in-memory registry does.\<close>

definition Etcd_Get :: "EtcdRegistry \<Rightarrow> string \<Rightarrow> route_error + Rule" where
  "Etcd_Get r alias = (case map_of (er_rules r) alias of None \<Rightarrow> Inl ErrRouteNotFound | Some rule \<Rightarrow> Inr rule)"

definition Etcd_List :: "EtcdRegistry \<Rightarrow> Rule list" where
  "Etcd_List r = sort_key ru_Alias (map snd (er_rules r))"

section \<open>One instance among others\<close>

text \<open>etcd's contents, the events not yet delivered to this instance, its cache, and the cache updates
  its own successful writes still owe (None for a deletion).  With \<open>timely\<close> an update happens while
  an event of its alias is still to come.\<close>

record registry_system =
  rs_store :: "(string \<times> string) list"
  rs_queue :: "event list"
  rs_reg :: EtcdRegistry
  rs_owed :: "(string \<times> Rule option) list"

definition write_event :: "event \<Rightarrow> registry_system \<Rightarrow> registry_system" where
  "write_event e s = s\<lparr>rs_store := store_event e (rs_store s), rs_queue := rs_queue s @ [e]\<rparr>"

definition local_update :: "string \<times> Rule option \<Rightarrow> EtcdRegistry \<Rightarrow> EtcdRegistry" where
  "local_update u r = (case u of
     (alias, None) \<Rightarrow> r\<lparr>er_rules := AList.delete alias (er_rules r)\<rparr>
   | (alias, Some cp) \<Rightarrow> r\<lparr>er_rules := AList.update alias cp (er_rules r)\<rparr>)"

inductive registry_step :: "(string \<Rightarrow> Rule option) \<Rightarrow> (Rule \<Rightarrow> string option) \<Rightarrow> bool \<Rightarrow> registry_system \<Rightarrow> registry_system \<Rightarrow> bool"
  for json marshal timely where
  own_put: "put_record marshal now rule who (er_prefix (rs_reg s)) = Inr (key, value, cp) \<Longrightarrow>
    registry_step json marshal timely s
      ((write_event (EvPut key value) s)\<lparr>rs_owed := rs_owed s @ [(ru_Alias cp, Some cp)]\<rparr>)"
| own_delete: "map_of (er_rules (rs_reg s)) alias \<noteq> None \<Longrightarrow>
    registry_step json marshal timely s
      ((write_event (EvDelete (keyOf (er_prefix (rs_reg s)) alias)) s)\<lparr>rs_owed := rs_owed s @ [(alias, None)]\<rparr>)"
| update: "rs_owed s = us @ (alias, v) # vs \<Longrightarrow>
    (timely \<longrightarrow> keyOf (er_prefix (rs_reg s)) alias \<in> ev_key ` set (rs_queue s)) \<Longrightarrow>
    registry_step json marshal timely s (s\<lparr>rs_reg := local_update (alias, v) (rs_reg s), rs_owed := us @ vs\<rparr>)"
| other_put: "HasPrefix key (er_prefix (rs_reg s)) \<Longrightarrow> json value \<noteq> None \<Longrightarrow>
    registry_step json marshal timely s (write_event (EvPut key value) s)"
| other_delete: "HasPrefix key (er_prefix (rs_reg s)) \<Longrightarrow>
    registry_step json marshal timely s (write_event (EvDelete key) s)"
| deliver: "rs_queue s = es @ rest \<Longrightarrow>
    registry_step json marshal timely s (s\<lparr>rs_reg := Registry_applyEvents json es (rs_reg s), rs_queue := rest\<rparr>)"

section \<open>The cache converges\<close>

interpretation by_alias: filing alias_key prefix for prefix
  by unfold_locales (auto simp: alias_key_def aliasFromKey_def HasPrefix_append split: if_splits)

lemma alias_key_Some: "alias_key prefix k = Some i \<longleftrightarrow> i \<noteq> [] \<and> k = prefix @ i"
  by (auto simp: alias_key_def aliasFromKey_def HasPrefix_append split: if_splits)

lemma alias_key_own [simp]: "a \<noteq> [] \<Longrightarrow> alias_key prefix (prefix @ a) = Some a"
  by (simp add: alias_key_Some)

text \<open>Where an event of a name is still to come, the entry before it does not matter.\<close>

lemma entry_event_cong:
  "map_of m i = map_of m' i \<Longrightarrow> map_of (entry_event key_of decode e m) i = map_of (entry_event key_of decode e m') i"
  by (cases e) (auto split: option.splits)

lemma fold_entry_cong:
  "map_of m i = map_of m' i \<Longrightarrow>
   map_of (fold (entry_event key_of decode) es m) i = map_of (fold (entry_event key_of decode) es m') i"
proof (induction es arbitrary: m m')
  case (Cons e es)
  show ?case unfolding fold_simps by (intro Cons.IH entry_event_cong Cons.prems)
qed simp

lemma fold_entry_covered:
  assumes "e \<in> set es" "key_of (ev_key e) = Some i"
    and "list_all (\<lambda>e. case e of EvDelete k \<Rightarrow> True | EvPut k raw \<Rightarrow> (\<forall>i. decode i raw \<noteq> None)) es"
  shows "map_of (fold (entry_event key_of decode) es m) i = map_of (fold (entry_event key_of decode) es m') i"
proof -
  from assms(1) obtain xs ys where es: "es = xs @ e # ys" by (meson split_list)
  have "map_of (entry_event key_of decode e n) i = map_of (entry_event key_of decode e n') i" for n n'
    using assms(2,3) unfolding es by (cases e) (auto split: option.splits dest: spec [of _ i])
  then show ?thesis unfolding es fold_append fold_simps comp_apply by (rule fold_entry_cong)
qed

definition readable_event :: "(string \<Rightarrow> Rule option) \<Rightarrow> event \<Rightarrow> bool" where
  "readable_event json e = (case e of EvDelete k \<Rightarrow> True | EvPut k raw \<Rightarrow> json raw \<noteq> None)"

text \<open>Delivering what is still to come would make the cache what etcd holds.\<close>

definition synced :: "(string \<Rightarrow> Rule option) \<Rightarrow> registry_system \<Rightarrow> bool" where
  "synced json s \<longleftrightarrow>
     list_all (readable_event json) (rs_queue s) \<and>
     (\<forall>alias. alias \<noteq> [] \<longrightarrow>
        map_of (fold (entry_event (alias_key (er_prefix (rs_reg s))) (rule_of json)) (rs_queue s) (er_rules (rs_reg s))) alias =
        Option.bind (map_of (rs_store s) (er_prefix (rs_reg s) @ alias)) (rule_of json alias))"

lemma synced_write:
  assumes "synced json s" "readable_event json e"
  shows "synced json (write_event e s)"
proof -
  have "map_of (entry_event (alias_key p) (rule_of json) e m) a =
      Option.bind (map_of (store_event e st) (p @ a)) (rule_of json a)"
    if "a \<noteq> []" "map_of m a = Option.bind (map_of st (p @ a)) (rule_of json a)" for a m st p
    using that assms(2)
    by (cases e) (auto simp: readable_event_def alias_key_Some rule_of_def split: option.splits)
  then show ?thesis using assms by (simp add: synced_def write_event_def)
qed

lemma put_record_key: "put_record marshal now rule who prefix = Inr (key, value, cp) \<Longrightarrow>
    key = prefix @ ru_Alias cp \<and> ru_Alias cp \<noteq> [] \<and> marshal cp = Some value"
  by (auto simp: put_record_def keyOf_def Validate_def Let_def split: option.splits sum.splits if_splits)

lemma synced_update:
  assumes "synced json s" "e \<in> set (rs_queue s)" "ev_key e = er_prefix (rs_reg s) @ a"
  shows "synced json (s\<lparr>rs_reg := local_update (a, v) (rs_reg s), rs_owed := us\<rparr>)"
proof -
  let ?f = "entry_event (alias_key (er_prefix (rs_reg s))) (rule_of json)" and ?r = "local_update (a, v) (rs_reg s)"
  have pre: "er_prefix ?r = er_prefix (rs_reg s)" by (simp add: local_update_def split: option.split)
  have all: "list_all (\<lambda>e. case e of EvDelete k \<Rightarrow> True | EvPut k raw \<Rightarrow> (\<forall>i. rule_of json i raw \<noteq> None)) (rs_queue s)"
    using assms(1) by (auto simp: synced_def list_all_iff readable_event_def rule_of_def split: event.splits)
  have "map_of (fold ?f (rs_queue s) (er_rules ?r)) i = map_of (fold ?f (rs_queue s) (er_rules (rs_reg s))) i"
    if "i \<noteq> []" for i
  proof (cases "i = a")
    case True
    with that assms(3) have "alias_key (er_prefix (rs_reg s)) (ev_key e) = Some i" by (simp add: alias_key_Some)
    then show ?thesis by (rule fold_entry_covered [OF assms(2) _ all])
  next
    case False
    then show ?thesis by (intro fold_entry_cong) (simp add: local_update_def split: option.split)
  qed
  then show ?thesis using assms(1) by (simp add: synced_def pre)
qed

lemma synced_step:
  assumes "registry_step json marshal True s s'" "synced json s"
    and "\<forall>r v. marshal r = Some v \<longrightarrow> json v \<noteq> None"
  shows "synced json s'"
  using assms(1)
proof (cases rule: registry_step.cases)
  case (own_put now rule who key val cp)
  then have "readable_event json (EvPut key val)" using assms(3) put_record_key by (fastforce simp: readable_event_def)
  from synced_write [OF assms(2) this] own_put(1) show ?thesis by (simp add: synced_def)
next
  case (own_delete a)
  from synced_write [OF assms(2), of "EvDelete (keyOf (er_prefix (rs_reg s)) a)"] own_delete(1) show ?thesis
    by (simp add: synced_def readable_event_def)
next
  case (update us a v vs)
  then show ?thesis using synced_update [OF assms(2)] by (auto simp: keyOf_def)
next
  case (other_put key val)
  then show ?thesis using synced_write [OF assms(2)] by (simp add: readable_event_def)
next
  case (other_delete key)
  then show ?thesis using synced_write [OF assms(2)] by (simp add: readable_event_def)
next
  case (deliver es rest)
  then show ?thesis using assms(2) by (auto simp: synced_def Registry_applyEvents_def)
qed

lemma synced_steps:
  assumes "(registry_step json marshal True)\<^sup>*\<^sup>* s s'" "synced json s" "\<forall>r v. marshal r = Some v \<longrightarrow> json v \<noteq> None"
  shows "synced json s'"
  using assms by (induction rule: rtranclp_induct) (auto intro: synced_step)

text \<open>C25: A registry whose own cache updates happen before the watch has caught up with them converges:
  whatever this and the other instances write and however the events are batched, once every event is
  delivered the cache holds for every alias what etcd holds.\<close>

theorem route_cache_converges:
  assumes "(registry_step json marshal True)\<^sup>*\<^sup>* s s'"
    and "rs_queue s = []" and "\<forall>a. a \<noteq> [] \<longrightarrow> map_of (er_rules (rs_reg s)) a =
       Option.bind (map_of (rs_store s) (er_prefix (rs_reg s) @ a)) (rule_of json a)"
    and "\<forall>r v. marshal r = Some v \<longrightarrow> json v \<noteq> None"
    and "rs_queue s' = []" and "a \<noteq> []"
  shows "Etcd_Get (rs_reg s') a =
    (case Option.bind (map_of (rs_store s') (er_prefix (rs_reg s') @ a)) (rule_of json a) of
       None \<Rightarrow> Inl ErrRouteNotFound | Some r \<Rightarrow> Inr r)"
proof -
  have "synced json s" using assms(2,3) by (simp add: synced_def)
  from synced_steps [OF assms(1) this assms(4)] assms(5,6) show ?thesis by (simp add: synced_def Etcd_Get_def)
qed

text \<open>The write and the update of a step are those of Put and Delete.\<close>

lemma Etcd_Put_parts:
  "put_record marshal now rule who (er_prefix r) = Inr (key, val, cp) \<Longrightarrow> put key val \<Longrightarrow>
   Etcd_Put marshal put env now rule who r = (None, local_update (ru_Alias cp, Some cp) (env r))"
  by (simp add: Etcd_Put_def local_update_def Let_def)

lemma Etcd_Delete_parts:
  "map_of (er_rules r) a \<noteq> None \<Longrightarrow> del (keyOf (er_prefix r) a) \<Longrightarrow>
   Etcd_Delete del env a r = (None, local_update (a, None) (env r))"
  by (auto simp: Etcd_Delete_def local_update_def Let_def)

text \<open>An instance whose rules are their routing keys, for the samples.\<close>

definition plain_rule :: "string \<Rightarrow> string \<Rightarrow> Rule" where
  "plain_rule a rk = \<lparr>ru_Alias = a, ru_Exchange = [], ru_RoutingKey = rk, ru_Active = True, ru_Comment = [],
     ru_UpdatedAt = 0, ru_UpdatedBy = []\<rparr>"

definition plain_json :: "string \<Rightarrow> Rule option" where
  "plain_json raw = Some (plain_rule [] raw)"

definition plain_marshal :: "Rule \<Rightarrow> string option" where
  "plain_marshal r = Some (ru_RoutingKey r)"

definition fresh_system :: registry_system where
  "fresh_system = \<lparr>rs_store = [], rs_queue = [], rs_reg = \<lparr>er_prefix = ''r/'', er_rules = []\<rparr>, rs_owed = []\<rparr>"

definition own_then_other :: registry_system where
  "own_then_other = \<lparr>rs_store = [(''r/a'', ''y'')], rs_queue = [EvPut ''r/a'' ''x'', EvPut ''r/a'' ''y''],
     rs_reg = \<lparr>er_prefix = ''r/'', er_rules = []\<rparr>, rs_owed = [(''a'', Some (plain_rule ''a'' ''x''))]\<rparr>"

lemma own_then_other_reached:
  "registry_step plain_json plain_marshal timely fresh_system
     ((write_event (EvPut ''r/a'' ''x'') fresh_system)\<lparr>rs_owed := rs_owed fresh_system @ [(''a'', Some (plain_rule ''a'' ''x''))]\<rparr>)"
  "registry_step plain_json plain_marshal timely
     ((write_event (EvPut ''r/a'' ''x'') fresh_system)\<lparr>rs_owed := rs_owed fresh_system @ [(''a'', Some (plain_rule ''a'' ''x''))]\<rparr>)
     own_then_other"
proof -
  have "put_record plain_marshal 0 (Some (plain_rule ''a'' ''x'')) [] (er_prefix (rs_reg fresh_system)) =
      Inr (''r/a'', ''x'', plain_rule ''a'' ''x'')"
    by code_simp
  from own_put [OF this, of plain_json timely]
  show "registry_step plain_json plain_marshal timely fresh_system
     ((write_event (EvPut ''r/a'' ''x'') fresh_system)\<lparr>rs_owed := rs_owed fresh_system @ [(''a'', Some (plain_rule ''a'' ''x''))]\<rparr>)"
    by (simp add: plain_rule_def)
  let ?s = "(write_event (EvPut ''r/a'' ''x'') fresh_system)\<lparr>rs_owed := rs_owed fresh_system @ [(''a'', Some (plain_rule ''a'' ''x''))]\<rparr>"
  have e: "own_then_other = write_event (EvPut ''r/a'' ''y'') ?s"
    by (simp add: own_then_other_def write_event_def fresh_system_def)
  show "registry_step plain_json plain_marshal timely ?s own_then_other"
    unfolding e by (rule other_put) (simp_all add: write_event_def fresh_system_def HasPrefix_def plain_json_def)
qed

lemma own_then_other_run: "(registry_step plain_json plain_marshal timely)\<^sup>*\<^sup>* fresh_system own_then_other"
  using own_then_other_reached by (meson converse_rtranclp_into_rtranclp rtranclp.rtrancl_refl)

text \<open>The update first, then the two events: the cache ends with the other instance's rule.\<close>

theorem route_cache_converges_witness:
  "\<exists>s'. (registry_step plain_json plain_marshal True)\<^sup>*\<^sup>* fresh_system s' \<and> rs_queue s' = [] \<and> rs_owed s' = [] \<and>
     Etcd_Get (rs_reg s') ''a'' = Inr (plain_rule ''a'' ''y'')"
proof -
  let ?u = "own_then_other\<lparr>rs_reg := local_update (''a'', Some (plain_rule ''a'' ''x'')) (rs_reg own_then_other), rs_owed := [] @ []\<rparr>"
  let ?d = "?u\<lparr>rs_reg := Registry_applyEvents plain_json (rs_queue own_then_other) (rs_reg ?u), rs_queue := []\<rparr>"
  have u: "registry_step plain_json plain_marshal True own_then_other ?u"
    by (rule update) (simp_all add: own_then_other_def keyOf_def)
  have "registry_step plain_json plain_marshal True ?u ?d" by (rule deliver) (simp add: own_then_other_def)
  with own_then_other_run [of True] u have run: "(registry_step plain_json plain_marshal True)\<^sup>*\<^sup>* fresh_system ?d"
    by (meson rtranclp.rtrancl_into_rtrancl)
  have "Etcd_Get (rs_reg ?d) ''a'' = (case Option.bind (map_of (rs_store ?d) (er_prefix (rs_reg ?d) @ ''a'')) (rule_of plain_json ''a'') of
       None \<Rightarrow> Inl ErrRouteNotFound | Some r \<Rightarrow> Inr r)"
    by (rule route_cache_converges [OF run]) (simp_all add: fresh_system_def plain_json_def)
  also have "\<dots> = Inr (plain_rule ''a'' ''y'')"
    by (simp add: own_then_other_def local_update_def Registry_applyEvents_def rule_of_def plain_json_def plain_rule_def)
  finally show ?thesis using run by (intro exI [of _ ?d]) simp
qed


section \<open>Policy synchronisation\<close>

datatype sync_error = NoEngine | NoEndpoints | DialFailed | SyncGetFailed

text \<open>The first Get: an absent or unreadable document leaves the engine as it is.\<close>

definition Sync_initialLoad :: "(string \<Rightarrow> PolState option) \<Rightarrow> string option option \<Rightarrow> Engine \<Rightarrow> sync_error + Engine" where
  "Sync_initialLoad json got e =
     (case got of
        None \<Rightarrow> Inl SyncGetFailed
      | Some None \<Rightarrow> Inr e
      | Some (Some raw) \<Rightarrow> (case json raw of None \<Rightarrow> Inr e | Some st \<Rightarrow> Inr (ApplyRemote st e)))"

definition StartEtcdSync :: "(string \<Rightarrow> PolState option) \<Rightarrow> Engine option \<Rightarrow> string list \<Rightarrow> bool
    \<Rightarrow> (string \<Rightarrow> string option option) \<Rightarrow> string \<Rightarrow> sync_error + (string \<times> Engine)" where
  "StartEtcdSync json engine endpoints dialled got key0 =
     (case engine of
        None \<Rightarrow> Inl NoEngine
      | Some e \<Rightarrow>
          if endpoints = [] then Inl NoEndpoints
          else if \<not> dialled then Inl DialFailed
          else (let key = (if key0 = [] then ''wtg/policy'' else key0)
                in case Sync_initialLoad json (got key) e of
                     Inl err \<Rightarrow> Inl err
                   | Inr e' \<Rightarrow> Inr (key, AddOnChange True e')))"

text \<open>The OnChange callback writes the snapshot; a failure is logged and the write is lost.\<close>

definition persist :: "(PolState \<Rightarrow> string option) \<Rightarrow> (string \<Rightarrow> bool) \<Rightarrow> string \<Rightarrow> PolState \<Rightarrow> event option" where
  "persist marshal put key st =
     (case marshal st of None \<Rightarrow> None | Some val \<Rightarrow> if \<not> put val then None else Some (EvPut key val))"

fun Sync_event :: "(string \<Rightarrow> PolState option) \<Rightarrow> event \<Rightarrow> Engine \<Rightarrow> Engine" where
  "Sync_event json (EvPut k raw) e = (case json raw of None \<Rightarrow> e | Some st \<Rightarrow> ApplyRemote st e)"
| "Sync_event json (EvDelete k) e = ApplyRemote empty_state e"

text \<open>The loop of the sync over its watch, and SplitEndpoints.\<close>

definition Sync_watchLoop :: "(string \<Rightarrow> PolState option) \<Rightarrow> watch_response list \<Rightarrow> Engine \<Rightarrow> Engine" where
  "Sync_watchLoop json = watchLoop (\<lambda>es e. fold (Sync_event json) es e)"

definition SplitEndpoints :: "string \<Rightarrow> string list" where
  "SplitEndpoints s = (if s = [] then [] else filter (\<lambda>p. p \<noteq> []) (map TrimSpace (Split (CHR '','') s)))"

lemma Sync_watchLoop_fold: "Sync_watchLoop json rs e = fold (Sync_event json) (delivered rs) e"
  unfolding Sync_watchLoop_def watchLoop_def
  by (induction rs arbitrary: e) (auto split: watch_response.split)

lemma Sync_event_inv: "pol_inv e \<Longrightarrow> pol_inv (Sync_event json ev e)"
  using pol_exec_inv [of e "PApplyRemote st" for st]
  by (cases ev) (auto split: option.split)

lemma Sync_fold_inv: "pol_inv e \<Longrightarrow> pol_inv (fold (Sync_event json) es e)"
  by (induction es arbitrary: e) (simp_all add: Sync_event_inv)

lemma ApplyRemote_forgets: "en_state (ApplyRemote st e) = en_state (ApplyRemote st e')"
  by (simp add: ApplyRemote_def rebuildSetsLocked_def)

text \<open>Instances agree: after any local histories and any events, two engines whose last event is the
  same readable document, or the deletion of it, decide every request alike.\<close>

theorem policy_instances_agree:
  assumes "delivered rs = es @ [ev]" "delivered rs' = es' @ [ev]"
    and "case ev of EvPut k raw \<Rightarrow> json raw \<noteq> None | EvDelete k \<Rightarrow> True"
  shows "Check now req (Sync_watchLoop json rs (pol_run ops NewEngine)) =
    Check now req (Sync_watchLoop json rs' (pol_run ops' NewEngine))"
proof -
  have inv: "pol_inv (Sync_watchLoop json rs (pol_run ops NewEngine))" for rs ops
    unfolding Sync_watchLoop_fold by (intro Sync_fold_inv pol_run_inv pol_inv_new)
  have "en_state (Sync_event json ev e) = en_state (Sync_event json ev e')" for e e'
    using assms(3) by (cases ev) (auto intro: ApplyRemote_forgets)
  then have "en_state (Sync_watchLoop json rs (pol_run ops NewEngine)) = en_state (Sync_watchLoop json rs' (pol_run ops' NewEngine))"
    using assms(1,2) by (simp add: Sync_watchLoop_fold)
  then show ?thesis unfolding Check_decide [OF inv] by simp
qed

theorem policy_instances_agree_witness:
  "Check 0 req (Sync_watchLoop (\<lambda>_. Some empty_state) [WatchEvents [EvPut ''wtg/policy'' ''{}'']]
      (pol_run [PKillSwitch 0 True [] ''op''] NewEngine)) =
   Check 0 req (Sync_watchLoop (\<lambda>_. Some empty_state) [WatchClosed, WatchEvents [EvPut ''wtg/policy'' ''{}'']] (pol_run [] NewEngine))"
  by (rule policy_instances_agree [where es = "[]" and es' = "[]" and ev = "EvPut ''wtg/policy'' ''{}''"]) simp_all

section \<open>Echoes of an instance's own changes\<close>

text \<open>Whether a change of the engine calls the callbacks.\<close>

fun pol_fires :: "pol_op \<Rightarrow> Engine \<Rightarrow> bool" where
  "pol_fires (PSetState now s who) e = True"
| "pol_fires (PKillSwitch now a cs who) e = True"
| "pol_fires (PMaintenance now w who) e = (fst (SetMaintenance now w who e) = None)"
| "pol_fires (PAddSymbol now s who) e = (fst (AddBlockedSymbol now s who e) = None)"
| "pol_fires (PRemoveSymbol now s who) e =
     (let t = TrimSpace (ToUpper s) in t \<noteq> [] \<and> t \<in> en_blockedSymbols e)"
| "pol_fires (PAddRkey now s who) e = (fst (AddBlockedRoutingKey now s who e) = None)"
| "pol_fires (PRemoveRkey now s who) e =
     (let t = TrimSpace (ToUpper s) in t \<noteq> [] \<and> t \<in> en_blockedRkeys e)"
| "pol_fires _ e = False"

text \<open>One instance: a change made here, whose snapshot is written and echoed by the watch, and the
  delivery of the next event.\<close>

datatype sync_step = SChange pol_op | SDeliver

fun sync_exec :: "(string \<Rightarrow> PolState option) \<Rightarrow> (PolState \<Rightarrow> string option) \<Rightarrow> string \<Rightarrow> sync_step
    \<Rightarrow> Engine \<times> event list \<Rightarrow> Engine \<times> event list" where
  "sync_exec json marshal key (SChange op) (e, q) =
     (let e' = pol_exec op e
      in if pol_fires op e \<and> notifyPrepLocked e' \<noteq> []
         then (case persist marshal (\<lambda>_. True) key (snapshotLocked e') of None \<Rightarrow> (e', q) | Some ev \<Rightarrow> (e', q @ [ev]))
         else (e', q))"
| "sync_exec json marshal key SDeliver (e, []) = (e, [])"
| "sync_exec json marshal key SDeliver (e, ev # q) = (Sync_event json ev e, q)"

text \<open>The texts of the scenario below.\<close>

lemma echo_texts:
  "TrimSpace (ToUpper ''AAA'') = ''AAA''" "TrimSpace (ToUpper ''BBB'') = ''BBB''"
  "ToUpper (TrimSpace ''NEW'') = ''NEW''" "ToUpper (TrimSpace ''CCC'') = ''CCC''" "ToUpper (TrimSpace ''WEB'') = ''WEB''"
  "normalizeUpper [''AAA''] = [''AAA'']" "normalizeUpper [''AAA'', ''BBB''] = [''AAA'', ''BBB'']" "normalizeUpper [] = []"
  "sort [''AAA'', ''BBB''] = [''AAA'', ''BBB'']"
  by code_simp+

definition echo_state :: "bool \<Rightarrow> string list \<Rightarrow> int \<Rightarrow> PolState" where
  "echo_state kill syms t = empty_state\<lparr>po_KillSwitch := kill, po_BlockedSymbols := syms, po_UpdatedAt := t, po_UpdatedBy := ''op''\<rparr>"

text \<open>C38: A kill switch can be lost to the echo of an earlier change.  The operator blocks a symbol,
  turns the kill switch on, and blocks another symbol after the echo of the first change arrived; no
  step turns the switch off, yet once every event is delivered it is off, here and in etcd's last
  document.  The encoding need only read back the three documents it writes.\<close>

theorem kill_switch_lost_to_echo:
  assumes rt: "list_all (\<lambda>st. \<exists>v. marshal st = Some v \<and> json v = Some st)
      [echo_state False [''AAA''] 1, echo_state True [''AAA''] 2, echo_state False [''AAA'', ''BBB''] 3]"
  shows "let (e, q) = fold (sync_exec json marshal key)
      [SChange (PAddSymbol 1 ''AAA'' ''op''), SChange (PKillSwitch 2 True [] ''op''), SDeliver,
       SChange (PAddSymbol 3 ''BBB'' ''op''), SDeliver, SDeliver] (AddOnChange True NewEngine, [])
    in q = [] \<and> \<not> po_KillSwitch (snapshotLocked e) \<and> Check now \<lparr>rq_Usid = ''u'', rq_Channel = ''WEB'', rq_Alias = [],
         rq_Exchange = ''ORDER'', rq_RoutingKey = ''NEW'', rq_Symbol = ''CCC''\<rparr> e = Allow"
proof -
  obtain a b c where "marshal (echo_state False [''AAA''] 1) = Some a" "json a = Some (echo_state False [''AAA''] 1)"
    "marshal (echo_state True [''AAA''] 2) = Some b" "json b = Some (echo_state True [''AAA''] 2)"
    "marshal (echo_state False [''AAA'', ''BBB''] 3) = Some c" "json c = Some (echo_state False [''AAA'', ''BBB''] 3)"
    using rt by auto
  then show ?thesis
    by (simp add: echo_state_def persist_def notifyPrepLocked_def snapshotLocked_def AddOnChange_def NewEngine_def empty_state_def
        AddBlockedSymbol_def SetKillSwitchScoped_def ApplyRemote_def rebuildSetsLocked_def stamp_def Let_def echo_texts
        normalizeChannels_def Check_def kill_applies_def window_active_def)
qed

definition echo_marshal :: "PolState \<Rightarrow> string option" where
  "echo_marshal st = Some (if po_KillSwitch st then ''b'' else if length (po_BlockedSymbols st) = 1 then ''a'' else ''c'')"

definition echo_json :: "string \<Rightarrow> PolState option" where
  "echo_json v = (if v = ''a'' then Some (echo_state False [''AAA''] 1) else if v = ''b'' then Some (echo_state True [''AAA''] 2)
     else Some (echo_state False [''AAA'', ''BBB''] 3))"

theorem kill_switch_lost_to_echo_witness:
  "let (e, q) = fold (sync_exec echo_json echo_marshal ''wtg/policy'')
      [SChange (PAddSymbol 1 ''AAA'' ''op''), SChange (PKillSwitch 2 True [] ''op''), SDeliver,
       SChange (PAddSymbol 3 ''BBB'' ''op''), SDeliver, SDeliver] (AddOnChange True NewEngine, [])
    in q = [] \<and> \<not> po_KillSwitch (snapshotLocked e) \<and> Check 7 \<lparr>rq_Usid = ''u'', rq_Channel = ''WEB'', rq_Alias = [],
         rq_Exchange = ''ORDER'', rq_RoutingKey = ''NEW'', rq_Symbol = ''CCC''\<rparr> e = Allow"
  by (rule kill_switch_lost_to_echo) (simp add: echo_marshal_def echo_json_def echo_state_def)

end
