(* ===== verification/Go_Path.thy ===== *)
theory Go_Path
  imports Go_Strings
begin

text \<open>
  What the rate-limit rules use of Go's path package: path.Match, whose patterns have \<open>*\<close> and \<open>?\<close>
  (which do not cross a slash), character classes and escapes.  Names and patterns are ASCII.  The
  result None is ErrBadPattern.
\<close>

text \<open>The next chunk: everything up to a star outside a class.\<close>

fun scan_rest :: "bool \<Rightarrow> string \<Rightarrow> string \<times> string" where
  "scan_rest inrange [] = ([], [])"
| "scan_rest inrange (c # cs) =
     (if c = CHR 0x5C then
        (case cs of [] \<Rightarrow> ([c], []) | d # ds \<Rightarrow> (let (a, b) = scan_rest inrange ds in (c # d # a, b)))
      else if c = CHR ''*'' \<and> \<not> inrange then ([], c # cs)
      else (let (a, b) = scan_rest (if c = CHR ''['' then True else if c = CHR '']'' then False else inrange) cs
            in (c # a, b)))"

definition scanChunk :: "string \<Rightarrow> bool \<times> string \<times> string" where
  "scanChunk pattern =
     (let p = dropWhile (\<lambda>c. c = CHR ''*'') pattern in (p \<noteq> pattern, scan_rest False p))"

text \<open>One character of a class.\<close>

definition getEsc :: "string \<Rightarrow> (char \<times> string) option" where
  "getEsc chunk =
     (case chunk of
        [] \<Rightarrow> None
      | c # cs \<Rightarrow>
          if c = CHR ''-'' \<or> c = CHR '']'' then None
          else (case (if c = CHR 0x5C then cs else chunk) of
                  [] \<Rightarrow> None
                | r # nchunk \<Rightarrow> if nchunk = [] then None else Some (r, nchunk)))"

lemma getEsc_shorter: "getEsc chunk = Some (r, rest) \<Longrightarrow> length rest < length chunk \<and> rest \<noteq> []"
  by (auto simp: getEsc_def split: list.splits if_splits)

text \<open>The ranges of a class: whether the character is in one of them, and what follows the class.\<close>

function class_ranges :: "char \<Rightarrow> string \<Rightarrow> nat \<Rightarrow> bool \<Rightarrow> (bool \<times> string) option" where
  "class_ranges r chunk nrange found =
     (if chunk \<noteq> [] \<and> hd chunk = CHR '']'' \<and> 0 < nrange then Some (found, tl chunk)
      else (case getEsc chunk of
         None \<Rightarrow> None
       | Some (lo, rest) \<Rightarrow>
           if hd rest = CHR ''-'' then
             (case getEsc (tl rest) of
                None \<Rightarrow> None
              | Some (hi, rest') \<Rightarrow> class_ranges r rest' (nrange + 1) (found \<or> (lo \<le> r \<and> r \<le> hi)))
           else class_ranges r rest (nrange + 1) (found \<or> lo = r)))"
  by pat_completeness auto
termination
  by (relation "measure (\<lambda>(r, chunk, n, f). length chunk)") (auto dest!: getEsc_shorter)

declare class_ranges.simps [simp del]

lemma class_ranges_shorter: "class_ranges r chunk n f = Some (b, rest) \<Longrightarrow> length rest < length chunk"
proof (induction chunk arbitrary: n f rule: length_induct)
  case (1 chunk)
  have IH: "class_ranges r c m g = Some (b, rest) \<Longrightarrow> length c < length chunk \<Longrightarrow> length rest < length chunk" for c m g
    using 1(1) less_trans by blast
  from 1(2) show ?case
  proof (subst (asm) class_ranges.simps, cases "chunk \<noteq> [] \<and> hd chunk = CHR '']'' \<and> 0 < n")
    case False
    with 1(2) obtain lo c where g: "getEsc chunk = Some (lo, c)"
      by (subst (asm) class_ranges.simps) (auto split: option.splits)
    note c = getEsc_shorter [OF g]
    show ?thesis
    proof (cases "hd c = CHR ''-''")
      case True
      with 1(2) False g obtain hi c' where h: "getEsc (tl c) = Some (hi, c')"
        and rec: "class_ranges r c' (n + 1) (f \<or> (lo \<le> r \<and> r \<le> hi)) = Some (b, rest)"
        by (subst (asm) class_ranges.simps) (auto split: option.splits)
      have "length c' < length chunk" using getEsc_shorter [OF h] c by auto
      then show ?thesis by (rule IH [OF rec])
    next
      case notDash: False
      with 1(2) False g have "class_ranges r c (n + 1) (f \<or> lo = r) = Some (b, rest)"
        by (subst (asm) class_ranges.simps) auto
      then show ?thesis using c by (intro IH) auto
    qed
  qed auto
qed

text \<open>A chunk against the beginning of a name: after a mismatch the rest of the chunk is still read,
  to report a malformed pattern.  The result is what is left of the name, or None for a mismatch.\<close>

function matchChunk :: "string \<Rightarrow> string \<Rightarrow> bool \<Rightarrow> string option option" where
  "matchChunk chunk s failed0 =
     (case chunk of
        [] \<Rightarrow> Some (if failed0 then None else Some s)
      | c # cs \<Rightarrow>
          (let failed = (failed0 \<or> s = [])
           in if c = CHR ''['' then
                (let r = (if failed then CHR 0x00 else hd s); s' = (if failed then s else tl s);
                     negated = (cs \<noteq> [] \<and> hd cs = CHR ''^''); cs' = (if negated then tl cs else cs)
                 in case class_ranges r cs' 0 False of
                      None \<Rightarrow> None
                    | Some (found, rest) \<Rightarrow> matchChunk rest s' (failed \<or> found = negated))
              else if c = CHR ''?'' then
                (if failed then matchChunk cs s True else matchChunk cs (tl s) (hd s = CHR ''/''))
              else if c = CHR 0x5C then
                (case cs of
                   [] \<Rightarrow> None
                 | d # ds \<Rightarrow> if failed then matchChunk ds s True else matchChunk ds (tl s) (hd s \<noteq> d))
              else (if failed then matchChunk cs s True else matchChunk cs (tl s) (hd s \<noteq> c))))"
  by pat_completeness auto
termination
  by (relation "measure (\<lambda>(chunk, s, f). length chunk)") (auto dest!: class_ranges_shorter simp: le_less_trans less_Suc_eq_le split: if_splits)

declare matchChunk.simps [simp del]

text \<open>With a star before the chunk: the first later start at which the chunk matches, none of the
  skipped characters being a slash; the last chunk must also use up the name.\<close>

fun star_search :: "string \<Rightarrow> bool \<Rightarrow> string \<Rightarrow> string option option" where
  "star_search chunk lst [] = Some None"
| "star_search chunk lst (c # name) =
     (if c = CHR ''/'' then Some None
      else (case matchChunk chunk name False of
         None \<Rightarrow> None
       | Some (Some t) \<Rightarrow> if lst \<and> t \<noteq> [] then star_search chunk lst name else Some (Some t)
       | Some None \<Rightarrow> star_search chunk lst name))"

lemma scan_rest_append: "fst (scan_rest b p) @ snd (scan_rest b p) = p"
proof (induction b p rule: scan_rest.induct)
  case (2 b c cs)
  show ?case
  proof (cases "c = CHR 0x5C")
    case True
    then show ?thesis using 2(1) by (cases cs) (simp_all add: case_prod_unfold Let_def)
  next
    case False
    show ?thesis
    proof (cases "c = CHR ''*'' \<and> \<not> b")
      case True
      then show ?thesis by simp
    next
      case notStar: False
      then show ?thesis using 2(2) [OF False notStar] False
        by (simp only: scan_rest.simps if_False Let_def case_prod_unfold fst_conv snd_conv append_Cons)
    qed
  qed
qed simp

lemma scanChunk_shorter: "pattern \<noteq> [] \<Longrightarrow> scanChunk pattern = (star, chunk, rest) \<Longrightarrow> length rest < length pattern"
proof -
  assume ne: "pattern \<noteq> []" and sc: "scanChunk pattern = (star, chunk, rest)"
  let ?p = "dropWhile (\<lambda>c. c = CHR ''*'') pattern"
  have r: "(chunk, rest) = scan_rest False ?p" using sc by (simp add: scanChunk_def Let_def)
  with scan_rest_append [of False ?p] have app: "chunk @ rest = ?p" by (metis fst_conv snd_conv)
  show ?thesis
  proof (cases "?p = pattern")
    case True
    then have "hd ?p \<noteq> CHR ''*''" using hd_dropWhile [of "\<lambda>c. c = CHR ''*''" pattern] ne by simp
    then obtain c cs where "?p = c # cs" "c \<noteq> CHR ''*''" using True ne by (cases ?p) auto
    with r have "chunk \<noteq> []" by (auto split: if_splits list.splits prod.splits)
    moreover have "length chunk + length rest = length pattern" using arg_cong [OF app, of length] True by simp
    ultimately show ?thesis by (cases chunk) auto
  next
    case False
    let ?t = "takeWhile (\<lambda>c. c = CHR ''*'') pattern"
    have sp: "?t @ ?p = pattern" by simp
    with False have "?t \<noteq> []" by (metis append_Nil)
    moreover have "length ?t + length ?p = length pattern" by (metis length_append takeWhile_dropWhile_id)
    moreover have "length chunk + length rest = length ?p" using arg_cong [OF app, of length] by simp
    ultimately show ?thesis by (cases ?t) auto
  qed
qed

text \<open>The rest of the pattern is well-formed.\<close>

function rest_valid :: "string \<Rightarrow> bool" where
  "rest_valid pattern =
     (if pattern = [] then True
      else (case scanChunk pattern of (star, chunk, rest) \<Rightarrow> matchChunk chunk [] False \<noteq> None \<and> rest_valid rest))"
  by pat_completeness auto
termination
  by (relation "measure length") (auto dest: scanChunk_shorter [OF _ sym])

declare rest_valid.simps [simp del]

function path_Match :: "string \<Rightarrow> string \<Rightarrow> bool option" where
  "path_Match pattern name =
     (if pattern = [] then Some (name = [])
      else (case scanChunk pattern of (star, chunk, rest) \<Rightarrow>
         if star \<and> chunk = [] then Some (CHR ''/'' \<notin> set name)
         else (case matchChunk chunk name False of
            None \<Rightarrow> None
          | Some r \<Rightarrow>
              (case r of
                 Some t \<Rightarrow> if t = [] \<or> rest \<noteq> [] then path_Match rest t
                   else if star then
                     (case star_search chunk (rest = []) name of
                        None \<Rightarrow> None
                      | Some (Some t) \<Rightarrow> path_Match rest t
                      | Some None \<Rightarrow> if rest_valid rest then Some False else None)
                   else if rest_valid rest then Some False else None
               | None \<Rightarrow> if star then
                     (case star_search chunk (rest = []) name of
                        None \<Rightarrow> None
                      | Some (Some t) \<Rightarrow> path_Match rest t
                      | Some None \<Rightarrow> if rest_valid rest then Some False else None)
                   else if rest_valid rest then Some False else None))))"
  by pat_completeness auto
termination
  by (relation "measure (length \<circ> fst)") (auto dest: scanChunk_shorter [OF _ sym])

declare path_Match.simps [simp del]

section \<open>Plain patterns\<close>

definition plain :: "string \<Rightarrow> bool" where
  "plain p \<longleftrightarrow> list_all (\<lambda>c. c \<notin> {CHR ''*'', CHR ''?'', CHR ''['', CHR 0x5C}) p"

lemma plain_scan: "plain p \<Longrightarrow> scan_rest False (p @ q) = (let (a, b) = scan_rest False q in (p @ a, b))"
  by (induction p) (auto simp: plain_def split: prod.splits)

lemma plain_chunk: "plain p \<Longrightarrow>
    matchChunk p s f = Some (if f \<or> \<not> HasPrefix s p then None else Some (drop (length p) s))"
proof (induction p arbitrary: s f)
  case Nil
  then show ?case by (simp add: matchChunk.simps HasPrefix_def)
next
  case (Cons c p)
  then have c: "c \<noteq> CHR ''?''" "c \<noteq> CHR ''[''" "c \<noteq> CHR 0x5C" "plain p" by (auto simp: plain_def)
  show ?case
  proof (cases s)
    case Nil
    then show ?thesis using c Cons.IH [OF c(4)] by (subst matchChunk.simps) (simp add: HasPrefix_def)
  next
    case (Cons d s')
    then show ?thesis using c Cons.IH [OF c(4)] by (subst matchChunk.simps) (auto simp: HasPrefix_def)
  qed
qed

text \<open>A pattern without special characters matches itself alone; followed by a star it matches what
  continues it without a slash.\<close>

lemma path_Match_plain: "plain p \<Longrightarrow> path_Match p s = Some (s = p)"
proof (cases "p = []")
  case False
  assume p: "plain p"
  then have "dropWhile (\<lambda>c. c = CHR ''*'') p = p" using False by (cases p) (auto simp: plain_def)
  then have "scanChunk p = (False, p, [])" using plain_scan [OF p, of "[]"] by (simp add: scanChunk_def)
  then show ?thesis using False plain_chunk [OF p, of s False]
    by (subst path_Match.simps) (auto simp: path_Match.simps [of "[]"] rest_valid.simps [of "[]"] HasPrefix_def drop_eq_Nil2)
qed (simp add: path_Match.simps)

lemma path_Match_star:
  assumes "plain p" "p \<noteq> []"
  shows "path_Match (p @ ''*'') s = Some (HasPrefix s p \<and> CHR ''/'' \<notin> set (drop (length p) s))"
proof -
  have "dropWhile (\<lambda>c. c = CHR ''*'') (p @ ''*'') = p @ ''*''" using assms by (cases p) (auto simp: plain_def)
  then have sc: "scanChunk (p @ ''*'') = (False, p, ''*'')"
    using plain_scan [OF assms(1), of "''*''"] by (simp add: scanChunk_def)
  have star: "path_Match ''*'' t = Some (CHR ''/'' \<notin> set t)" for t
    by (subst path_Match.simps) (simp add: scanChunk_def)
  have "rest_valid ''*''" by (simp add: rest_valid.simps scanChunk_def matchChunk.simps)
  with sc star plain_chunk [OF assms(1), of s False] show ?thesis
    by (subst path_Match.simps) auto
qed

end
