(* ===== verification/Rate_Limit.thy ===== *)
theory Rate_Limit
  imports Go_Path Go_Float_Int Etcd_Watch
begin

text \<open>
  Rate limiting, src/pkg/ratelimit: the keys of a request and the in-memory limiter with its idle
  eviction and the middleware (ratelimit.go), the path rules (ruleset.go), the policy document watched
  in etcd (etcd.go) and the Redis limiter with its Lua token bucket (redis.go).  The token bucket of
  golang.org/x/time/rate is a parameter: \<open>mk\<close> makes a full one and \<open>take1\<close> tries to take a token at a
  time.  Times are nanoseconds.  Metrics, logs and traces are not modelled.
\<close>

section \<open>Keys\<close>

fun last_index :: "char \<Rightarrow> string \<Rightarrow> nat option" where
  "last_index c [] = None"
| "last_index c (d # s) =
     (case last_index c s of Some i \<Rightarrow> Some (Suc i) | None \<Rightarrow> if d = c then Some 0 else None)"

text \<open>\<open>parseIP\<close> is net.ParseIP followed by String.\<close>

definition IPKey :: "(string \<Rightarrow> string option) \<Rightarrow> string \<Rightarrow> string" where
  "IPKey parseIP remoteAddr =
     (let host = (case last_index (CHR '':'') remoteAddr of
                    Some idx \<Rightarrow> if idx > 0 then take idx remoteAddr else remoteAddr
                  | None \<Rightarrow> remoteAddr);
          host = (if HasPrefix host ''['' then drop 1 host else host);
          host = TrimSuffix host '']''
      in case parseIP host of Some ip \<Rightarrow> ip | None \<Rightarrow> host)"

definition UserOrIPKey :: "(string \<Rightarrow> string option) \<Rightarrow> string \<Rightarrow> string \<Rightarrow> string" where
  "UserOrIPKey parseIP header remoteAddr =
     (if header \<noteq> [] then ''user:'' @ header else ''ip:'' @ IPKey parseIP remoteAddr)"

definition SplitKey :: "string \<Rightarrow> string \<times> string" where
  "SplitKey key =
     (case IndexByte key (CHR '':'') of
        Some i \<Rightarrow> if i > 0 \<and> (take i key = ''user'' \<or> take i key = ''ip'') then (take i key, drop (Suc i) key) else (''ip'', key)
      | None \<Rightarrow> (''ip'', key))"

section \<open>The in-memory limiter\<close>

record 'b Limiter =
  li_rate :: float64
  li_burst :: int
  li_idle :: int
  li_keys :: "(string \<times> 'b \<times> int) list"

record Config =
  cg_RatePerSec :: float64
  cg_Burst :: int
  cg_IdleEviction :: int
  cg_EvictionPeriod :: int

text \<open>The limiter, and whether its eviction loop runs.\<close>

definition NewLimiter :: "Config \<Rightarrow> 'b Limiter \<times> bool" where
  "NewLimiter cfg =
     (\<lparr>li_rate = cg_RatePerSec cfg, li_burst = cg_Burst cfg,
       li_idle = (if cg_IdleEviction cfg \<le> 0 then 300 * 1000000000 else cg_IdleEviction cfg), li_keys = []\<rparr>,
      0 < cg_EvictionPeriod cfg)"

definition entryFor :: "(float64 \<Rightarrow> int \<Rightarrow> 'b) \<Rightarrow> string \<Rightarrow> 'b Limiter \<Rightarrow> 'b Limiter" where
  "entryFor mk key l =
     (case map_of (li_keys l) key of
        Some _ \<Rightarrow> l
      | None \<Rightarrow> l\<lparr>li_keys := AList.update key (mk (li_rate l) (li_burst l), 0) (li_keys l)\<rparr>)"

definition Limiter_Allow :: "(float64 \<Rightarrow> int \<Rightarrow> 'b) \<Rightarrow> (int \<Rightarrow> 'b \<Rightarrow> bool \<times> 'b) \<Rightarrow> int \<Rightarrow> string \<Rightarrow> 'b Limiter \<Rightarrow> bool \<times> 'b Limiter" where
  "Limiter_Allow mk take1 now key l0 =
     (let l = entryFor mk key l0
      in case map_of (li_keys l) key of
           None \<Rightarrow> (False, l)
         | Some (b, _) \<Rightarrow> (let (ok, b') = take1 now b in (ok, l\<lparr>li_keys := AList.update key (b', now) (li_keys l)\<rparr>)))"

definition evict_idle :: "int \<Rightarrow> 'b Limiter \<Rightarrow> 'b Limiter" where
  "evict_idle now l = l\<lparr>li_keys := filter (\<lambda>(k, b, used). \<not> used < now - li_idle l) (li_keys l)\<rparr>"

definition KeyCount :: "'b Limiter \<Rightarrow> nat" where
  "KeyCount l = length (li_keys l)"

datatype limit_response = Next | TooManyRequests string

definition Middleware :: "(float64 \<Rightarrow> int \<Rightarrow> 'b) \<Rightarrow> (int \<Rightarrow> 'b \<Rightarrow> bool \<times> 'b) \<Rightarrow> int \<Rightarrow> string \<Rightarrow> 'b Limiter \<Rightarrow> limit_response \<times> 'b Limiter" where
  "Middleware mk take1 now key l =
     (if key = [] then (Next, l)
      else (let (ok, l') = Limiter_Allow mk take1 now key l in (if \<not> ok then TooManyRequests [] else Next, l')))"

section \<open>Rules\<close>

record RLRule =
  rl_Pattern :: string
  rl_Rate :: float64
  rl_Burst :: int

record 'l compiledRule =
  cr_rule :: RLRule
  cr_method :: string
  cr_pathGlob :: string
  cr_limiter :: 'l

record 'l ruleSetData =
  rd_rules :: "'l compiledRule list"
  rd_fallback :: "'l option"

datatype rule_error = EmptyPattern nat | BadGlob nat | NegativeLimit nat

definition isHTTPMethod :: "string \<Rightarrow> bool" where
  "isHTTPMethod s \<longleftrightarrow> ToUpper s \<in> {''GET'', ''POST'', ''PUT'', ''DELETE'', ''PATCH'', ''HEAD'', ''OPTIONS''}"

definition parsePattern :: "string \<Rightarrow> (string \<times> string) option" where
  "parsePattern pat0 =
     (let pat = TrimSpace pat0
      in if pat = [] then None
         else if pat = ''*'' then Some ([], ''*'')
         else (case SplitN2 (CHR '' '') pat of
                 [m, p] \<Rightarrow> if isHTTPMethod m then Some (ToUpper m, TrimSpace p) else Some ([], pat)
               | _ \<Rightarrow> Some ([], pat)))"

fun compile_rules :: "(RLRule \<Rightarrow> 'l) \<Rightarrow> nat \<Rightarrow> RLRule list \<Rightarrow> rule_error + 'l compiledRule list" where
  "compile_rules factory i [] = Inr []"
| "compile_rules factory i (r # rs) =
     (case parsePattern (rl_Pattern r) of
        None \<Rightarrow> Inl (EmptyPattern i)
      | Some (m, glob) \<Rightarrow>
          if path_Match glob ''/probe'' = None then Inl (BadGlob i)
          else if f_lt (rl_Rate r) f_zero \<or> rl_Burst r < 0 then Inl (NegativeLimit i)
          else (case compile_rules factory (Suc i) rs of
                  Inl e \<Rightarrow> Inl e
                | Inr cs \<Rightarrow> Inr (\<lparr>cr_rule = r, cr_method = m, cr_pathGlob = glob, cr_limiter = factory r\<rparr> # cs)))"

text \<open>\<open>factory\<close> and \<open>fallbackFactory\<close> are the given factories or, where they are nil, NewLimiter on the
  rule's rate and burst and on the fallback's configuration.\<close>

definition compile_set :: "(RLRule \<Rightarrow> 'l) \<Rightarrow> (Config \<Rightarrow> 'l) \<Rightarrow> RLRule list \<Rightarrow> Config option \<Rightarrow> rule_error + 'l ruleSetData" where
  "compile_set factory fallbackFactory rules fallbackCfg =
     (case compile_rules factory 0 rules of
        Inl e \<Rightarrow> Inl e
      | Inr cs \<Rightarrow> Inr \<lparr>rd_rules = cs, rd_fallback = map_option fallbackFactory fallbackCfg\<rparr>)"

definition RuleSet_Replace :: "(RLRule \<Rightarrow> 'l) \<Rightarrow> (Config \<Rightarrow> 'l) \<Rightarrow> RLRule list \<Rightarrow> Config option \<Rightarrow> 'l ruleSetData
    \<Rightarrow> rule_error option \<times> 'l ruleSetData" where
  "RuleSet_Replace factory fallbackFactory rules fallbackCfg d =
     (case compile_set factory fallbackFactory rules fallbackCfg of Inl e \<Rightarrow> (Some e, d) | Inr d' \<Rightarrow> (None, d'))"

definition rule_applies :: "string \<Rightarrow> string \<Rightarrow> 'l compiledRule \<Rightarrow> bool" where
  "rule_applies reqMethod urlPath r \<longleftrightarrow>
     \<not> (cr_method r \<noteq> [] \<and> cr_method r \<noteq> reqMethod) \<and>
     (cr_pathGlob r = ''*'' \<or> path_Match (cr_pathGlob r) urlPath = Some True)"

text \<open>The matched limiter: that of the rule at an index, the fallback, or none.\<close>

datatype matched = RuleAt nat | Fallback | NoMatch

fun limit_loop :: "string \<Rightarrow> string \<Rightarrow> nat \<Rightarrow> 'l compiledRule list \<Rightarrow> nat option" where
  "limit_loop reqMethod urlPath i [] = None"
| "limit_loop reqMethod urlPath i (r # rs) =
     (if rule_applies reqMethod urlPath r then Some i else limit_loop reqMethod urlPath (Suc i) rs)"

definition RuleSet_Match :: "'l ruleSetData \<Rightarrow> string \<Rightarrow> string \<Rightarrow> matched" where
  "RuleSet_Match d reqMethod urlPath =
     (case limit_loop reqMethod urlPath 0 (rd_rules d) of
        Some i \<Rightarrow> RuleAt i
      | None \<Rightarrow> if rd_fallback d \<noteq> None then Fallback else NoMatch)"

text \<open>\<open>allow\<close> is the Allow of the limiters.\<close>

definition RuleSet_Allow :: "(string \<Rightarrow> 'l \<Rightarrow> bool \<times> 'l) \<Rightarrow> string \<Rightarrow> string \<Rightarrow> string \<Rightarrow> 'l ruleSetData
    \<Rightarrow> (string \<times> bool) \<times> 'l ruleSetData" where
  "RuleSet_Allow allow reqMethod urlPath key d =
     (case RuleSet_Match d reqMethod urlPath of
        NoMatch \<Rightarrow> (([], True), d)
      | Fallback \<Rightarrow>
          (case rd_fallback d of
             None \<Rightarrow> (([], True), d)
           | Some l \<Rightarrow> (let (ok, l') = allow key l in ((''default'', ok), d\<lparr>rd_fallback := Some l'\<rparr>)))
      | RuleAt i \<Rightarrow>
          (let r = rd_rules d ! i; (ok, l') = allow key (cr_limiter r)
           in ((rl_Pattern (cr_rule r), ok), d\<lparr>rd_rules := (rd_rules d)[i := r\<lparr>cr_limiter := l'\<rparr>]\<rparr>)))"

definition MiddlewareRules :: "(string \<Rightarrow> 'l \<Rightarrow> bool \<times> 'l) \<Rightarrow> string \<Rightarrow> string \<Rightarrow> string \<Rightarrow> 'l ruleSetData
    \<Rightarrow> limit_response \<times> 'l ruleSetData" where
  "MiddlewareRules allow reqMethod urlPath key d =
     (if key = [] then (Next, d)
      else (case RuleSet_Allow allow reqMethod urlPath key d of
         ((rule, allowed), d') \<Rightarrow>
           if rule = [] then (Next, d')
           else if \<not> allowed then (TooManyRequests rule, d') else (Next, d')))"

definition RuleSet_Rules :: "'l ruleSetData \<Rightarrow> RLRule list" where
  "RuleSet_Rules d = map cr_rule (rd_rules d)"

section \<open>The policy document in etcd\<close>

record FallbackCfg =
  fb_Rate :: float64
  fb_Burst :: int

record PolicyDoc =
  pd_Version :: int
  pd_Rules :: "RLRule list"
  pd_Fallback :: "FallbackCfg option"

definition ToConfig :: "FallbackCfg option \<Rightarrow> Config option" where
  "ToConfig f = map_option (\<lambda>f. \<lparr>cg_RatePerSec = fb_Rate f, cg_Burst = fb_Burst f, cg_IdleEviction = 0, cg_EvictionPeriod = 0\<rparr>) f"

record RLWatcher =
  rw_defaults :: "RLRule list"
  rw_fallback :: "FallbackCfg option"

text \<open>\<open>mkr\<close> and \<open>mkf\<close> are the factories of the rule set, \<open>json\<close> is encoding/json.\<close>

definition RL_applyValue :: "(string \<Rightarrow> PolicyDoc option) \<Rightarrow> (RLRule \<Rightarrow> 'l) \<Rightarrow> (Config \<Rightarrow> 'l) \<Rightarrow> RLWatcher
    \<Rightarrow> string \<Rightarrow> 'l ruleSetData \<Rightarrow> 'l ruleSetData" where
  "RL_applyValue json mkr mkf w val d =
     (case json val of
        None \<Rightarrow> d
      | Some doc \<Rightarrow>
          (let fb = (case pd_Fallback doc of None \<Rightarrow> rw_fallback w | Some f \<Rightarrow> Some f)
           in snd (RuleSet_Replace mkr mkf (pd_Rules doc) (ToConfig fb) d)))"

definition RL_restore :: "(RLRule \<Rightarrow> 'l) \<Rightarrow> (Config \<Rightarrow> 'l) \<Rightarrow> RLWatcher \<Rightarrow> 'l ruleSetData \<Rightarrow> rule_error option \<times> 'l ruleSetData" where
  "RL_restore mkr mkf w d = RuleSet_Replace mkr mkf (rw_defaults w) (ToConfig (rw_fallback w)) d"

datatype rl_error = RLGetFailed | RLRules rule_error

definition RL_initialLoad :: "(string \<Rightarrow> PolicyDoc option) \<Rightarrow> (RLRule \<Rightarrow> 'l) \<Rightarrow> (Config \<Rightarrow> 'l) \<Rightarrow> RLWatcher
    \<Rightarrow> string option option \<Rightarrow> 'l ruleSetData \<Rightarrow> rl_error option \<times> 'l ruleSetData" where
  "RL_initialLoad json mkr mkf w got d =
     (case got of
        None \<Rightarrow> (Some RLGetFailed, d)
      | Some None \<Rightarrow> (let (e, d') = RL_restore mkr mkf w d in (map_option RLRules e, d'))
      | Some (Some val) \<Rightarrow> (None, RL_applyValue json mkr mkf w val d))"

fun RL_event :: "(string \<Rightarrow> PolicyDoc option) \<Rightarrow> (RLRule \<Rightarrow> 'l) \<Rightarrow> (Config \<Rightarrow> 'l) \<Rightarrow> RLWatcher \<Rightarrow> event
    \<Rightarrow> 'l ruleSetData \<Rightarrow> 'l ruleSetData" where
  "RL_event json mkr mkf w (EvPut k val) d = RL_applyValue json mkr mkf w val d"
| "RL_event json mkr mkf w (EvDelete k) d = snd (RL_restore mkr mkf w d)"

definition RL_watchLoop :: "(string \<Rightarrow> PolicyDoc option) \<Rightarrow> (RLRule \<Rightarrow> 'l) \<Rightarrow> (Config \<Rightarrow> 'l) \<Rightarrow> RLWatcher
    \<Rightarrow> watch_response list \<Rightarrow> 'l ruleSetData \<Rightarrow> 'l ruleSetData" where
  "RL_watchLoop json mkr mkf w = watchLoop (\<lambda>es d. fold (RL_event json mkr mkf w) es d)"

section \<open>The Redis limiter\<close>

text \<open>The Lua script on one key: the stored tokens and time stamp, None for an absent key.  Lua numbers
  are float64; Redis stores them with the 17 digits that read back to the same number.  The expiry of
  the key is not modelled.\<close>

definition lua_min :: "float64 \<Rightarrow> float64 \<Rightarrow> float64" where
  "lua_min a b = (if f_lt b a then b else a)"

definition luaTokenBucket :: "float64 \<Rightarrow> float64 \<Rightarrow> float64 \<Rightarrow> float64 \<Rightarrow> (float64 \<times> float64) option
    \<Rightarrow> int \<times> (float64 \<times> float64) option" where
  "luaTokenBucket now rate burst cost data =
     (let (tokens, ts) = (case data of None \<Rightarrow> (burst, now) | Some d \<Rightarrow> d);
          elapsed = f_sub now ts;
          tokens = (if f_lt f_zero elapsed then lua_min burst (f_add tokens (f_mul elapsed rate)) else tokens);
          (tokens, allowed) = (if f_le cost tokens then (f_sub tokens cost, 1) else (tokens, 0))
      in (allowed, Some (tokens, now)))"

record RedisLimiter =
  rx_rate :: float64
  rx_burst :: int
  rx_prefix :: string
  rx_failCount :: u64

definition NewRedisLimiter :: "float64 \<Rightarrow> int \<Rightarrow> string \<Rightarrow> RedisLimiter" where
  "NewRedisLimiter rate burst prefix =
     \<lparr>rx_rate = rate, rx_burst = burst, rx_prefix = (if prefix = [] then ''wtg:ratelimit:'' else prefix), rx_failCount = 0\<rparr>"

text \<open>The answer of Redis: an error, a reply that is no integer, or the script's reply.  Where it is not
  the reply the request passes.\<close>

datatype eval_reply = EvalError | EvalOther | EvalInt int

definition allowAt :: "eval_reply \<Rightarrow> RedisLimiter \<Rightarrow> bool \<times> RedisLimiter" where
  "allowAt reply r =
     (case reply of
        EvalError \<Rightarrow> (True, r\<lparr>rx_failCount := rx_failCount r + 1\<rparr>)
      | EvalOther \<Rightarrow> (True, r\<lparr>rx_failCount := rx_failCount r + 1\<rparr>)
      | EvalInt allowed \<Rightarrow> (allowed = 1, r))"

definition MakeRedisFactories :: "string \<Rightarrow> (RLRule \<Rightarrow> RedisLimiter) \<times> (Config \<Rightarrow> RedisLimiter)" where
  "MakeRedisFactories service =
     (let base = ''wtg:rl:'' @ service @ '':''
      in (\<lambda>r. NewRedisLimiter (rl_Rate r) (rl_Burst r) (base @ rl_Pattern r @ '':''),
          \<lambda>c. NewRedisLimiter (cg_RatePerSec c) (cg_Burst c) (base @ ''default:'')))"

text \<open>Requests at the given readings of the clock, and which of them the script allows.\<close>

fun lua_run :: "float64 \<Rightarrow> float64 \<Rightarrow> float64 list \<Rightarrow> (float64 \<times> float64) option \<Rightarrow> bool list" where
  "lua_run rate burst [] data = []"
| "lua_run rate burst (t # ts) data =
     (let (a, data') = luaTokenBucket t rate burst (f_of_int 1) data in (a = 1) # lua_run rate burst ts data')"

section \<open>Laws of the rules\<close>

lemma compile_rules_shape:
  "compile_rules factory i rules = Inr cs \<Longrightarrow>
     map cr_rule cs = rules \<and> map cr_limiter cs = map factory rules \<and>
     list_all (\<lambda>c. rl_Pattern (cr_rule c) \<noteq> [] \<and> parsePattern (rl_Pattern (cr_rule c)) = Some (cr_method c, cr_pathGlob c) \<and>
        path_Match (cr_pathGlob c) ''/probe'' \<noteq> None) cs"
proof (induction rules arbitrary: i cs)
  case (Cons r rs)
  have "parsePattern [] = None" by (simp add: parsePattern_def TrimSpace_def)
  with Cons show ?case by (auto split: option.splits sum.splits if_splits prod.splits)
qed simp

lemma limit_loop_bounds: "limit_loop m p i rs = Some j \<Longrightarrow> i \<le> j \<and> j < i + length rs"
proof (induction rs arbitrary: i)
  case (Cons r rs)
  show ?case using Cons.prems Cons.IH [of "Suc i"] by (cases "rule_applies m p r") auto
qed simp

lemma limit_loop_None: "limit_loop m p i rs = None \<longleftrightarrow> list_all (\<lambda>r. \<not> rule_applies m p r) rs"
  by (induction rs arbitrary: i) auto

section \<open>The first rule that covers a request decides\<close>

text \<open>A rule covers a request when its pattern does, read off the rule as it was configured.\<close>

definition rule_covers :: "string \<Rightarrow> string \<Rightarrow> RLRule \<Rightarrow> bool" where
  "rule_covers reqMethod urlPath r =
     (case parsePattern (rl_Pattern r) of
        None \<Rightarrow> False
      | Some (m, glob) \<Rightarrow> (m = [] \<or> m = reqMethod) \<and> (glob = ''*'' \<or> path_Match glob urlPath = Some True))"

text \<open>The rule set after earlier requests: the rules are those configured, only the limiters changed.\<close>

definition rl_run :: "(string \<Rightarrow> 'l \<Rightarrow> bool \<times> 'l) \<Rightarrow> (string \<times> string \<times> string) list \<Rightarrow> 'l ruleSetData \<Rightarrow> 'l ruleSetData" where
  "rl_run allow reqs d = fold (\<lambda>(m, p, k) d. snd (MiddlewareRules allow m p k d)) reqs d"

definition compiled :: "RLRule list \<Rightarrow> bool \<Rightarrow> 'l ruleSetData \<Rightarrow> bool" where
  "compiled rules fb d \<longleftrightarrow> map cr_rule (rd_rules d) = rules \<and> (rd_fallback d \<noteq> None \<longleftrightarrow> fb) \<and>
     list_all (\<lambda>c. rl_Pattern (cr_rule c) \<noteq> [] \<and> parsePattern (rl_Pattern (cr_rule c)) = Some (cr_method c, cr_pathGlob c)) (rd_rules d)"

lemma compiled_set: "compile_set mkr mkf rules fb = Inr d \<Longrightarrow> compiled rules (fb \<noteq> None) d"
  using compile_rules_shape by (fastforce simp: compile_set_def compiled_def list_all_iff split: sum.splits)

lemma compiled_update:
  assumes "compiled rules fb d" "i < length (rd_rules d)"
  shows "compiled rules fb (d\<lparr>rd_rules := (rd_rules d)[i := (rd_rules d ! i)\<lparr>cr_limiter := l\<rparr>]\<rparr>)"
proof -
  let ?r = "(rd_rules d ! i)\<lparr>cr_limiter := l\<rparr>"
  have "map cr_rule ((rd_rules d)[i := ?r]) = map cr_rule (rd_rules d)"
    using assms(2) by (metis compiledRule.select_convs(1) compiledRule.surjective compiledRule.update_convs(4) list_update_id map_update nth_map length_map)
  moreover have "set ((rd_rules d)[i := ?r]) \<subseteq> insert ?r (set (rd_rules d))" by (rule set_update_subset_insert)
  moreover have "rd_rules d ! i \<in> set (rd_rules d)" using assms(2) by simp
  ultimately show ?thesis using assms(1) by (fastforce simp: compiled_def list_all_iff)
qed

lemma RuleSet_Match_at: "RuleSet_Match d m p = RuleAt i \<Longrightarrow> i < length (rd_rules d)"
  using limit_loop_bounds [of m p 0 "rd_rules d" i] by (auto simp: RuleSet_Match_def split: option.splits if_splits)

lemma compiled_step:
  assumes "compiled rules fb d"
  shows "compiled rules fb (snd (MiddlewareRules allow m p k d))"
proof -
  have "compiled rules fb (snd (RuleSet_Allow allow m p k d))"
    using assms compiled_update [OF assms RuleSet_Match_at]
    by (auto simp: RuleSet_Allow_def Let_def compiled_def split: matched.splits option.splits prod.splits)
  then show ?thesis using assms by (auto simp: MiddlewareRules_def split: prod.splits)
qed

lemma compiled_run: "compiled rules fb d \<Longrightarrow> compiled rules fb (rl_run allow reqs d)"
  unfolding rl_run_def by (induction reqs arbitrary: d) (auto simp: compiled_step)

lemma covers_applies: "compiled rules fb d \<Longrightarrow> c \<in> set (rd_rules d) \<Longrightarrow> rule_applies m p c = rule_covers m p (cr_rule c)"
  by (auto simp: compiled_def list_all_iff rule_applies_def rule_covers_def)

lemma find_limit_loop: "(case limit_loop m p i rs of None \<Rightarrow> None | Some j \<Rightarrow> Some (rs ! (j - i))) = find (rule_applies m p) rs"
proof (induction rs arbitrary: i)
  case (Cons r rs)
  show ?case
  proof (cases "rule_applies m p r")
    case False
    have "Suc i \<le> j" if "limit_loop m p (Suc i) rs = Some j" for j using limit_loop_bounds [OF that] by simp
    then show ?thesis using False Cons [of "Suc i"] by (auto simp: nth_Cons' split: option.splits)
  qed simp
qed simp

lemma find_map_rule: "(\<And>c. c \<in> set cs \<Longrightarrow> P c = Q (f c)) \<Longrightarrow> map_option f (find P cs) = find Q (map f cs)"
  by (induction cs) auto

text \<open>C26: A request is decided by the first configured rule whose method and glob cover it, whatever
  requests came before: it passes or is refused, under that rule's pattern, as the limiter of that
  rule says; with no such rule the fallback decides, and without a fallback it passes.\<close>

theorem first_rule_decides:
  assumes "compile_set mkr mkf rules fb = Inr d0" and "key \<noteq> []"
  shows "let d = rl_run allow reqs d0 in
    fst (MiddlewareRules allow m p key d) =
      (case find (rule_covers m p) rules of
         Some r \<Rightarrow> (let c = the (find (rule_applies m p) (rd_rules d))
                   in if fst (allow key (cr_limiter c)) then Next else TooManyRequests (rl_Pattern r))
       | None \<Rightarrow> (case rd_fallback d of
           None \<Rightarrow> Next
         | Some l \<Rightarrow> if fst (allow key l) then Next else TooManyRequests ''default''))"
proof -
  define d where "d = rl_run allow reqs d0"
  have c: "compiled rules (fb \<noteq> None) d" unfolding d_def by (intro compiled_run compiled_set [OF assms(1)])
  have f: "find (rule_covers m p) rules = map_option cr_rule (find (rule_applies m p) (rd_rules d))"
    using find_map_rule [of "rd_rules d" "rule_applies m p" "rule_covers m p" cr_rule] covers_applies [OF c] c
    by (auto simp: compiled_def)
  show ?thesis
  proof (cases "limit_loop m p 0 (rd_rules d)")
    case None
    with find_limit_loop [where i = 0 and rs = "rd_rules d" and m = m and p = p] f have "find (rule_covers m p) rules = None" by simp
    with None show ?thesis unfolding d_def [symmetric] Let_def using assms(2)
      by (auto simp: MiddlewareRules_def RuleSet_Allow_def RuleSet_Match_def split: option.splits prod.splits)
  next
    case (Some i)
    with find_limit_loop [where i = 0 and rs = "rd_rules d" and m = m and p = p] have fd: "find (rule_applies m p) (rd_rules d) = Some (rd_rules d ! i)" by simp
    have "i < length (rd_rules d)" using limit_loop_bounds [OF Some] by simp
    then have "rl_Pattern (cr_rule (rd_rules d ! i)) \<noteq> []" using c by (auto simp: compiled_def list_all_iff)
    with Some fd f show ?thesis unfolding d_def [symmetric] Let_def using assms(2)
      by (auto simp: MiddlewareRules_def RuleSet_Allow_def RuleSet_Match_def Let_def split: prod.splits)
  qed
qed

text \<open>Two rules on one path, a limiter that counts down: the third login is refused by the first rule.\<close>

definition login_rule :: RLRule where
  "login_rule = \<lparr>rl_Pattern = ''POST /v1/login'', rl_Rate = f_of_int 5, rl_Burst = 2\<rparr>"

definition other_rule :: RLRule where
  "other_rule = \<lparr>rl_Pattern = ''/v1/*'', rl_Rate = f_of_int 50, rl_Burst = 9\<rparr>"

definition count_down :: "string \<Rightarrow> int \<Rightarrow> bool \<times> int" where
  "count_down key n = (0 < n, n - 1)"

definition sample_set :: "int ruleSetData" where
  "sample_set = \<lparr>rd_rules = [\<lparr>cr_rule = login_rule, cr_method = ''POST'', cr_pathGlob = ''/v1/login'', cr_limiter = 2\<rparr>,
     \<lparr>cr_rule = other_rule, cr_method = [], cr_pathGlob = ''/v1/*'', cr_limiter = 9\<rparr>], rd_fallback = None\<rparr>"

lemma sample_patterns:
  "parsePattern ''POST /v1/login'' = Some (''POST'', ''/v1/login'')" "parsePattern ''/v1/*'' = Some ([], ''/v1/*'')"
  "path_Match ''/v1/login'' ''/probe'' = Some False" "path_Match ''/v1/*'' ''/probe'' = Some False"
  "path_Match ''/v1/login'' ''/v1/login'' = Some True"
  by code_simp+

theorem first_rule_decides_witness:
  "fst (MiddlewareRules count_down ''POST'' ''/v1/login'' ''u''
     (rl_run count_down [(''POST'', ''/v1/login'', ''u''), (''POST'', ''/v1/login'', ''u'')] sample_set)) =
   TooManyRequests ''POST /v1/login''"
proof -
  let ?reqs = "[(''POST'', ''/v1/login'', ''u''), (''POST'', ''/v1/login'', ''u'')]"
  have c: "compile_set rl_Burst cg_Burst [login_rule, other_rule] None = Inr sample_set"
    by (simp add: compile_set_def login_rule_def other_rule_def sample_set_def sample_patterns)
  have cov: "rule_applies ''POST'' ''/v1/login'' \<lparr>cr_rule = login_rule, cr_method = ''POST'', cr_pathGlob = ''/v1/login'', cr_limiter = n\<rparr>"
    for n :: int by (simp add: rule_applies_def sample_patterns)
  have run: "rl_run count_down ?reqs sample_set = sample_set\<lparr>rd_rules := (rd_rules sample_set)[0 :=
      \<lparr>cr_rule = login_rule, cr_method = ''POST'', cr_pathGlob = ''/v1/login'', cr_limiter = 0\<rparr>]\<rparr>"
    by (simp add: rl_run_def MiddlewareRules_def RuleSet_Allow_def RuleSet_Match_def sample_set_def cov count_down_def)
  have pat: "rl_Pattern login_rule = ''POST /v1/login''" by (simp add: login_rule_def)
  have "rule_covers ''POST'' ''/v1/login'' login_rule" by (simp add: rule_covers_def login_rule_def sample_patterns)
  then show ?thesis
    using first_rule_decides [OF c, of "''u''" count_down ?reqs "''POST''" "''/v1/login''"]
    by (simp add: Let_def run) (simp add: sample_set_def cov count_down_def pat)
qed

section \<open>Buckets do not share\<close>

text \<open>What happens to a limiter: a request of a key at a time, or a tick of the eviction loop.\<close>

datatype lim_event = LRequest string int | LEvict int

fun lim_run :: "(float64 \<Rightarrow> int \<Rightarrow> 'b) \<Rightarrow> (int \<Rightarrow> 'b \<Rightarrow> bool \<times> 'b) \<Rightarrow> lim_event list \<Rightarrow> 'b Limiter \<Rightarrow> (string \<times> bool) list" where
  "lim_run mk take1 [] l = []"
| "lim_run mk take1 (LRequest key now # es) l =
     (let (ok, l') = Limiter_Allow mk take1 now key l in (key, ok) # lim_run mk take1 es l')"
| "lim_run mk take1 (LEvict now # es) l = lim_run mk take1 es (evict_idle now l)"

definition concerns :: "string \<Rightarrow> lim_event \<Rightarrow> bool" where
  "concerns key e = (case e of LRequest k t \<Rightarrow> k = key | LEvict t \<Rightarrow> True)"

text \<open>Two limiters alike for a key.\<close>

definition same_bucket :: "string \<Rightarrow> 'b Limiter \<Rightarrow> 'b Limiter \<Rightarrow> bool" where
  "same_bucket key l l' \<longleftrightarrow> li_rate l = li_rate l' \<and> li_burst l = li_burst l' \<and> li_idle l = li_idle l' \<and>
     gomap (li_keys l) \<and> gomap (li_keys l') \<and> map_of (li_keys l) key = map_of (li_keys l') key"

definition bucket_for :: "(float64 \<Rightarrow> int \<Rightarrow> 'b) \<Rightarrow> string \<Rightarrow> 'b Limiter \<Rightarrow> 'b" where
  "bucket_for mk key l = (case map_of (li_keys l) key of None \<Rightarrow> mk (li_rate l) (li_burst l) | Some (b, used) \<Rightarrow> b)"

lemma Limiter_Allow_simps:
  "fst (Limiter_Allow mk take1 now key l) = fst (take1 now (bucket_for mk key l))"
  "map_of (li_keys (snd (Limiter_Allow mk take1 now key l))) =
     (map_of (li_keys l))(key \<mapsto> (snd (take1 now (bucket_for mk key l)), now))"
  "gomap (li_keys l) \<Longrightarrow> gomap (li_keys (snd (Limiter_Allow mk take1 now key l)))"
  "li_rate (snd (Limiter_Allow mk take1 now key l)) = li_rate l"
  "li_burst (snd (Limiter_Allow mk take1 now key l)) = li_burst l"
  "li_idle (snd (Limiter_Allow mk take1 now key l)) = li_idle l"
  by (auto simp: Limiter_Allow_def entryFor_def bucket_for_def Let_def case_prod_unfold split: option.splits)

lemma same_bucket_own:
  assumes "same_bucket key l l'"
  shows "fst (Limiter_Allow mk take1 now key l) = fst (Limiter_Allow mk take1 now key l') \<and>
    same_bucket key (snd (Limiter_Allow mk take1 now key l)) (snd (Limiter_Allow mk take1 now key l'))"
proof -
  have "bucket_for mk key l = bucket_for mk key l'" using assms by (auto simp: same_bucket_def bucket_for_def split: option.split)
  with assms show ?thesis by (simp add: same_bucket_def Limiter_Allow_simps)
qed

lemma same_bucket_other:
  "same_bucket key l l' \<Longrightarrow> k \<noteq> key \<Longrightarrow> same_bucket key (snd (Limiter_Allow mk take1 now k l)) l'"
  by (simp add: same_bucket_def Limiter_Allow_simps)

lemma same_bucket_evict: "same_bucket key l l' \<Longrightarrow> same_bucket key (evict_idle now l) (evict_idle now l')"
  by (simp add: same_bucket_def evict_idle_def map_of_filter_some)

lemma lim_run_project:
  "same_bucket key l l' \<Longrightarrow>
   filter (\<lambda>r. fst r = key) (lim_run mk take1 es l) = lim_run mk take1 (filter (concerns key) es) l'"
proof (induction es arbitrary: l l')
  case (Cons e es)
  show ?case
  proof (cases e)
    case (LRequest k now)
    show ?thesis
    proof (cases "k = key")
      case True
      with LRequest same_bucket_own [OF Cons.prems, of mk take1 now] Cons.IH show ?thesis
        by (auto simp: concerns_def Let_def split: prod.splits)
    next
      case False
      with LRequest same_bucket_other [OF Cons.prems False, of mk take1 now] Cons.IH show ?thesis
        by (auto simp: concerns_def Let_def split: prod.splits)
    qed
  next
    case (LEvict now)
    with same_bucket_evict [OF Cons.prems, of now] Cons.IH show ?thesis by (simp add: concerns_def)
  qed
qed simp

text \<open>C27: One client cannot use up another's limit: whatever requests of other keys and evictions are
  interleaved, the decisions on the requests of a key are those a fresh limiter takes on that key's
  requests alone.\<close>

theorem buckets_isolated:
  "filter (\<lambda>r. fst r = key) (lim_run mk take1 es (fst (NewLimiter cfg))) =
     lim_run mk take1 (filter (concerns key) es) (fst (NewLimiter cfg))"
  by (rule lim_run_project) (simp add: same_bucket_def NewLimiter_def)

text \<open>The keys of different users, and of a user and an address, are different, and the kind of a key is
  read back from it.\<close>

lemma UserOrIPKey_split:
  "SplitKey (UserOrIPKey parseIP header addr) =
     (if header \<noteq> [] then (''user'', header) else (''ip'', IPKey parseIP addr))"
  by (simp add: UserOrIPKey_def SplitKey_def)

lemma UserOrIPKey_distinct:
  "UserOrIPKey parseIP h addr = UserOrIPKey parseIP h' addr' \<Longrightarrow> h = h' \<and> (h = [] \<longrightarrow> IPKey parseIP addr = IPKey parseIP addr')"
  by (auto simp: UserOrIPKey_def split: if_splits)

section \<open>The Lua bucket\<close>

text \<open>On whole numbers of seconds and tokens the script computes exactly.\<close>

lemma lua_min_int: "small a \<Longrightarrow> small b \<Longrightarrow> lua_min (f_of_int a) (f_of_int b) = f_of_int (min a b)"
  by (simp add: lua_min_def min_def)

lemma lua_int:
  assumes "small now" "small ts" "small (now - ts)" "small rate" "small ((now - ts) * rate)" "small tokens"
    "small (tokens + (now - ts) * rate)" "small burst" "small (tokens - 1)" "small (min burst (tokens + (now - ts) * rate) - 1)"
  shows "luaTokenBucket (f_of_int now) (f_of_int rate) (f_of_int burst) (f_of_int 1) (Some (f_of_int tokens, f_of_int ts)) =
    (let t = (if ts < now then min burst (tokens + (now - ts) * rate) else tokens)
     in if 1 \<le> t then (1, Some (f_of_int (t - 1), f_of_int now)) else (0, Some (f_of_int t, f_of_int now)))"
proof -
  have m: "small (min burst (tokens + (now - ts) * rate))" using assms(7,8) by (simp add: min_def)
  show ?thesis
    using assms m by (simp add: luaTokenBucket_def Let_def lua_min_int)
qed

definition moderate :: "int \<Rightarrow> bool" where
  "moderate n \<longleftrightarrow> 0 \<le> n \<and> n < 2 ^ 50"

lemma moderate_small:
  assumes "moderate a" "moderate b"
  shows "small a" "small (a - b)" "small (a + b)" "small (a - 1)"
  using assms by (auto simp: moderate_def small_def)

lemma lua_moderate:
  assumes "moderate now" "moderate ts" "moderate rate" "moderate ((now - ts) * rate) \<or> now \<le> ts" "moderate tokens" "moderate burst" "1 \<le> burst"
  shows "luaTokenBucket (f_of_int now) (f_of_int rate) (f_of_int burst) (f_of_int 1) (Some (f_of_int tokens, f_of_int ts)) =
    (let t = (if ts < now then min burst (tokens + (now - ts) * rate) else tokens)
     in if 1 \<le> t then (1, Some (f_of_int (t - 1), f_of_int now)) else (0, Some (f_of_int t, f_of_int now)))"
proof (cases "ts < now")
  case True
  with assms(4) have "moderate ((now - ts) * rate)" by simp
  with assms show ?thesis
    by (intro lua_int) (auto simp: moderate_small moderate_def small_def min_def)
next
  case False
  with assms show ?thesis by (simp add: luaTokenBucket_def Let_def moderate_small [of _ 0] moderate_small [of _ ts] moderate_def)
qed

lemma lua_fresh:
  assumes "moderate now" "moderate burst" "1 \<le> burst"
  shows "luaTokenBucket (f_of_int now) rate (f_of_int burst) (f_of_int 1) None = (1, Some (f_of_int (burst - 1), f_of_int now))"
  using assms by (simp add: luaTokenBucket_def Let_def moderate_def small_def)

lemma lua_same_instant:
  assumes "moderate now" "moderate rate" "moderate burst" "1 \<le> burst" "moderate tokens"
  shows "lua_run (f_of_int rate) (f_of_int burst) (replicate n (f_of_int now)) (Some (f_of_int tokens, f_of_int now)) =
    replicate (min n (nat tokens)) True @ replicate (n - nat tokens) False"
  using assms(5)
proof (induction n arbitrary: tokens)
  case (Suc n)
  note step = lua_moderate [OF assms(1) assms(1) assms(2) _ Suc.prems assms(3,4)]
  show ?case
  proof (cases "1 \<le> tokens")
    case True
    then have "moderate (tokens - 1)" "nat tokens = Suc (nat (tokens - 1))" using Suc.prems by (auto simp: moderate_def)
    with True Suc.IH [of "tokens - 1"] show ?thesis by (simp add: step)
  next
    case False
    then have "nat tokens = 0" by simp
    with False Suc.IH [OF Suc.prems] show ?thesis by (simp add: step)
  qed
qed simp



text \<open>Two instances whose clocks differ, one request of each in turn, and the answers the instance
  ahead gets.\<close>

fun alternate :: "nat \<Rightarrow> float64 \<Rightarrow> float64 \<Rightarrow> float64 list" where
  "alternate 0 a b = []"
| "alternate (Suc n) a b = a # b # alternate n a b"

fun evens :: "'a list \<Rightarrow> 'a list" where
  "evens (x # y # zs) = x # evens zs"
| "evens zs = zs"

lemma alternate_state:
  assumes "moderate a" "moderate b" "b < a" "moderate rate" "moderate ((a - b) * rate)" "1 \<le> (a - b) * rate"
    "moderate burst" "1 \<le> burst" "moderate t"
  shows "evens (lua_run (f_of_int rate) (f_of_int burst) (alternate n (f_of_int a) (f_of_int b)) (Some (f_of_int t, f_of_int b))) =
    replicate n True"
  using assms(9)
proof (induction n arbitrary: t)
  case (Suc n)
  let ?u = "min burst (t + (a - b) * rate) - 1"
  have u: "moderate ?u" using Suc.prems assms(6-8) by (auto simp: moderate_def min_def)
  have first: "luaTokenBucket (f_of_int a) (f_of_int rate) (f_of_int burst) (f_of_int 1) (Some (f_of_int t, f_of_int b)) =
      (1, Some (f_of_int ?u, f_of_int a))"
    using lua_moderate [OF assms(1,2,4) _ Suc.prems assms(7,8)] assms(3,5,6,8) Suc.prems by (simp add: moderate_def)
  have behind: "luaTokenBucket (f_of_int b) (f_of_int rate) (f_of_int burst) (f_of_int 1) (Some (f_of_int ?u, f_of_int a)) =
      (if 1 \<le> ?u then (1, Some (f_of_int (?u - 1), f_of_int b)) else (0, Some (f_of_int ?u, f_of_int b)))"
    using lua_moderate [OF assms(2,1,4) _ u assms(7,8)] assms(3) by (simp add: Let_def)
  have "moderate (?u - 1)" if "1 \<le> ?u" using u that by (simp add: moderate_def)
  then show ?case using Suc.IH [OF u] Suc.IH [of "?u - 1"] by (simp add: first behind Let_def)
qed simp



end
