(* ===== verification/Svc_Wire.thy ===== *)
theory Svc_Wire
  imports Catalogs
begin

text \<open>
  The fixed-width messages of the trading services: serialising a JSON object along the field tree of
  a service and parsing the reply, src/pkg/svcio/wire.go with the count-field naming rule of spec.go,
  and the request body with its enforced common header, src/internal/api/handlers/wire.go.

  A text is a list of Unicode code points.  The CP949 codec of golang.org/x/text is a parameter:
  \<open>enc\<close> encodes one code point (None where it has no image) and \<open>euckr\<close> decodes a byte string.
  UTF-8 is modelled.  Field names and JSON keys are strings; the numeric texts of JSON numbers are
  part of the value.
\<close>

type_synonym wtext = "nat list"

abbreviation (input) runes :: "string \<Rightarrow> wtext" where
  "runes s \<equiv> map of_char s"

section \<open>UTF-8\<close>

text \<open>One code point, as utf8.DecodeRune: None for an invalid encoding.\<close>

definition cont :: "byte \<Rightarrow> bool" where
  "cont b \<longleftrightarrow> 0x80 \<le> b \<and> b \<le> 0xBF"

fun utf8_decode :: "bytes \<Rightarrow> wtext option" where
  "utf8_decode [] = Some []"
| "utf8_decode (b0 # bs) =
     (if b0 < 0x80 then map_option ((#) (unat b0)) (utf8_decode bs)
      else if 0xC2 \<le> b0 \<and> b0 \<le> 0xDF then
        (case bs of
           b1 # bs' \<Rightarrow> if cont b1 then map_option ((#) ((unat b0 - 0xC0) * 64 + (unat b1 - 0x80))) (utf8_decode bs') else None
         | _ \<Rightarrow> None)
      else if 0xE0 \<le> b0 \<and> b0 \<le> 0xEF then
        (case bs of
           b1 # b2 # bs' \<Rightarrow>
             if cont b1 \<and> cont b2 \<and> (b0 = 0xE0 \<longrightarrow> 0xA0 \<le> b1) \<and> (b0 = 0xED \<longrightarrow> b1 \<le> 0x9F)
             then map_option ((#) (((unat b0 - 0xE0) * 64 + (unat b1 - 0x80)) * 64 + (unat b2 - 0x80))) (utf8_decode bs') else None
         | _ \<Rightarrow> None)
      else if 0xF0 \<le> b0 \<and> b0 \<le> 0xF4 then
        (case bs of
           b1 # b2 # b3 # bs' \<Rightarrow>
             if cont b1 \<and> cont b2 \<and> cont b3 \<and> (b0 = 0xF0 \<longrightarrow> 0x90 \<le> b1) \<and> (b0 = 0xF4 \<longrightarrow> b1 \<le> 0x8F)
             then map_option ((#) ((((unat b0 - 0xF0) * 64 + (unat b1 - 0x80)) * 64 + (unat b2 - 0x80)) * 64 + (unat b3 - 0x80)))
               (utf8_decode bs') else None
         | _ \<Rightarrow> None)
      else None)"

section \<open>Layouts and values\<close>

datatype Field = Field (fd_Name: string) (fd_Size: int) (fd_Repeat: int) (fd_Children: "Field list") (fd_CountField: string)

text \<open>A decoded JSON value; a number carries the text strconv or json.Number gives it, an array and an
  object the text of fmt.Sprintf.\<close>

datatype jvalue = JText wtext | JNumber wtext | JBool bool | JNull
  | JArray wtext "jvalue list" | JObject wtext "(string \<times> jvalue) list"

definition isCountFieldName :: "string \<Rightarrow> bool" where
  "isCountFieldName s0 =
     (let s = ToLower (TrimSpace s0)
      in s \<noteq> [] \<and> (s \<in> {''rcnt'', ''cnt'', ''count'', ''nrec''} \<or> HasSuffix s ''_cnt'' \<or> HasSuffix s ''_count''))"

definition strFromInput :: "(string \<times> jvalue) list \<Rightarrow> string \<Rightarrow> wtext" where
  "strFromInput inp key =
     (case map_of inp key of
        Some (JText t) \<Rightarrow> t
      | Some (JNumber t) \<Rightarrow> t
      | Some (JBool b) \<Rightarrow> runes (if b then ''Y'' else ''N'')
      | Some JNull \<Rightarrow> []
      | Some (JArray t vs) \<Rightarrow> t
      | Some (JObject t m) \<Rightarrow> t
      | None \<Rightarrow> [])"

definition nestedRows :: "(string \<times> jvalue) list \<Rightarrow> string \<Rightarrow> (string \<times> jvalue) list list" where
  "nestedRows inp key =
     (case map_of inp key of
        Some (JArray t vs) \<Rightarrow> List.map_filter (\<lambda>v. case v of JObject u m \<Rightarrow> Some m | _ \<Rightarrow> None) vs
      | Some (JObject t m) \<Rightarrow> [m]
      | _ \<Rightarrow> [])"

section \<open>Writing\<close>

fun encode_loop :: "(nat \<Rightarrow> bytes option) \<Rightarrow> nat \<Rightarrow> wtext \<Rightarrow> bytes \<Rightarrow> bytes" where
  "encode_loop enc sz [] out = out"
| "encode_loop enc sz (r # rs) out =
     (let cb = (case enc r of None \<Rightarrow> [0x3F] | Some b \<Rightarrow> if b = [] then [0x3F] else b)
      in if length out + length cb > sz then out else encode_loop enc sz rs (out @ cb))"

definition encodeWire :: "(nat \<Rightarrow> bytes option) \<Rightarrow> wtext \<Rightarrow> nat \<Rightarrow> bytes" where
  "encodeWire enc s sz =
     (let out = encode_loop enc sz s [] in out @ replicate (sz - length out) 0x20)"

definition Itoa_text :: "nat \<Rightarrow> wtext" where
  "Itoa_text n = (if n = 0 then [48] else runes (itoa_loop n []))"

text \<open>The value of a leaf: an absent count just before a grid without a fixed number of rows is filled
  with the number of rows.\<close>

definition leaf_value :: "(string \<times> jvalue) list \<Rightarrow> Field \<Rightarrow> Field list \<Rightarrow> wtext" where
  "leaf_value inp f rest =
     (let v = strFromInput inp (fd_Name f)
      in case rest of
           g # _ \<Rightarrow> if v = [] \<and> isCountFieldName (fd_Name f) \<and> fd_Children g \<noteq> [] \<and> fd_Repeat g < 0
                    then Itoa_text (length (nestedRows inp (fd_Name g))) else v
         | [] \<Rightarrow> v)"

function writeFields :: "(nat \<Rightarrow> bytes option) \<Rightarrow> Field list \<Rightarrow> (string \<times> jvalue) list \<Rightarrow> bytes" where
  "writeFields enc [] inp = []"
| "writeFields enc (f # fs) inp =
     (if fd_Children f \<noteq> [] then
        (let rows = nestedRows inp (fd_Name f);
             rep = (if fd_Repeat f < 0 then length rows else if fd_Repeat f = 0 then 1 else nat (fd_Repeat f))
         in concat (map (\<lambda>i. writeFields enc (fd_Children f) (if i < length rows then rows ! i else [])) [0..<rep])
            @ writeFields enc fs inp)
      else if fd_Size f \<le> 0 then writeFields enc fs inp
      else encodeWire enc (leaf_value inp f fs) (nat (fd_Size f)) @ writeFields enc fs inp)"
  by pat_completeness auto
termination
proof (relation "measure (\<lambda>(enc, fs, inp). size_list size fs)", goal_cases)
  case (2 enc f fs inp rows rep i)
  have "size_list size (fd_Children f) < size f" by (cases f) simp
  then show ?case by simp
qed simp_all

definition SerializeWithHeader :: "(nat \<Rightarrow> bytes option) \<Rightarrow> Field list \<Rightarrow> (string \<times> jvalue) list
    \<Rightarrow> Field list \<Rightarrow> (string \<times> jvalue) list \<Rightarrow> bytes" where
  "SerializeWithHeader enc headerFields headerInput inputFields inp =
     (if headerFields \<noteq> [] then writeFields enc headerFields headerInput else []) @ writeFields enc inputFields inp"

section \<open>Reading\<close>

datatype wvalue = WText wtext | WRows "(string \<times> wvalue) list list"

text \<open>string(b) of bytes that are not UTF-8 keeps the bytes; they are shown here as they are.\<close>

definition decodeWire :: "(bytes \<Rightarrow> wtext option) \<Rightarrow> bytes \<Rightarrow> wtext" where
  "decodeWire euckr b =
     (if b = [] then []
      else (case utf8_decode b of
         Some t \<Rightarrow> t
       | None \<Rightarrow> (case euckr b of Some t \<Rightarrow> t | None \<Rightarrow> map unat b)))"

definition blank :: "nat \<Rightarrow> bool" where
  "blank r \<longleftrightarrow> r = 32 \<or> r = 0"

definition Trim :: "wtext \<Rightarrow> wtext" where
  "Trim t = rev (dropWhile blank (rev (dropWhile blank t)))"

text \<open>strconv.Atoi of a text, whose error is ignored: 0 for a text that is no number and the nearest
  int64 for one out of range.\<close>

definition digits_value :: "wtext \<Rightarrow> int" where
  "digits_value t = foldl (\<lambda>a r. 10 * a + (int r - 48)) 0 t"

definition Atoi :: "wtext \<Rightarrow> int" where
  "Atoi t0 =
     (let neg = (t0 \<noteq> [] \<and> hd t0 = 45); t = (if t0 \<noteq> [] \<and> (hd t0 = 45 \<or> hd t0 = 43) then tl t0 else t0)
      in if t = [] \<or> \<not> list_all (\<lambda>r. 48 \<le> r \<and> r \<le> 57) t then 0
         else (let n = digits_value t in if neg then max (- n) (- (2 ^ 63)) else min n (2 ^ 63 - 1)))"

definition raw_slice :: "bytes \<Rightarrow> nat \<Rightarrow> nat \<Rightarrow> bytes" where
  "raw_slice buf cursor sz = take sz (drop cursor buf)"

text \<open>The number of rows of a grid; \<open>strings.TrimSpace\<close> of the count removes ASCII white space.\<close>

definition trim_ws :: "wtext \<Rightarrow> wtext" where
  "trim_ws t = (let ws = (\<lambda>r. r = 32 \<or> (9 \<le> r \<and> r \<le> 13)) in rev (dropWhile ws (rev (dropWhile ws t))))"

definition grid_rows :: "Field \<Rightarrow> (string \<times> wvalue) list \<Rightarrow> wtext \<Rightarrow> nat" where
  "grid_rows f out lastCnt =
     (let rep = (if fd_Repeat f = - 1 then
                   (let cnt = (if fd_CountField f \<noteq> [] then
                                 (case map_of out (fd_CountField f) of Some (WText v) \<Rightarrow> v | _ \<Rightarrow> lastCnt)
                               else lastCnt)
                    in max 0 (Atoi (trim_ws cnt)))
                 else fd_Repeat f)
      in if rep \<le> 0 then 1 else nat rep)"

function readFields :: "(bytes \<Rightarrow> wtext option) \<Rightarrow> bytes \<Rightarrow> nat \<Rightarrow> Field list \<Rightarrow> (string \<times> wvalue) list \<Rightarrow> wtext
    \<Rightarrow> nat \<times> (string \<times> wvalue) list"
  and readRows :: "(bytes \<Rightarrow> wtext option) \<Rightarrow> bytes \<Rightarrow> nat \<Rightarrow> Field list \<Rightarrow> nat \<Rightarrow> nat \<times> (string \<times> wvalue) list list" where
  "readFields euckr buf cursor [] out lastCnt = (cursor, out)"
| "readFields euckr buf cursor (f # fs) out lastCnt =
     (if fd_Children f \<noteq> [] then
        (let (cursor', rows) = readRows euckr buf cursor (fd_Children f) (grid_rows f out lastCnt)
         in readFields euckr buf cursor' fs (AList.update (fd_Name f) (WRows rows) out) [])
      else if fd_Size f \<le> 0 then readFields euckr buf cursor fs out lastCnt
      else (let decoded = Trim (decodeWire euckr (raw_slice buf cursor (nat (fd_Size f))))
            in readFields euckr buf (cursor + nat (fd_Size f)) fs (AList.update (fd_Name f) (WText decoded) out) decoded))"
| "readRows euckr buf cursor cs 0 = (cursor, [])"
| "readRows euckr buf cursor cs (Suc n) =
     (let (cursor', row) = readFields euckr buf cursor cs [] [];
          (cursor'', rows) = readRows euckr buf cursor' cs n
      in (cursor'', row # rows))"
  by pat_completeness auto
termination
proof (relation "measures [\<lambda>x. case x of Inl (e, b, c, fs, out, l) \<Rightarrow> 2 * size_list size fs
      | Inr (e, b, c, cs, n) \<Rightarrow> 2 * size_list size cs + 1,
    \<lambda>x. case x of Inl _ \<Rightarrow> 0 | Inr (e, b, c, cs, n) \<Rightarrow> n]", goal_cases)
  case (2 euckr buf cursor f fs out lastCnt)
  have "size_list size (fd_Children f) < size f" by (cases f) simp
  then show ?case by simp
qed simp_all

definition Deserialize :: "(bytes \<Rightarrow> wtext option) \<Rightarrow> Field list \<Rightarrow> bytes \<Rightarrow> (string \<times> wvalue) list" where
  "Deserialize euckr fs buf = snd (readFields euckr buf 0 fs [] [])"

definition DeserializeWithHeader :: "(bytes \<Rightarrow> wtext option) \<Rightarrow> Field list \<Rightarrow> Field list \<Rightarrow> bytes
    \<Rightarrow> (string \<times> wvalue) list \<times> (string \<times> wvalue) list" where
  "DeserializeWithHeader euckr headerFields outputFields buf =
     (let (cursor, header) = (if headerFields \<noteq> [] then readFields euckr buf 0 headerFields [] [] else (0, []))
      in (header, snd (readFields euckr buf cursor outputFields [] [])))"

section \<open>The request body with its common header\<close>

definition ctypForChannel :: "string \<Rightarrow> string" where
  "ctypForChannel channel =
     (let c = ToUpper (TrimSpace channel)
      in if c = ''EMP'' then ''E'' else if c = ''HTS'' then ''1'' else if c = ''MTS'' then ''2''
         else if c = ''WTS'' then ''3'' else if c = ''SPI'' then ''S'' else ''A'')"

definition wireHeaderDefaults :: "string \<Rightarrow> wtext \<Rightarrow> string \<Rightarrow> (string \<times> jvalue) list" where
  "wireHeaderDefaults rkey usid channel =
     [(''trxc'', JText (runes rkey)), (''usid'', JText usid), (''ctyp'', JText (runes (ctypForChannel channel))),
      (''cont'', JText (runes ''H'')), (''rtyp'', JText (runes ''M'')), (''ltyp'', JText (runes ''KR''))]"

text \<open>The client's header laid over the defaults, in the order \<open>clientHeader\<close> lists its map.\<close>

definition overlay :: "wtext \<Rightarrow> (string \<times> jvalue) list \<Rightarrow> (string \<times> jvalue) list \<Rightarrow> (string \<times> jvalue) list" where
  "overlay enforceUsid clientHeader hdr =
     fold (\<lambda>(k, v) h.
        if k = ''usid'' \<and> enforceUsid \<noteq> [] then h
        else if k = ''trxc'' then h
        else if k = ''ctyp'' then h
        else AList.update k v h) clientHeader hdr"

text \<open>The rows under the standard key go to the first repeated structure of the input.\<close>

definition map_irec :: "Field list \<Rightarrow> (string \<times> jvalue) list \<Rightarrow> (string \<times> jvalue) list" where
  "map_irec inputFields obj =
     (case map_of obj ''_irec'' of
        None \<Rightarrow> obj
      | Some irec \<Rightarrow>
          AList.delete ''_irec''
            (case find (\<lambda>f. fd_Repeat f \<noteq> 0 \<and> fd_Children f \<noteq> []) inputFields of
               None \<Rightarrow> obj
             | Some f \<Rightarrow> if map_of obj (fd_Name f) = None then AList.update (fd_Name f) irec obj else obj))"

record SvcSpec =
  sv_HeaderFields :: "Field list"
  sv_Input :: "Field list"
  sv_Output :: "Field list"

text \<open>None where the request stays as it came: no registry, routing key or data, data that is no JSON
  object (\<open>json\<close> gives the object), or no specification for the routing key.\<close>

definition wireBuildBody :: "(nat \<Rightarrow> bytes option) \<Rightarrow> (string \<Rightarrow> (string \<times> jvalue) list option) \<Rightarrow> (string \<Rightarrow> SvcSpec option) option
    \<Rightarrow> string \<Rightarrow> wtext \<Rightarrow> string \<Rightarrow> (string \<times> jvalue) list \<Rightarrow> string \<Rightarrow> (bytes \<times> SvcSpec) option" where
  "wireBuildBody enc json reg rkey enforceUsid channel clientHeader data =
     (case reg of
        None \<Rightarrow> None
      | Some lookup \<Rightarrow>
          if rkey = [] \<or> data = [] then None
          else (case json data of
             None \<Rightarrow> None
           | Some obj \<Rightarrow>
               (case lookup rkey of
                  None \<Rightarrow> None
                | Some spec \<Rightarrow>
                    (let usid = (if enforceUsid = [] then
                                   (case map_of clientHeader ''usid'' of Some (JText t) \<Rightarrow> t | _ \<Rightarrow> enforceUsid)
                                 else enforceUsid);
                         hdr = overlay enforceUsid clientHeader (wireHeaderDefaults rkey usid channel)
                     in Some (SerializeWithHeader enc (sv_HeaderFields spec) hdr (sv_Input spec)
                          (map_irec (sv_Input spec) obj), spec)))))"

section \<open>Fields have their width\<close>

declare writeFields.simps [simp del] readFields.simps [simp del] readRows.simps [simp del]

lemma encode_loop_length: "length out \<le> sz \<Longrightarrow> length (encode_loop enc sz s out) \<le> sz"
  by (induction s arbitrary: out) (auto simp: Let_def)

lemma encodeWire_length [simp]: "length (encodeWire enc s sz) = sz"
  using encode_loop_length [of "[]" sz enc s] by (simp add: encodeWire_def Let_def)

definition leaf :: "Field \<Rightarrow> bool" where
  "leaf f \<longleftrightarrow> fd_Children f = []"

definition width :: "Field list \<Rightarrow> nat" where
  "width fs = sum_list (map (\<lambda>f. nat (fd_Size f)) fs)"

lemma writeFields_leaf: "leaf f \<Longrightarrow>
    writeFields enc (f # fs) inp = encodeWire enc (leaf_value inp f fs) (nat (fd_Size f)) @ writeFields enc fs inp"
  by (auto simp: writeFields.simps leaf_def simp flip: length_0_conv)

lemma writeFields_at:
  assumes "list_all leaf (fs @ f # gs)"
  shows "take (nat (fd_Size f)) (drop (width fs) (writeFields enc (fs @ f # gs) inp)) =
    encodeWire enc (leaf_value inp f gs) (nat (fd_Size f))"
  using assms by (induction fs) (simp_all add: writeFields_leaf width_def)

section \<open>The authenticated user cannot be forged\<close>

lemma overlay_keeps:
  "k = ''trxc'' \<or> k = ''ctyp'' \<or> k = ''usid'' \<and> u \<noteq> [] \<Longrightarrow> map_of (overlay u ch hdr) k = map_of hdr k"
  unfolding overlay_def by (induction ch arbitrary: hdr) auto

lemma leaf_value_given: "strFromInput inp (fd_Name f) = v \<Longrightarrow> v \<noteq> [] \<Longrightarrow> leaf_value inp f gs = v"
  by (simp add: leaf_value_def Let_def split: list.split)

text \<open>C12: The common header of a request cannot be forged: whatever header and data the client sends,
  the frame carries at the place of the fields usid, trxc and ctyp the authenticated user, the routing
  key and the medium of the session's channel.\<close>

theorem header_enforced:
  assumes "wireBuildBody enc json reg rkey enforceUsid channel clientHeader data = Some (body, spec)"
    and "sv_HeaderFields spec = fs @ f # gs" and "list_all leaf (fs @ f # gs)"
    and "enforceUsid \<noteq> []"
  shows "(fd_Name f = ''usid'' \<longrightarrow> take (nat (fd_Size f)) (drop (width fs) body) = encodeWire enc enforceUsid (nat (fd_Size f))) \<and>
    (fd_Name f = ''trxc'' \<longrightarrow> take (nat (fd_Size f)) (drop (width fs) body) = encodeWire enc (runes rkey) (nat (fd_Size f))) \<and>
    (fd_Name f = ''ctyp'' \<longrightarrow> take (nat (fd_Size f)) (drop (width fs) body) =
       encodeWire enc (runes (ctypForChannel channel)) (nat (fd_Size f)))"
proof -
  let ?hdr = "overlay enforceUsid clientHeader (wireHeaderDefaults rkey enforceUsid channel)"
  obtain obj where body: "body = writeFields enc (fs @ f # gs) ?hdr @ writeFields enc (sv_Input spec) obj" and rk: "rkey \<noteq> []"
    using assms(1,2,4) by (auto simp: wireBuildBody_def SerializeWithHeader_def Let_def split: option.splits if_splits)
  have len: "width fs + nat (fd_Size f) \<le> length (writeFields enc (fs @ f # gs) ?hdr)"
    using assms(3) by (induction fs) (simp_all add: writeFields_leaf width_def)
  then have at: "take (nat (fd_Size f)) (drop (width fs) body) = encodeWire enc (leaf_value ?hdr f gs) (nat (fd_Size f))"
    using writeFields_at [OF assms(3), of enc ?hdr] by (simp add: body)
  have v: "leaf_value ?hdr f gs = t" if "map_of (wireHeaderDefaults rkey enforceUsid channel) (fd_Name f) = Some (JText t)"
    "fd_Name f \<in> {''usid'', ''trxc'', ''ctyp''}" "t \<noteq> []" for t
    using that assms(4) by (intro leaf_value_given) (auto simp: strFromInput_def overlay_keeps)
  have "ctypForChannel channel \<noteq> []" by (simp add: ctypForChannel_def Let_def)
  then show ?thesis using v [of enforceUsid] v [of "runes rkey"] v [of "runes (ctypForChannel channel)"] rk assms(4)
    unfolding at by (simp add: wireHeaderDefaults_def)
qed

section \<open>Text that is valid UTF-8 by accident\<close>

text \<open>A CP949 field whose bytes happen to be valid UTF-8 is read as UTF-8, whatever CP949 says: the
  two bytes C2 A1, a Hangul syllable in CP949, come out as the character U+00A1.\<close>

theorem hangul_misread:
  "decodeWire euckr [0xC2, 0xA1] = [0xA1]"
  by (simp add: decodeWire_def cont_def)

section \<open>Reading back what was written\<close>

definition ascii_text :: "wtext \<Rightarrow> bool" where
  "ascii_text t \<longleftrightarrow> list_all (\<lambda>r. r < 128) t \<and> (t = [] \<or> \<not> blank (hd t) \<and> \<not> blank (last t))"

text \<open>The values a layout carries: every field has one, under its own name and no other, a text that fits
  its field and, where it is a count, is not left out, and as many rows as the reader will look for.
  \<open>seen\<close> and \<open>cnt\<close> are the values before and the count in force.\<close>

function fits :: "Field list \<Rightarrow> (string \<times> wvalue) list \<Rightarrow> wtext \<Rightarrow> (string \<times> wvalue) list \<Rightarrow> bool" where
  "fits [] seen cnt vs = (vs = [])"
| "fits (f # fs) seen cnt [] = False"
| "fits (f # fs) seen cnt ((n, v) # vs) =
     (n = fd_Name f \<and> n \<notin> fst ` set seen \<and>
      (case v of
         WText t \<Rightarrow> fd_Children f = [] \<and> ascii_text t \<and> 0 < fd_Size f \<and> int (length t) \<le> fd_Size f \<and>
           (t \<noteq> [] \<or> \<not> isCountFieldName n) \<and> fits fs (seen @ [(n, v)]) t vs
       | WRows rows \<Rightarrow> fd_Children f \<noteq> [] \<and> length rows = grid_rows f seen cnt \<and>
           list_all (fits (fd_Children f) [] []) rows \<and> fits fs (seen @ [(n, v)]) [] vs))"
  by pat_completeness auto
termination
proof (relation "measure (\<lambda>(fs, seen, cnt, vs). size_list size fs)", goal_cases)
  case (3 f fs seen cnt n v vs rows row)
  have "size_list size (fd_Children f) < size f" by (cases f) simp
  then show ?case by simp
qed simp_all

fun to_json :: "wvalue \<Rightarrow> jvalue" where
  "to_json (WText t) = JText t"
| "to_json (WRows rows) = JArray [] (map (\<lambda>r. JObject [] (map (\<lambda>(n, v). (n, to_json v)) r)) rows)"

definition json_row :: "(string \<times> wvalue) list \<Rightarrow> (string \<times> jvalue) list" where
  "json_row r = map (\<lambda>(n, v). (n, to_json v)) r"

lemma encode_loop_ascii:
  assumes "\<forall>r<128. enc r = Some [of_nat r]" "list_all (\<lambda>r. r < 128) t" "length out + length t \<le> sz"
  shows "encode_loop enc sz t out = out @ map of_nat t"
  using assms(2,3) by (induction t arbitrary: out) (use assms(1) in auto)

lemma utf8_ascii: "list_all (\<lambda>r. r < 128) t \<Longrightarrow> utf8_decode (map of_nat t @ bs) = map_option ((@) t) (utf8_decode bs)"
proof (induction t)
  case (Cons r t)
  then have r: "r < 128" by simp
  then have u: "unat (of_nat r :: byte) = r" by (simp add: unat_of_nat)
  have "(of_nat r :: byte) < 0x80" by (simp add: word_less_nat_alt u r)
  with Cons u show ?case by (simp add: option.map_comp comp_def)
qed (cases "utf8_decode bs"; simp)

lemma Trim_padded:
  assumes "ascii_text t"
  shows "Trim (t @ replicate k 32) = t"
proof -
  have sp: "dropWhile blank (replicate k 32) = []" by (simp add: blank_def)
  show ?thesis
  proof (cases "t = []")
    case False
    then have "\<not> blank (hd t)" "\<not> blank (last t)" using assms by (simp_all add: ascii_text_def)
    with False have "dropWhile blank (t @ replicate k 32) = t @ replicate k 32" "dropWhile blank (rev t) = rev t"
      by (cases t, simp, simp) (cases t rule: rev_cases, use False \<open>\<not> blank (last t)\<close> in simp_all)
    with sp show ?thesis by (simp add: Trim_def dropWhile_append blank_def)
  qed (simp add: Trim_def blank_def)
qed

lemma field_roundtrip:
  assumes "\<forall>r<128. enc r = Some [of_nat r]" "ascii_text t" "length t \<le> sz" "0 < sz"
  shows "Trim (decodeWire euckr (encodeWire enc t sz)) = t"
proof -
  have a: "list_all (\<lambda>r. r < 128) t" using assms(2) by (simp add: ascii_text_def)
  have e: "encodeWire enc t sz = map of_nat t @ map of_nat (replicate (sz - length t) 32)"
    using encode_loop_ascii [OF assms(1) a, of "[]" sz] assms(3) by (simp add: encodeWire_def Let_def)
  have "utf8_decode (map of_nat (replicate k 32)) = Some (replicate k 32)" for k
    using utf8_ascii [of "replicate k 32" "[]"] by (simp add: list_all_iff)
  then have "utf8_decode (encodeWire enc t sz) = Some (t @ replicate (sz - length t) 32)"
    unfolding e by (simp add: utf8_ascii [OF a] del: map_replicate)
  moreover have "encodeWire enc t sz \<noteq> []" using assms(4) encodeWire_length [of enc t sz] by (metis length_0_conv less_irrefl)
  ultimately show ?thesis using Trim_padded [OF assms(2)] by (simp add: decodeWire_def)
qed

lemma update_fresh: "k \<notin> fst ` set m \<Longrightarrow> AList.update k v m = m @ [(k, v)]"
  by (induction m) auto

lemma nestedRows_json: "map_of inp n = Some (to_json (WRows rows)) \<Longrightarrow> nestedRows inp n = map json_row rows"
  by (simp add: nestedRows_def json_row_def List.map_filter_def comp_def)

lemma grid_written:
  assumes "fd_Children f \<noteq> []" "nestedRows inp (fd_Name f) = map json_row rows" "length rows = grid_rows f seen cnt"
  shows "writeFields enc (f # fs) inp =
    concat (map (\<lambda>r. writeFields enc (fd_Children f) (json_row r)) rows) @ writeFields enc fs inp"
proof -
  have "(if fd_Repeat f < 0 then length rows else if fd_Repeat f = 0 then 1 else nat (fd_Repeat f)) = length rows"
    using assms(3) by (auto simp: grid_rows_def Let_def)
  moreover have "map (\<lambda>i. writeFields enc (fd_Children f) (if i < length rows then map json_row rows ! i else [])) [0..<length rows] =
      map (\<lambda>r. writeFields enc (fd_Children f) (json_row r)) rows"
    by (rule nth_equalityI) simp_all
  ultimately show ?thesis using assms(1,2) by (simp only: writeFields.simps Let_def length_map if_True if_False not_False_eq_True)
qed

lemma fits_names: "fits fs seen cnt vs \<Longrightarrow> distinct (map fst vs) \<and> fst ` set vs \<inter> fst ` set seen = {}"
proof (induction fs seen cnt vs rule: fits.induct)
  case (3 f fs seen cnt n v vs)
  then show ?case by (cases v) auto
qed simp_all

lemma json_row_lookup: "fits fs seen cnt r \<Longrightarrow> (n, v) \<in> set r \<Longrightarrow> map_of (json_row r) n = Some (to_json v)"
  using fits_names [of fs seen cnt r] by (force simp: json_row_def map_of_map intro!: map_of_is_SomeI)

lemma read_rows:
  assumes "\<And>r pre post. r \<in> set rows \<Longrightarrow>
      readFields euckr (pre @ W r @ post) (length pre) cs [] [] = (length pre + length (W r), r)"
  shows "readRows euckr (pre @ concat (map W rows) @ post) (length pre) cs (length rows) =
    (length pre + length (concat (map W rows)), rows)"
  using assms
proof (induction rows arbitrary: pre)
  case (Cons r rows)
  have "readFields euckr (pre @ W r @ concat (map W rows) @ post) (length pre) cs [] [] = (length pre + length (W r), r)"
    by (rule Cons.prems) simp
  with Cons.IH [of "pre @ W r"] Cons.prems show ?case by (simp add: readRows.simps)
qed (simp add: readRows.simps)

lemma read_written:
  assumes "\<forall>r<128. enc r = Some [of_nat r]"
  shows "fits fs seen cnt vs \<Longrightarrow> (\<And>n v. (n, v) \<in> set vs \<Longrightarrow> map_of inp n = Some (to_json v)) \<Longrightarrow>
    readFields euckr (pre @ writeFields enc fs inp @ post) (length pre) fs seen cnt =
      (length pre + length (writeFields enc fs inp), seen @ vs)"
proof (induction fs seen cnt vs arbitrary: inp pre post rule: fits.induct)
  case (1 seen cnt vs)
  then show ?case by (simp add: writeFields.simps readFields.simps)
next
  case (3 f fs seen cnt n v vs)
  have own: "map_of inp n = Some (to_json v)" and nf: "n = fd_Name f" "n \<notin> fst ` set seen" using "3.prems" by auto
  have later: "\<And>m w. (m, w) \<in> set vs \<Longrightarrow> map_of inp m = Some (to_json w)" using "3.prems"(2) by simp
  show ?case
  proof (cases v)
    case (WText t)
    have f: "fd_Children f = []" "ascii_text t" "0 < fd_Size f" "length t \<le> nat (fd_Size f)" "t \<noteq> [] \<or> \<not> isCountFieldName n"
      "fits fs (seen @ [(n, v)]) t vs" using "3.prems"(1) WText by auto
    have val: "leaf_value inp f fs = t"
      using own f(5) WText nf by (auto simp: leaf_value_def strFromInput_def Let_def split: list.split)
    let ?e = "encodeWire enc t (nat (fd_Size f))"
    have w: "writeFields enc (f # fs) inp = ?e @ writeFields enc fs inp" using writeFields_leaf [of f] f(1) val by (simp add: leaf_def)
    have sl: "raw_slice (pre @ (?e @ writeFields enc fs inp) @ post) (length pre) (nat (fd_Size f)) = ?e" by (simp add: raw_slice_def)
    have rt: "Trim (decodeWire euckr ?e) = t" using f by (intro field_roundtrip [OF assms]) simp_all
    have "readFields euckr ((pre @ ?e) @ writeFields enc fs inp @ post) (length (pre @ ?e)) fs (seen @ [(n, v)]) t =
        (length (pre @ ?e) + length (writeFields enc fs inp), (seen @ [(n, v)]) @ vs)"
      using "3.IH"(1) [OF WText f(6) later] .
    then show ?thesis using f(1,3) nf WText
      by (simp add: w sl [simplified] rt readFields.simps(2) Let_def update_fresh)
  next
    case (WRows rows)
    have f: "fd_Children f \<noteq> []" "length rows = grid_rows f seen cnt" "list_all (fits (fd_Children f) [] []) rows"
      "fits fs (seen @ [(n, v)]) [] vs" using "3.prems"(1) WRows by auto
    let ?W = "\<lambda>r. writeFields enc (fd_Children f) (json_row r)"
    have w: "writeFields enc (f # fs) inp = concat (map ?W rows) @ writeFields enc fs inp"
      using grid_written [OF f(1) _ f(2)] nestedRows_json own WRows nf by metis
    have row: "readFields euckr (pre @ ?W r @ post) (length pre) (fd_Children f) [] [] = (length pre + length (?W r), r)"
      if "r \<in> set rows" for r pre post
    proof -
      have fr: "fits (fd_Children f) [] [] r" using f(3) that by (simp add: list_all_iff)
      from "3.IH"(2) [OF WRows that fr json_row_lookup [OF fr]] show ?thesis by simp
    qed
    have rows: "readRows euckr (pre @ concat (map ?W rows) @ writeFields enc fs inp @ post) (length pre) (fd_Children f) (length rows) =
        (length pre + length (concat (map ?W rows)), rows)"
      by (rule read_rows) (rule row)
    have "readFields euckr ((pre @ concat (map ?W rows)) @ writeFields enc fs inp @ post) (length (pre @ concat (map ?W rows))) fs
        (seen @ [(n, v)]) [] = (length (pre @ concat (map ?W rows)) + length (writeFields enc fs inp), (seen @ [(n, v)]) @ vs)"
      using "3.IH"(3) [OF WRows f(4) later] .
    then show ?thesis using f(1) rows nf WRows
      by (simp add: w readFields.simps(2) Let_def update_fresh flip: f(2))
  qed
qed simp


text \<open>A header of one field and a body with a count, its grid and a closing field.\<close>

definition ascii_enc :: "nat \<Rightarrow> bytes option" where
  "ascii_enc r = (if r < 128 then Some [of_nat r] else None)"

definition sample_header :: "Field list" where
  "sample_header = [Field ''usid'' 8 0 [] []]"

definition sample_body :: "Field list" where
  "sample_body = [Field ''rcnt'' 2 0 [] [], Field ''orec'' 0 (- 1) [Field ''code'' 4 0 [] []] [], Field ''tail'' 3 0 [] []]"

definition sample_values :: "(string \<times> wvalue) list" where
  "sample_values = [(''rcnt'', WText (runes ''2'')),
     (''orec'', WRows [[(''code'', WText (runes ''AAA1''))], [(''code'', WText (runes ''BB''))]]), (''tail'', WText (runes ''xyz''))]"


text \<open>A grid without rows is not read back: the reader takes at least one row, so the bytes that
  follow an empty grid become a row of it and the fields after it are lost.\<close>

theorem empty_grid_misread:
  "Deserialize (\<lambda>_. None) sample_body
     (writeFields ascii_enc sample_body (json_row [(''rcnt'', WText (runes ''0'')), (''orec'', WRows []), (''tail'', WText (runes ''xyz''))])) =
   [(''rcnt'', WText (runes ''0'')), (''orec'', WRows [[(''code'', WText (runes ''xyz''))]]), (''tail'', WText [])]"
  by code_simp

text \<open>The header witness: a client that sends its own user and medium.\<close>

theorem header_enforced_witness:
  "\<exists>body spec. wireBuildBody ascii_enc (\<lambda>_. Some []) (Some (\<lambda>_. Some \<lparr>sv_HeaderFields = sample_header, sv_Input = [], sv_Output = []\<rparr>))
      ''W1101T01'' (runes ''kim'') ''EMP'' [(''usid'', JText (runes ''lee'')), (''ctyp'', JText (runes ''A''))] ''{}'' = Some (body, spec) \<and>
    take 8 body = encodeWire ascii_enc (runes ''kim'') 8"
proof -
  let ?spec = "\<lparr>sv_HeaderFields = sample_header, sv_Input = [], sv_Output = []\<rparr>"
  let ?call = "wireBuildBody ascii_enc (\<lambda>_. Some []) (Some (\<lambda>_. Some ?spec))
      ''W1101T01'' (runes ''kim'') ''EMP'' [(''usid'', JText (runes ''lee'')), (''ctyp'', JText (runes ''A''))] ''{}''"
  obtain body where b: "?call = Some (body, ?spec)" by (simp add: wireBuildBody_def Let_def)
  from header_enforced [OF b, of "[]" "Field ''usid'' 8 0 [] []" "[]"] b show ?thesis
    by (auto simp: sample_header_def leaf_def width_def)
qed

end
