(* ===== verification/Spec2Isabelle.thy ===== *)
theory Spec2Isabelle
  imports Mymq_Reconnect Quote_Async Auth_Store Idempotency Policy Push_Ring Push_Dispatch Edge_Price Price_Bars Price_Consumer
    Etcd_Stores Rate_Limit Svc_Wire
begin

text \<open>
  \<^bold>\<open>Verification of the WTG trading gateway\<close>, the Go program under src/.

  The gateway stands between web clients and the MyMQ message broker of a trading back end.
  mci-api (internal/api) takes an order, checks policy, rate and idempotency, resolves its alias to
  a broker exchange and routing key, and calls the back end through the broker client (pkg/mymq).
  mci-price (internal/price, pkg/quote, pkg/pricing, pkg/quoteid) turns market ticks into best
  quotes, cross rates, bars and customer quotes, each of which gets an identifier that the matching
  engine validates and consumes exactly once.  mci-push and the edge services (internal/push,
  internal/edge, pkg/push) fan messages and quotes out to websocket clients.  Configuration lives in
  etcd, and every service follows it with a watcher.

  \<^bold>\<open>Foundations.\<close>  Wtg_Prelude has bytes, buffers, Go outcomes (value, error, panic) and the
  contract of a fixed-width codec; Wtg_Interfaces the contract of a store whose items are used at
  most once.  Go_Strings, Go_Path and Go_Sort model what the sources use of strings, path and the
  sorting loops; Go_Float and Go_Float_Int model float64 by its bit pattern with correct rounding.

  \<^bold>\<open>Broker client\<close> (src/pkg/mymq).  Mymq_Codec (codec.go, types.go, traceid.go, conventions.go),
  Mymq_Frame (frame.go), Mymq_Lzo (lzo.go, compress.go), Mymq_Control (handshake.go, connect.go,
  pubsub.go), Mymq_Client (client.go) and Mymq_Reconnect (reconnect.go).  Shown: frames and records
  are read back as written, the decoder never panics, the decompressor terminates within its output
  size, a reply reaches the call that asked for it and at most one does, the reader dispatches a
  stream in order however it is cut, and with unlimited reconnects no interleaving panics and the
  subscription channel is closed exactly when the client is.

  \<^bold>\<open>Requests\<close> (src/internal/api, src/pkg).  Routing (pkg/routing/registry.go and the request
  envelope), Policy (pkg/policy/policy.go and the policy step of the transaction handler),
  Idempotency (pkg/idempotency and handlers/idempotency.go), Auth_Store (refresh tokens and sessions
  of pkg/auth), Session_Types (pkg/session), Rate_Limit (pkg/ratelimit) and Svc_Wire
  (pkg/svcio/wire.go, handlers/wire.go).  Shown: an alias resolves to its longest pattern, decisions
  follow the reported policy state, an order is executed once per idempotency key, a refresh token
  works once, the first matching rate rule decides and keys do not share buckets, fixed-width bodies
  are read back as written and their header cannot be forged by the client.

  \<^bold>\<open>Prices\<close> (src/internal/price, src/pkg/quote, src/pkg/pricing).  Quote_Data (values, ring buffer,
  bars, symbol map), Price_Ticks (ingestion and duplicate filter), Price_Best (best.go), Price_Bars
  (aggregator.go, archiver.go), Pricing_Calendar, Pricing_Table, Pricing_Doc, Pricing_Engine and
  Pricing_Cross (pkg/pricing), Price_Cross (crossrate_consumer.go) and Price_Consumer
  (pricing_consumer.go, customer_registry.go).  Shown: the best quote is that of the tick history,
  bars partition the ticks, cross rates are emitted from fresh legs only, customer quotes keep the
  sides of the market, a tick's quotes are all registered under distinct identifiers, and the
  buffered consumer loses nothing and drains.

  \<^bold>\<open>Quote identifiers\<close> (src/pkg/quoteid, src/internal/price).  Quote_Id (quoteid.go, memory.go,
  swap.go), Quote_Async (async.go), Quote_Validation (the RPC handlers) and Quote_Lock
  (forward_lock.go, swap_lock.go).  Shown: an identifier is consumed at most once under every
  interleaving, both legs of a swap together, locked prices are honoured until they expire, and an
  engine without permission changes nothing.

  \<^bold>\<open>Delivery\<close> (src/internal/push, src/pkg/push, src/internal/edge/price).  Push_Ring (the hash
  ring), Push_Dispatch (connections, registry, dispatcher) and Edge_Price (subscribers and
  fan-outs).  Shown: a message reaches connections of its user only, a quote the matching
  subscribers only, and the ring assigns a user consistently.

  \<^bold>\<open>Configuration.\<close>  Catalogs (instrument, provider and user catalogues), Etcd_Watch (the eight
  watchers, one shape instantiated eight times) and Etcd_Stores (the alias registry of
  pkg/routing/etcd.go and the policy synchronisation of pkg/policy/etcd.go).  Shown: the allowlist
  follows the delivered history of etcd and a route cache converges when it is updated before the
  watch catches up; and what breaks: a late local update stays stale and an echo undoes a kill switch.

  \<^bold>\<open>Conventions.\<close>  A struct is a record, an operation takes and returns the state, an error is a
  value of a sum or option type.  Goroutines are interleaved steps or an environment function
  between the critical sections; an operation under one lock is one step.  Go maps are association
  lists; the order of iterating over one is an argument about which nothing but completeness is
  assumed.  Clock readings are arguments.  encoding/json, hashes, the CP949 and zlib codecs, the
  time zone database, x/time/rate, etcd and Redis are arguments; the hypotheses about them are in
  the statements.  Helper definitions for a part of a function are covered by the source lines of
  that function.

  \<^bold>\<open>Bounds.\<close>  No model has a fuel argument.  Loops are structural or have a termination proof; the
  search for an open business day and the complement chains of time windows, which need not end, are
  partial functions whose results are proved to exist where the code relies on them.  Arithmetic on
  floats is exact rounding; the theorems that compute with whole numbers ask for at most 53 bits,
  and those on the Lua bucket for values below \<open>2 ^ 50\<close>, which seconds and rates satisfy.

  \<^bold>\<open>Not modelled.\<close>  The programs under cmd/, the HTTP, gRPC and websocket servers, configuration
  and metrics of every service, reverse proxies and the administration and chart services: network
  and database I/O around the components above.  The Redis stores, whose atomicity is that of a
  server outside the repository.  The FIX gateways, objects of the quickfix library.  The KRX
  records and shared memory, a layout shared with C programs.  The parser of C headers in
  pkg/svcio, built on regular expressions over CP949 text; the layouts it produces are arguments of
  Svc_Wire.  JWT, TLS, logging and tracing, which are calls of libraries, and the generated protocol
  code.  Close methods that only stop a goroutine, log lines and message texts.
\<close>

end
